(* ===== verification/Prelude.thy ===== *)
theory Prelude
  imports Main "HOL-Library.Word"
begin

text \<open>
  The vocabulary every component of the kernel model shares: the machine integer types of
  \<^verbatim>\<open>src/lib/stdint.h\<close>, the result type of operations that may stop (a failed
  \<^verbatim>\<open>ASSERT\<close>, a page fault, a thread that loses the processor), the collections of
  rewrite rules, and generic lemmas on words and functions.
\<close>

unbundle bit_operations_syntax

section \<open>Machine integers\<close>

type_synonym u8 = "8 word"
type_synonym u16 = "16 word"
type_synonym u32 = "32 word"
type_synonym u64 = "64 word"

text \<open>Pointers are 32-bit words, byte memory is a total function on them.\<close>

type_synonym addr = u32
type_synonym memory = "addr \<Rightarrow> u8"

abbreviation (input) NULL :: addr where
  "NULL \<equiv> 0"

text \<open>The value $-1$ of an \<^verbatim>\<open>int32_t\<close>.\<close>

abbreviation (input) minus1 :: u32 where
  "minus1 \<equiv> -1"

section \<open>Operations that may stop\<close>

text \<open>
  \<open>Panic c\<close>: the assertion or panic with text \<open>c\<close> fired and \<^verbatim>\<open>panic_spin\<close>
  spins for ever. \<open>Page_fault a\<close>: the access to the virtual address \<open>a\<close> has no
  translation. \<open>Suspended s\<close>: the calling thread was switched out; \<open>s\<close> is the state
  in which another thread goes on. \<open>Overrun\<close>: a write past the end of a fixed array.
  \<open>Spin\<close>: a loop of the code that never ends.
\<close>

datatype 's halt =
    Panic string
  | Page_fault addr
  | Suspended 's
  | Overrun
  | Spin

text \<open>The macros of \<^verbatim>\<open>src/kernel/debug.h\<close>: a failed assertion panics.\<close>

abbreviation (input) PANIC :: "string \<Rightarrow> 's halt + 'a" where
  "PANIC text \<equiv> Inl (Panic text)"

abbreviation (input) ASSERT :: "bool \<Rightarrow> string \<Rightarrow> 's halt + 'a \<Rightarrow> 's halt + 'a" where
  "ASSERT condition text k \<equiv> if condition then k else PANIC text"

fun and_then :: "'e + 'a \<Rightarrow> ('a \<Rightarrow> 'e + 'b) \<Rightarrow> 'e + 'b" where
  "and_then (Inl e) f = Inl e"
| "and_then (Inr a) f = f a"

lemma and_then_Inr_iff:
  "and_then r f = Inr b \<longleftrightarrow> (\<exists>a. r = Inr a \<and> f a = Inr b)"
  by (cases r) auto

lemma and_then_Inl_iff:
  "and_then r f = Inl e \<longleftrightarrow> r = Inl e \<or> (\<exists>a. r = Inr a \<and> f a = Inl e)"
  by (cases r) auto

lemma and_then_assoc: "and_then (and_then r f) g = and_then r (\<lambda>a. and_then (f a) g)"
  by (cases r) auto

lemma and_then_unit [simp]: "and_then r Inr = r"
  by (cases r) auto

lemma and_then_InrE:
  assumes "and_then r f = Inr b"
  obtains a where "r = Inr a" and "f a = Inr b"
  using assms by (cases r) auto

section \<open>Rewrite collections\<close>

named_theorems word_nat \<open>word operations read as natural numbers\<close>
named_theorems frame \<open>fields an operation leaves alone\<close>

section \<open>Words\<close>

lemmas [word_nat] = unat_div unat_mod word_less_nat_alt word_le_nat_alt unat_of_nat

lemma unat_lt_2p32: "unat (w :: u32) < 4294967296"
  using unsigned_less [of w] by simp

lemma unat_eq_iff: "unat v = unat w \<longleftrightarrow> v = (w :: 'a::len word)"
  by (rule word_unat_eq_iff [symmetric])

lemma unat_Suc_bound:
  fixes i n :: u32
  assumes "i < n"
  shows "unat (i + 1) = Suc (unat i)"
proof -
  have "unat i < unat n" using assms by (simp add: word_less_nat_alt)
  moreover have "unat n < 2 ^ 32" using unsigned_less [of n] by simp
  ultimately show ?thesis by (simp add: unat_word_ariths)
qed

lemma inc_le_iff: "i < n \<Longrightarrow> i + 1 \<le> k \<longleftrightarrow> i < (k :: u32)"
  by (simp add: word_le_nat_alt [of "i + 1"] word_less_nat_alt [of i k] unat_Suc_bound Suc_le_eq)

lemma less_inc_iff: "i < n \<Longrightarrow> k < i + 1 \<longleftrightarrow> k < i \<or> k = (i :: u32)"
  by (auto simp: word_less_nat_alt [of k] unat_Suc_bound less_Suc_eq unat_eq_iff)

lemma sub_wraps: "i < d \<Longrightarrow> \<not> i - d < (i :: u32)"
  using unat_lt_2p32 [of d] by (simp add: word_less_nat_alt unat_sub_if')

lemma of_nat_inj_u32:
  assumes "i < 4294967296" and "j < 4294967296"
  shows "(of_nat i :: u32) = of_nat j \<longleftrightarrow> i = j"
  using assms by (simp add: word_of_nat_eq_iff take_bit_eq_mod)

lemma bit_push_bit_one:
  "bit (push_bit n (1 :: 'a::len word)) k \<longleftrightarrow> k = n \<and> n < LENGTH('a)"
  by (auto simp: bit_simps)

section \<open>Rounding up\<close>

lemma ceil_div8: "(n + 7) div (8 :: nat) = (if n mod 8 = 0 then n div 8 else n div 8 + 1)"
proof (cases "n mod 8 = 0")
  case True
  then obtain q where "n = 8 * q" by auto
  then show ?thesis by simp
next
  case False
  have "(n + 7) div 8 = (n - 1 + 8) div 8" using False by (cases n) auto
  also have "\<dots> = (n - 1) div 8 + 1" by simp
  also have "(n - 1) div 8 = n div 8" using False by (cases n) (auto simp: div_Suc)
  finally show ?thesis using False by simp
qed

end
