(* ===== verification/Libc.thy ===== *)
theory Libc
  imports Prelude
begin

text \<open>
  \<^verbatim>\<open>src/lib/string.c\<close>: the byte-block and C-string routines on byte memory.
  \<^verbatim>\<open>char\<close> is signed on the i386 target, so comparisons of characters go through
  \<open>sint\<close>. Loops with a counter are total; the loops that walk to a terminating zero
  byte may never end, so they are partial functions, and not ending is the result \<open>Spin\<close>.
\<close>

section \<open>Block operations\<close>

function memset_loop :: "addr \<Rightarrow> u8 \<Rightarrow> u32 \<Rightarrow> u32 \<Rightarrow> memory \<Rightarrow> memory" where
  "memset_loop dst v sz i m =
     (if i < sz then memset_loop dst v sz (i + 1) (m(dst + i := v)) else m)"
  by pat_completeness auto
termination
  by (relation "measure (\<lambda>(dst, v, sz, i, m). unat sz - unat i)")
    (auto simp: unat_Suc_bound word_less_nat_alt)

declare memset_loop.simps [simp del]

definition memset :: "addr \<Rightarrow> u8 \<Rightarrow> u32 \<Rightarrow> memory \<Rightarrow> 's halt + memory" where
  "memset dst v sz m =
     (ASSERT (dst \<noteq> NULL) ''dst != NULL''
       (Inr (memset_loop dst v sz 0 m)))"

function memcpy_loop :: "addr \<Rightarrow> addr \<Rightarrow> u32 \<Rightarrow> u32 \<Rightarrow> memory \<Rightarrow> memory" where
  "memcpy_loop dst src sz i m =
     (if i < sz then memcpy_loop dst src sz (i + 1) (m(dst + i := m (src + i))) else m)"
  by pat_completeness auto
termination
  by (relation "measure (\<lambda>(dst, src, sz, i, m). unat sz - unat i)")
    (auto simp: unat_Suc_bound word_less_nat_alt)

declare memcpy_loop.simps [simp del]

definition memcpy :: "addr \<Rightarrow> addr \<Rightarrow> u32 \<Rightarrow> memory \<Rightarrow> 's halt + memory" where
  "memcpy dst src sz m =
     (ASSERT (src \<noteq> NULL \<and> dst \<noteq> NULL) ''src != NULL && dst != NULL''
       (Inr (memcpy_loop dst src sz 0 m)))"

function memcmp_loop :: "addr \<Rightarrow> addr \<Rightarrow> u32 \<Rightarrow> u32 \<Rightarrow> memory \<Rightarrow> u32" where
  "memcmp_loop s1 s2 sz i m =
     (if i < sz then
        if m (s1 + i) \<noteq> m (s2 + i)
        then (if sint (m (s1 + i)) > sint (m (s2 + i)) then 1 else minus1)
        else memcmp_loop s1 s2 sz (i + 1) m
      else 0)"
  by pat_completeness auto
termination
  by (relation "measure (\<lambda>(s1, s2, sz, i, m). unat sz - unat i)")
    (auto simp: unat_Suc_bound word_less_nat_alt)

declare memcmp_loop.simps [simp del]

definition memcmp :: "addr \<Rightarrow> addr \<Rightarrow> u32 \<Rightarrow> memory \<Rightarrow> 's halt + u32" where
  "memcmp s1 s2 sz m =
     (ASSERT (s1 \<noteq> NULL \<and> s2 \<noteq> NULL) ''s1 != NULL && s2 != NULL''
       (Inr (memcmp_loop s1 s2 sz 0 m)))"

section \<open>C strings\<close>

definition returned :: "'a option \<Rightarrow> 's halt + 'a" where
  "returned r = (case r of Some x \<Rightarrow> Inr x | None \<Rightarrow> Inl Spin)"

partial_function (option) strcpy_loop :: "addr \<Rightarrow> addr \<Rightarrow> memory \<Rightarrow> memory option" where
  "strcpy_loop dst src m =
     (if m src \<noteq> 0 then strcpy_loop (dst + 1) (src + 1) (m(dst := m src)) else Some m)"

text \<open>
  The loop of \<^verbatim>\<open>strcpy\<close> stops before it copies the terminating zero, and the
  function has no \<^verbatim>\<open>return\<close>: only the memory is modelled.
\<close>

definition strcpy :: "addr \<Rightarrow> addr \<Rightarrow> memory \<Rightarrow> 's halt + memory" where
  "strcpy dst src m =
     (ASSERT (dst \<noteq> NULL \<and> src \<noteq> NULL) ''dst != NULL && src != NULL''
       (returned (strcpy_loop dst src m)))"

text \<open>\<open>after_nul m p\<close> is the pointer after \<^verbatim>\<open>while (*p++);\<close>.\<close>

partial_function (option) after_nul :: "memory \<Rightarrow> addr \<Rightarrow> addr option" where
  "after_nul m p = (if m p \<noteq> 0 then after_nul m (p + 1) else Some (p + 1))"

definition strlen :: "addr \<Rightarrow> memory \<Rightarrow> 's halt + u32" where
  "strlen str m =
     (ASSERT (str \<noteq> NULL) ''str != NULL''
       (and_then (returned (after_nul m str)) (\<lambda>p. Inr (p - str - 1))))"

partial_function (option) strcmp_loop :: "memory \<Rightarrow> addr \<Rightarrow> addr \<Rightarrow> (addr \<times> addr) option" where
  "strcmp_loop m s1 s2 =
     (if m s1 \<noteq> 0 \<and> m s2 = m s1 then strcmp_loop m (s1 + 1) (s2 + 1) else Some (s1, s2))"

definition strcmp :: "addr \<Rightarrow> addr \<Rightarrow> memory \<Rightarrow> 's halt + u32" where
  "strcmp s1 s2 m =
     (ASSERT (s1 \<noteq> NULL \<and> s2 \<noteq> NULL) ''s1 != NULL && s2 != NULL''
       (and_then (returned (strcmp_loop m s1 s2)) (\<lambda>(p1, p2). Inr
          (if sint (m p1) < sint (m p2) then minus1
           else if sint (m p1) > sint (m p2) then 1 else 0))))"

text \<open>\<^verbatim>\<open>*str == ch\<close> with \<^verbatim>\<open>char *str\<close> and \<^verbatim>\<open>uint8_t ch\<close>: both are promoted to
  \<^verbatim>\<open>int\<close>, the first with its sign, the second without.\<close>

definition char_eq_u8 :: "u8 \<Rightarrow> u8 \<Rightarrow> bool" where
  "char_eq_u8 c ch \<longleftrightarrow> sint c = uint ch"

partial_function (option) strchr_loop :: "memory \<Rightarrow> addr \<Rightarrow> u8 \<Rightarrow> addr option" where
  "strchr_loop m str ch =
     (if m str \<noteq> 0
      then if char_eq_u8 (m str) ch then Some str else strchr_loop m (str + 1) ch
      else Some NULL)"

definition strchr :: "addr \<Rightarrow> u8 \<Rightarrow> memory \<Rightarrow> 's halt + addr" where
  "strchr str ch m =
     (ASSERT (str \<noteq> NULL) ''str != NULL''
       (returned (strchr_loop m str ch)))"

partial_function (option) strrchr_loop :: "memory \<Rightarrow> addr \<Rightarrow> u8 \<Rightarrow> addr \<Rightarrow> addr option" where
  "strrchr_loop m str ch last_char =
     (if m str \<noteq> 0
      then strrchr_loop m (str + 1) ch (if char_eq_u8 (m str) ch then str else last_char)
      else Some last_char)"

definition strrchr :: "addr \<Rightarrow> u8 \<Rightarrow> memory \<Rightarrow> 's halt + addr" where
  "strrchr str ch m =
     (ASSERT (str \<noteq> NULL) ''str != NULL''
       (returned (strrchr_loop m str ch NULL)))"

text \<open>\<^verbatim>\<open>while (*str++ = *src++);\<close> copies the terminating zero as well.\<close>

partial_function (option) strcat_loop :: "addr \<Rightarrow> addr \<Rightarrow> memory \<Rightarrow> memory option" where
  "strcat_loop str src m =
     (if m src \<noteq> 0 then strcat_loop (str + 1) (src + 1) (m(str := m src))
      else Some (m(str := m src)))"

definition strcat :: "addr \<Rightarrow> addr \<Rightarrow> memory \<Rightarrow> 's halt + (addr \<times> memory)" where
  "strcat dst src m =
     (ASSERT (dst \<noteq> NULL \<and> src \<noteq> NULL) ''dst != NULL && src != NULL''
       (and_then (returned (after_nul m dst)) (\<lambda>str.
        and_then (returned (strcat_loop (str - 1) src m)) (\<lambda>m'. Inr (dst, m')))))"

partial_function (option) strchrs_loop :: "memory \<Rightarrow> addr \<Rightarrow> u8 \<Rightarrow> u32 \<Rightarrow> u32 option" where
  "strchrs_loop m p ch ch_cnt =
     (if m p \<noteq> 0
      then strchrs_loop m (p + 1) ch (if char_eq_u8 (m p) ch then ch_cnt + 1 else ch_cnt)
      else Some ch_cnt)"

definition strchrs :: "addr \<Rightarrow> u8 \<Rightarrow> memory \<Rightarrow> 's halt + u32" where
  "strchrs str ch m =
     (ASSERT (str \<noteq> NULL) ''str != NULL''
       (returned (strchrs_loop m str ch 0)))"

section \<open>What the block operations do\<close>

lemma memset_loop_read:
  "memset_loop dst v sz i m a = (if i \<le> a - dst \<and> a - dst < sz then v else m a)"
proof (induction dst v sz i m rule: memset_loop.induct)
  case (1 dst v sz i m)
  show ?case
  proof (cases "i < sz")
    case True
    then have "i + 1 \<le> a - dst \<longleftrightarrow> i < a - dst" by (rule inc_le_iff)
    moreover have "a = dst + i \<longleftrightarrow> a - dst = i" by (auto simp: algebra_simps)
    ultimately show ?thesis
      using "1.IH" True by (auto simp: memset_loop.simps [of dst v sz i] fun_upd_def)
  next
    case False
    then show ?thesis by (auto simp: memset_loop.simps [of dst v sz i])
  qed
qed

text \<open>\<^verbatim>\<open>memset\<close> writes exactly the \<open>sz\<close> bytes from \<open>dst\<close> on (modulo $2^{32}$).\<close>

lemma memset_spec:
  "dst \<noteq> NULL \<Longrightarrow>
    memset dst v sz m = Inr (\<lambda>a. if a - dst < sz then v else m a)"
  by (simp add: memset_def fun_eq_iff memset_loop_read)

text \<open>
  \<^verbatim>\<open>memcpy\<close> copies forwards. The copy is faithful unless the destination starts inside the
  source block after its first byte: \<open>0 < dst - src < sz\<close>.
\<close>

lemma memcpy_loop_read:
  assumes "dst = src \<or> sz \<le> dst - src" and "i \<le> sz"
    and "\<And>a. m' a = (if a - dst < i then m (src + (a - dst)) else m a)"
  shows "memcpy_loop dst src sz i m' a =
    (if a - dst < sz then m (src + (a - dst)) else m a)"
  using assms
proof (induction dst src sz i m' rule: memcpy_loop.induct)
  case (1 dst src sz i m')
  show ?case
  proof (cases "i < sz")
    case True
    have src: "m' (src + i) = m (src + i)"
    proof (cases "dst = src")
      case True
      then show ?thesis by (simp add: "1.prems"(3))
    next
      case False
      with "1.prems"(1) have "sz \<le> dst - src" by blast
      then have w: "\<not> i - (dst - src) < i" using True by (intro sub_wraps) simp
      have e: "src + i - dst = i - (dst - src)" by simp
      have "\<not> src + i - dst < i" unfolding e by (rule w)
      then show ?thesis by (simp add: "1.prems"(3))
    qed
    have step: "(m'(dst + i := m' (src + i))) a =
        (if a - dst < i + 1 then m (src + (a - dst)) else m a)" for a
    proof -
      have "a - dst < i + 1 \<longleftrightarrow> a - dst < i \<or> a = dst + i"
        using less_inc_iff [OF True, of "a - dst"] by (auto simp: algebra_simps)
      then show ?thesis
        by (cases "a = dst + i") (simp add: src, simp add: "1.prems"(3))
    qed
    have "i + 1 \<le> sz" using True by (simp add: inc_le_iff)
    with step have "memcpy_loop dst src sz (i + 1) (m'(dst + i := m' (src + i))) a =
        (if a - dst < sz then m (src + (a - dst)) else m a)"
      using "1.IH" [OF True "1.prems"(1)] by blast
    with True show ?thesis
      by (simp add: memcpy_loop.simps [of dst src sz i])
  next
    case False
    with "1.prems"(2) have "i = sz" by simp
    then show ?thesis by (simp add: memcpy_loop.simps [of dst src sz sz] "1.prems"(3))
  qed
qed

lemma memcpy_spec:
  assumes "dst \<noteq> NULL" and "src \<noteq> NULL" and "dst = src \<or> sz \<le> dst - src"
  shows "memcpy dst src sz m = Inr (\<lambda>a. if a - dst < sz then m (src + (a - dst)) else m a)"
  using assms(1,2) memcpy_loop_read [OF assms(3), of 0 m m]
  by (simp add: memcpy_def fun_eq_iff)

text \<open>
  \<^verbatim>\<open>memcmp\<close>: zero iff the blocks agree, else the sign of the first difference, bytes
  read as signed characters.
\<close>

lemma memcmp_loop_zero:
  "memcmp_loop s1 s2 sz i m = 0 \<longleftrightarrow> (\<forall>k. i \<le> k \<and> k < sz \<longrightarrow> m (s1 + k) = m (s2 + k))"
proof (induction s1 s2 sz i m rule: memcmp_loop.induct)
  case (1 s1 s2 sz i m)
  show ?case
  proof (cases "i < sz")
    case True
    have "i \<le> k \<longleftrightarrow> k = i \<or> i + 1 \<le> k" for k
      using inc_le_iff [OF True, of k] by auto
    then show ?thesis
      using "1.IH" True by (auto simp: memcmp_loop.simps [of s1 s2 sz i])
  next
    case False
    then show ?thesis by (auto simp: memcmp_loop.simps [of s1 s2 sz i])
  qed
qed

section \<open>What the string operations do\<close>

text \<open>\<open>cstr m p xs\<close>: the bytes from \<open>p\<close> on are the non-zero \<open>xs\<close> and then a zero.\<close>

fun cstr :: "memory \<Rightarrow> addr \<Rightarrow> u8 list \<Rightarrow> bool" where
  "cstr m p [] = (m p = 0)"
| "cstr m p (x # xs) = (m p = x \<and> x \<noteq> 0 \<and> cstr m (p + 1) xs)"

lemma returned_Some [simp]: "returned (Some x) = Inr x"
  and returned_None [simp]: "returned None = Inl Spin"
  by (simp_all add: returned_def)

lemma cstr_append:
  "cstr m p (xs @ ys) \<Longrightarrow> cstr m (p + of_nat (length xs)) ys"
proof (induction xs arbitrary: p)
  case Nil
  then show ?case by simp
next
  case (Cons x xs)
  then have "cstr m (p + 1 + of_nat (length xs)) ys" by simp
  then show ?case by (simp add: add.assoc)
qed

lemma cstr_unique: "cstr m p xs \<Longrightarrow> cstr m p ys \<Longrightarrow> xs = ys"
proof (induction xs arbitrary: p ys)
  case Nil
  then show ?case by (cases ys) auto
next
  case (Cons x xs)
  then show ?case by (cases ys) auto
qed

lemma after_nul_cstr: "cstr m p xs \<Longrightarrow> after_nul m p = Some (p + of_nat (length xs) + 1)"
proof (induction xs arbitrary: p)
  case Nil
  then show ?case by (simp add: after_nul.simps)
next
  case (Cons x xs)
  then show ?case by (subst after_nul.simps) (auto simp: algebra_simps)
qed

lemma strlen_spec: "p \<noteq> NULL \<Longrightarrow> cstr m p xs \<Longrightarrow> strlen p m = Inr (of_nat (length xs))"
  by (simp add: strlen_def after_nul_cstr)

text \<open>A length that wraps cannot occur: a string that fits in memory is shorter than $2^{32}$.\<close>

lemma cstr_nth:
  "cstr m p xs \<Longrightarrow> i < length xs \<Longrightarrow> m (p + of_nat i) = xs ! i \<and> xs ! i \<noteq> 0"
proof (induction xs arbitrary: p i)
  case Nil
  then show ?case by simp
next
  case (Cons x xs)
  show ?case
  proof (cases i)
    case 0
    with Cons.prems show ?thesis by simp
  next
    case (Suc j)
    with Cons.prems Cons.IH [of "p + 1" j] show ?thesis by (simp add: add.assoc)
  qed
qed

lemma cstr_end: "cstr m p xs \<Longrightarrow> m (p + of_nat (length xs)) = 0"
  using cstr_append [of m p xs "[]"] by simp

lemma cstr_length: "cstr m p xs \<Longrightarrow> length xs < 2 ^ 32"
proof (rule ccontr)
  assume c: "cstr m p xs" and "\<not> length xs < 2 ^ 32"
  then have len: "2 ^ 32 \<le> length xs" by simp
  let ?k = "length xs mod 2 ^ 32"
  have "?k < length xs" using len
    by (intro less_le_trans [OF mod_less_divisor]) simp_all
  with cstr_nth [OF c this] have "m (p + of_nat ?k) \<noteq> 0" by simp
  moreover have "(of_nat ?k :: u32) = of_nat (length xs)"
    by (simp add: of_nat_mod [symmetric] word_of_nat_eq_iff take_bit_eq_mod)
  ultimately show False using cstr_end [OF c] by simp
qed

lemma strcmp_loop_cstr:
  assumes "cstr m p xs" and "cstr m q ys"
  shows "\<exists>k. strcmp_loop m p q = Some (p + of_nat k, q + of_nat k)
    \<and> k \<le> length xs \<and> k \<le> length ys \<and> take k xs = take k ys
    \<and> (k = length xs \<or> k = length ys \<or> xs ! k \<noteq> ys ! k)"
  using assms
proof (induction xs arbitrary: p q ys)
  case Nil
  then show ?case by (intro exI [of _ 0]) (simp add: strcmp_loop.simps)
next
  case (Cons x xs)
  show ?case
  proof (cases "\<exists>zs. ys = x # zs")
    case True
    then obtain zs where ys: "ys = x # zs" by blast
    with Cons.prems have "cstr m (p + 1) xs" and "cstr m (q + 1) zs" by auto
    then obtain k where k: "strcmp_loop m (p + 1) (q + 1) = Some (p + 1 + of_nat k, q + 1 + of_nat k)"
      "k \<le> length xs" "k \<le> length zs" "take k xs = take k zs"
      "k = length xs \<or> k = length zs \<or> xs ! k \<noteq> zs ! k"
      using Cons.IH by blast
    from Cons.prems ys have "strcmp_loop m p q = strcmp_loop m (p + 1) (q + 1)"
      by (subst strcmp_loop.simps) simp
    with k ys show ?thesis
      by (intro exI [of _ "Suc k"]) (simp add: algebra_simps)
  next
    case False
    with Cons.prems have "m q \<noteq> m p" by (cases ys) auto
    then have "strcmp_loop m p q = Some (p, q)" by (subst strcmp_loop.simps) simp
    with False show ?thesis by (intro exI [of _ 0]) (cases ys; auto)
  qed
qed

text \<open>\<^verbatim>\<open>strcmp\<close> always returns on two strings, and returns zero iff they are equal.\<close>

lemma strcmp_spec:
  assumes "p \<noteq> NULL" and "q \<noteq> NULL" and "cstr m p xs" and "cstr m q ys"
  shows "\<exists>r. strcmp p q m = Inr r \<and> (r = 0 \<longleftrightarrow> xs = ys) \<and> r \<in> {minus1, 0, 1}"
proof -
  obtain k where k: "strcmp_loop m p q = Some (p + of_nat k, q + of_nat k)"
    "k \<le> length xs" "k \<le> length ys" "take k xs = take k ys"
    "k = length xs \<or> k = length ys \<or> xs ! k \<noteq> ys ! k"
    using strcmp_loop_cstr assms(3,4) by blast
  have rd: "m (a + of_nat k) = (if k < length zs then zs ! k else 0)"
    if "cstr m a zs" "k \<le> length zs" for a zs
    using that cstr_nth [of m a zs k] cstr_end [of m a zs] by auto
  note rp = rd [OF assms(3) k(2)] and rq = rd [OF assms(4) k(3)]
  have eq: "m (p + of_nat k) = m (q + of_nat k) \<longleftrightarrow> xs = ys"
  proof
    assume e: "m (p + of_nat k) = m (q + of_nat k)"
    have "k < length xs \<longleftrightarrow> k < length ys"
      using e rp rq cstr_nth [OF assms(3), of k] cstr_nth [OF assms(4), of k] by metis
    moreover have "\<not> (k < length xs \<and> k < length ys)"
      using e rp rq k(5) by auto
    ultimately show "xs = ys" using k(2,3,4) by simp
  next
    assume "xs = ys"
    then show "m (p + of_nat k) = m (q + of_nat k)" using rp rq by simp
  qed
  let ?r = "if sint (m (p + of_nat k)) < sint (m (q + of_nat k)) then minus1
    else if sint (m (p + of_nat k)) > sint (m (q + of_nat k)) then 1 else 0"
  have "strcmp p q m = Inr ?r" using assms(1,2) k(1) by (simp add: strcmp_def)
  moreover have "?r = 0 \<longleftrightarrow> xs = ys"
    using eq signed_word_eqI [of "m (p + of_nat k)" "m (q + of_nat k)"] by auto
  ultimately show ?thesis by auto
qed

end
