(* ===== verification/Bitmap.thy ===== *)
theory Bitmap
  imports Libc
begin

text \<open>
  \<^verbatim>\<open>src/lib/kernel/bitmap.h\<close> and \<^verbatim>\<open>bitmap.c\<close>: bitmaps in byte memory. The
  struct holds the base pointer and the sizes; the bits live in memory at that pointer.
  The interface \<open>bit_store\<close> is what the memory pools and the run-queue mask of the
  scheduler use; it is interpreted on the translated operations.
\<close>

record bitmap =
  base_addr :: addr
  bit_num :: u32
  byte_len :: u32

definition bit_num_2_byte_len :: "u32 \<Rightarrow> u32" where
  "bit_num_2_byte_len n = (if n mod 8 \<noteq> 0 then n div 8 + 1 else n div 8)"

definition bitmap_init :: "addr \<Rightarrow> u32 \<Rightarrow> memory \<Rightarrow> 's halt + (bitmap \<times> memory)" where
  "bitmap_init base n m =
     (let b = \<lparr>base_addr = base, bit_num = n, byte_len = bit_num_2_byte_len n\<rparr>
      in and_then (memset (base_addr b) 0 (byte_len b) m) (\<lambda>m'. Inr (b, m')))"

definition bitmap_get :: "bitmap \<Rightarrow> u32 \<Rightarrow> memory \<Rightarrow> u32" where
  "bitmap_get b bit_idx m =
     (let byte_off = bit_idx div 8; bit_off = bit_idx mod 8
      in if (ucast (m (base_addr b + byte_off)) :: u32) AND push_bit (unat bit_off) 1 \<noteq> 0
         then 1 else 0)"

function scan_loop :: "bitmap \<Rightarrow> u32 \<Rightarrow> u32 \<Rightarrow> u32 \<Rightarrow> u32 \<Rightarrow> memory \<Rightarrow> u32" where
  "scan_loop b val cnt left right m =
     (if right < bit_num b then
        let left' = (if bitmap_get b right m \<noteq> val then right + 1 else left)
        in if right - left' + 1 = cnt then left'
           else scan_loop b val cnt left' (right + 1) m
      else minus1)"
  by pat_completeness auto
termination
  by (relation "measure (\<lambda>(b, val, cnt, left, right, m). unat (bit_num b) - unat right)")
    (auto simp: unat_Suc_bound word_less_nat_alt)

declare scan_loop.simps [simp del]

text \<open>The result is an \<^verbatim>\<open>int32_t\<close>; \<open>minus1\<close> is \<^verbatim>\<open>-1\<close>.\<close>

definition bitmap_scan :: "bitmap \<Rightarrow> u32 \<Rightarrow> u32 \<Rightarrow> memory \<Rightarrow> u32" where
  "bitmap_scan b val cnt m = scan_loop b val cnt 0 0 m"

definition bitmap_set :: "bitmap \<Rightarrow> u32 \<Rightarrow> memory \<Rightarrow> memory" where
  "bitmap_set b idx m =
     (let byte_off = idx div 8; bit_off = idx mod 8; a = base_addr b + byte_off
      in m(a := ucast ((ucast (m a) :: u32) OR push_bit (unat bit_off) 1)))"

definition bitmap_clear :: "bitmap \<Rightarrow> u32 \<Rightarrow> memory \<Rightarrow> memory" where
  "bitmap_clear b idx m =
     (let byte_off = idx div 8; bit_off = idx mod 8; a = base_addr b + byte_off
      in m(a := ucast ((ucast (m a) :: u32) AND NOT (push_bit (unat bit_off) 1))))"

section \<open>Single bits\<close>

lemma and_one_bit: "(w :: u32) AND push_bit n 1 \<noteq> 0 \<longleftrightarrow> bit w n"
proof
  assume "w AND push_bit n 1 \<noteq> 0"
  then obtain k where "bit (w AND push_bit n 1) k" by (auto simp: bit_eq_iff)
  then have "bit w k \<and> k = n" by (metis bit_and_iff bit_push_bit_one)
  then show "bit w n" by blast
next
  assume "bit w n"
  then have "bit (w AND push_bit n 1) n"
    by (simp only: bit_and_iff bit_push_bit_one) (auto dest: bit_imp_le_length)
  then show "w AND push_bit n 1 \<noteq> 0" by auto
qed

lemma mod8_bound: "unat ((i :: u32) mod 8) < 8"
  by (simp add: unat_mod)

lemma bitmap_get_bit:
  "bitmap_get b i m = (if bit (m (base_addr b + i div 8)) (unat (i mod 8)) then 1 else 0)"
  by (simp only: bitmap_get_def Let_def and_one_bit)
    (use mod8_bound [of i] in \<open>simp add: bit_simps\<close>)

lemma bitmap_get_01: "bitmap_get b i m = 0 \<or> bitmap_get b i m = 1"
  by (simp add: bitmap_get_def Let_def)

lemma same_slot_iff:
  "(i :: u32) = j \<longleftrightarrow> i div 8 = j div 8 \<and> unat (i mod 8) = unat (j mod 8)"
  by (metis unat_eq_iff div_mult_mod_eq)

text \<open>Setting and clearing a bit: what every bit reads afterwards.\<close>

lemma bitmap_get_set: "bitmap_get b j (bitmap_set b i m) = (if i = j then 1 else bitmap_get b j m)"
proof (cases "i div 8 = j div 8")
  case True
  have "bit (ucast ((ucast (m a) :: u32) OR push_bit (unat (i mod 8)) 1) :: u8) (unat (j mod 8))
      \<longleftrightarrow> bit (m a) (unat (j mod 8)) \<or> unat (i mod 8) = unat (j mod 8)" for a
    using mod8_bound [of i] mod8_bound [of j]
    by (auto simp only: bit_ucast_iff bit_or_iff bit_push_bit_one) (simp_all add: bit_simps)
  with True show ?thesis
    by (simp add: bitmap_get_bit bitmap_set_def Let_def same_slot_iff [of i j])
next
  case False
  then show ?thesis by (auto simp: bitmap_get_bit bitmap_set_def Let_def)
qed

lemma bitmap_get_clear:
  "bitmap_get b j (bitmap_clear b i m) = (if i = j then 0 else bitmap_get b j m)"
proof (cases "i div 8 = j div 8")
  case True
  have "bit (ucast ((ucast (m a) :: u32) AND NOT (push_bit (unat (i mod 8)) 1)) :: u8) (unat (j mod 8))
      \<longleftrightarrow> bit (m a) (unat (j mod 8)) \<and> unat (i mod 8) \<noteq> unat (j mod 8)" for a
    using mod8_bound [of i] mod8_bound [of j]
    by (auto simp only: bit_ucast_iff bit_and_iff bit_not_iff bit_push_bit_one)
      (simp_all add: bit_simps)
  with True show ?thesis
    by (simp add: bitmap_get_bit bitmap_clear_def Let_def same_slot_iff [of i j])
next
  case False
  then show ?thesis by (auto simp: bitmap_get_bit bitmap_clear_def Let_def)
qed

section \<open>Scanning for a run\<close>

text \<open>\<open>run_of p l c\<close>: all \<open>c\<close> indices from \<open>l\<close> on satisfy \<open>p\<close>.\<close>

definition run_of :: "(u32 \<Rightarrow> bool) \<Rightarrow> nat \<Rightarrow> nat \<Rightarrow> bool" where
  "run_of p l c \<longleftrightarrow> (\<forall>j. l \<le> unat j \<and> unat j < l + c \<longrightarrow> p j)"

lemma run_of_bad: "\<not> p j \<Longrightarrow> l \<le> unat j \<Longrightarrow> unat j < l + c \<Longrightarrow> \<not> run_of p l c"
  by (auto simp: run_of_def)

lemma run_of_extend: "run_of p l c \<Longrightarrow> p j \<Longrightarrow> unat j = l + c \<Longrightarrow> run_of p l (Suc c)"
  by (auto simp: run_of_def less_Suc_eq) (metis unat_eq_iff)

lemma run_of_prefix: "run_of p l d \<Longrightarrow> c \<le> d \<Longrightarrow> run_of p l c"
  by (auto simp: run_of_def)

text \<open>
  The state of the scan between two iterations: \<open>left .. right - 1\<close> is a run of matching
  bits, the bit before \<open>left\<close> does not match, and no run of length \<open>c\<close> ends at or
  before \<open>right\<close>.
\<close>

definition scan_inv :: "(u32 \<Rightarrow> bool) \<Rightarrow> nat \<Rightarrow> u32 \<Rightarrow> u32 \<Rightarrow> bool" where
  "scan_inv p c left right \<longleftrightarrow>
     left \<le> right \<and> run_of p (unat left) (unat right - unat left)
     \<and> (left = 0 \<or> \<not> p (left - 1))
     \<and> (\<forall>l. l + c \<le> unat right \<longrightarrow> \<not> run_of p l c)"

definition first_run :: "(u32 \<Rightarrow> bool) \<Rightarrow> nat \<Rightarrow> nat \<Rightarrow> u32 \<Rightarrow> bool" where
  "first_run p n c r \<longleftrightarrow>
     (if r = minus1 then \<forall>l. l + c \<le> n \<longrightarrow> \<not> run_of p l c
      else unat r + c \<le> n \<and> run_of p (unat r) c \<and> (\<forall>l < unat r. \<not> run_of p l c))"

lemma scan_inv_no_earlier:
  assumes inv: "scan_inv p c left right" and c: "0 < c" and l: "l < unat left"
  shows "\<not> run_of p l c"
proof (cases "l + c \<le> unat right")
  case True
  with inv show ?thesis by (simp add: scan_inv_def)
next
  case False
  from l have "left \<noteq> 0" by auto
  with inv have bad: "\<not> p (left - 1)" by (simp add: scan_inv_def)
  have u: "unat (left - 1) = unat left - 1"
    using \<open>left \<noteq> 0\<close> by (simp add: unat_minus_one)
  have "unat left \<le> unat right" using inv by (simp add: scan_inv_def word_le_nat_alt)
  with False l u show ?thesis by (intro run_of_bad [of p "left - 1", OF bad]) auto
qed

lemma scan_inv_match:
  assumes inv: "scan_inv p c left right" and c: "0 < c" and p: "p right"
    and lt: "right < n" and short: "unat right - unat left + 1 \<noteq> c"
  shows "scan_inv p c left (right + 1)"
proof -
  have le: "unat left \<le> unat right" using inv by (simp add: scan_inv_def word_le_nat_alt)
  have run: "run_of p (unat left) (unat right - unat left)"
    and none: "\<And>l. l + c \<le> unat right \<Longrightarrow> \<not> run_of p l c"
    using inv by (auto simp: scan_inv_def)
  have u: "unat (right + 1) = Suc (unat right)" using lt by (rule unat_Suc_bound)
  have run': "run_of p (unat left) (unat (right + 1) - unat left)"
    using run_of_extend [OF run p] le u by (simp add: Suc_diff_le)
  have "c \<ge> unat right - unat left + 1"
    using none [of "unat left"] run_of_prefix [OF run, of c] le by force
  with short have long: "c > unat right - unat left + 1" by simp
  have "\<not> run_of p l c" if "l + c \<le> unat (right + 1)" for l
  proof (rule scan_inv_no_earlier [OF inv c])
    show "l < unat left" using that u long le by linarith
  qed
  moreover have "left \<le> right + 1" using le u by (simp add: word_le_nat_alt)
  ultimately show ?thesis using run' inv by (simp add: scan_inv_def)
qed

lemma scan_inv_mismatch:
  assumes inv: "scan_inv p c left right" and c: "0 < c" and p: "\<not> p right" and lt: "right < n"
  shows "scan_inv p c (right + 1) (right + 1)"
proof -
  have u: "unat (right + 1) = Suc (unat right)" using lt by (rule unat_Suc_bound)
  have "\<not> run_of p l c" if "l + c \<le> unat (right + 1)" for l
  proof (cases "l + c \<le> unat right")
    case True
    with inv show ?thesis by (simp add: scan_inv_def)
  next
    case False
    with that u c show ?thesis by (intro run_of_bad [of p right, OF p]) auto
  qed
  with p show ?thesis by (auto simp: scan_inv_def) (auto simp: run_of_def)
qed

lemma unat_span:
  assumes "left \<le> right" and "right < (n :: u32)"
  shows "unat (right - left + 1) = unat right - unat left + 1"
proof -
  have "right - left < n" using assms by (simp add: word_less_nat_alt word_le_nat_alt unat_sub_if')
  then show ?thesis using assms by (simp add: unat_Suc_bound unat_sub word_le_nat_alt)
qed

lemma scan_loop_first_run:
  assumes "0 < cnt" and "scan_inv (\<lambda>j. bitmap_get b j m = val) (unat cnt) left right"
  shows "first_run (\<lambda>j. bitmap_get b j m = val) (unat (bit_num b)) (unat cnt)
    (scan_loop b val cnt left right m)"
  using assms
proof (induction b val cnt left right m rule: scan_loop.induct)
  case (1 b val cnt left right m)
  let ?p = "\<lambda>j. bitmap_get b j m = val"
  have c: "0 < unat cnt" using "1.prems"(1) by (simp add: word_less_nat_alt)
  note inv = "1.prems"(2)
  note unfold = scan_loop.simps [of b val cnt left right m]
  show ?case
  proof (cases "right < bit_num b")
    case False
    with inv show ?thesis
      by (auto simp: unfold first_run_def scan_inv_def word_less_nat_alt)
  next
    case lt: True
    have le: "left \<le> right" using inv by (simp add: scan_inv_def)
    have win: "unat (right - left + 1) = unat right - unat left + 1"
      using le lt by (rule unat_span)
    show ?thesis
    proof (cases "?p right")
      case match: True
      show ?thesis
      proof (cases "right - left + 1 = cnt")
        case True
        then have cw: "unat cnt = Suc (unat right - unat left)" using win by simp
        have "run_of ?p (unat left) (unat cnt)"
          using inv match le cw by (auto simp: scan_inv_def word_le_nat_alt intro!: run_of_extend)
        moreover have "unat left + unat cnt \<le> unat (bit_num b)"
          using cw le lt by (simp add: word_le_nat_alt word_less_nat_alt)
        moreover have "left \<noteq> minus1"
          using le lt by (metis leD order_le_less_trans word_order.extremum)
        ultimately show ?thesis
          using True match lt scan_inv_no_earlier [OF inv c] by (simp add: unfold first_run_def)
      next
        case False
        then have "unat right - unat left + 1 \<noteq> unat cnt" using win by (metis unat_eq_iff)
        from scan_inv_match [OF inv c match lt this] show ?thesis
          using "1.IH" [OF lt refl] "1.prems"(1) False match lt by (simp add: unfold)
      qed
    next
      case False
      have "cnt \<noteq> 0" using "1.prems"(1) by auto
      with scan_inv_mismatch [OF inv c False lt] show ?thesis
        using "1.IH" [OF lt refl] "1.prems"(1) False lt by (simp add: unfold Let_def)
    qed
  qed
qed

text \<open>
  The scan is exact: it returns the smallest start of a run of \<open>cnt\<close> bits equal to
  \<open>val\<close> inside the map, and \<^verbatim>\<open>-1\<close> iff there is none.
\<close>

lemma bitmap_scan_first_run:
  "0 < cnt \<Longrightarrow> first_run (\<lambda>j. bitmap_get b j m = val) (unat (bit_num b)) (unat cnt)
    (bitmap_scan b val cnt m)"
  unfolding bitmap_scan_def
  by (rule scan_loop_first_run) (simp_all add: scan_inv_def run_of_def word_less_nat_alt)

section \<open>Initialisation and frame\<close>

lemma unat_byte_len: "unat (bit_num_2_byte_len n) = (unat n + 7) div 8"
proof -
  have "n div 8 < 0x20000000"
    using unat_lt_2p32 [of n] by (simp add: word_less_nat_alt unat_div)
  then have "unat (n div 8 + 1) = unat n div 8 + 1"
    by (simp add: unat_Suc_bound unat_div)
  moreover have "(n mod 8 = 0) = (unat n mod 8 = 0)"
    by (simp add: unat_eq_iff [of _ 0, symmetric] unat_mod)
  ultimately show ?thesis
    by (simp add: bit_num_2_byte_len_def unat_div ceil_div8)
qed

text \<open>The byte of bit \<open>i\<close> lies inside the \<open>byte_len\<close> bytes of the map.\<close>

lemma bit_in_bytes:
  "i < n \<Longrightarrow> i div 8 < bit_num_2_byte_len n"
  by (simp add: word_less_nat_alt unat_byte_len unat_div)

lemma bitmap_init_ok:
  assumes "base \<noteq> 0"
  obtains m' where "bitmap_init base n m = Inr
      (\<lparr>base_addr = base, bit_num = n, byte_len = bit_num_2_byte_len n\<rparr>, m')"
    and "\<And>i. i < n \<Longrightarrow>
      bitmap_get \<lparr>base_addr = base, bit_num = n, byte_len = bit_num_2_byte_len n\<rparr> i m' = 0"
    and "\<And>a. \<not> a - base < bit_num_2_byte_len n \<Longrightarrow> m' a = m a"
  using assms by (auto simp: bitmap_init_def memset_spec bitmap_get_bit bit_in_bytes)

text \<open>\<open>in_map b a\<close>: address \<open>a\<close> is one of the bytes of \<open>b\<close>.\<close>

definition in_map :: "bitmap \<Rightarrow> addr \<Rightarrow> bool" where
  "in_map b a \<longleftrightarrow> a - base_addr b < byte_len b"

definition wf_bitmap :: "bitmap \<Rightarrow> bool" where
  "wf_bitmap b \<longleftrightarrow> byte_len b = bit_num_2_byte_len (bit_num b)"

lemma bitmap_get_cong:
  assumes "wf_bitmap b" and "i < bit_num b" and "\<And>a. in_map b a \<Longrightarrow> m' a = m a"
  shows "bitmap_get b i m' = bitmap_get b i m"
proof -
  have "in_map b (base_addr b + i div 8)"
    using assms(1,2) bit_in_bytes by (simp add: in_map_def wf_bitmap_def)
  then show ?thesis using assms(3) by (simp add: bitmap_get_bit)
qed

lemma bitmap_set_frame:
  "wf_bitmap b \<Longrightarrow> i < bit_num b \<Longrightarrow> \<not> in_map b a \<Longrightarrow> bitmap_set b i m a = m a"
  and bitmap_clear_frame:
  "wf_bitmap b \<Longrightarrow> i < bit_num b \<Longrightarrow> \<not> in_map b a \<Longrightarrow> bitmap_clear b i m a = m a"
  using bit_in_bytes [of i "bit_num b"]
  by (auto simp: bitmap_set_def bitmap_clear_def Let_def in_map_def wf_bitmap_def)

text \<open>Two maps with no common byte do not see each other's updates.\<close>

lemma bitmap_set_other:
  assumes "wf_bitmap b" and "wf_bitmap c" and "i < bit_num b" and "j < bit_num c"
    and "\<And>a. \<not> (in_map b a \<and> in_map c a)"
  shows "bitmap_get c j (bitmap_set b i m) = bitmap_get c j m"
  using assms by (intro bitmap_get_cong) (auto intro: bitmap_set_frame)

section \<open>The interface the clients use\<close>

locale bit_store =
  fixes get :: "'b \<Rightarrow> u32 \<Rightarrow> 'm \<Rightarrow> u32"
    and put :: "'b \<Rightarrow> u32 \<Rightarrow> 'm \<Rightarrow> 'm"
    and clr :: "'b \<Rightarrow> u32 \<Rightarrow> 'm \<Rightarrow> 'm"
    and scan :: "'b \<Rightarrow> u32 \<Rightarrow> u32 \<Rightarrow> 'm \<Rightarrow> u32"
    and bits :: "'b \<Rightarrow> u32"
  assumes get_01: "get b i m = 0 \<or> get b i m = 1"
    and get_put: "get b j (put b i m) = (if i = j then 1 else get b j m)"
    and get_clr: "get b j (clr b i m) = (if i = j then 0 else get b j m)"
    and scan_law: "0 < cnt \<Longrightarrow>
      first_run (\<lambda>j. get b j m = val) (unat (bits b)) (unat cnt) (scan b val cnt m)"
begin

text \<open>A scan for a single bit: the least index that has the value.\<close>

lemma scan1_found:
  assumes "scan b val 1 m \<noteq> minus1"
  shows "scan b val 1 m < bits b" and "get b (scan b val 1 m) m = val"
    and "j < scan b val 1 m \<Longrightarrow> get b j m \<noteq> val"
proof -
  have f: "first_run (\<lambda>j. get b j m = val) (unat (bits b)) 1 (scan b val 1 m)"
    using scan_law [of 1] by simp
  then show "scan b val 1 m < bits b"
    using assms by (simp add: first_run_def word_less_nat_alt)
  show "get b (scan b val 1 m) m = val"
    using f assms by (simp add: first_run_def run_of_def)
  show "get b j m \<noteq> val" if "j < scan b val 1 m"
  proof -
    have "\<not> run_of (\<lambda>j. get b j m = val) (unat j) 1"
      using f assms that by (simp add: first_run_def word_less_nat_alt)
    then show ?thesis by (auto simp: run_of_def le_less_Suc_eq unat_eq_iff)
  qed
qed

lemma scan1_none: "scan b val 1 m = minus1 \<Longrightarrow> j < bits b \<Longrightarrow> get b j m \<noteq> val"
proof
  assume "scan b val 1 m = minus1" and j: "j < bits b" and v: "get b j m = val"
  then have "first_run (\<lambda>j. get b j m = val) (unat (bits b)) 1 minus1"
    using scan_law [of 1 b m val] by simp
  then have "\<not> run_of (\<lambda>j. get b j m = val) (unat j) 1"
    using j by (auto simp: first_run_def word_less_nat_alt)
  then show False using v by (auto simp: run_of_def le_less_Suc_eq unat_eq_iff)
qed

lemma scan1_exists: "j < bits b \<Longrightarrow> get b j m = val \<Longrightarrow> scan b val 1 m \<noteq> minus1"
  using scan1_none by blast

text \<open>Marking a run bit by bit, as the allocators do.\<close>

primrec put_run :: "'b \<Rightarrow> u32 \<Rightarrow> nat \<Rightarrow> 'm \<Rightarrow> 'm" where
  "put_run b start 0 m = m"
| "put_run b start (Suc k) m = put b (start + of_nat k) (put_run b start k m)"

lemma get_put_run:
  "get b j (put_run b start k m) = (if \<exists>i<k. j = start + of_nat i then 1 else get b j m)"
  by (induction k) (auto simp: get_put less_Suc_eq)

end

interpretation bm: bit_store bitmap_get bitmap_set bitmap_clear bitmap_scan bit_num
  by unfold_locales
    (rule bitmap_get_01, rule bitmap_get_set, rule bitmap_get_clear, rule bitmap_scan_first_run)

section \<open>Properties\<close>

text \<open>
  C25. \<^verbatim>\<open>bitmap_scan\<close> is an exact first-fit search: for a positive count it returns the
  smallest start of a run of \<open>cnt\<close> consecutive bits equal to \<open>val\<close> inside the map,
  and \<^verbatim>\<open>-1\<close> iff there is no such run.
\<close>

theorem bitmap_scan_first_fit:
  assumes "0 < cnt"
  shows "first_run (\<lambda>j. bitmap_get b j m = val) (unat (bit_num b)) (unat cnt)
    (bitmap_scan b val cnt m)"
  using assms by (rule bitmap_scan_first_run)

theorem bitmap_scan_first_fit_witness:
  "(0 :: u32) < 2 \<and> bitmap_scan \<lparr>base_addr = 100, bit_num = 16, byte_len = 2\<rparr> 0 2
      (\<lambda>a. if a = 100 then 0x0d else 0) = 4
    \<and> first_run (\<lambda>j. bitmap_get \<lparr>base_addr = 100, bit_num = 16, byte_len = 2\<rparr> j
        (\<lambda>a. if a = 100 then 0x0d else 0) = 0) 16 2 4"
proof -
  let ?b = "\<lparr>base_addr = 100, bit_num = 16, byte_len = 2\<rparr> :: bitmap"
  let ?m = "(\<lambda>a. if a = 100 then 0x0d else 0) :: memory"
  have "bitmap_scan ?b 0 2 ?m = 4"
    by (simp add: bitmap_scan_def scan_loop.simps bitmap_get_def)
  then show ?thesis using bitmap_scan_first_fit [of 2 ?b ?m 0] by simp
qed

definition set_bits :: "bitmap \<Rightarrow> memory \<Rightarrow> u32 set" where
  "set_bits b m = {i. i < bit_num b \<and> bitmap_get b i m = 1}"

text \<open>
  A bitmap is a set of indices: initialisation gives the empty set, \<^verbatim>\<open>bitmap_set\<close>
  inserts, \<^verbatim>\<open>bitmap_clear\<close> removes, and neither writes a byte outside the map.
\<close>

theorem bitmap_refines_set:
  fixes m :: memory
  assumes "base \<noteq> 0" and "i < n"
    and "b = \<lparr>base_addr = base, bit_num = n, byte_len = bit_num_2_byte_len n\<rparr>"
  shows "(\<exists>m'. bitmap_init base n m = (Inr (b, m') :: 's halt + _) \<and> set_bits b m' = {}
      \<and> (\<forall>a. \<not> in_map b a \<longrightarrow> m' a = m a))
    \<and> set_bits b (bitmap_set b i m) = insert i (set_bits b m)
    \<and> set_bits b (bitmap_clear b i m) = set_bits b m - {i}
    \<and> (\<forall>a. \<not> in_map b a \<longrightarrow> bitmap_set b i m a = m a \<and> bitmap_clear b i m a = m a)"
proof -
  have wf: "wf_bitmap b" "i < bit_num b" using assms by (simp_all add: wf_bitmap_def)
  have "\<exists>m'. bitmap_init base n m = (Inr (b, m') :: 's halt + _) \<and> set_bits b m' = {}
      \<and> (\<forall>a. \<not> in_map b a \<longrightarrow> m' a = m a)"
  proof -
    obtain m' where "bitmap_init base n m = (Inr (b, m') :: 's halt + _)"
      "\<And>i. i < n \<Longrightarrow> bitmap_get b i m' = 0" "\<And>a. \<not> a - base < bit_num_2_byte_len n \<Longrightarrow> m' a = m a"
      unfolding assms(3) by (rule bitmap_init_ok [OF assms(1), of n m]) blast
    then show ?thesis by (intro exI [of _ m']) (auto simp: set_bits_def in_map_def assms(3))
  qed
  then show ?thesis
    using wf bitmap_set_frame bitmap_clear_frame
    by (auto simp: set_bits_def bitmap_get_set bitmap_get_clear)
qed

theorem bitmap_refines_set_witness:
  "set_bits \<lparr>base_addr = 100, bit_num = 16, byte_len = 2\<rparr>
      (bitmap_set \<lparr>base_addr = 100, bit_num = 16, byte_len = 2\<rparr> 9 (\<lambda>_. 0)) =
    insert 9 (set_bits \<lparr>base_addr = 100, bit_num = 16, byte_len = 2\<rparr> (\<lambda>_. 0))"
proof -
  have b: "\<lparr>base_addr = 100, bit_num = 16, byte_len = 2\<rparr> =
      \<lparr>base_addr = 100, bit_num = 16, byte_len = bit_num_2_byte_len 16\<rparr>"
    by (simp add: bit_num_2_byte_len_def)
  have "(100 :: addr) \<noteq> 0" "(9 :: u32) < 16" by simp_all
  from bitmap_refines_set [OF this b, of "\<lambda>_. 0"] show ?thesis by blast
qed

end
