(* ===== verification/Machine.thy ===== *)
theory Machine
  imports Prelude
begin

text \<open>
  The processor state the C code reaches through inline assembly: the interrupt flag of
  \<^verbatim>\<open>EFLAGS\<close>, the I/O ports and the text-mode video memory.
  \<^verbatim>\<open>src/lib/kernel/io.h\<close> (\<open>outb\<close>, \<open>inb\<close>) and the interrupt switches of
  \<^verbatim>\<open>src/kernel/interrupt.c\<close> (\<open>intr_get_status\<close> to \<open>intr_set_status\<close>)
  are translated; the CRT controller behind ports \<open>0x3d4\<close> and \<open>0x3d5\<close> is the
  documented index/data register pair of the VGA. Every other port write is kept in
  program order in \<open>out_log\<close>, every other port read comes from \<open>in_ports\<close>.
\<close>

record machine =
  eflags :: u32
  crt_index :: u8
  crt_regs :: "u8 \<Rightarrow> u8"
  in_ports :: "u16 \<Rightarrow> u8"
  out_log :: "(u16 \<times> u8) list"
  video :: memory

section \<open>Port input and output\<close>

definition outb :: "u16 \<Rightarrow> u8 \<Rightarrow> 'a machine_scheme \<Rightarrow> 'a machine_scheme" where
  "outb port data s =
     (if port = 0x3d4 then s\<lparr>crt_index := data\<rparr>
      else if port = 0x3d5 then s\<lparr>crt_regs := (crt_regs s)(crt_index s := data)\<rparr>
      else s\<lparr>out_log := out_log s @ [(port, data)]\<rparr>)"

definition inb :: "u16 \<Rightarrow> 'a machine_scheme \<Rightarrow> u8" where
  "inb port s = (if port = 0x3d5 then crt_regs s (crt_index s) else in_ports s port)"

text \<open>
  \<^verbatim>\<open>rep outsw\<close> and \<^verbatim>\<open>rep insw\<close>, with the direction flag clear: \<open>word_cnt\<close> words, low byte first,
  from or to memory at \<open>addr\<close>. A word goes to a 16-bit port; \<open>out_words\<close> is what the port has
  received so far and \<open>in_words\<close> the words it will deliver, first one first.
\<close>

record word_port =
  out_words :: "u16 list"
  in_words :: "u16 list"

definition word_at :: "memory \<Rightarrow> addr \<Rightarrow> u16" where
  "word_at m a = ucast (m a) OR push_bit 8 (ucast (m (a + 1)))"

definition put_word :: "addr \<Rightarrow> u16 \<Rightarrow> memory \<Rightarrow> memory" where
  "put_word a w m = m(a := ucast w, a + 1 := ucast (drop_bit 8 w))"

primrec outsw_loop :: "nat \<Rightarrow> addr \<Rightarrow> memory \<Rightarrow> word_port \<Rightarrow> word_port" where
  "outsw_loop 0 addr m p = p"
| "outsw_loop (Suc n) addr m p =
     outsw_loop n (addr + 2) m (p\<lparr>out_words := out_words p @ [word_at m addr]\<rparr>)"

definition outsw :: "addr \<Rightarrow> u32 \<Rightarrow> memory \<Rightarrow> word_port \<Rightarrow> word_port" where
  "outsw addr word_cnt m p = outsw_loop (unat word_cnt) addr m p"

text \<open>A port with nothing to deliver reads as all ones.\<close>

primrec insw_loop :: "nat \<Rightarrow> addr \<Rightarrow> memory \<Rightarrow> word_port \<Rightarrow> memory \<times> word_port" where
  "insw_loop 0 addr m p = (m, p)"
| "insw_loop (Suc n) addr m p =
     (let w = (case in_words p of [] \<Rightarrow> 0xffff | w # _ \<Rightarrow> w)
      in insw_loop n (addr + 2) (put_word addr w m) (p\<lparr>in_words := tl (in_words p)\<rparr>))"

definition insw :: "addr \<Rightarrow> u32 \<Rightarrow> memory \<Rightarrow> word_port \<Rightarrow> memory \<times> word_port" where
  "insw addr word_cnt m p = insw_loop (unat word_cnt) addr m p"

section \<open>The interrupt flag\<close>

datatype intr_status = INTR_OFF | INTR_ON

definition EFLAGS_IF :: u32 where
  "EFLAGS_IF = 0x200"

definition intr_get_status :: "'a machine_scheme \<Rightarrow> intr_status" where
  "intr_get_status s = (if EFLAGS_IF AND eflags s \<noteq> 0 then INTR_ON else INTR_OFF)"

text \<open>The instructions \<^verbatim>\<open>cli\<close> and \<^verbatim>\<open>sti\<close>.\<close>

definition cli :: "'a machine_scheme \<Rightarrow> 'a machine_scheme" where
  "cli s = s\<lparr>eflags := eflags s AND NOT EFLAGS_IF\<rparr>"

definition sti :: "'a machine_scheme \<Rightarrow> 'a machine_scheme" where
  "sti s = s\<lparr>eflags := eflags s OR EFLAGS_IF\<rparr>"

definition intr_disable :: "'a machine_scheme \<Rightarrow> intr_status \<times> 'a machine_scheme" where
  "intr_disable s =
     (if INTR_ON = intr_get_status s then (INTR_ON, cli s) else (INTR_OFF, s))"

definition intr_enable :: "'a machine_scheme \<Rightarrow> intr_status \<times> 'a machine_scheme" where
  "intr_enable s =
     (if INTR_OFF = intr_get_status s then (INTR_OFF, sti s) else (INTR_ON, s))"

definition intr_set_status ::
    "intr_status \<Rightarrow> 'a machine_scheme \<Rightarrow> intr_status \<times> 'a machine_scheme" where
  "intr_set_status status s = (if status = INTR_ON then intr_enable s else intr_disable s)"

lemmas intr_defs = intr_get_status_def cli_def sti_def intr_disable_def intr_enable_def
  intr_set_status_def EFLAGS_IF_def

section \<open>The save/restore bracket\<close>

lemma bit_EFLAGS_IF: "bit EFLAGS_IF n \<longleftrightarrow> n = 9"
proof -
  have m: "EFLAGS_IF = push_bit 9 1" by (simp add: EFLAGS_IF_def)
  show ?thesis unfolding m bit_push_bit_one by simp
qed

lemma and_IF_iff: "EFLAGS_IF AND w \<noteq> 0 \<longleftrightarrow> bit w 9"
proof
  assume "EFLAGS_IF AND w \<noteq> 0"
  then obtain n where "bit (EFLAGS_IF AND w) n" by (auto simp: bit_eq_iff)
  then show "bit w 9" by (auto simp: bit_and_iff bit_EFLAGS_IF)
next
  assume "bit w 9"
  then have "bit (EFLAGS_IF AND w) 9" by (simp add: bit_and_iff bit_EFLAGS_IF)
  then show "EFLAGS_IF AND w \<noteq> 0" by auto
qed

lemma IF_set_clear: "bit w 9 \<Longrightarrow> (w AND NOT EFLAGS_IF) OR EFLAGS_IF = w"
  by (rule bit_word_eqI) (auto simp: bit_simps bit_EFLAGS_IF)

lemma IF_clear_bit: "\<not> bit (w AND NOT EFLAGS_IF) 9"
  and IF_set_bit: "bit (w OR EFLAGS_IF) 9"
  by (simp_all add: bit_simps bit_EFLAGS_IF)

lemma intr_get_status_bit:
  "intr_get_status s = (if bit (eflags s) 9 then INTR_ON else INTR_OFF)"
  using and_IF_iff [of "eflags s"] by (simp add: intr_get_status_def)

lemma intr_get_status_cong:
  "eflags s = eflags t \<Longrightarrow> intr_get_status s = intr_get_status t"
  by (simp add: intr_get_status_def)

lemma intr_disable_off: "intr_get_status (snd (intr_disable s)) = INTR_OFF"
  by (simp add: intr_disable_def intr_get_status_bit cli_def IF_clear_bit)

lemma intr_enable_on: "intr_get_status (snd (intr_enable s)) = INTR_ON"
  by (simp add: intr_enable_def intr_get_status_bit sti_def IF_set_bit)

lemma intr_disable_idem:
  "intr_get_status s = INTR_OFF \<Longrightarrow> intr_disable s = (INTR_OFF, s)"
  by (simp add: intr_disable_def)

text \<open>
  Every critical section of the kernel is \<^verbatim>\<open>save = intr_disable(); ...;
  intr_set_status(save)\<close>. If the body keeps the flags, the flags are back at the end.
\<close>

lemma intr_bracket:
  assumes "eflags t = eflags (snd (intr_disable s))"
  shows "eflags (snd (intr_set_status (fst (intr_disable s)) t)) = eflags s"
  using assms
  by (auto simp: intr_disable_def intr_set_status_def intr_enable_def intr_get_status_bit
      cli_def sti_def IF_set_clear IF_clear_bit split: if_splits)

lemma intr_disable_upd: "snd (intr_disable s) = s\<lparr>eflags := eflags (snd (intr_disable s))\<rparr>"
  by (simp add: intr_disable_def cli_def)

lemma intr_set_status_upd:
  "snd (intr_set_status i s) = s\<lparr>eflags := eflags (snd (intr_set_status i s))\<rparr>"
  by (simp add: intr_set_status_def intr_enable_def intr_disable_def cli_def sti_def)

text \<open>
  The bracket as an equation: running a body that touches only the extension of the machine
  between save and restore is running the body alone.
\<close>

lemma intr_bracket_eq:
  assumes "eflags t = eflags (snd (intr_disable s))"
  shows "snd (intr_set_status (fst (intr_disable s)) t) = t\<lparr>eflags := eflags s\<rparr>"
  using intr_bracket [OF assms] intr_set_status_upd by metis

section \<open>An interface for critical sections\<close>

text \<open>
  What a client of the interrupt switches relies on: \<open>enter\<close> hands out a token and masks
  interrupts, \<open>leave\<close> with that token puts the mask back, neither touches anything else
  (seen through \<open>flag\<close> and \<open>put\<close>).
\<close>

locale critical_section =
  fixes enter :: "'s \<Rightarrow> 't \<times> 's"
    and leave :: "'t \<Rightarrow> 's \<Rightarrow> 's"
    and flag :: "'s \<Rightarrow> 'f"
    and put :: "'f \<Rightarrow> 's \<Rightarrow> 's"
  assumes enter_put: "snd (enter s) = put (flag (snd (enter s))) s"
    and leave_enter: "flag t = flag (snd (enter s)) \<Longrightarrow> leave (fst (enter s)) t = put (flag s) t"
    and flag_put: "flag (put f s) = f"
    and put_put: "put f (put g s) = put f s"
    and put_flag: "put (flag s) s = s"
begin

definition section_run :: "('s \<Rightarrow> 's) \<Rightarrow> 's \<Rightarrow> 's" where
  "section_run body s = (let (tok, s1) = enter s in leave tok (body s1))"

text \<open>A body that commutes with writing the mask runs as if there were no bracket.\<close>

lemma section_run_transparent:
  assumes commutes: "\<And>f s. body (put f s) = put f (body s)"
  shows "section_run body s = body s"
proof -
  have body_flag: "flag (body u) = flag u" for u
  proof -
    have "body u = put (flag u) (body u)"
      using commutes [of "flag u" u] by (simp add: put_flag)
    then show ?thesis by (metis flag_put)
  qed
  have "section_run body s = leave (fst (enter s)) (body (snd (enter s)))"
    by (simp add: section_run_def split_beta)
  also have "\<dots> = put (flag s) (body (snd (enter s)))"
    by (rule leave_enter) (rule body_flag)
  also have "\<dots> = put (flag s) (body (put (flag (snd (enter s))) s))"
    using enter_put by metis
  also have "\<dots> = put (flag s) (body s)"
    by (simp add: commutes put_put)
  also have "\<dots> = body s"
    by (metis body_flag put_flag)
  finally show ?thesis .
qed

end

interpretation irq: critical_section
  "intr_disable :: 'a machine_scheme \<Rightarrow> _" "\<lambda>i s. snd (intr_set_status i s)"
  eflags "\<lambda>f s. s\<lparr>eflags := f\<rparr>"
  by unfold_locales (simp_all add: intr_disable_upd [symmetric] intr_bracket_eq)

end
