(* ===== verification/Dlist_C.thy ===== *)
theory Dlist_C
  imports Machine
begin

text \<open>
  \<^verbatim>\<open>src/lib/kernel/list.h\<close> and \<^verbatim>\<open>list.c\<close>: intrusive doubly linked lists with a
  head and a tail sentinel. The \<^verbatim>\<open>struct list_elem\<close> objects live in a heap of their own,
  addressed by pointer; a \<^verbatim>\<open>struct list\<close> at address \<open>l\<close> has its head at
  \<open>l\<close> and its tail at \<open>l + 8\<close>. Every mutation runs with interrupts masked.
  The relation \<open>dlist h l xs\<close> says that the list at \<open>l\<close> holds the element pointers
  \<open>xs\<close> in order; the operations are shown to be the ones of a sequence, and lists with
  other nodes are left alone.
\<close>

record list_elem =
  prev :: addr
  nxt :: addr

type_synonym list_heap = "addr \<Rightarrow> list_elem"

record lstate = machine +
  nodes :: list_heap

section \<open>The operations\<close>

abbreviation (input) list_head :: "addr \<Rightarrow> addr" where
  "list_head l \<equiv> l"

definition list_tail :: "addr \<Rightarrow> addr" where
  "list_tail l = l + 8"

definition set_prev :: "addr \<Rightarrow> addr \<Rightarrow> 'a lstate_scheme \<Rightarrow> 'a lstate_scheme" where
  "set_prev e p s = s\<lparr>nodes := (nodes s)(e := (nodes s e)\<lparr>prev := p\<rparr>)\<rparr>"

definition set_next :: "addr \<Rightarrow> addr \<Rightarrow> 'a lstate_scheme \<Rightarrow> 'a lstate_scheme" where
  "set_next e n s = s\<lparr>nodes := (nodes s)(e := (nodes s e)\<lparr>nxt := n\<rparr>)\<rparr>"

definition list_init :: "addr \<Rightarrow> 'a lstate_scheme \<Rightarrow> 'a lstate_scheme" where
  "list_init l s =
     (let s = set_prev (list_head l) NULL s;
          s = set_next (list_head l) (list_tail l) s;
          s = set_prev (list_tail l) (list_head l) s
      in set_next (list_tail l) NULL s)"

definition list_insert_before :: "addr \<Rightarrow> addr \<Rightarrow> 'a lstate_scheme \<Rightarrow> 'a lstate_scheme" where
  "list_insert_before e1 e2 s =
     (let (old_status, s) = intr_disable s;
          s = set_next (prev (nodes s e1)) e2 s;
          s = set_prev e2 (prev (nodes s e1)) s;
          s = set_next e2 e1 s;
          s = set_prev e1 e2 s
      in snd (intr_set_status old_status s))"

definition list_push_front :: "addr \<Rightarrow> addr \<Rightarrow> 'a lstate_scheme \<Rightarrow> 'a lstate_scheme" where
  "list_push_front l e s = list_insert_before (nxt (nodes s (list_head l))) e s"

definition list_push_back :: "addr \<Rightarrow> addr \<Rightarrow> 'a lstate_scheme \<Rightarrow> 'a lstate_scheme" where
  "list_push_back l e s = list_insert_before (list_tail l) e s"

definition list_remove :: "addr \<Rightarrow> 'a lstate_scheme \<Rightarrow> 'a lstate_scheme" where
  "list_remove e s =
     (let (old_status, s) = intr_disable s;
          s = set_next (prev (nodes s e)) (nxt (nodes s e)) s;
          s = set_prev (nxt (nodes s e)) (prev (nodes s e)) s
      in snd (intr_set_status old_status s))"

definition list_pop_front :: "addr \<Rightarrow> 'a lstate_scheme \<Rightarrow> addr \<times> 'a lstate_scheme" where
  "list_pop_front l s =
     (let ret = nxt (nodes s (list_head l)) in (ret, list_remove ret s))"

partial_function (option) find_loop :: "list_heap \<Rightarrow> addr \<Rightarrow> addr \<Rightarrow> addr \<Rightarrow> bool option" where
  "find_loop h l e tmp =
     (if tmp \<noteq> list_tail l
      then if tmp = e then Some True else find_loop h l e (nxt (h tmp))
      else Some False)"

definition list_elem_find :: "addr \<Rightarrow> addr \<Rightarrow> 'a lstate_scheme \<Rightarrow> bool option" where
  "list_elem_find l e s = find_loop (nodes s) l e (nxt (nodes s (list_head l)))"

definition list_first_elem :: "addr \<Rightarrow> 'a lstate_scheme \<Rightarrow> addr" where
  "list_first_elem l s = nxt (nodes s (list_head l))"

partial_function (option) len_loop :: "list_heap \<Rightarrow> addr \<Rightarrow> addr \<Rightarrow> u32 \<Rightarrow> u32 option" where
  "len_loop h l tmp cnt =
     (if tmp \<noteq> list_tail l then len_loop h l (nxt (h tmp)) (cnt + 1) else Some cnt)"

definition list_len :: "addr \<Rightarrow> 'a lstate_scheme \<Rightarrow> u32 option" where
  "list_len l s = len_loop (nodes s) l (nxt (nodes s (list_head l))) 0"

definition list_empty :: "addr \<Rightarrow> 'a lstate_scheme \<Rightarrow> bool" where
  "list_empty l s \<longleftrightarrow> nxt (nodes s (list_head l)) = list_tail l"

section \<open>The operations on the heap alone\<close>

definition h_insert :: "addr \<Rightarrow> addr \<Rightarrow> list_heap \<Rightarrow> list_heap" where
  "h_insert e1 e2 h =
     (let p = prev (h e1);
          h = h(p := (h p)\<lparr>nxt := e2\<rparr>);
          h = h(e2 := (h e2)\<lparr>prev := prev (h e1)\<rparr>);
          h = h(e2 := (h e2)\<lparr>nxt := e1\<rparr>)
      in h(e1 := (h e1)\<lparr>prev := e2\<rparr>))"

definition h_remove :: "addr \<Rightarrow> list_heap \<Rightarrow> list_heap" where
  "h_remove e h =
     (let p = prev (h e);
          h = h(p := (h p)\<lparr>nxt := nxt (h e)\<rparr>);
          n = nxt (h e)
      in h(n := (h n)\<lparr>prev := prev (h e)\<rparr>))"

text \<open>The interrupt brackets are transparent: only the heap changes.\<close>

lemma list_insert_before_heap:
  "list_insert_before e1 e2 s = s\<lparr>nodes := h_insert e1 e2 (nodes s)\<rparr>"
proof -
  have "list_insert_before e1 e2 s =
      irq.section_run (\<lambda>s. s\<lparr>nodes := h_insert e1 e2 (nodes s)\<rparr>) s"
    by (simp add: list_insert_before_def h_insert_def irq.section_run_def Let_def split_beta
      set_next_def set_prev_def)
  also have "\<dots> = s\<lparr>nodes := h_insert e1 e2 (nodes s)\<rparr>"
    by (rule irq.section_run_transparent) simp
  finally show ?thesis .
qed

lemma list_remove_heap: "list_remove e s = s\<lparr>nodes := h_remove e (nodes s)\<rparr>"
proof -
  have "list_remove e s = irq.section_run (\<lambda>s. s\<lparr>nodes := h_remove e (nodes s)\<rparr>) s"
    by (simp add: list_remove_def h_remove_def irq.section_run_def Let_def split_beta
      set_next_def set_prev_def)
  also have "\<dots> = s\<lparr>nodes := h_remove e (nodes s)\<rparr>"
    by (rule irq.section_run_transparent) simp
  finally show ?thesis .
qed

section \<open>Chains of nodes\<close>

text \<open>\<open>chain h ns\<close>: consecutive nodes of \<open>ns\<close> point at each other.\<close>

fun chain :: "list_heap \<Rightarrow> addr list \<Rightarrow> bool" where
  "chain h (a # b # ns) = (nxt (h a) = b \<and> prev (h b) = a \<and> chain h (b # ns))"
| "chain h ns = True"

lemma chain_append: "chain h (xs @ a # ys) \<longleftrightarrow> chain h (xs @ [a]) \<and> chain h (a # ys)"
proof (induction xs)
  case Nil
  then show ?case by simp
next
  case (Cons x xs)
  then show ?case by (cases xs) auto
qed

text \<open>A chain depends on the forward pointers of all but its last node and on the backward
  pointers of all but its first.\<close>

lemma chain_cong:
  assumes "\<And>a. a \<in> set (butlast ns) \<Longrightarrow> nxt (h' a) = nxt (h a)"
    and "\<And>a. a \<in> set (tl ns) \<Longrightarrow> prev (h' a) = prev (h a)"
  shows "chain h' ns = chain h ns"
  using assms by (induction h ns rule: chain.induct) (auto split: if_splits)

lemma in_tlD: "a \<in> set (tl xs) \<Longrightarrow> a \<in> set xs"
  by (cases xs) auto

lemma chain_frame: "(\<And>a. a \<in> set ns \<Longrightarrow> h' a = h a) \<Longrightarrow> chain h' ns = chain h ns"
  by (rule chain_cong) (auto dest: in_set_butlastD in_tlD)

lemma h_insert_other: "a \<notin> {prev (h e1), e1, e2} \<Longrightarrow> h_insert e1 e2 h a = h a"
  by (simp add: h_insert_def Let_def)

lemma h_remove_other: "a \<notin> {prev (h e), nxt (h e)} \<Longrightarrow> e \<noteq> prev (h e) \<Longrightarrow> h_remove e h a = h a"
  by (simp add: h_remove_def Let_def)

text \<open>The pointers after an insertion of \<open>e\<close> before \<open>t\<close>, and after a removal of \<open>e\<close>.\<close>

lemma h_insert_ptrs:
  assumes "prev (h t) = p" and "p \<noteq> t" and "e \<noteq> p" and "e \<noteq> t"
  shows "nxt (h_insert t e h a) = (if a = p then e else if a = e then t else nxt (h a))"
    and "prev (h_insert t e h a) = (if a = t then e else if a = e then p else prev (h a))"
  using assms by (simp_all add: h_insert_def Let_def)

lemma h_remove_ptrs:
  assumes "prev (h e) = p" and "nxt (h e) = n" and "p \<noteq> e" and "n \<noteq> e" and "p \<noteq> n"
  shows "nxt (h_remove e h a) = (if a = p then n else nxt (h a))"
    and "prev (h_remove e h a) = (if a = n then p else prev (h a))"
  using assms by (simp_all add: h_remove_def Let_def)

lemma h_insert_chain:
  assumes "chain h (xs @ p # t # ys)" and "distinct (xs @ p # t # ys)"
    and "e \<notin> set (xs @ p # t # ys)"
  shows "chain (h_insert t e h) (xs @ p # e # t # ys)"
proof -
  from assms(1) have c: "chain h (xs @ [p])" "prev (h t) = p" "chain h (t # ys)"
    by (simp_all add: chain_append [of h xs p "t # ys"])
  have "prev (h t) = p" "p \<noteq> t" "e \<noteq> p" "e \<noteq> t" using assms(2,3) c(2) by auto
  note ptrs = h_insert_ptrs [of h, OF this]
  have "chain (h_insert t e h) (xs @ [p]) = chain h (xs @ [p])"
    using assms(2,3) by (intro chain_cong) (auto simp: ptrs dest: in_tlD)
  moreover have "chain (h_insert t e h) (t # ys) = chain h (t # ys)"
    using assms(2,3) by (intro chain_cong) (auto simp: ptrs split: if_splits dest: in_set_butlastD)
  moreover have "chain (h_insert t e h) [p, e, t]"
    using assms(2,3) by (simp add: ptrs)
  ultimately show ?thesis
    using c by (simp add: chain_append [of _ xs p "e # t # ys"])
qed

lemma h_remove_chain:
  assumes "chain h (xs @ p # e # n # ys)" and "distinct (xs @ p # e # n # ys)"
  shows "chain (h_remove e h) (xs @ p # n # ys)"
proof -
  from assms(1) have c: "chain h (xs @ [p])" "prev (h e) = p" "nxt (h e) = n" "chain h (n # ys)"
    by (simp_all add: chain_append [of h xs p "e # n # ys"])
  have "prev (h e) = p" "nxt (h e) = n" "p \<noteq> e" "n \<noteq> e" "p \<noteq> n" using assms(2) c(2,3) by auto
  note ptrs = h_remove_ptrs [of h, OF this]
  have "chain (h_remove e h) (xs @ [p]) = chain h (xs @ [p])"
    using assms(2) by (intro chain_cong) (auto simp: ptrs dest: in_tlD)
  moreover have "chain (h_remove e h) (n # ys) = chain h (n # ys)"
    using assms(2) by (intro chain_cong) (auto simp: ptrs split: if_splits dest: in_set_butlastD)
  moreover have "chain (h_remove e h) [p, n]"
    using assms(2) by (simp add: ptrs)
  ultimately show ?thesis
    using c by (simp add: chain_append [of _ xs p "n # ys"])
qed

section \<open>Lists as sequences\<close>

definition dlist :: "list_heap \<Rightarrow> addr \<Rightarrow> addr list \<Rightarrow> bool" where
  "dlist h l xs \<longleftrightarrow> chain h (l # xs @ [list_tail l]) \<and> distinct (l # xs @ [list_tail l])"

definition sentinels :: "addr \<Rightarrow> addr set" where
  "sentinels l = {list_head l, list_tail l}"

lemma list_tail_neq [simp]: "list_tail l \<noteq> l" "l \<noteq> list_tail l"
  by (simp_all add: list_tail_def)

lemma dlist_init: "dlist (nodes (list_init l s)) l []"
  by (simp add: list_init_def dlist_def set_prev_def set_next_def Let_def)

lemma list_init_other:
  "a \<notin> sentinels l \<Longrightarrow> nodes (list_init l s) a = nodes s a"
  by (simp add: list_init_def set_prev_def set_next_def Let_def sentinels_def)

lemma list_init_upd: "list_init l s = s\<lparr>nodes := nodes (list_init l s)\<rparr>"
  by (simp add: list_init_def set_prev_def set_next_def Let_def)

lemma dlist_distinct: "dlist h l xs \<Longrightarrow> distinct xs \<and> set xs \<inter> sentinels l = {}"
  by (auto simp: dlist_def sentinels_def)

lemma dlist_frame:
  "(\<And>a. a \<in> sentinels l \<union> set xs \<Longrightarrow> h' a = h a) \<Longrightarrow> dlist h' l xs = dlist h l xs"
  unfolding dlist_def by (subst chain_frame [of _ h' h]) (auto simp: sentinels_def)

lemma chain_prev_last: "chain h (xs @ [a, b]) \<Longrightarrow> prev (h b) = a"
  using chain_append [of h xs a "[b]"] by simp

lemma chain_mid: "chain h (xs @ p # e # n # ys) \<Longrightarrow> prev (h e) = p \<and> nxt (h e) = n"
  using chain_append [of h xs p "e # n # ys"] by simp

lemma dlist_prev_tail: "dlist h l xs \<Longrightarrow> prev (h (list_tail l)) = last (l # xs)"
proof -
  assume "dlist h l xs"
  moreover have "l # xs @ [list_tail l] = butlast (l # xs) @ [last (l # xs), list_tail l]"
    by (metis append_Cons append_butlast_last_id append_eq_append_conv2 list.distinct(1)
      append.assoc append_Nil)
  ultimately show ?thesis
    using chain_prev_last [of h "butlast (l # xs)"] by (metis dlist_def)
qed

lemma dlist_next_head: "dlist h l xs \<Longrightarrow> nxt (h l) = hd (xs @ [list_tail l])"
  by (cases xs) (auto simp: dlist_def)

subsection \<open>Insertion\<close>

lemma dlist_insert:
  assumes "dlist h l (xs @ ys)" and "e \<notin> sentinels l \<union> set (xs @ ys)"
  shows "dlist (h_insert (hd (ys @ [list_tail l])) e h) l (xs @ e # ys)"
proof -
  let ?t = "hd (ys @ [list_tail l])" and ?ts = "tl (ys @ [list_tail l])"
  have split: "l # xs = butlast (l # xs) @ [last (l # xs)]"
    by (rule append_butlast_last_id [symmetric]) simp
  have ts: "ys @ [list_tail l] = ?t # ?ts" by (cases ys) auto
  have all: "l # (xs @ ys) @ [list_tail l] = butlast (l # xs) @ last (l # xs) # ?t # ?ts"
    using split ts by (metis append.assoc append_Cons append_Nil)
  from assms(1) have c: "chain h (butlast (l # xs) @ last (l # xs) # ?t # ?ts)"
    and d: "distinct (butlast (l # xs) @ last (l # xs) # ?t # ?ts)"
    unfolding dlist_def all by blast+
  have "e \<notin> set (l # (xs @ ys) @ [list_tail l])" using assms(2) by (auto simp: sentinels_def)
  then have "e \<notin> set (butlast (l # xs) @ last (l # xs) # ?t # ?ts)" unfolding all .
  with c d have "chain (h_insert ?t e h) (butlast (l # xs) @ last (l # xs) # e # ?t # ?ts)"
    by (rule h_insert_chain)
  moreover have new: "butlast (l # xs) @ last (l # xs) # e # ?t # ?ts
      = l # (xs @ e # ys) @ [list_tail l]"
    using split ts by (metis append.assoc append_Cons append_Nil)
  ultimately have "chain (h_insert ?t e h) (l # (xs @ e # ys) @ [list_tail l])"
    by (simp only: new)
  then show ?thesis using assms by (auto simp: dlist_def sentinels_def)
qed

lemma dlist_push_back:
  assumes "dlist (nodes s) l xs" and "e \<notin> sentinels l \<union> set xs"
  shows "dlist (nodes (list_push_back l e s)) l (xs @ [e])"
  using dlist_insert [of "nodes s" l xs "[]" e] assms
  by (simp add: list_push_back_def list_insert_before_heap)

lemma dlist_push_front:
  assumes "dlist (nodes s) l xs" and "e \<notin> sentinels l \<union> set xs"
  shows "dlist (nodes (list_push_front l e s)) l (e # xs)"
  using dlist_insert [of "nodes s" l "[]" xs e] assms dlist_next_head [OF assms(1)]
  by (simp add: list_push_front_def list_insert_before_heap)

text \<open>An insertion writes the new node, the list's sentinels and its members only.\<close>

lemma push_back_other:
  assumes "dlist (nodes s) l xs" and "a \<notin> insert e (sentinels l \<union> set xs)"
  shows "nodes (list_push_back l e s) a = nodes s a"
proof -
  have "prev (nodes s (list_tail l)) \<in> insert l (set xs)"
    using dlist_prev_tail [OF assms(1)] by (metis last_in_set list.simps(15) list.distinct(1))
  with assms(2) show ?thesis
    by (auto simp: list_push_back_def list_insert_before_heap sentinels_def intro!: h_insert_other)
qed

lemma push_front_other:
  assumes "dlist (nodes s) l xs" and "a \<notin> insert e (sentinels l \<union> set xs)"
  shows "nodes (list_push_front l e s) a = nodes s a"
proof -
  have t: "nxt (nodes s l) \<in> insert (list_tail l) (set xs)"
    using dlist_next_head [OF assms(1)] by (cases xs) auto
  have "prev (nodes s (nxt (nodes s l))) = l"
    using assms(1) dlist_next_head [OF assms(1)] by (cases xs) (auto simp: dlist_def)
  with t assms(2) show ?thesis
    by (auto simp: list_push_front_def list_insert_before_heap sentinels_def
      intro!: h_insert_other)
qed

subsection \<open>Removal\<close>

lemma dlist_remove_mid:
  assumes "dlist h l (xs @ e # ys)"
  shows "dlist (h_remove e h) l (xs @ ys)"
    and "prev (h e) = last (l # xs)" and "nxt (h e) = hd (ys @ [list_tail l])"
proof -
  let ?n = "hd (ys @ [list_tail l])" and ?ns = "tl (ys @ [list_tail l])"
  have split: "l # xs = butlast (l # xs) @ [last (l # xs)]"
    by (rule append_butlast_last_id [symmetric]) simp
  have ns: "ys @ [list_tail l] = ?n # ?ns" by (cases ys) auto
  have all: "l # (xs @ e # ys) @ [list_tail l]
      = butlast (l # xs) @ last (l # xs) # e # ?n # ?ns"
    using split ns by (metis append.assoc append_Cons append_Nil)
  have rest: "butlast (l # xs) @ last (l # xs) # ?n # ?ns = l # (xs @ ys) @ [list_tail l]"
    using split ns by (metis append.assoc append_Cons append_Nil)
  from assms have c: "chain h (butlast (l # xs) @ last (l # xs) # e # ?n # ?ns)"
    and d: "distinct (butlast (l # xs) @ last (l # xs) # e # ?n # ?ns)"
    unfolding dlist_def all by blast+
  from h_remove_chain [OF c d] assms show "dlist (h_remove e h) l (xs @ ys)"
    unfolding rest by (auto simp: dlist_def)
  from c show "prev (h e) = last (l # xs)" and "nxt (h e) = ?n"
    using chain_mid [of h "butlast (l # xs)" "last (l # xs)" e ?n ?ns] by blast+
qed

lemma dlist_remove:
  assumes "dlist (nodes s) l xs" and "e \<in> set xs"
  shows "dlist (nodes (list_remove e s)) l (remove1 e xs)"
proof -
  obtain ys zs where xs: "xs = ys @ e # zs" and "e \<notin> set ys"
    using assms(2) by (metis split_list_first)
  then show ?thesis
    using dlist_remove_mid(1) [of "nodes s" l ys e zs] assms(1)
    by (simp add: list_remove_heap remove1_append)
qed

lemma remove_other:
  assumes "dlist (nodes s) l xs" and "e \<in> set xs" and "a \<notin> sentinels l \<union> set xs"
  shows "nodes (list_remove e s) a = nodes s a"
proof -
  obtain ys zs where xs: "xs = ys @ e # zs" using assms(2) by (metis split_list)
  note m = dlist_remove_mid(2,3) [OF assms(1) [unfolded xs]]
  have d: "distinct (l # xs @ [list_tail l])" using assms(1) by (simp add: dlist_def)
  have p: "prev (nodes s e) \<in> insert l (set ys)" "nxt (nodes s e) \<in> insert (list_tail l) (set zs)"
    unfolding m by (cases ys; simp) (cases zs; simp)
  with d xs have "e \<noteq> prev (nodes s e)" by auto
  with p assms(3) xs show ?thesis
    by (auto simp: list_remove_heap sentinels_def intro!: h_remove_other)
qed

subsection \<open>Reading\<close>

lemma dlist_first: "dlist (nodes s) l (x # xs) \<Longrightarrow> list_first_elem l s = x"
  by (simp add: list_first_elem_def dlist_def)

lemma dlist_empty: "dlist (nodes s) l xs \<Longrightarrow> list_empty l s \<longleftrightarrow> xs = []"
  by (cases xs) (auto simp: list_empty_def dlist_def)

lemma dlist_pop_front:
  assumes "dlist (nodes s) l (x # xs)"
  shows "fst (list_pop_front l s) = x"
    and "dlist (nodes (snd (list_pop_front l s))) l xs"
  using dlist_first [OF assms] dlist_remove [OF assms, of x]
  by (simp_all add: list_pop_front_def list_first_elem_def Let_def)

lemma find_loop_chain:
  assumes "chain h (xs @ [list_tail l])" and "list_tail l \<notin> set xs"
  shows "find_loop h l e (hd (xs @ [list_tail l])) = Some (e \<in> set xs)"
  using assms
proof (induction xs)
  case Nil
  then show ?case by (simp add: find_loop.simps)
next
  case (Cons x xs)
  then have "nxt (h x) = hd (xs @ [list_tail l])" and "chain h (xs @ [list_tail l])"
    by (cases xs; simp)+
  with Cons show ?case by (subst find_loop.simps) auto
qed

lemma dlist_chain_tl: "dlist h l xs \<Longrightarrow> chain h (xs @ [list_tail l])"
  by (cases xs) (auto simp: dlist_def)

text \<open>On a well-formed list the search and the count end, with the right answer.\<close>

lemma dlist_find:
  "dlist (nodes s) l xs \<Longrightarrow> list_elem_find l e s = Some (e \<in> set xs)"
  using find_loop_chain [of "nodes s" xs l e] dlist_chain_tl dlist_next_head
  by (auto simp: list_elem_find_def dlist_def)

lemma len_loop_chain:
  assumes "chain h (xs @ [list_tail l])" and "list_tail l \<notin> set xs"
  shows "len_loop h l (hd (xs @ [list_tail l])) cnt = Some (cnt + of_nat (length xs))"
  using assms
proof (induction xs arbitrary: cnt)
  case Nil
  then show ?case by (simp add: len_loop.simps)
next
  case (Cons x xs)
  then have "nxt (h x) = hd (xs @ [list_tail l])" and "chain h (xs @ [list_tail l])"
    by (cases xs; simp)+
  with Cons show ?case by (subst len_loop.simps) (auto simp: add.assoc)
qed

lemma dlist_len: "dlist (nodes s) l xs \<Longrightarrow> list_len l s = Some (of_nat (length xs))"
  using len_loop_chain [of "nodes s" xs l 0] dlist_chain_tl dlist_next_head
  by (auto simp: list_len_def dlist_def)

section \<open>The interface: a store of disjoint sequences\<close>

text \<open>
  What the scheduler, the semaphores and the thread table rely on: each list address stands
  for a sequence of element addresses, and an operation on one list changes neither another
  list nor anything outside the two lists' own nodes.
\<close>

locale seq_store =
  fixes rep :: "'s \<Rightarrow> addr \<Rightarrow> addr list \<Rightarrow> bool"
    and sent :: "addr \<Rightarrow> addr set"
    and push_back :: "addr \<Rightarrow> addr \<Rightarrow> 's \<Rightarrow> 's"
    and push_front :: "addr \<Rightarrow> addr \<Rightarrow> 's \<Rightarrow> 's"
    and remove :: "addr \<Rightarrow> 's \<Rightarrow> 's"
    and first :: "addr \<Rightarrow> 's \<Rightarrow> addr"
    and is_empty :: "addr \<Rightarrow> 's \<Rightarrow> bool"
  assumes rep_distinct: "rep s l xs \<Longrightarrow> distinct xs \<and> set xs \<inter> sent l = {}"
    and rep_push_back: "rep s l xs \<Longrightarrow> e \<notin> sent l \<union> set xs \<Longrightarrow> rep (push_back l e s) l (xs @ [e])"
    and rep_push_front: "rep s l xs \<Longrightarrow> e \<notin> sent l \<union> set xs \<Longrightarrow> rep (push_front l e s) l (e # xs)"
    and rep_remove: "rep s l xs \<Longrightarrow> e \<in> set xs \<Longrightarrow> rep (remove e s) l (remove1 e xs)"
    and rep_push_back_other: "rep s l xs \<Longrightarrow> rep s k ys \<Longrightarrow>
      insert e (sent l \<union> set xs) \<inter> (sent k \<union> set ys) = {} \<Longrightarrow> rep (push_back l e s) k ys"
    and rep_push_front_other: "rep s l xs \<Longrightarrow> rep s k ys \<Longrightarrow>
      insert e (sent l \<union> set xs) \<inter> (sent k \<union> set ys) = {} \<Longrightarrow> rep (push_front l e s) k ys"
    and rep_remove_other: "rep s l xs \<Longrightarrow> e \<in> set xs \<Longrightarrow> rep s k ys \<Longrightarrow>
      (sent l \<union> set xs) \<inter> (sent k \<union> set ys) = {} \<Longrightarrow> rep (remove e s) k ys"
    and rep_first: "rep s l (x # xs) \<Longrightarrow> first l s = x"
    and rep_is_empty: "rep s l xs \<Longrightarrow> is_empty l s \<longleftrightarrow> xs = []"
begin

text \<open>
  A family of lists at the addresses \<open>L i\<close>, \<open>i \<in> I\<close>, with contents \<open>Q i\<close> and
  pairwise disjoint nodes: all lists of the kernel at once.
\<close>

definition family :: "'s \<Rightarrow> ('i \<Rightarrow> addr) \<Rightarrow> 'i set \<Rightarrow> ('i \<Rightarrow> addr list) \<Rightarrow> bool" where
  "family s L I Q \<longleftrightarrow>
     (\<forall>i\<in>I. rep s (L i) (Q i)) \<and>
     (\<forall>i\<in>I. \<forall>j\<in>I. i \<noteq> j \<longrightarrow> (sent (L i) \<union> set (Q i)) \<inter> (sent (L j) \<union> set (Q j)) = {})"

definition fresh :: "('i \<Rightarrow> addr) \<Rightarrow> 'i set \<Rightarrow> ('i \<Rightarrow> addr list) \<Rightarrow> addr \<Rightarrow> bool" where
  "fresh L I Q e \<longleftrightarrow> (\<forall>i\<in>I. e \<notin> sent (L i) \<union> set (Q i))"

lemma family_rep: "family s L I Q \<Longrightarrow> i \<in> I \<Longrightarrow> rep s (L i) (Q i)"
  by (simp add: family_def)

lemma family_distinct: "family s L I Q \<Longrightarrow> i \<in> I \<Longrightarrow> distinct (Q i)"
  by (drule (1) family_rep) (simp add: rep_distinct)

lemma family_unique:
  "family s L I Q \<Longrightarrow> i \<in> I \<Longrightarrow> j \<in> I \<Longrightarrow> e \<in> set (Q i) \<Longrightarrow> e \<in> set (Q j) \<Longrightarrow> i = j"
  unfolding family_def by (metis IntI UnI2 empty_iff)

lemma family_disjoint:
  "family s L I Q \<Longrightarrow> i \<in> I \<Longrightarrow> j \<in> I \<Longrightarrow> i \<noteq> j \<Longrightarrow>
    (sent (L i) \<union> set (Q i)) \<inter> (sent (L j) \<union> set (Q j)) = {}"
  by (simp add: family_def)

lemma familyI:
  assumes "\<And>i. i \<in> I \<Longrightarrow> rep s (L i) (Q i)"
    and "\<And>i j. i \<in> I \<Longrightarrow> j \<in> I \<Longrightarrow> i \<noteq> j \<Longrightarrow>
      (sent (L i) \<union> set (Q i)) \<inter> (sent (L j) \<union> set (Q j)) = {}"
  shows "family s L I Q"
  using assms by (simp add: family_def)

lemma family_upd:
  assumes f: "family s L I Q" and k: "k \<in> I" and new: "rep s' (L k) q"
    and old: "\<And>i. i \<in> I \<Longrightarrow> i \<noteq> k \<Longrightarrow> rep s' (L i) (Q i)"
    and disj: "\<And>i. i \<in> I \<Longrightarrow> i \<noteq> k \<Longrightarrow> set q \<inter> (sent (L i) \<union> set (Q i)) = {}"
  shows "family s' L I (Q(k := q))"
proof (rule familyI)
  show "rep s' (L i) ((Q(k := q)) i)" if "i \<in> I" for i
    using that new old by simp
  have d: "(sent (L k) \<union> set q) \<inter> (sent (L j) \<union> set (Q j)) = {}" if "j \<in> I" "j \<noteq> k" for j
    using family_disjoint [OF f k that(1)] disj [OF that] that(2) by blast
  fix i j assume ij: "i \<in> I" "j \<in> I" "i \<noteq> j"
  consider "i = k" | "j = k" | "i \<noteq> k" "j \<noteq> k" by blast
  then show "(sent (L i) \<union> set ((Q(k := q)) i)) \<inter> (sent (L j) \<union> set ((Q(k := q)) j)) = {}"
  proof cases
    case 1
    with ij d [of j] show ?thesis by simp
  next
    case 2
    with ij d [of i] show ?thesis by (simp only: fun_upd_same fun_upd_other Int_commute) simp
  next
    case 3
    with family_disjoint [OF f ij] show ?thesis by simp
  qed
qed

lemma fresh_disjoint:
  assumes f: "family s L I Q" and k: "k \<in> I" and e: "fresh L I Q e" and i: "i \<in> I" "i \<noteq> k"
  shows "insert e (sent (L k) \<union> set (Q k)) \<inter> (sent (L i) \<union> set (Q i)) = {}"
  using family_disjoint [OF f k i(1)] i e by (simp add: fresh_def)

lemma family_push_back:
  assumes f: "family s L I Q" and k: "k \<in> I" and e: "fresh L I Q e"
  shows "family (push_back (L k) e s) L I (Q(k := Q k @ [e]))"
proof (rule family_upd [OF f k])
  note rk = family_rep [OF f k]
  show "rep (push_back (L k) e s) (L k) (Q k @ [e])"
    using rk e k by (intro rep_push_back) (simp_all add: fresh_def)
  fix i assume i: "i \<in> I" "i \<noteq> k"
  note d = fresh_disjoint [OF f k e i]
  show "rep (push_back (L k) e s) (L i) (Q i)"
    using rk family_rep [OF f i(1)] d by (rule rep_push_back_other)
  show "set (Q k @ [e]) \<inter> (sent (L i) \<union> set (Q i)) = {}" using d by auto
qed

lemma family_push_front:
  assumes f: "family s L I Q" and k: "k \<in> I" and e: "fresh L I Q e"
  shows "family (push_front (L k) e s) L I (Q(k := e # Q k))"
proof (rule family_upd [OF f k])
  note rk = family_rep [OF f k]
  show "rep (push_front (L k) e s) (L k) (e # Q k)"
    using rk e k by (intro rep_push_front) (simp_all add: fresh_def)
  fix i assume i: "i \<in> I" "i \<noteq> k"
  note d = fresh_disjoint [OF f k e i]
  show "rep (push_front (L k) e s) (L i) (Q i)"
    using rk family_rep [OF f i(1)] d by (rule rep_push_front_other)
  show "set (e # Q k) \<inter> (sent (L i) \<union> set (Q i)) = {}" using d by auto
qed

lemma family_remove:
  assumes f: "family s L I Q" and k: "k \<in> I" and e: "e \<in> set (Q k)"
  shows "family (remove e s) L I (Q(k := remove1 e (Q k)))"
proof (rule family_upd [OF f k])
  note rk = family_rep [OF f k]
  show "rep (remove e s) (L k) (remove1 e (Q k))" using rk e by (rule rep_remove)
  fix i assume i: "i \<in> I" "i \<noteq> k"
  note d = family_disjoint [OF f k i(1) i(2) [symmetric]]
  show "rep (remove e s) (L i) (Q i)"
    using rk e family_rep [OF f i(1)] d by (rule rep_remove_other)
  show "set (remove1 e (Q k)) \<inter> (sent (L i) \<union> set (Q i)) = {}"
    using d set_remove1_subset [of e "Q k"] by blast
qed

lemma fresh_after_remove:
  assumes f: "family s L I Q" and k: "k \<in> I" and e: "e \<in> set (Q k)"
  shows "fresh L I (Q(k := remove1 e (Q k))) e"
proof -
  have "e \<notin> sent (L i) \<union> set ((Q(k := remove1 e (Q k))) i)" if i: "i \<in> I" for i
    using rep_distinct [OF family_rep [OF f k]] family_disjoint [OF f k i] e
    by (cases "i = k") auto
  then show ?thesis by (simp add: fresh_def)
qed

end

lemma dlist_frame_disj:
  assumes "dlist h k ys" and "\<And>a. a \<notin> A \<Longrightarrow> h' a = h a" and "A \<inter> (sentinels k \<union> set ys) = {}"
  shows "dlist h' k ys"
proof -
  have "h' a = h a" if "a \<in> sentinels k \<union> set ys" for a
    using that assms(2,3) by blast
  then have "dlist h' k ys = dlist h k ys" by (rule dlist_frame)
  with assms(1) show ?thesis by blast
qed

interpretation dl: seq_store
  "\<lambda>s :: 'a lstate_scheme. dlist (nodes s)" sentinels list_push_back list_push_front list_remove
  list_first_elem list_empty
proof unfold_locales
  fix s :: "'a lstate_scheme" and l k e :: addr and xs ys :: "addr list"
  assume l: "dlist (nodes s) l xs" and k: "dlist (nodes s) k ys"
  show "dlist (nodes (list_push_back l e s)) k ys"
    if "insert e (sentinels l \<union> set xs) \<inter> (sentinels k \<union> set ys) = {}"
    using k push_back_other [OF l] that by (rule dlist_frame_disj)
  show "dlist (nodes (list_push_front l e s)) k ys"
    if "insert e (sentinels l \<union> set xs) \<inter> (sentinels k \<union> set ys) = {}"
    using k push_front_other [OF l] that by (rule dlist_frame_disj)
  show "dlist (nodes (list_remove e s)) k ys"
    if "e \<in> set xs" "(sentinels l \<union> set xs) \<inter> (sentinels k \<union> set ys) = {}"
    using k remove_other [OF l that(1)] that(2) by (rule dlist_frame_disj)
qed (erule dlist_distinct, erule (1) dlist_push_back, erule (1) dlist_push_front,
  erule (1) dlist_remove, erule dlist_first, erule dlist_empty)

section \<open>Properties\<close>



text \<open>
  Lists do not interfere: in a family of lists with disjoint nodes, inserting a node that
  is in none of them and removing a member change the contents of that list only.
\<close>

theorem lists_do_not_interfere:
  assumes "dl.family s L I Q" and "k \<in> I" and "dl.fresh L I Q e" and "x \<in> set (Q k)"
  shows "dl.family (list_push_back (L k) e s) L I (Q(k := Q k @ [e]))
    \<and> dl.family (list_push_front (L k) e s) L I (Q(k := e # Q k))
    \<and> dl.family (list_remove x s) L I (Q(k := remove1 x (Q k)))"
  using assms by (simp add: dl.family_push_back dl.family_push_front dl.family_remove)

theorem lists_do_not_interfere_witness:
  "\<exists>s :: lstate. dl.family s (\<lambda>i :: nat. if i = 0 then 100 else 200) {0, 1} (\<lambda>i. if i = 0 then [300] else [])
    \<and> dl.family (list_push_back 200 400 s) (\<lambda>i :: nat. if i = 0 then 100 else 200) {0, 1}
        ((\<lambda>i. if i = 0 then [300] else [])(1 := [400]))"
proof -
  let ?z = "\<lparr>eflags = 0, crt_index = 0, crt_regs = \<lambda>_. 0, in_ports = \<lambda>_. 0, out_log = [],
      video = \<lambda>_. 0, nodes = \<lambda>_. \<lparr>prev = 0, nxt = 0\<rparr>\<rparr> :: lstate"
  let ?s = "list_push_back 100 300 (list_init 200 (list_init 100 ?z))"
  let ?L = "\<lambda>i :: nat. if i = 0 then 100 else 200 :: addr" and ?Q = "\<lambda>i :: nat. if i = 0 then [300] else [] :: addr list"
  have "dl.family ?s ?L {0, 1} ?Q"
    by (simp add: dl.family_def sentinels_def list_tail_def dlist_def list_push_back_def
      list_insert_before_heap h_insert_def list_init_def set_prev_def set_next_def Let_def)
  moreover have "dl.fresh ?L {0, 1} ?Q 400" "dl.fresh ?L {0, 1} ?Q 500"
    by (simp_all add: dl.fresh_def sentinels_def list_tail_def)
  ultimately have "dl.family (list_push_back (?L 1) 400 ?s) ?L {0, 1} (?Q(1 := ?Q 1 @ [400]))"
    using dl.family_push_back [of ?s ?L "{0, 1}" ?Q 1 400] by simp
  moreover have "dl.family (list_remove 300 ?s) ?L {0, 1} (?Q(0 := remove1 300 (?Q 0)))"
    using lists_do_not_interfere [of ?s ?L "{0, 1}" ?Q 0 500 300]
      \<open>dl.family ?s ?L {0, 1} ?Q\<close> \<open>dl.fresh ?L {0, 1} ?Q 500\<close> by simp
  ultimately show ?thesis using \<open>dl.family ?s ?L {0, 1} ?Q\<close> by (intro exI [of _ ?s]) simp
qed

end
