(* ===== verification/Kernel_State.thy ===== *)
theory Kernel_State
  imports Bitmap Dlist_C
begin

text \<open>
  The structures of the kernel and where they are in memory. A \<^verbatim>\<open>struct\<close> becomes a
  record; the list nodes and semaphores embedded in a \<^verbatim>\<open>struct\<close> are reached by their
  address (the address of the struct plus the field's offset in the i386 layout), as the code
  does. The addresses of the global objects are those of \<^verbatim>\<open>src/build/kernel.map\<close>.
  Objects of different C types are kept in different heaps (list nodes, thread control blocks,
  semaphores, bitmap bytes, page-table words): memory is not reinterpreted across types.
\<close>

section \<open>Threads (\<^verbatim>\<open>src/thread/thread.h\<close>)\<close>

datatype task_status =
    TASK_RUNNING
  | TASK_READY
  | TASK_BLOCKED
  | TASK_WAITING
  | TASK_HANGING
  | TASK_DIED

definition MAX_THREAD_NUM :: nat where
  "MAX_THREAD_NUM = 128"

definition PRIO_NUM :: u32 where
  "PRIO_NUM = 32"

definition PG_SIZE :: u32 where
  "PG_SIZE = 4096"

text \<open>\<^verbatim>\<open>struct pool\<close> of \<^verbatim>\<open>src/kernel/memory.h\<close>; its mutex is reached by address.\<close>

record pool =
  btmp :: bitmap
  addr_base :: u32
  pool_size :: u32

datatype pool_flags = PF_KERNEL | PF_USER

record tcb =
  tcb_stack_top :: addr
  tcb_pid :: u16
  tcb_status :: task_status
  tcb_priority :: u8
  tcb_name :: "u8 list"
  tcb_ticks :: u32
  tcb_elapsed_ticks :: u32
  tcb_pg_dir :: addr
  tcb_user_vaddr_pool :: pool
  tcb_stack_magic :: u32

text \<open>Offsets of the embedded list nodes: \<^verbatim>\<open>OFFSET(tcb, ready_tag)\<close> and so on.\<close>

definition ready_tag :: "addr \<Rightarrow> addr" where
  "ready_tag t = t + 40"

definition pend_tag :: "addr \<Rightarrow> addr" where
  "pend_tag t = t + 48"

definition all_list_tag :: "addr \<Rightarrow> addr" where
  "all_list_tag t = t + 56"

text \<open>\<^verbatim>\<open>ELEM2ENTRY(tcb, ready_tag, e)\<close> and \<^verbatim>\<open>ELEM2ENTRY(tcb, pend_tag, e)\<close>.\<close>

definition ready_entry :: "addr \<Rightarrow> addr" where
  "ready_entry e = e - 40"

definition pend_entry :: "addr \<Rightarrow> addr" where
  "pend_entry e = e - 48"

lemma entry_tag [simp]: "ready_entry (ready_tag t) = t" "pend_entry (pend_tag t) = t"
  by (simp_all add: ready_entry_def ready_tag_def pend_entry_def pend_tag_def)

lemma tag_inj [simp]:
  "ready_tag t = ready_tag u \<longleftrightarrow> t = u"
  "pend_tag t = pend_tag u \<longleftrightarrow> t = u"
  "all_list_tag t = all_list_tag u \<longleftrightarrow> t = u"
  by (simp_all add: ready_tag_def pend_tag_def all_list_tag_def)

text \<open>\<^verbatim>\<open>struct scheduler\<close>; the run queues, the list of all threads and the pid mutex are
  reached by address.\<close>

record scheduler =
  sch_running_thread :: addr
  sch_need_schedule :: bool
  sch_idle_thread :: addr
  sch_thread_table :: "addr list"
  sch_rq_mask :: bitmap

definition scheduler_addr :: addr where
  "scheduler_addr = 0xc0007a40"

definition THIS_RQ :: "u32 \<Rightarrow> addr" where
  "THIS_RQ prio = scheduler_addr + 536 + 16 * prio"

definition all_list :: addr where
  "all_list = scheduler_addr + 1048"

definition pid_mtx :: addr where
  "pid_mtx = scheduler_addr + 1064"

section \<open>Semaphores and mutexes (\<^verbatim>\<open>src/thread/sync.h\<close>)\<close>

text \<open>The semaphore of the mutex at \<open>m\<close>, and the waiter list of the semaphore at \<open>sem\<close>.\<close>

definition mtx_sem :: "addr \<Rightarrow> addr" where
  "mtx_sem m = m + 4"

definition waiters :: "addr \<Rightarrow> addr" where
  "waiters sem = sem + 4"

section \<open>The task state segment (\<^verbatim>\<open>src/user/tss.c\<close>)\<close>

record tss =
  seg_backlink :: u32
  seg_esp0 :: addr
  seg_ss0 :: u32
  seg_esp1 :: addr
  seg_ss1 :: u32
  seg_esp2 :: addr
  seg_ss2 :: u32
  seg_cr3 :: u32
  seg_eip :: u32
  seg_eflags :: u32
  seg_eax :: u32
  seg_ecx :: u32
  seg_edx :: u32
  seg_ebx :: u32
  seg_esp :: u32
  seg_ebp :: u32
  seg_esi :: u32
  seg_edi :: u32
  seg_es :: u32
  seg_cs :: u32
  seg_ss :: u32
  seg_ds :: u32
  seg_fs :: u32
  seg_gs :: u32
  seg_ldt :: u32
  seg_trace :: u32
  seg_io_base :: u32

section \<open>The kernel state\<close>

text \<open>
  \<open>mem\<close> holds the bytes of the bitmaps, \<open>phys\<close> the physical memory of page
  directories and page tables as double words, \<open>cr3\<close> the page directory base register.
  \<open>sem_val\<close> and \<open>mtx_holder\<close> are the fields of semaphores and mutexes by address.
\<close>

record kstate = lstate +
  mem :: memory
  phys :: "u32 \<Rightarrow> u32"
  cr3 :: u32
  tcbs :: "addr \<Rightarrow> tcb"
  sem_val :: "addr \<Rightarrow> u8"
  mtx_holder :: "addr \<Rightarrow> addr"
  sched :: scheduler
  kernel_phy_pool :: pool
  user_phy_pool :: pool
  kernel_vir_pool :: pool
  tss_seg :: tss

definition kernel_phy_pool_mtx :: addr where
  "kernel_phy_pool_mtx = 0xc0007e80 + 20"

definition user_phy_pool_mtx :: addr where
  "user_phy_pool_mtx = 0xc0007ec0 + 20"

definition console_mutex :: addr where
  "console_mutex = 0xc000798c"

definition kbd_buf :: addr where
  "kbd_buf = 0xc0007f40"

abbreviation RUNNING_THREAD :: "'a kstate_scheme \<Rightarrow> addr" where
  "RUNNING_THREAD s \<equiv> sch_running_thread (sched s)"

abbreviation RQ_MASK_BITMAP :: "'a kstate_scheme \<Rightarrow> bitmap" where
  "RQ_MASK_BITMAP s \<equiv> sch_rq_mask (sched s)"

definition need_schedule :: "'a kstate_scheme \<Rightarrow> bool" where
  "need_schedule s = sch_need_schedule (sched s)"

definition set_need_schedule :: "bool \<Rightarrow> 'a kstate_scheme \<Rightarrow> 'a kstate_scheme" where
  "set_need_schedule b s = s\<lparr>sched := (sched s)\<lparr>sch_need_schedule := b\<rparr>\<rparr>"

definition set_running_thread :: "addr \<Rightarrow> 'a kstate_scheme \<Rightarrow> 'a kstate_scheme" where
  "set_running_thread t s = s\<lparr>sched := (sched s)\<lparr>sch_running_thread := t\<rparr>\<rparr>"

definition upd_tcb :: "addr \<Rightarrow> (tcb \<Rightarrow> tcb) \<Rightarrow> 'a kstate_scheme \<Rightarrow> 'a kstate_scheme" where
  "upd_tcb t f s = s\<lparr>tcbs := (tcbs s)(t := f (tcbs s t))\<rparr>"

definition ticks_get :: "u32 \<Rightarrow> u32" where
  "ticks_get prio = prio div 3 + 1"

end
