(* ===== verification/Paging.thy ===== *)
theory Paging
  imports Kernel_State
begin

text \<open>
  The two-level i386 page walk and the page-table part of \<^verbatim>\<open>src/kernel/memory.c\<close>:
  the kernel reaches page directory and page tables through the last directory entry, which
  points at the directory itself. \<open>walk\<close> is the documented translation of the processor;
  \<open>pte_vaddr_get\<close>, \<open>pde_vaddr_get\<close> and \<open>addr_v2p\<close> are the kernel's.
  Translation caches are not modelled: the code only ever turns absent entries into present ones.
\<close>

section \<open>Address translation\<close>

definition PDE_IDX :: "u32 \<Rightarrow> u32" where
  "PDE_IDX addr = drop_bit 22 (addr AND 0xffc00000)"

definition PTE_IDX :: "u32 \<Rightarrow> u32" where
  "PTE_IDX addr = drop_bit 12 (addr AND 0x003ff000)"

definition frame_of :: "u32 \<Rightarrow> u32" where
  "frame_of e = e AND 0xfffff000"

definition walk :: "(u32 \<Rightarrow> u32) \<Rightarrow> u32 \<Rightarrow> addr \<Rightarrow> u32 option" where
  "walk ph dir va =
     (let pde = ph (frame_of dir + PDE_IDX va * 4)
      in if pde AND 1 = 0 then None
         else let pte = ph (frame_of pde + PTE_IDX va * 4)
              in if pte AND 1 = 0 then None else Some (frame_of pte + (va AND 0xfff)))"

text \<open>Loads and stores of double words at virtual addresses.\<close>

definition vload :: "addr \<Rightarrow> 'a kstate_scheme \<Rightarrow> 'a kstate_scheme halt + u32" where
  "vload va s =
     (case walk (phys s) (cr3 s) va of
        None \<Rightarrow> Inl (Page_fault va)
      | Some pa \<Rightarrow> Inr (phys s pa))"

definition vstore :: "addr \<Rightarrow> u32 \<Rightarrow> 'a kstate_scheme \<Rightarrow> 'a kstate_scheme halt + 'a kstate_scheme" where
  "vstore va w s =
     (case walk (phys s) (cr3 s) va of
        None \<Rightarrow> Inl (Page_fault va)
      | Some pa \<Rightarrow> Inr (s\<lparr>phys := (phys s)(pa := w)\<rparr>))"

text \<open>Clearing the page at a page-aligned virtual address.\<close>

definition vclear_page :: "addr \<Rightarrow> 'a kstate_scheme \<Rightarrow> 'a kstate_scheme halt + 'a kstate_scheme" where
  "vclear_page va s =
     (case walk (phys s) (cr3 s) va of
        None \<Rightarrow> Inl (Page_fault va)
      | Some pa \<Rightarrow> Inr (s\<lparr>phys := (\<lambda>a. if a - pa < PG_SIZE then 0 else phys s a)\<rparr>))"

section \<open>The kernel's view of the tables\<close>

definition pte_vaddr_get :: "addr \<Rightarrow> addr" where
  "pte_vaddr_get vaddr =
     0xffc00000 + drop_bit 10 (vaddr AND 0xffc00000) + PTE_IDX vaddr * 4"

definition pde_vaddr_get :: "addr \<Rightarrow> addr" where
  "pde_vaddr_get vaddr = 0xfffff000 + PDE_IDX vaddr * 4"

definition addr_v2p :: "addr \<Rightarrow> 'a kstate_scheme \<Rightarrow> 'a kstate_scheme halt + u32" where
  "addr_v2p vaddr s =
     and_then (vload (pte_vaddr_get vaddr) s) (\<lambda>pte.
       Inr ((pte AND 0xfffff000) + (vaddr AND 0xfff)))"

section \<open>Index arithmetic\<close>

lemma mask_dir: "(0xffc00000 :: u32) = push_bit 22 (mask 10)"
  and mask_tab: "(0x003ff000 :: u32) = push_bit 12 (mask 10)"
  and mask_frame: "(0xfffff000 :: u32) = push_bit 12 (mask 20)"
  and mask_off: "(0xfff :: u32) = mask 12"
  by (simp_all add: mask_eq_exp_minus_1 push_bit_eq_mult)

lemma PDE_IDX_drop: "PDE_IDX w = drop_bit 22 w"
  unfolding PDE_IDX_def mask_dir
  by (rule bit_word_eqI) (auto simp: bit_simps dest: bit_imp_le_length)

lemma PTE_IDX_take: "PTE_IDX w = take_bit 10 (drop_bit 12 w)"
  unfolding PTE_IDX_def mask_tab by (rule bit_word_eqI) (auto simp: bit_simps)

lemma unat_PDE_IDX: "unat (PDE_IDX w) = unat w div 4194304"
  by (simp add: PDE_IDX_drop drop_bit_eq_div unat_div)

lemma unat_take_bit: "unat (take_bit n (w :: u32)) = unat w mod 2 ^ n"
  by (subst unsigned_take_bit_eq) (rule take_bit_eq_mod)

lemma unat_PTE_IDX: "unat (PTE_IDX w) = unat w div 4096 mod 1024"
  by (simp add: PTE_IDX_take drop_bit_eq_div unat_div unat_take_bit)

lemma PDE_IDX_less: "unat (PDE_IDX w) < 1024"
  using unat_lt_2p32 [of w] by (simp add: unat_PDE_IDX)

lemma PTE_IDX_less: "unat (PTE_IDX w) < 1024"
  by (simp add: unat_PTE_IDX)

lemma unat_off: "unat (w AND 0xfff) = unat (w :: u32) mod 4096"
  unfolding mask_off by (simp add: take_bit_eq_mask [symmetric] unat_take_bit)

lemma frame_and_off: "frame_of w + (w AND 0xfff) = w"
proof -
  have "frame_of w + (w AND 0xfff) = frame_of w OR (w AND 0xfff)"
    unfolding frame_of_def mask_frame mask_off
    by (rule disjunctive_add) (auto simp: bit_simps)
  also have "\<dots> = w"
    unfolding frame_of_def mask_frame mask_off
    by (rule bit_word_eqI) (auto simp: bit_simps)
  finally show ?thesis .
qed

lemma frame_of_idem [simp]: "frame_of (frame_of w) = frame_of w"
  by (simp add: frame_of_def)

section \<open>The self-mapped window\<close>

text \<open>
  The double word \<open>j\<close> of page \<open>i\<close> of the top 4 MB. Through a self-mapped directory this
  page is the table of directory entry \<open>i\<close>, and the last page is the directory itself.
\<close>

definition window :: "u32 \<Rightarrow> u32 \<Rightarrow> addr" where
  "window i j = 0xffc00000 + i * 4096 + j * 4"

lemma unat_window:
  assumes "unat i < 1024" and "unat j < 1024"
  shows "unat (window i j) = 4290772992 + unat i * 4096 + unat j * 4"
  using assms by (simp add: window_def unat_word_ariths)

lemma window_idx:
  assumes "unat i < 1024" and "unat j < 1024"
  shows "PDE_IDX (window i j) = 1023" and "PTE_IDX (window i j) = i"
    and "window i j AND 0xfff = j * 4"
proof -
  note u = unat_window [OF assms]
  have "unat (PDE_IDX (window i j)) = 1023"
    unfolding unat_PDE_IDX u using assms by simp
  then show "PDE_IDX (window i j) = 1023" by (simp add: unat_eq_iff [symmetric])
  have "(4290772992 + unat i * 4096 + unat j * 4) div 4096 = 1047552 + unat i"
    using assms by simp
  moreover have "(1047552 + unat i) mod 1024 = unat i"
    by (subst mod_add_left_eq [symmetric]) (use assms in simp)
  ultimately have "unat (PTE_IDX (window i j)) = unat i"
    unfolding unat_PTE_IDX u by simp
  then show "PTE_IDX (window i j) = i" by (simp add: unat_eq_iff [symmetric])
  have "4290772992 + unat i * 4096 + unat j * 4 = unat j * 4 + 4096 * (1047552 + unat i)"
    by simp
  then have "(4290772992 + unat i * 4096 + unat j * 4) mod 4096 = unat j * 4"
    using assms by (simp only: mod_mult_self2) simp
  then have "unat (window i j AND 0xfff) = unat (j * 4)"
    unfolding unat_off u using assms by (simp add: unat_word_ariths)
  then show "window i j AND 0xfff = j * 4" by (simp only: unat_eq_iff)
qed

lemma pte_vaddr_window: "pte_vaddr_get va = window (PDE_IDX va) (PTE_IDX va)"
proof -
  have "drop_bit 10 (va AND 0xffc00000) = push_bit 12 (PDE_IDX va)"
    unfolding PDE_IDX_def mask_dir by (rule bit_word_eqI) (auto simp: bit_simps)
  then show ?thesis by (simp add: pte_vaddr_get_def window_def push_bit_eq_mult)
qed

lemma pde_vaddr_window: "pde_vaddr_get va = window 1023 (PDE_IDX va)"
  by (simp add: pde_vaddr_get_def window_def)

definition selfmap :: "(u32 \<Rightarrow> u32) \<Rightarrow> u32 \<Rightarrow> bool" where
  "selfmap ph dir \<longleftrightarrow>
     ph (frame_of dir + 1023 * 4) AND 1 \<noteq> 0 \<and> frame_of (ph (frame_of dir + 1023 * 4)) = frame_of dir"

definition pde_slot :: "u32 \<Rightarrow> addr \<Rightarrow> u32" where
  "pde_slot dir va = frame_of dir + PDE_IDX va * 4"

definition pte_slot :: "(u32 \<Rightarrow> u32) \<Rightarrow> u32 \<Rightarrow> addr \<Rightarrow> u32" where
  "pte_slot ph dir va = frame_of (ph (pde_slot dir va)) + PTE_IDX va * 4"

lemma walk_slots:
  "walk ph dir va =
     (if ph (pde_slot dir va) AND 1 = 0 \<or> ph (pte_slot ph dir va) AND 1 = 0 then None
      else Some (frame_of (ph (pte_slot ph dir va)) + (va AND 0xfff)))"
  by (simp add: walk_def pde_slot_def pte_slot_def Let_def)

lemma walk_window:
  assumes self: "selfmap ph dir" and i: "unat i < 1024" and j: "unat j < 1024"
  shows "walk ph dir (window i j) =
     (if ph (frame_of dir + i * 4) AND 1 = 0 then None
      else Some (frame_of (ph (frame_of dir + i * 4)) + j * 4))"
  using self unfolding walk_def window_idx [OF i j] selfmap_def by (simp add: Let_def)

text \<open>What the two address computations reach: the directory slot and the table slot.\<close>

lemma walk_pde_vaddr:
  assumes "selfmap ph dir"
  shows "walk ph dir (pde_vaddr_get va) = Some (pde_slot dir va)"
  using assms walk_window [OF assms, of 1023 "PDE_IDX va"] PDE_IDX_less [of va]
  by (simp add: pde_vaddr_window selfmap_def pde_slot_def)

lemma walk_pte_vaddr:
  assumes "selfmap ph dir"
  shows "walk ph dir (pte_vaddr_get va) =
    (if ph (pde_slot dir va) AND 1 = 0 then None else Some (pte_slot ph dir va))"
  using walk_window [OF assms, of "PDE_IDX va" "PTE_IDX va"] PDE_IDX_less PTE_IDX_less
  by (simp add: pte_vaddr_window pde_slot_def pte_slot_def)

text \<open>
  \<^verbatim>\<open>addr_v2p\<close> computes the processor's translation of every mapped address, and
  faults iff the address has no page table at all.
\<close>

lemma addr_v2p_walk:
  assumes "selfmap (phys s) (cr3 s)" and "walk (phys s) (cr3 s) va = Some pa"
  shows "addr_v2p va s = Inr pa"
  using assms
  by (simp add: addr_v2p_def vload_def walk_pte_vaddr walk_slots [of _ _ va] frame_of_def
    split: if_splits)

lemma addr_v2p_fault:
  assumes "selfmap (phys s) (cr3 s)"
  shows "addr_v2p va s = Inl (Page_fault (pte_vaddr_get va)) \<longleftrightarrow>
    phys s (pde_slot (cr3 s) va) AND 1 = 0"
  using assms by (simp add: addr_v2p_def vload_def walk_pte_vaddr)

end
