(* ===== verification/Sched.thy ===== *)
theory Sched
  imports Paging
begin

text \<open>
  The priority scheduler of \<^verbatim>\<open>src/thread/thread.c\<close> (run queues, blocking, unblocking,
  \<open>schedule\<close> and \<open>main_schedule\<close>) and the address-space switch it performs
  (\<^verbatim>\<open>page_dir_activate\<close> and \<^verbatim>\<open>process_activate\<close> of
  \<^verbatim>\<open>src/user/process.c\<close>, \<^verbatim>\<open>tss_esp0_update\<close> of \<^verbatim>\<open>src/user/tss.c\<close>).
  Registers and stacks are saved and restored by \<^verbatim>\<open>src/thread/switch.s\<close>; here the result
  of \<open>main_schedule\<close> is the state in which the chosen thread goes on. \<open>Sched_View\<close>
  relates the queues in memory to sequences of threads and \<open>Sched_Inv\<close> proves the operations
  correct on them.
\<close>

section \<open>Activating an address space\<close>

definition KERNEL_PAGE_DIR_BASE_ADDR :: u32 where
  "KERNEL_PAGE_DIR_BASE_ADDR = 0x100000"

definition page_dir_activate :: "addr \<Rightarrow> 'a kstate_scheme \<Rightarrow> 'a kstate_scheme halt + 'a kstate_scheme" where
  "page_dir_activate thread s =
     and_then
       (if tcb_pg_dir (tcbs s thread) \<noteq> NULL
        then addr_v2p (tcb_pg_dir (tcbs s thread)) s
        else Inr KERNEL_PAGE_DIR_BASE_ADDR)
       (\<lambda>page_dir_phy_addr. Inr (s\<lparr>cr3 := page_dir_phy_addr\<rparr>))"

definition tss_esp0_update :: "addr \<Rightarrow> 'a kstate_scheme \<Rightarrow> 'a kstate_scheme" where
  "tss_esp0_update thread s = s\<lparr>tss_seg := (tss_seg s)\<lparr>seg_esp0 := thread + PG_SIZE\<rparr>\<rparr>"

definition process_activate :: "addr \<Rightarrow> 'a kstate_scheme \<Rightarrow> 'a kstate_scheme halt + 'a kstate_scheme" where
  "process_activate thread s =
     and_then (page_dir_activate thread s) (\<lambda>s.
       Inr (if tcb_pg_dir (tcbs s thread) \<noteq> NULL then tss_esp0_update thread s else s))"

section \<open>Run queues\<close>

definition prio_of :: "addr \<Rightarrow> 'a kstate_scheme \<Rightarrow> u32" where
  "prio_of t s = ucast (tcb_priority (tcbs s t))"

definition scheduler_rq_join_only :: "addr \<Rightarrow> 'a kstate_scheme \<Rightarrow> 'a kstate_scheme" where
  "scheduler_rq_join_only thread s =
     (let prio = prio_of thread s;
          s = list_push_back (THIS_RQ prio) (ready_tag thread) s
      in s\<lparr>mem := bitmap_set (RQ_MASK_BITMAP s) prio (mem s)\<rparr>)"

definition scheduler_rq_join :: "addr \<Rightarrow> 'a kstate_scheme \<Rightarrow> 'a kstate_scheme" where
  "scheduler_rq_join thread s =
     (let s = scheduler_rq_join_only thread s
      in if tcb_priority (tcbs s (RUNNING_THREAD s)) > tcb_priority (tcbs s thread)
         then set_need_schedule True s else s)"

definition scheduler_rq_jump_only :: "addr \<Rightarrow> 'a kstate_scheme \<Rightarrow> 'a kstate_scheme" where
  "scheduler_rq_jump_only thread s =
     (let prio = prio_of thread s;
          s = list_push_front (THIS_RQ prio) (ready_tag thread) s
      in s\<lparr>mem := bitmap_set (RQ_MASK_BITMAP s) prio (mem s)\<rparr>)"

definition scheduler_rq_jump :: "addr \<Rightarrow> 'a kstate_scheme \<Rightarrow> 'a kstate_scheme" where
  "scheduler_rq_jump thread s =
     (let s = scheduler_rq_jump_only thread s
      in if tcb_priority (tcbs s (RUNNING_THREAD s)) > tcb_priority (tcbs s thread)
         then set_need_schedule True s else s)"

definition scheduler_rq_leave_only :: "addr \<Rightarrow> 'a kstate_scheme \<Rightarrow> 'a kstate_scheme" where
  "scheduler_rq_leave_only thread s =
     (let prio = prio_of thread s;
          s = list_remove (ready_tag thread) s
      in if list_empty (THIS_RQ prio) s
         then s\<lparr>mem := bitmap_clear (RQ_MASK_BITMAP s) prio (mem s)\<rparr> else s)"

definition scheduler_rq_leave :: "addr \<Rightarrow> 'a kstate_scheme \<Rightarrow> 'a kstate_scheme" where
  "scheduler_rq_leave thread s =
     (let s = scheduler_rq_leave_only thread s
      in if thread = RUNNING_THREAD s then set_need_schedule True s else s)"

section \<open>Choosing the next thread\<close>

text \<open>\<^verbatim>\<open>uint8_t\<close> arithmetic is done in \<^verbatim>\<open>int\<close> and cut back to eight bits.\<close>

definition thread_prio_change :: "addr \<Rightarrow> 'a kstate_scheme \<Rightarrow> 'a kstate_scheme" where
  "thread_prio_change thread s =
     upd_tcb thread (\<lambda>t. t\<lparr>tcb_priority := ucast ((ucast (tcb_priority t) + 1 :: u32) mod PRIO_NUM)\<rparr>) s"

definition highest_rq_get :: "'a kstate_scheme \<Rightarrow> u32" where
  "highest_rq_get s = bitmap_scan (RQ_MASK_BITMAP s) 1 1 (mem s)"

definition next_thread_pick :: "'a kstate_scheme \<Rightarrow> addr" where
  "next_thread_pick s =
     (let prio = highest_rq_get s;
          next_tag = list_first_elem (THIS_RQ prio) s
      in ready_entry next_tag)"

definition requeue_running :: "addr \<Rightarrow> 'a kstate_scheme \<Rightarrow> 'a kstate_scheme" where
  "requeue_running cur s =
     (let s = scheduler_rq_leave_only cur s;
          s = thread_prio_change cur s;
          s = scheduler_rq_join_only cur s;
          s = upd_tcb cur (\<lambda>t. t\<lparr>tcb_ticks := ticks_get (ucast (tcb_priority t))\<rparr>) s
      in upd_tcb cur (\<lambda>t. t\<lparr>tcb_status := TASK_READY\<rparr>) s)"

definition main_schedule :: "'a kstate_scheme \<Rightarrow> 'a kstate_scheme halt + 'a kstate_scheme" where
  "main_schedule s =
     (let cur = RUNNING_THREAD s
      in if need_schedule s then
           let s = set_need_schedule False s;
               s = (if tcb_status (tcbs s cur) = TASK_RUNNING then requeue_running cur s else s);
               nxt_thread = next_thread_pick s;
               s = upd_tcb nxt_thread (\<lambda>t. t\<lparr>tcb_status := TASK_RUNNING\<rparr>) s;
               s = set_running_thread nxt_thread s
           in process_activate nxt_thread s
         else Inr s)"

text \<open>
  \<open>schedule\<close> returns to its caller at once when there is nothing to do or when the
  scheduler picks the calling thread again; otherwise the caller is suspended inside it.
\<close>

definition schedule :: "'a kstate_scheme \<Rightarrow> 'a kstate_scheme halt + 'a kstate_scheme" where
  "schedule s =
     (if \<not> need_schedule s then Inr s
      else and_then (main_schedule s) (\<lambda>s'.
        if RUNNING_THREAD s' = RUNNING_THREAD s then Inr s' else Inl (Suspended s')))"

section \<open>Blocking and unblocking\<close>

definition block_status :: "task_status \<Rightarrow> bool" where
  "block_status st \<longleftrightarrow> st = TASK_BLOCKED \<or> st = TASK_WAITING \<or> st = TASK_HANGING"

definition thread_block ::
    "task_status \<Rightarrow> 'a kstate_scheme \<Rightarrow> 'a kstate_scheme halt + 'a kstate_scheme" where
  "thread_block tsk_status s =
     (ASSERT (block_status tsk_status) ''tsk_status == TASK_BLOCKED || TASK_WAITING || TASK_HANGING''
       (let (int_save, s) = intr_disable s;
            s = upd_tcb (RUNNING_THREAD s) (\<lambda>t. t\<lparr>tcb_status := tsk_status\<rparr>) s;
            s = scheduler_rq_leave (RUNNING_THREAD s) s
        in and_then (schedule s) (\<lambda>s. Inr (snd (intr_set_status int_save s)))))"

definition thread_unblock :: "addr \<Rightarrow> 'a kstate_scheme \<Rightarrow> 'a kstate_scheme halt + 'a kstate_scheme" where
  "thread_unblock thread s =
     (ASSERT (block_status (tcb_status (tcbs s thread))) ''thread->status == TASK_BLOCKED || TASK_WAITING || TASK_HANGING''
       (let (int_save, s) = intr_disable s;
            s = upd_tcb thread (\<lambda>t. t\<lparr>tcb_status := TASK_READY\<rparr>) s;
            s = scheduler_rq_jump thread s
        in Inr (snd (intr_set_status int_save s))))"

end
