(* ===== verification/Sched_View.thy ===== *)
theory Sched_View
  imports Sched
begin

text \<open>
  The queues of the kernel as sequences of threads. A \<open>kview\<close> gives, for every priority,
  the threads of its run queue, for every semaphore its waiting threads, and the list of all
  threads; \<open>rq_inv s v\<close> says that the lists in memory, the run-queue mask and the priorities
  of the queued threads agree with the view \<open>v\<close>. Each run-queue operation of the code is
  shown to be the corresponding operation on the view.
\<close>

section \<open>Aligned control blocks\<close>

definition aligned :: "addr \<Rightarrow> bool" where
  "aligned t \<longleftrightarrow> t AND 0xfff = 0"

lemma unat_aligned_add:
  assumes "aligned t" and "unat k < 4096"
  shows "unat (t + k) = unat t + unat k"
proof -
  have z: "unat t mod 4096 = 0"
    using assms(1) unat_off [of t] by (simp add: aligned_def)
  have "4294967296 = 4096 * (1048576 :: nat)" by simp
  then have "unat t + 4096 \<le> 4294967296"
    using z unat_lt_2p32 [of t] by (metis add_mult_distrib2 dvd_imp_le dvd_eq_mod_eq_0
      less_imp_add_positive add_le_cancel_left dvd_add_right_iff dvd_triv_left)
  with assms(2) show ?thesis by (simp add: unat_word_ariths)
qed

lemma aligned_add:
  assumes "aligned t" and "unat k < 4096"
  shows "(t + k) AND 0xfff = k" and "frame_of (t + k) = t"
proof -
  have "unat ((t + k) AND 0xfff) = unat k"
    using assms unat_off [of t] by (simp add: unat_off unat_aligned_add aligned_def mod_add_left_eq [symmetric])
  then show o: "(t + k) AND 0xfff = k" by (simp only: unat_eq_iff)
  have "frame_of (t + k) + k = t + k" using frame_and_off [of "t + k"] o by simp
  then show "frame_of (t + k) = t" by simp
qed

lemma tag_frame:
  assumes "aligned t"
  shows "frame_of (ready_tag t) = t" "frame_of (pend_tag t) = t" "frame_of (all_list_tag t) = t"
    and "ready_tag t AND 0xfff = 40" "pend_tag t AND 0xfff = 48" "all_list_tag t AND 0xfff = 56"
  using assms by (simp_all add: aligned_add ready_tag_def pend_tag_def all_list_tag_def)

lemma tags_differ:
  assumes "aligned t" and "aligned u"
  shows "ready_tag t \<noteq> pend_tag u" "ready_tag t \<noteq> all_list_tag u" "pend_tag t \<noteq> all_list_tag u"
  using tag_frame(4-6) [OF assms(1)] tag_frame(4-6) [OF assms(2)] by force+

section \<open>Views\<close>

datatype klist = RQ u32 | WQ addr | EVERY

fun klist_addr :: "klist \<Rightarrow> addr" where
  "klist_addr (RQ p) = THIS_RQ p"
| "klist_addr (WQ sem) = waiters sem"
| "klist_addr EVERY = all_list"

record kview =
  vq :: "u32 \<Rightarrow> addr list"
  vw :: "addr \<Rightarrow> addr list"
  va :: "addr list"
  vt :: "addr set"
  vs :: "addr set"

fun contents :: "kview \<Rightarrow> klist \<Rightarrow> addr list" where
  "contents v (RQ p) = map ready_tag (vq v p)"
| "contents v (WQ sem) = map pend_tag (vw v sem)"
| "contents v EVERY = map all_list_tag (va v)"

definition kidx :: "kview \<Rightarrow> klist set" where
  "kidx v = RQ ` {p. p < PRIO_NUM} \<union> WQ ` vs v \<union> {EVERY}"

definition queued :: "kview \<Rightarrow> addr set" where
  "queued v = (\<Union>p\<in>{p. p < PRIO_NUM}. set (vq v p))"

definition waiting :: "kview \<Rightarrow> addr set" where
  "waiting v = (\<Union>sem\<in>vs v. set (vw v sem))"

definition set_q :: "u32 \<Rightarrow> addr list \<Rightarrow> kview \<Rightarrow> kview" where
  "set_q p q v = v\<lparr>vq := (vq v)(p := q)\<rparr>"

definition set_w :: "addr \<Rightarrow> addr list \<Rightarrow> kview \<Rightarrow> kview" where
  "set_w sem w v = v\<lparr>vw := (vw v)(sem := w)\<rparr>"

lemma set_q_sel [simp]:
  "vq (set_q p q v) = (vq v)(p := q)" "vw (set_q p q v) = vw v" "va (set_q p q v) = va v"
  "vt (set_q p q v) = vt v" "vs (set_q p q v) = vs v" "kidx (set_q p q v) = kidx v"
  by (simp_all add: set_q_def kidx_def)

lemma set_w_sel [simp]:
  "vq (set_w m w v) = vq v" "vw (set_w m w v) = (vw v)(m := w)" "va (set_w m w v) = va v"
  "vt (set_w m w v) = vt v" "vs (set_w m w v) = vs v" "kidx (set_w m w v) = kidx v"
  by (simp_all add: set_w_def kidx_def)

lemma contents_set_q: "contents (set_q p q v) = (contents v)(RQ p := map ready_tag q)"
proof
  show "contents (set_q p q v) i = ((contents v)(RQ p := map ready_tag q)) i" for i
    by (cases i) (auto simp: set_q_def)
qed

lemma contents_set_w: "contents (set_w m w v) = (contents v)(WQ m := map pend_tag w)"
proof
  show "contents (set_w m w v) i = ((contents v)(WQ m := map pend_tag w)) i" for i
    by (cases i) (auto simp: set_w_def)
qed

text \<open>The lists in memory hold the view, and control blocks keep clear of the sentinels.\<close>

definition klists :: "'a kstate_scheme \<Rightarrow> kview \<Rightarrow> bool" where
  "klists s v \<longleftrightarrow>
     dl.family s klist_addr (kidx v) (contents v)
     \<and> (\<forall>t\<in>vt v. aligned t)
     \<and> (\<forall>i\<in>kidx v. \<forall>a\<in>sentinels (klist_addr i). frame_of a \<notin> vt v)
     \<and> queued v \<subseteq> vt v \<and> waiting v \<subseteq> vt v \<and> set (va v) \<subseteq> vt v"

definition mask_ok :: "'a kstate_scheme \<Rightarrow> kview \<Rightarrow> bool" where
  "mask_ok s v \<longleftrightarrow>
     bit_num (RQ_MASK_BITMAP s) = PRIO_NUM
     \<and> (\<forall>p < PRIO_NUM. bitmap_get (RQ_MASK_BITMAP s) p (mem s) = (if vq v p = [] then 0 else 1))"

definition prio_ok :: "'a kstate_scheme \<Rightarrow> kview \<Rightarrow> bool" where
  "prio_ok s v \<longleftrightarrow> (\<forall>p < PRIO_NUM. \<forall>t\<in>set (vq v p). prio_of t s = p)"

definition rq_inv :: "'a kstate_scheme \<Rightarrow> kview \<Rightarrow> bool" where
  "rq_inv s v \<longleftrightarrow> klists s v \<and> mask_ok s v \<and> prio_ok s v"

lemma klists_aligned: "klists s v \<Longrightarrow> t \<in> vt v \<Longrightarrow> aligned t"
  by (simp add: klists_def)

lemma tag_not_sentinel:
  assumes "klists s v" and "t \<in> vt v" and "i \<in> kidx v"
  shows "ready_tag t \<notin> sentinels (klist_addr i)" "pend_tag t \<notin> sentinels (klist_addr i)"
    "all_list_tag t \<notin> sentinels (klist_addr i)"
proof -
  have "a \<notin> sentinels (klist_addr i)" if "frame_of a = t" for a
    using assms that unfolding klists_def by blast
  then show "ready_tag t \<notin> sentinels (klist_addr i)" "pend_tag t \<notin> sentinels (klist_addr i)"
    "all_list_tag t \<notin> sentinels (klist_addr i)"
    using tag_frame(1-3) [OF klists_aligned [OF assms(1,2)]] by blast+
qed

lemma contents_tag:
  assumes "klists s v" and "i \<in> kidx v" and "a \<in> set (contents v i)"
  obtains u p where "i = RQ p" "a = ready_tag u" "u \<in> set (vq v p)" "u \<in> vt v" "p < PRIO_NUM"
  | u sem where "i = WQ sem" "a = pend_tag u" "u \<in> set (vw v sem)" "u \<in> vt v"
  | u where "i = EVERY" "a = all_list_tag u" "u \<in> set (va v)" "u \<in> vt v"
  using assms by (cases i) (auto simp: klists_def queued_def waiting_def kidx_def)

lemma fresh_ready:
  assumes k: "klists s v" and t: "t \<in> vt v" and q: "t \<notin> queued v"
  shows "dl.fresh klist_addr (kidx v) (contents v) (ready_tag t)"
proof -
  have "ready_tag t \<notin> set (contents v i)" if i: "i \<in> kidx v" for i
  proof
    assume a: "ready_tag t \<in> set (contents v i)"
    from k i a show False
      by (rule contents_tag)
        (use q tags_differ klists_aligned [OF k] t in \<open>auto simp: queued_def\<close>)
  qed
  then show ?thesis using tag_not_sentinel [OF k t] by (simp add: dl.fresh_def)
qed

lemma fresh_pend:
  assumes k: "klists s v" and t: "t \<in> vt v" and q: "t \<notin> waiting v"
  shows "dl.fresh klist_addr (kidx v) (contents v) (pend_tag t)"
proof -
  have "pend_tag t \<notin> set (contents v i)" if i: "i \<in> kidx v" for i
  proof
    assume a: "pend_tag t \<in> set (contents v i)"
    from k i a show False
      by (rule contents_tag)
        (use q tags_differ tags_differ [symmetric] klists_aligned [OF k] t i
          in \<open>auto simp: waiting_def kidx_def\<close>)
  qed
  then show ?thesis using tag_not_sentinel [OF k t] by (simp add: dl.fresh_def)
qed

section \<open>Run-queue operations on the view\<close>

definition enq_back :: "addr \<Rightarrow> u32 \<Rightarrow> kview \<Rightarrow> kview" where
  "enq_back t p v = set_q p (vq v p @ [t]) v"

definition enq_front :: "addr \<Rightarrow> u32 \<Rightarrow> kview \<Rightarrow> kview" where
  "enq_front t p v = set_q p (t # vq v p) v"

definition deq :: "addr \<Rightarrow> u32 \<Rightarrow> kview \<Rightarrow> kview" where
  "deq t p v = set_q p (remove1 t (vq v p)) v"

lemmas view_defs = enq_back_def enq_front_def deq_def

lemma queued_set_q:
  "p < PRIO_NUM \<Longrightarrow> queued (set_q p q v) = set q \<union> (\<Union>r\<in>{r. r < PRIO_NUM \<and> r \<noteq> p}. set (vq v r))"
  by (auto simp: queued_def split: if_splits)

lemma waiting_set_q [simp]: "waiting (set_q p q v) = waiting v"
  by (simp add: waiting_def)

lemma RQ_in_kidx: "p < PRIO_NUM \<Longrightarrow> RQ p \<in> kidx v"
  by (simp add: kidx_def)

lemma remove1_map_inj: "inj f \<Longrightarrow> remove1 (f x) (map f xs) = map f (remove1 x xs)"
  by (induction xs) (auto simp: inj_eq)

lemma inj_tags: "inj ready_tag" "inj pend_tag" "inj all_list_tag"
  by (simp_all add: inj_def)

text \<open>One list changes, its new contents come from the known threads: the lists still hold a view.\<close>

lemma klists_set_q:
  assumes k: "klists s v" and p: "p < PRIO_NUM" and q: "set q \<subseteq> vt v"
    and f: "dl.family s' klist_addr (kidx v) ((contents v)(RQ p := map ready_tag q))"
  shows "klists s' (set_q p q v)"
proof -
  have "queued (set_q p q v) \<subseteq> vt v"
    using k q unfolding queued_set_q [OF p] by (auto simp: klists_def queued_def)
  with k f show ?thesis by (simp add: klists_def contents_set_q)
qed

lemma family_state_cong:
  "nodes s' = nodes s \<Longrightarrow> dl.family s' L I Q = dl.family s L I Q"
  by (simp add: dl.family_def)

lemma klists_cong: "nodes s' = nodes s \<Longrightarrow> klists s' v = klists s v"
  by (simp add: klists_def dl.family_def)

lemma mask_ok_set:
  assumes "mask_ok s v" and "p < PRIO_NUM" and "q \<noteq> []"
    and "sched s' = sched s" and "mem s' = bitmap_set (RQ_MASK_BITMAP s) p (mem s)"
  shows "mask_ok s' (set_q p q v)"
  using assms by (auto simp: mask_ok_def bitmap_get_set)

lemma mask_ok_clear:
  assumes "mask_ok s v" and "p < PRIO_NUM"
    and "sched s' = sched s" and "mem s' = bitmap_clear (RQ_MASK_BITMAP s) p (mem s)"
  shows "mask_ok s' (set_q p [] v)"
  using assms by (auto simp: mask_ok_def bitmap_get_clear)

lemma prio_ok_set_q:
  assumes "prio_ok s v" and "\<And>t. t \<in> set q \<Longrightarrow> prio_of t s' = p"
    and "\<And>t. prio_of t s' = prio_of t s"
  shows "prio_ok s' (set_q p q v)"
  using assms by (auto simp: prio_ok_def)

subsection \<open>Fields the operations leave alone\<close>

lemma join_only_upd:
  "scheduler_rq_join_only t s = s\<lparr>nodes := nodes (scheduler_rq_join_only t s),
     mem := bitmap_set (RQ_MASK_BITMAP s) (prio_of t s) (mem s)\<rparr>"
  by (simp add: scheduler_rq_join_only_def Let_def list_push_back_def list_insert_before_heap)

lemma jump_only_upd:
  "scheduler_rq_jump_only t s = s\<lparr>nodes := nodes (scheduler_rq_jump_only t s),
     mem := bitmap_set (RQ_MASK_BITMAP s) (prio_of t s) (mem s)\<rparr>"
  by (simp add: scheduler_rq_jump_only_def Let_def list_push_front_def list_insert_before_heap)

lemma leave_only_upd:
  "scheduler_rq_leave_only t s = s\<lparr>nodes := nodes (list_remove (ready_tag t) s),
     mem := mem (scheduler_rq_leave_only t s)\<rparr>"
  by (simp add: scheduler_rq_leave_only_def Let_def list_remove_heap)

lemma join_only_frame [frame]:
  "tcbs (scheduler_rq_join_only t s) = tcbs s" "sched (scheduler_rq_join_only t s) = sched s"
  "sem_val (scheduler_rq_join_only t s) = sem_val s" "eflags (scheduler_rq_join_only t s) = eflags s"
  "phys (scheduler_rq_join_only t s) = phys s" "cr3 (scheduler_rq_join_only t s) = cr3 s"
  "mtx_holder (scheduler_rq_join_only t s) = mtx_holder s"
  by (subst join_only_upd; simp)+

lemma jump_only_frame [frame]:
  "tcbs (scheduler_rq_jump_only t s) = tcbs s" "sched (scheduler_rq_jump_only t s) = sched s"
  "sem_val (scheduler_rq_jump_only t s) = sem_val s" "eflags (scheduler_rq_jump_only t s) = eflags s"
  "phys (scheduler_rq_jump_only t s) = phys s" "cr3 (scheduler_rq_jump_only t s) = cr3 s"
  "mtx_holder (scheduler_rq_jump_only t s) = mtx_holder s"
  by (subst jump_only_upd; simp)+

lemma leave_only_frame [frame]:
  "tcbs (scheduler_rq_leave_only t s) = tcbs s" "sched (scheduler_rq_leave_only t s) = sched s"
  "sem_val (scheduler_rq_leave_only t s) = sem_val s" "eflags (scheduler_rq_leave_only t s) = eflags s"
  "phys (scheduler_rq_leave_only t s) = phys s" "cr3 (scheduler_rq_leave_only t s) = cr3 s"
  "mtx_holder (scheduler_rq_leave_only t s) = mtx_holder s"
  by (subst leave_only_upd; simp)+

lemma prio_of_cong: "tcbs s' = tcbs s \<Longrightarrow> prio_of t s' = prio_of t s"
  by (simp add: prio_of_def)

subsection \<open>Correctness\<close>

lemma klists_family: "klists s v \<Longrightarrow> dl.family s klist_addr (kidx v) (contents v)"
  by (simp add: klists_def)

lemma queue_threads: "klists s v \<Longrightarrow> p < PRIO_NUM \<Longrightarrow> set (vq v p) \<subseteq> vt v"
  by (auto simp: klists_def queued_def)

lemma rq_invD: "rq_inv s v \<Longrightarrow> klists s v" "rq_inv s v \<Longrightarrow> mask_ok s v" "rq_inv s v \<Longrightarrow> prio_ok s v"
  by (simp_all add: rq_inv_def)

text \<open>Both ways of entering a run queue.\<close>

lemma enter_inv:
  assumes inv: "rq_inv s v" and t: "t \<in> vt v" and p: "p < PRIO_NUM" "prio_of t s = p"
    and q: "set q = insert t (set (vq v p))"
    and f: "dl.family s' klist_addr (kidx v) ((contents v)(RQ p := map ready_tag q))"
    and fr: "sched s' = sched s" "tcbs s' = tcbs s" "mem s' = bitmap_set (RQ_MASK_BITMAP s) p (mem s)"
  shows "rq_inv s' (set_q p q v)"
proof -
  have "set q \<subseteq> vt v"
    using q t p rq_invD(1) [OF inv] by (auto simp: klists_def queued_def)
  then have "klists s' (set_q p q v)"
    using rq_invD(1) [OF inv] p(1) f by (intro klists_set_q)
  moreover have "mask_ok s' (set_q p q v)"
    using rq_invD(2) [OF inv] p(1) _ fr(1,3) by (rule mask_ok_set) (use q in auto)
  moreover have "prio_of u s' = prio_of u s" for u using fr(2) by (rule prio_of_cong)
  then have "prio_ok s' (set_q p q v)"
    using rq_invD(3) [OF inv] p q by (intro prio_ok_set_q [where s = s]) (auto simp: prio_ok_def)
  ultimately show ?thesis by (simp add: rq_inv_def)
qed

lemma join_only_inv:
  assumes inv: "rq_inv s v" and t: "t \<in> vt v" and q: "t \<notin> queued v" and p: "prio_of t s < PRIO_NUM"
  shows "rq_inv (scheduler_rq_join_only t s) (enq_back t (prio_of t s) v)"
  unfolding enq_back_def
proof (rule enter_inv [OF inv t p refl])
  note k = rq_invD(1) [OF inv]
  show "dl.family (scheduler_rq_join_only t s) klist_addr (kidx v)
      ((contents v)(RQ (prio_of t s) := map ready_tag (vq v (prio_of t s) @ [t])))"
    using dl.family_push_back [OF klists_family [OF k] RQ_in_kidx [OF p] fresh_ready [OF k t q]]
    by (simp add: scheduler_rq_join_only_def Let_def dl.family_def)
  show "mem (scheduler_rq_join_only t s) = bitmap_set (RQ_MASK_BITMAP s) (prio_of t s) (mem s)"
    by (subst join_only_upd) simp
qed (simp_all add: frame)

lemma jump_only_inv:
  assumes inv: "rq_inv s v" and t: "t \<in> vt v" and q: "t \<notin> queued v" and p: "prio_of t s < PRIO_NUM"
  shows "rq_inv (scheduler_rq_jump_only t s) (enq_front t (prio_of t s) v)"
  unfolding enq_front_def
proof (rule enter_inv [OF inv t p refl])
  note k = rq_invD(1) [OF inv]
  show "dl.family (scheduler_rq_jump_only t s) klist_addr (kidx v)
      ((contents v)(RQ (prio_of t s) := map ready_tag (t # vq v (prio_of t s))))"
    using dl.family_push_front [OF klists_family [OF k] RQ_in_kidx [OF p] fresh_ready [OF k t q]]
    by (simp add: scheduler_rq_jump_only_def Let_def dl.family_def)
  show "mem (scheduler_rq_jump_only t s) = bitmap_set (RQ_MASK_BITMAP s) (prio_of t s) (mem s)"
    by (subst jump_only_upd) simp
qed (simp_all add: frame)

lemma leave_only_inv:
  assumes inv: "rq_inv s v" and p: "prio_of t s < PRIO_NUM" and q: "t \<in> set (vq v (prio_of t s))"
  shows "rq_inv (scheduler_rq_leave_only t s) (deq t (prio_of t s) v)"
proof -
  let ?p = "prio_of t s" and ?s' = "scheduler_rq_leave_only t s" and ?r = "list_remove (ready_tag t) s"
  let ?q = "remove1 t (vq v ?p)"
  have k: "klists s v" and m: "mask_ok s v" and pr: "prio_ok s v" using inv by (simp_all add: rq_inv_def)
  have "dl.family ?r klist_addr (kidx v)
      ((contents v)(RQ ?p := remove1 (ready_tag t) (contents v (RQ ?p))))"
    by (rule dl.family_remove [OF klists_family [OF k] RQ_in_kidx [OF p]]) (simp add: q)
  then have f: "dl.family ?r klist_addr (kidx v) ((contents v)(RQ ?p := map ready_tag ?q))"
    by (simp add: remove1_map_inj [OF inj_tags(1)])
  then have "dl.family ?s' klist_addr (kidx v) ((contents v)(RQ ?p := map ready_tag ?q))"
    by (subst leave_only_upd) (simp add: dl.family_def)
  moreover have "set ?q \<subseteq> vt v"
    using queue_threads [OF k p] set_remove1_subset [of t "vq v ?p"] by blast
  ultimately have "klists ?s' (deq t ?p v)"
    unfolding deq_def using k p by (intro klists_set_q)
  moreover have e: "list_empty (THIS_RQ ?p) ?r \<longleftrightarrow> ?q = []"
    using dl.rep_is_empty [OF dl.family_rep [OF f RQ_in_kidx [OF p]]] by simp
  have r: "mem ?r = mem s" "sched ?r = sched s" by (simp_all add: list_remove_heap)
  have me: "mem ?s' = (if ?q = [] then bitmap_clear (RQ_MASK_BITMAP s) ?p (mem s) else mem s)"
    unfolding scheduler_rq_leave_only_def Let_def e using r by simp
  have "mask_ok ?s' (deq t ?p v)"
  proof (cases "?q = []")
    case True
    with me have "mask_ok ?s' (set_q ?p [] v)"
      by (intro mask_ok_clear [OF m p]) (simp_all add: frame)
    with True show ?thesis by (simp add: deq_def)
  next
    case False
    with me m show ?thesis by (auto simp: deq_def mask_ok_def frame)
  qed
  moreover have "prio_ok ?s' (deq t ?p v)"
    unfolding deq_def using pr p
    by (intro prio_ok_set_q [where s = s])
      (auto simp: prio_ok_def prio_of_def frame dest: set_remove1_subset [THEN subsetD])
  ultimately show ?thesis by (simp add: rq_inv_def)
qed

subsection \<open>The pick\<close>

definition least_q :: "kview \<Rightarrow> u32 \<Rightarrow> bool" where
  "least_q v p \<longleftrightarrow> p < PRIO_NUM \<and> vq v p \<noteq> [] \<and> (\<forall>r < p. vq v r = [])"

lemma least_q_unique: "least_q v p \<Longrightarrow> least_q v r \<Longrightarrow> p = r"
  unfolding least_q_def by (metis linorder_neqE)

lemma least_q_exists:
  assumes "queued v \<noteq> {}"
  obtains p where "least_q v p"
proof -
  obtain q where q: "q < PRIO_NUM \<and> vq v q \<noteq> []"
    using assms by (auto simp: queued_def)
  obtain p where p: "p < PRIO_NUM \<and> vq v p \<noteq> []"
    and min: "\<And>r. r < PRIO_NUM \<and> vq v r \<noteq> [] \<Longrightarrow> unat p \<le> unat r"
    using ex_has_least_nat [of "\<lambda>p. p < PRIO_NUM \<and> vq v p \<noteq> []" q unat] q by blast
  have "vq v r = []" if "r < p" for r
    using min [of r] p that by (force simp: word_less_nat_alt)
  with p have "least_q v p" by (simp add: least_q_def)
  then show ?thesis by (rule that)
qed

lemma highest_rq_least:
  assumes "rq_inv s v" and "least_q v p"
  shows "highest_rq_get s = p"
proof -
  let ?r = "bitmap_scan (RQ_MASK_BITMAP s) 1 1 (mem s)"
  have n: "bit_num (RQ_MASK_BITMAP s) = PRIO_NUM"
    and get: "\<And>p. p < PRIO_NUM \<Longrightarrow>
      bitmap_get (RQ_MASK_BITMAP s) p (mem s) = (if vq v p = [] then 0 else 1)"
    using rq_invD(2) [OF assms(1)] by (simp_all add: mask_ok_def)
  have r: "?r \<noteq> minus1"
    by (rule bm.scan1_exists [of p]) (use assms(2) n get in \<open>simp_all add: least_q_def\<close>)
  have lt: "?r < PRIO_NUM" using bm.scan1_found(1) [OF r] n by simp
  have "vq v ?r \<noteq> []" using bm.scan1_found(2) [OF r] get [OF lt] by auto
  moreover have "vq v j = []" if "j < ?r" for j
    using bm.scan1_found(3) [OF r that] get [of j] that lt by (auto split: if_splits)
  ultimately have "least_q v ?r" using lt by (simp add: least_q_def)
  then show ?thesis using assms(2) least_q_unique by (simp add: highest_rq_get_def)
qed

text \<open>The scheduler takes the first thread of the lowest-numbered non-empty queue.\<close>

lemma next_thread_pick_head:
  assumes "rq_inv s v" and "least_q v p"
  shows "next_thread_pick s = hd (vq v p)"
proof -
  have p: "p < PRIO_NUM" "vq v p \<noteq> []" using assms(2) by (simp_all add: least_q_def)
  then obtain t ts where q: "vq v p = t # ts" by (cases "vq v p") auto
  have "dlist (nodes s) (THIS_RQ p) (ready_tag t # map ready_tag ts)"
    using dl.family_rep [OF klists_family [OF rq_invD(1) [OF assms(1)]] RQ_in_kidx [OF p(1)]] q
    by simp
  then show ?thesis
    using q by (simp add: next_thread_pick_def highest_rq_least [OF assms] dlist_first Let_def)
qed

end
