(* ===== verification/Sched_Inv.thy ===== *)
theory Sched_Inv
  imports Sched_View
begin

text \<open>
  The scheduler's invariant: exactly the running and the ready threads are queued, each in the
  queue of its priority, exactly one thread is running, and it is the one the kernel names.
  \<open>main_schedule\<close>, \<open>thread_block\<close> and \<open>thread_unblock\<close> keep it, and the
  thread they switch to is the head of the best queue.
\<close>

section \<open>The invariant\<close>

definition live :: "task_status \<Rightarrow> bool" where
  "live st \<longleftrightarrow> st = TASK_RUNNING \<or> st = TASK_READY"

text \<open>Between taking the processor from a thread and giving it to the next, nobody runs.\<close>

definition pinv :: "'a kstate_scheme \<Rightarrow> kview \<Rightarrow> bool" where
  "pinv s v \<longleftrightarrow>
     rq_inv s v
     \<and> (\<forall>t\<in>vt v. prio_of t s < PRIO_NUM)
     \<and> (\<forall>t\<in>vt v. t \<in> queued v \<longleftrightarrow> live (tcb_status (tcbs s t)))
     \<and> (\<forall>t\<in>vt v. tcb_status (tcbs s t) \<noteq> TASK_RUNNING)"

definition sinv :: "'a kstate_scheme \<Rightarrow> kview \<Rightarrow> bool" where
  "sinv s v \<longleftrightarrow>
     rq_inv s v
     \<and> (\<forall>t\<in>vt v. prio_of t s < PRIO_NUM)
     \<and> (\<forall>t\<in>vt v. t \<in> queued v \<longleftrightarrow> live (tcb_status (tcbs s t)))
     \<and> RUNNING_THREAD s \<in> vt v
     \<and> (\<forall>t\<in>vt v. tcb_status (tcbs s t) = TASK_RUNNING \<longleftrightarrow> t = RUNNING_THREAD s)"

lemma rq_inv_cong:
  assumes "nodes s' = nodes s" "mem s' = mem s" "RQ_MASK_BITMAP s' = RQ_MASK_BITMAP s"
    and "\<And>t. t \<in> queued v \<Longrightarrow> prio_of t s' = prio_of t s"
  shows "rq_inv s' v = rq_inv s v"
proof -
  have "prio_ok s' v = prio_ok s v"
    unfolding prio_ok_def using assms(4) by (auto simp: queued_def) metis+
  then show ?thesis
    using klists_cong [OF assms(1)] assms(2,3) by (simp add: rq_inv_def mask_ok_def)
qed

lemma sinv_cong_fields:
  assumes "nodes s' = nodes s" "mem s' = mem s"
    "\<And>t. tcb_status (tcbs s' t) = tcb_status (tcbs s t)"
    "\<And>t. tcb_priority (tcbs s' t) = tcb_priority (tcbs s t)"
    "RQ_MASK_BITMAP s' = RQ_MASK_BITMAP s" "RUNNING_THREAD s' = RUNNING_THREAD s"
  shows "sinv s' v = sinv s v"
proof -
  have "prio_of t s' = prio_of t s" for t using assms(4) by (simp add: prio_of_def)
  then show ?thesis using assms rq_inv_cong [of s' s v] by (simp add: sinv_def)
qed

lemma sinv_cong:
  assumes "nodes s' = nodes s" "mem s' = mem s" "tcbs s' = tcbs s"
    "RQ_MASK_BITMAP s' = RQ_MASK_BITMAP s" "RUNNING_THREAD s' = RUNNING_THREAD s"
  shows "sinv s' v = sinv s v"
  using assms by (intro sinv_cong_fields) simp_all

lemma sinv_parts:
  assumes "sinv s v"
  shows "rq_inv s v" "RUNNING_THREAD s \<in> vt v" "RUNNING_THREAD s \<in> queued v"
    "prio_of (RUNNING_THREAD s) s < PRIO_NUM"
    "tcb_status (tcbs s (RUNNING_THREAD s)) = TASK_RUNNING"
  using assms by (auto simp: sinv_def live_def)

lemma queued_at_prio:
  "rq_inv s v \<Longrightarrow> t \<in> queued v \<Longrightarrow> t \<in> set (vq v (prio_of t s))"
  by (auto simp: rq_inv_def prio_ok_def queued_def)

lemma queue_distinct:
  assumes "rq_inv s v" and "p < PRIO_NUM"
  shows "distinct (vq v p)"
  using dl.family_distinct [OF klists_family [OF rq_invD(1) [OF assms(1)]] RQ_in_kidx [OF assms(2)]]
  by (simp add: distinct_map)

lemma queued_deq:
  assumes inv: "rq_inv s v" and p: "prio_of t s < PRIO_NUM"
  shows "queued (deq t (prio_of t s) v) = queued v - {t}"
proof -
  have "t \<notin> set (vq v r)" if "r < PRIO_NUM" "r \<noteq> prio_of t s" for r
    using inv that by (auto simp: rq_inv_def prio_ok_def)
  then show ?thesis
    using queue_distinct [OF inv p]
    unfolding deq_def queued_set_q [OF p] using p by (auto simp: queued_def)
qed

lemma queued_enq:
  assumes p: "p < PRIO_NUM"
  shows "queued (enq_back t p v) = insert t (queued v)" "queued (enq_front t p v) = insert t (queued v)"
  unfolding view_defs queued_set_q [OF p] using p by (auto simp: queued_def)

lemma view_sel [simp]:
  "vt (enq_back t p v) = vt v" "vt (enq_front t p v) = vt v" "vt (deq t p v) = vt v"
  "vs (enq_back t p v) = vs v" "vs (enq_front t p v) = vs v" "vs (deq t p v) = vs v"
  "vw (enq_back t p v) = vw v" "vw (enq_front t p v) = vw v" "vw (deq t p v) = vw v"
  "va (enq_back t p v) = va v" "va (enq_front t p v) = va v" "va (deq t p v) = va v"
  by (simp_all add: view_defs)

section \<open>Giving the processor to a thread\<close>

definition switch_to :: "addr \<Rightarrow> 'a kstate_scheme \<Rightarrow> 'a kstate_scheme" where
  "switch_to t s = set_running_thread t (upd_tcb t (\<lambda>b. b\<lparr>tcb_status := TASK_RUNNING\<rparr>) s)"

lemma switch_to_sinv:
  assumes inv: "pinv s v" and t: "t \<in> queued v"
  shows "sinv (switch_to t s) v"
proof -
  have pr: "prio_of u (switch_to t s) = prio_of u s" for u
    by (simp add: switch_to_def set_running_thread_def upd_tcb_def prio_of_def)
  have "rq_inv (switch_to t s) v = rq_inv s v"
    by (rule rq_inv_cong) (simp_all add: pr, simp_all add: switch_to_def set_running_thread_def upd_tcb_def)
  moreover have "t \<in> vt v"
    using t rq_invD(1) [of s v] inv by (auto simp: pinv_def klists_def)
  moreover have "RUNNING_THREAD (switch_to t s) = t"
    and "tcb_status (tcbs (switch_to t s) u) =
      (if u = t then TASK_RUNNING else tcb_status (tcbs s u))" for u
    by (simp_all add: switch_to_def set_running_thread_def upd_tcb_def)
  ultimately show ?thesis
    using inv t by (auto simp: sinv_def pinv_def pr live_def)
qed

text \<open>Only the page directory and the task state segment change on activation.\<close>

lemma process_activate_result:
  assumes "process_activate t s = Inr s'"
  obtains pa where "s' = s\<lparr>cr3 := pa\<rparr>" | pa where "s' = tss_esp0_update t (s\<lparr>cr3 := pa\<rparr>)"
proof -
  from assms obtain s1 where "page_dir_activate t s = Inr s1"
    and s': "s' = (if tcb_pg_dir (tcbs s1 t) \<noteq> NULL then tss_esp0_update t s1 else s1)"
    unfolding process_activate_def by (auto elim!: and_then_InrE)
  from this(1) obtain pa where "s1 = s\<lparr>cr3 := pa\<rparr>"
    unfolding page_dir_activate_def by (auto elim!: and_then_InrE)
  with s' show thesis using that by (cases "tcb_pg_dir (tcbs s1 t) = NULL") auto
qed

lemma process_activate_frame:
  assumes "process_activate t s = Inr s'"
  shows "nodes s' = nodes s" "mem s' = mem s" "tcbs s' = tcbs s" "sched s' = sched s"
    "sem_val s' = sem_val s" "mtx_holder s' = mtx_holder s" "eflags s' = eflags s" "phys s' = phys s"
    "kernel_phy_pool s' = kernel_phy_pool s" "user_phy_pool s' = user_phy_pool s"
    "kernel_vir_pool s' = kernel_vir_pool s"
  using assms by (rule process_activate_result; simp add: tss_esp0_update_def)+

lemma process_activate_sinv:
  assumes "process_activate t s = Inr s'"
  shows "sinv s' v = sinv s v"
  using process_activate_frame [OF assms] by (intro sinv_cong) simp_all

definition activatable :: "addr \<Rightarrow> 'a kstate_scheme \<Rightarrow> bool" where
  "activatable t s \<longleftrightarrow>
     tcb_pg_dir (tcbs s t) = NULL
     \<or> walk (phys s) (cr3 s) (pte_vaddr_get (tcb_pg_dir (tcbs s t))) \<noteq> None"

lemma process_activate_ok:
  assumes "activatable t s"
  obtains s' where "process_activate t s = Inr s'"
proof (cases "tcb_pg_dir (tcbs s t) = NULL")
  case True
  then show ?thesis by (intro that) (simp add: process_activate_def page_dir_activate_def)
next
  case False
  with assms obtain pa where "walk (phys s) (cr3 s) (pte_vaddr_get (tcb_pg_dir (tcbs s t))) = Some pa"
    by (auto simp: activatable_def)
  with False show ?thesis
    by (intro that) (simp add: process_activate_def page_dir_activate_def addr_v2p_def vload_def)
qed

text \<open>
  The page directory a thread runs on. A switch loads it and leaves every page directory and
  page table as it is.
\<close>

definition space_of :: "addr \<Rightarrow> 'a kstate_scheme \<Rightarrow> 'a kstate_scheme halt + u32" where
  "space_of t s =
     (if tcb_pg_dir (tcbs s t) \<noteq> NULL then addr_v2p (tcb_pg_dir (tcbs s t)) s
      else Inr KERNEL_PAGE_DIR_BASE_ADDR)"

definition same_dirs :: "'a kstate_scheme \<Rightarrow> 'a kstate_scheme \<Rightarrow> bool" where
  "same_dirs s s' \<longleftrightarrow>
     phys s' = phys s
     \<and> (\<forall>u. tcb_pg_dir (tcbs s' u) = tcb_pg_dir (tcbs s u)
          \<and> tcb_stack_magic (tcbs s' u) = tcb_stack_magic (tcbs s u))"

definition switched :: "'a kstate_scheme \<Rightarrow> 'a kstate_scheme \<Rightarrow> bool" where
  "switched s s' \<longleftrightarrow> same_dirs s s' \<and> space_of (RUNNING_THREAD s') s = Inr (cr3 s')"

lemma process_activate_space: "process_activate t s = Inr s' \<Longrightarrow> space_of t s = Inr (cr3 s')"
  unfolding process_activate_def page_dir_activate_def
  by (auto simp: space_of_def tss_esp0_update_def elim!: and_then_InrE split: if_splits)

lemma space_of_cong:
  "tcb_pg_dir (tcbs s' t) = tcb_pg_dir (tcbs s t) \<Longrightarrow> phys s' = phys s \<Longrightarrow> cr3 s' = cr3 s \<Longrightarrow>
    space_of t s' = space_of t s"
  by (simp add: space_of_def addr_v2p_def vload_def split: option.split)

lemma switchedI:
  assumes "process_activate t u = Inr s'" and "RUNNING_THREAD s' = t"
    and "phys u = phys s" "cr3 u = cr3 s" "\<And>x. tcb_pg_dir (tcbs u x) = tcb_pg_dir (tcbs s x)"
    "\<And>x. tcb_stack_magic (tcbs u x) = tcb_stack_magic (tcbs s x)"
  shows "switched s s'"
  using process_activate_space [OF assms(1)] space_of_cong [of u t s] assms(2-)
    process_activate_frame [OF assms(1)] by (simp add: switched_def same_dirs_def)

section \<open>Updates of single fields\<close>

lemma upd_tcb_frame [frame]:
  "nodes (upd_tcb t f s) = nodes s" "mem (upd_tcb t f s) = mem s" "sched (upd_tcb t f s) = sched s"
  "eflags (upd_tcb t f s) = eflags s" "sem_val (upd_tcb t f s) = sem_val s"
  "phys (upd_tcb t f s) = phys s" "cr3 (upd_tcb t f s) = cr3 s"
  "mtx_holder (upd_tcb t f s) = mtx_holder s"
  "tcbs (upd_tcb t f s) u = (if u = t then f (tcbs s t) else tcbs s u)"
  by (simp_all add: upd_tcb_def)

lemma set_need_frame [frame]:
  "nodes (set_need_schedule b s) = nodes s" "mem (set_need_schedule b s) = mem s"
  "tcbs (set_need_schedule b s) = tcbs s" "eflags (set_need_schedule b s) = eflags s"
  "sem_val (set_need_schedule b s) = sem_val s" "phys (set_need_schedule b s) = phys s"
  "cr3 (set_need_schedule b s) = cr3 s" "mtx_holder (set_need_schedule b s) = mtx_holder s"
  "RUNNING_THREAD (set_need_schedule b s) = RUNNING_THREAD s"
  "RQ_MASK_BITMAP (set_need_schedule b s) = RQ_MASK_BITMAP s"
  "need_schedule (set_need_schedule b s) = b"
  by (simp_all add: set_need_schedule_def need_schedule_def)

lemma switch_to_frame [frame]:
  "nodes (switch_to t s) = nodes s" "mem (switch_to t s) = mem s"
  "eflags (switch_to t s) = eflags s" "sem_val (switch_to t s) = sem_val s"
  "phys (switch_to t s) = phys s" "cr3 (switch_to t s) = cr3 s"
  "mtx_holder (switch_to t s) = mtx_holder s" "RUNNING_THREAD (switch_to t s) = t"
  "need_schedule (switch_to t s) = need_schedule s"
  "tcbs (switch_to t s) u =
     (if u = t then (tcbs s t)\<lparr>tcb_status := TASK_RUNNING\<rparr> else tcbs s u)"
  by (simp_all add: switch_to_def set_running_thread_def upd_tcb_def need_schedule_def)

lemma rq_inv_upd_tcb:
  assumes "t \<in> queued v \<Longrightarrow> tcb_priority (f (tcbs s t)) = tcb_priority (tcbs s t)"
  shows "rq_inv (upd_tcb t f s) v = rq_inv s v"
  using assms by (intro rq_inv_cong) (auto simp: frame prio_of_def)

lemma rq_inv_set_need: "rq_inv (set_need_schedule b s) v = rq_inv s v"
  by (rule rq_inv_cong) (simp_all add: frame prio_of_def)

lemma prio_of_set_need [simp]: "prio_of t (set_need_schedule b s) = prio_of t s"
  by (simp add: prio_of_def frame)

section \<open>The end of a time slice\<close>

definition next_prio :: "u32 \<Rightarrow> u32" where
  "next_prio p = (p + 1) mod PRIO_NUM"

lemma next_prio_less: "next_prio p < PRIO_NUM"
  by (simp add: next_prio_def PRIO_NUM_def word_less_nat_alt unat_mod)

lemma ucast_ucast_byte: "unat x < 256 \<Longrightarrow> (ucast (ucast x :: u8) :: u32) = x"
  by (simp add: unat_eq_iff [symmetric] unsigned_ucast_eq take_bit_eq_mod unat_mod)

lemma prio_of_change: "prio_of t (thread_prio_change t s) = next_prio (prio_of t s)"
proof -
  have "unat ((prio_of t s + 1) mod PRIO_NUM) < 256"
    using next_prio_less [of "prio_of t s"] by (simp add: next_prio_def PRIO_NUM_def word_less_nat_alt)
  from ucast_ucast_byte [OF this] show ?thesis
    by (simp add: prio_of_def thread_prio_change_def frame next_prio_def)
qed

text \<open>The running thread moves to the back of the next queue.\<close>

definition requeue :: "addr \<Rightarrow> u32 \<Rightarrow> kview \<Rightarrow> kview" where
  "requeue r p v = enq_back r (next_prio p) (deq r p v)"

lemma requeue_sel [simp]:
  "vt (requeue r p v) = vt v" "vs (requeue r p v) = vs v" "vw (requeue r p v) = vw v"
  "va (requeue r p v) = va v"
  by (simp_all add: requeue_def)

lemma requeue_rq_inv:
  assumes inv: "rq_inv s v" and r: "r \<in> queued v" "r \<in> vt v" and p: "prio_of r s < PRIO_NUM"
  shows "rq_inv (requeue_running r s) (requeue r (prio_of r s) v)"
    and "queued (requeue r (prio_of r s) v) = queued v"
proof -
  let ?p = "prio_of r s" and ?v1 = "deq r (prio_of r s) v"
  let ?s1 = "scheduler_rq_leave_only r s"
  let ?s2 = "thread_prio_change r ?s1"
  let ?s3 = "scheduler_rq_join_only r ?s2"
  have p1: "prio_of r ?s1 = ?p" by (simp add: prio_of_def frame)
  have q1: "queued ?v1 = queued v - {r}" using inv p by (rule queued_deq)
  have "rq_inv ?s1 ?v1"
    using inv p queued_at_prio [OF inv r(1)] by (rule leave_only_inv)
  then have "rq_inv ?s2 ?v1"
    unfolding thread_prio_change_def by (subst rq_inv_upd_tcb) (simp_all add: q1)
  moreover have p2: "prio_of r ?s2 = next_prio ?p" by (simp add: prio_of_change p1)
  ultimately have "rq_inv ?s3 (requeue r ?p v)"
    unfolding requeue_def p2 [symmetric]
    by (intro join_only_inv) (simp_all add: r q1 p2 next_prio_less)
  then show "rq_inv (requeue_running r s) (requeue r ?p v)"
    unfolding requeue_running_def Let_def by (simp add: rq_inv_upd_tcb)
  show "queued (requeue r ?p v) = queued v"
    unfolding requeue_def using q1 r queued_enq(1) [OF next_prio_less] by auto
qed

lemma requeue_tcbs:
  "tcbs (requeue_running r s) u =
     (if u = r then (tcbs s r)\<lparr>
         tcb_priority := ucast (next_prio (prio_of r s)),
         tcb_ticks := ticks_get (next_prio (prio_of r s)),
         tcb_status := TASK_READY\<rparr>
      else tcbs s u)"
proof -
  have "ucast (tcb_priority (tcbs (thread_prio_change r (scheduler_rq_leave_only r s)) r))
      = next_prio (prio_of r s)"
    using prio_of_change [of r "scheduler_rq_leave_only r s"] by (simp add: prio_of_def frame)
  then show ?thesis
    by (simp add: requeue_running_def Let_def frame thread_prio_change_def next_prio_def prio_of_def)
qed

lemma requeue_frame [frame]:
  "sched (requeue_running r s) = sched s" "eflags (requeue_running r s) = eflags s"
  "sem_val (requeue_running r s) = sem_val s" "phys (requeue_running r s) = phys s"
  "cr3 (requeue_running r s) = cr3 s" "mtx_holder (requeue_running r s) = mtx_holder s"
  by (simp_all add: requeue_running_def Let_def frame thread_prio_change_def)

lemma prio_of_requeue:
  "prio_of u (requeue_running r s) = (if u = r then next_prio (prio_of r s) else prio_of u s)"
proof -
  have "unat (next_prio (prio_of r s)) < 256"
    using next_prio_less [of "prio_of r s"] by (simp add: PRIO_NUM_def word_less_nat_alt)
  from ucast_ucast_byte [OF this] show ?thesis
    by (simp add: prio_of_def [of u] requeue_tcbs)
qed

lemma requeue_pinv:
  assumes inv: "sinv s v" and r: "r = RUNNING_THREAD s"
  shows "pinv (requeue_running r s) (requeue r (prio_of r s) v)"
    and "queued (requeue r (prio_of r s) v) = queued v"
proof -
  note q = requeue_rq_inv [OF sinv_parts(1,3,2,4) [OF inv], folded r]
  show "queued (requeue r (prio_of r s) v) = queued v" by (rule q(2))
  have st: "tcb_status (tcbs (requeue_running r s) u) =
      (if u = r then TASK_READY else tcb_status (tcbs s u))" for u
    by (simp add: requeue_tcbs)
  show "pinv (requeue_running r s) (requeue r (prio_of r s) v)"
    using q inv unfolding pinv_def sinv_def r [symmetric]
    by (auto simp: st prio_of_requeue next_prio_less live_def)
qed

section \<open>\<^verbatim>\<open>main_schedule\<close>\<close>

lemma main_schedule_noop: "\<not> need_schedule s \<Longrightarrow> main_schedule s = Inr s"
  by (simp add: main_schedule_def)

text \<open>From a state in which nobody runs: the head of the best queue gets the processor.\<close>

lemma pick_and_switch:
  assumes inv: "pinv s v" and p: "least_q v p"
  shows "next_thread_pick s = hd (vq v p)" and "sinv (switch_to (hd (vq v p)) s) v"
    and "hd (vq v p) \<in> vt v"
proof -
  have rq: "rq_inv s v" using inv by (simp add: pinv_def)
  show "next_thread_pick s = hd (vq v p)" using rq p by (rule next_thread_pick_head)
  have q: "hd (vq v p) \<in> queued v" using p by (auto simp: least_q_def queued_def)
  with inv show "sinv (switch_to (hd (vq v p)) s) v" by (rule switch_to_sinv)
  show "hd (vq v p) \<in> vt v" using q rq by (auto simp: rq_inv_def klists_def)
qed

lemma main_schedule_slice:
  assumes inv: "sinv s v" and need: "need_schedule s" and r: "r = RUNNING_THREAD s"
    and v': "v' = requeue r (prio_of r s) v" and p: "least_q v' p"
  shows "main_schedule s =
      process_activate (hd (vq v' p)) (switch_to (hd (vq v' p)) (requeue_running r (set_need_schedule False s)))"
    and "sinv (switch_to (hd (vq v' p)) (requeue_running r (set_need_schedule False s))) v'"
proof -
  let ?s0 = "set_need_schedule False s"
  have "sinv ?s0 v" using inv by (subst sinv_cong) (simp_all add: frame)
  from requeue_pinv(1) [OF this, of r] r v' have pi: "pinv (requeue_running r ?s0) v'"
    by (simp add: frame)
  from pick_and_switch [OF pi p] show "sinv (switch_to (hd (vq v' p)) (requeue_running r ?s0)) v'"
    by blast
  have "tcb_status (tcbs s r) = TASK_RUNNING" using sinv_parts(5) [OF inv] r by simp
  then show "main_schedule s = process_activate (hd (vq v' p)) (switch_to (hd (vq v' p)) (requeue_running r ?s0))"
    using need r pick_and_switch(1) [OF pi p]
    by (simp add: main_schedule_def Let_def frame switch_to_def)
qed

lemma main_schedule_blocked:
  assumes inv: "pinv s v" and need: "need_schedule s" and p: "least_q v p"
    and r: "RUNNING_THREAD s \<in> vt v"
  shows "main_schedule s =
      process_activate (hd (vq v p)) (switch_to (hd (vq v p)) (set_need_schedule False s))"
    and "sinv (switch_to (hd (vq v p)) (set_need_schedule False s)) v"
proof -
  let ?s0 = "set_need_schedule False s"
  have pi: "pinv ?s0 v" using inv by (simp add: pinv_def rq_inv_set_need frame)
  from pick_and_switch(2) [OF pi p] show "sinv (switch_to (hd (vq v p)) ?s0) v" .
  have "tcb_status (tcbs s (RUNNING_THREAD s)) \<noteq> TASK_RUNNING" using inv r by (simp add: pinv_def)
  then show "main_schedule s = process_activate (hd (vq v p)) (switch_to (hd (vq v p)) ?s0)"
    using need pick_and_switch(1) [OF pi p]
    by (simp add: main_schedule_def Let_def frame switch_to_def)
qed

text \<open>
  A scheduling point ends with the invariant in place, nothing pending, and the processor with
  the head of the lowest-numbered non-empty queue, provided address spaces can be activated.
\<close>

lemma main_schedule_sinv:
  assumes inv: "sinv s v" and need: "need_schedule s" and r: "r = RUNNING_THREAD s"
    and act: "\<And>t. t \<in> vt v \<Longrightarrow> activatable t s"
  obtains s' p where "main_schedule s = Inr s'" and "least_q (requeue r (prio_of r s) v) p"
    and "sinv s' (requeue r (prio_of r s) v)"
    and "RUNNING_THREAD s' = hd (vq (requeue r (prio_of r s) v) p)" and "\<not> need_schedule s'"
    and "prio_of r s' = next_prio (prio_of r s)"
    and "tcb_ticks (tcbs s' r) = ticks_get (next_prio (prio_of r s))"
    and "sem_val s' = sem_val s" and "eflags s' = eflags s" and "phys s' = phys s"
    and "mtx_holder s' = mtx_holder s"
    and "\<forall>u. u \<noteq> r \<longrightarrow> u \<noteq> RUNNING_THREAD s' \<longrightarrow> tcbs s' u = tcbs s u"
    and "switched s s'" and "\<forall>u. u \<noteq> r \<longrightarrow> tcb_ticks (tcbs s' u) = tcb_ticks (tcbs s u)"
proof -
  let ?v' = "requeue r (prio_of r s) v" and ?s0 = "set_need_schedule False s"
  have "queued ?v' \<noteq> {}" using requeue_pinv(2) [OF inv r] sinv_parts(3) [OF inv] by auto
  then obtain p where p: "least_q ?v' p" by (rule least_q_exists)
  let ?n = "hd (vq ?v' p)" and ?s1 = "requeue_running r (set_need_schedule False s)"
  note m = main_schedule_slice [OF inv need r refl p]
  have "?n \<in> queued ?v'" using p by (auto simp: least_q_def queued_def)
  then have "?n \<in> vt v" using requeue_pinv(2) [OF inv r] sinv_parts(1) [OF inv]
    by (auto simp: rq_inv_def klists_def)
  then have "activatable ?n s" by (rule act)
  then have "activatable ?n (switch_to ?n ?s1)" by (auto simp: activatable_def frame requeue_tcbs)
  then obtain s' where s': "process_activate ?n (switch_to ?n ?s1) = Inr s'"
    by (rule process_activate_ok)
  note f = process_activate_frame [OF s']
  show thesis
  proof (rule that [OF _ p])
    show "main_schedule s = Inr s'" using m(1) s' by simp
    show "sinv s' ?v'" using m(2) process_activate_sinv [OF s'] by blast
    show "RUNNING_THREAD s' = ?n" "\<not> need_schedule s'"
      using f(4) by (simp_all add: need_schedule_def switch_to_def set_running_thread_def
        frame set_need_schedule_def)
    show "prio_of r s' = next_prio (prio_of r s)"
      using f(3) prio_of_requeue [of r r ?s0] by (simp add: prio_of_def frame)
    show "tcb_ticks (tcbs s' r) = ticks_get (next_prio (prio_of r s))"
      using f(3) by (simp add: frame requeue_tcbs)
    show "sem_val s' = sem_val s" "eflags s' = eflags s" "phys s' = phys s"
      "mtx_holder s' = mtx_holder s"
      using f by (simp_all add: frame)
    show "\<forall>u. u \<noteq> r \<longrightarrow> u \<noteq> RUNNING_THREAD s' \<longrightarrow> tcbs s' u = tcbs s u"
      using f(3,4) by (simp add: frame requeue_tcbs switch_to_def set_running_thread_def)
    show "switched s s'"
      using f(4) by (intro switchedI [OF s']) (simp_all add: frame requeue_tcbs switch_to_def set_running_thread_def)
    show "\<forall>u. u \<noteq> r \<longrightarrow> tcb_ticks (tcbs s' u) = tcb_ticks (tcbs s u)"
      using f(3) by (simp add: frame requeue_tcbs)
  qed
qed

section \<open>Blocking\<close>

lemma snd_disable_frame [frame]:
  "nodes (snd (intr_disable s)) = nodes s" "mem (snd (intr_disable s)) = mem s"
  "tcbs (snd (intr_disable s)) = tcbs s" "sched (snd (intr_disable s)) = sched s"
  "sem_val (snd (intr_disable s)) = sem_val s" "mtx_holder (snd (intr_disable s)) = mtx_holder s"
  "phys (snd (intr_disable s)) = phys s" "cr3 (snd (intr_disable s)) = cr3 s"
  by (simp_all add: intr_disable_def cli_def)

lemma set_status_frame [frame]:
  "nodes (snd (intr_set_status i s)) = nodes s" "mem (snd (intr_set_status i s)) = mem s"
  "tcbs (snd (intr_set_status i s)) = tcbs s" "sched (snd (intr_set_status i s)) = sched s"
  "sem_val (snd (intr_set_status i s)) = sem_val s"
  "mtx_holder (snd (intr_set_status i s)) = mtx_holder s"
  "phys (snd (intr_set_status i s)) = phys s" "cr3 (snd (intr_set_status i s)) = cr3 s"
  by (simp_all add: intr_set_status_def intr_enable_def intr_disable_def cli_def sti_def)

lemma need_schedule_frame [frame]:
  "need_schedule (snd (intr_disable s)) = need_schedule s"
  "need_schedule (snd (intr_set_status i s)) = need_schedule s"
  "need_schedule (upd_tcb t f s) = need_schedule s"
  by (simp_all add: need_schedule_def frame)

text \<open>The state of \<^verbatim>\<open>thread_block\<close> just before it calls the scheduler.\<close>

definition blocked_state :: "task_status \<Rightarrow> 'a kstate_scheme \<Rightarrow> 'a kstate_scheme" where
  "blocked_state st s =
     (let s = snd (intr_disable s);
          s = upd_tcb (RUNNING_THREAD s) (\<lambda>t. t\<lparr>tcb_status := st\<rparr>) s
      in scheduler_rq_leave (RUNNING_THREAD s) s)"

lemma thread_block_eq:
  "block_status st \<Longrightarrow> thread_block st s =
     and_then (schedule (blocked_state st s)) (\<lambda>u. Inr (snd (intr_set_status (fst (intr_disable s)) u)))"
  by (simp add: thread_block_def blocked_state_def split_beta Let_def)

lemma blocked_state_frame [frame]:
  "RUNNING_THREAD (blocked_state st s) = RUNNING_THREAD s"
  "need_schedule (blocked_state st s)"
  "sem_val (blocked_state st s) = sem_val s" "phys (blocked_state st s) = phys s"
  "cr3 (blocked_state st s) = cr3 s" "mtx_holder (blocked_state st s) = mtx_holder s"
  "eflags (blocked_state st s) = eflags (snd (intr_disable s))"
  "tcbs (blocked_state st s) u =
     (if u = RUNNING_THREAD s then (tcbs s u)\<lparr>tcb_status := st\<rparr> else tcbs s u)"
  by (simp_all add: blocked_state_def Let_def scheduler_rq_leave_def frame)

lemma rq_inv_disable: "rq_inv (snd (intr_disable s)) v = rq_inv s v"
  by (rule rq_inv_cong) (simp_all add: frame prio_of_def)

lemma blocked_pinv:
  assumes inv: "sinv s v" and st: "block_status st" and r: "r = RUNNING_THREAD s"
  shows "pinv (blocked_state st s) (deq r (prio_of r s) v)"
    and "queued (deq r (prio_of r s) v) = queued v - {r}"
proof -
  let ?s1 = "upd_tcb r (\<lambda>t. t\<lparr>tcb_status := st\<rparr>) (snd (intr_disable s))"
  let ?v' = "deq r (prio_of r s) v"
  have p: "prio_of r s < PRIO_NUM" "r \<in> queued v" using sinv_parts(3,4) [OF inv] r by simp_all
  have p1: "prio_of u ?s1 = prio_of u s" for u by (simp add: prio_of_def frame)
  have rq1: "rq_inv ?s1 v"
    using sinv_parts(1) [OF inv] by (simp add: rq_inv_upd_tcb rq_inv_disable)
  have "rq_inv (scheduler_rq_leave_only r ?s1) ?v'"
    using leave_only_inv [OF rq1, of r] p queued_at_prio [OF rq1 p(2)] by (simp add: p1)
  then have rq2: "rq_inv (blocked_state st s) ?v'"
    by (simp add: blocked_state_def Let_def scheduler_rq_leave_def frame r rq_inv_set_need)
  show q: "queued ?v' = queued v - {r}" using sinv_parts(1) [OF inv] p(1) by (rule queued_deq)
  have pr: "prio_of u (blocked_state st s) = prio_of u s" for u by (simp add: prio_of_def frame)
  show "pinv (blocked_state st s) ?v'"
    using rq2 inv st q unfolding pinv_def sinv_def
    by (auto simp: pr frame r live_def block_status_def)
qed

text \<open>
  Blocking the running thread while another thread is ready: the thread leaves the run queues
  with the given status, and the head of the best remaining queue goes on.
\<close>

lemma thread_block_suspends:
  assumes inv: "sinv s v" and st: "block_status st" and r: "r = RUNNING_THREAD s"
    and other: "queued v - {r} \<noteq> {}" and act: "\<And>t. t \<in> vt v \<Longrightarrow> activatable t s"
  obtains s' p where "thread_block st s = Inl (Suspended s')"
    and "least_q (deq r (prio_of r s) v) p" and "sinv s' (deq r (prio_of r s) v)"
    and "RUNNING_THREAD s' = hd (vq (deq r (prio_of r s) v) p)"
    and "tcb_status (tcbs s' r) = st" and "\<not> need_schedule s'"
    and "sem_val s' = sem_val s" and "mtx_holder s' = mtx_holder s" and "phys s' = phys s"
    and "\<forall>u. u \<noteq> r \<longrightarrow> u \<noteq> RUNNING_THREAD s' \<longrightarrow> tcbs s' u = tcbs s u"
    and "switched s s'"
proof -
  let ?v' = "deq r (prio_of r s) v" and ?b = "blocked_state st s"
  note pi = blocked_pinv [OF inv st r]
  obtain p where p: "least_q ?v' p" using least_q_exists other pi(2) by metis
  let ?n = "hd (vq ?v' p)" and ?s0 = "set_need_schedule False ?b"
  have n: "?n \<in> queued ?v'" using p by (auto simp: least_q_def queued_def)
  then have nr: "?n \<noteq> r" "?n \<in> vt v"
    using pi(2) sinv_parts(1) [OF inv] by (auto simp: rq_inv_def klists_def)
  have rv: "RUNNING_THREAD ?b \<in> vt ?v'" using sinv_parts(2) [OF inv] by (simp add: frame)
  note m = main_schedule_blocked [OF pi(1) blocked_state_frame(2) p rv]
  have "activatable ?n (switch_to ?n ?s0)"
    using act [OF nr(2)] nr(1) r by (auto simp: activatable_def frame)
  then obtain s' where s': "process_activate ?n (switch_to ?n ?s0) = Inr s'"
    by (rule process_activate_ok)
  note f = process_activate_frame [OF s']
  have run: "RUNNING_THREAD s' = ?n" using f(4) by (simp add: switch_to_def set_running_thread_def)
  show thesis
  proof (rule that [OF _ p])
    show "thread_block st s = Inl (Suspended s')"
      unfolding thread_block_eq [OF st] schedule_def using m(1) s' run nr(1) r
      by (simp add: frame)
    show "sinv s' ?v'" using m(2) process_activate_sinv [OF s'] by blast
    show "RUNNING_THREAD s' = ?n" by (rule run)
    show "tcb_status (tcbs s' r) = st" using f(3) nr(1) r by (auto simp: frame)
    show "\<not> need_schedule s'" using f(4)
      by (simp add: need_schedule_def switch_to_def set_running_thread_def frame set_need_schedule_def)
    show "sem_val s' = sem_val s" "mtx_holder s' = mtx_holder s" "phys s' = phys s"
      using f by (simp_all add: frame)
    show "\<forall>u. u \<noteq> r \<longrightarrow> u \<noteq> RUNNING_THREAD s' \<longrightarrow> tcbs s' u = tcbs s u"
      using f(3) run r by (simp add: frame)
    show "switched s s'" using run by (intro switchedI [OF s']) (simp_all add: frame)
  qed
qed

text \<open>With every queue empty the scan fails and the queue address leaves the queue array.\<close>

lemma highest_rq_none:
  assumes "rq_inv s v" and "queued v = {}"
  shows "highest_rq_get s = minus1" and "THIS_RQ (highest_rq_get s) = scheduler_addr + 520"
proof -
  have "bitmap_get (RQ_MASK_BITMAP s) p (mem s) \<noteq> 1" if "p < bit_num (RQ_MASK_BITMAP s)" for p
    using rq_invD(2) [OF assms(1)] assms(2) that by (auto simp: mask_ok_def queued_def)
  then show "highest_rq_get s = minus1"
    using bm.scan1_found(1,2) unfolding highest_rq_get_def by metis
  then show "THIS_RQ (highest_rq_get s) = scheduler_addr + 520" by (simp add: THIS_RQ_def)
qed

section \<open>Unblocking\<close>

lemma rq_jump_inv:
  assumes "rq_inv s v" and "t \<in> vt v" "t \<notin> queued v" and "prio_of t s < PRIO_NUM"
  shows "rq_inv (scheduler_rq_jump t s) (enq_front t (prio_of t s) v)"
  using jump_only_inv [OF assms] by (simp add: scheduler_rq_jump_def Let_def rq_inv_set_need)

lemma rq_jump_frame [frame]:
  "tcbs (scheduler_rq_jump t s) = tcbs s" "RUNNING_THREAD (scheduler_rq_jump t s) = RUNNING_THREAD s"
  "sem_val (scheduler_rq_jump t s) = sem_val s" "eflags (scheduler_rq_jump t s) = eflags s"
  "phys (scheduler_rq_jump t s) = phys s" "cr3 (scheduler_rq_jump t s) = cr3 s"
  "mtx_holder (scheduler_rq_jump t s) = mtx_holder s"
  "need_schedule (scheduler_rq_jump t s) \<longleftrightarrow>
     need_schedule s \<or> tcb_priority (tcbs s (RUNNING_THREAD s)) > tcb_priority (tcbs s t)"
  by (simp_all add: scheduler_rq_jump_def Let_def frame need_schedule_def set_need_schedule_def)

text \<open>
  Unblocking puts a blocked thread at the front of its queue and asks for a reschedule iff it
  beats the running thread; a thread that is not blocked is a panic.
\<close>

lemma thread_unblock_ok:
  assumes inv: "sinv s v" and t: "t \<in> vt v" and b: "block_status (tcb_status (tcbs s t))"
  obtains s' where "thread_unblock t s = Inr s'"
    and "sinv s' (enq_front t (prio_of t s) v)"
    and "tcb_status (tcbs s' t) = TASK_READY"
    and "need_schedule s' \<longleftrightarrow>
      need_schedule s \<or> tcb_priority (tcbs s (RUNNING_THREAD s)) > tcb_priority (tcbs s t)"
    and "RUNNING_THREAD s' = RUNNING_THREAD s" and "eflags s' = eflags s"
    and "sem_val s' = sem_val s" and "mtx_holder s' = mtx_holder s" and "phys s' = phys s"
    and "\<forall>u. u \<noteq> t \<longrightarrow> tcbs s' u = tcbs s u"
    and "same_dirs s s'" and "cr3 s' = cr3 s"
proof -
  let ?s1 = "upd_tcb t (\<lambda>b. b\<lparr>tcb_status := TASK_READY\<rparr>) (snd (intr_disable s))"
  let ?s2 = "scheduler_rq_jump t ?s1"
  let ?s' = "snd (intr_set_status (fst (intr_disable s)) ?s2)"
  let ?v' = "enq_front t (prio_of t s) v"
  have nq: "t \<notin> queued v" and p: "prio_of t s < PRIO_NUM"
    using inv t b by (auto simp: sinv_def live_def block_status_def)
  have p1: "prio_of u ?s1 = prio_of u s" for u by (simp add: prio_of_def frame)
  have "rq_inv ?s1 v" using sinv_parts(1) [OF inv] by (simp add: rq_inv_upd_tcb rq_inv_disable)
  from rq_jump_inv [OF this t nq] p have "rq_inv ?s2 ?v'" by (simp add: p1)
  then have rq: "rq_inv ?s' ?v'"
    by (subst rq_inv_cong [of _ ?s2]) (simp_all add: frame prio_of_def)
  have st: "tcbs ?s' u = (if u = t then (tcbs s t)\<lparr>tcb_status := TASK_READY\<rparr> else tcbs s u)" for u
    by (simp add: frame)
  have pr: "prio_of u ?s' = prio_of u s" for u by (simp add: prio_of_def st)
  have tr: "t \<noteq> RUNNING_THREAD s" using sinv_parts(3) [OF inv] nq by auto
  show thesis
  proof (rule that)
    show "thread_unblock t s = Inr ?s'"
      using b by (simp add: thread_unblock_def split_beta Let_def)
    show "sinv ?s' ?v'"
      using rq inv nq t tr queued_enq(2) [OF p] unfolding sinv_def
      by (auto simp: st pr frame live_def)
    show "need_schedule ?s' \<longleftrightarrow>
      need_schedule s \<or> tcb_priority (tcbs s (RUNNING_THREAD s)) > tcb_priority (tcbs s t)"
      using tr by (auto simp: frame)
    show "eflags ?s' = eflags s" by (rule intr_bracket) (simp add: frame)
  qed (simp_all add: frame same_dirs_def)
qed

lemma thread_unblock_panics:
  "\<not> block_status (tcb_status (tcbs s t)) \<Longrightarrow> \<exists>c. thread_unblock t s = Inl (Panic c)"
  by (simp add: thread_unblock_def)

end
