(* ===== verification/Sync.thy ===== *)
theory Sync
  imports Sched_Inv
begin

text \<open>
  \<^verbatim>\<open>src/thread/sync.c\<close>: semaphores and mutexes. \<open>sem_down\<close> runs with interrupts
  masked; while the value is zero it queues the running thread, blocks it and, when the thread
  is scheduled again, tests once more. A call that blocks is \<open>Suspended\<close> inside
  \<open>thread_block\<close>; resuming it is another pass of \<open>sem_down_loop\<close>.
\<close>

section \<open>The operations\<close>

definition set_sem_val :: "addr \<Rightarrow> u8 \<Rightarrow> 'a kstate_scheme \<Rightarrow> 'a kstate_scheme" where
  "set_sem_val sem x s = s\<lparr>sem_val := (sem_val s)(sem := x)\<rparr>"

definition set_holder :: "addr \<Rightarrow> addr \<Rightarrow> 'a kstate_scheme \<Rightarrow> 'a kstate_scheme" where
  "set_holder mtx t s = s\<lparr>mtx_holder := (mtx_holder s)(mtx := t)\<rparr>"

definition sem_init :: "addr \<Rightarrow> u8 \<Rightarrow> 'a kstate_scheme \<Rightarrow> 'a kstate_scheme" where
  "sem_init sem x s = list_init (waiters sem) (set_sem_val sem x s)"

definition mutex_init :: "addr \<Rightarrow> 'a kstate_scheme \<Rightarrow> 'a kstate_scheme" where
  "mutex_init mtx s = sem_init (mtx_sem mtx) 1 (set_holder mtx NULL s)"

text \<open>The body of the loop: queue the running thread unless it is queued already, then block.\<close>

definition sem_wait :: "addr \<Rightarrow> 'a kstate_scheme \<Rightarrow> 'a kstate_scheme halt + 'a kstate_scheme" where
  "sem_wait sem s =
     (case list_elem_find (waiters sem) (pend_tag (RUNNING_THREAD s)) s of
        None \<Rightarrow> Inl Spin
      | Some found \<Rightarrow>
          let s = (if \<not> found then list_push_back (waiters sem) (pend_tag (RUNNING_THREAD s)) s else s)
          in thread_block TASK_BLOCKED s)"

partial_function (option) sem_down_loop ::
    "addr \<Rightarrow> intr_status \<Rightarrow> 'a kstate_scheme \<Rightarrow> ('a kstate_scheme halt + 'a kstate_scheme) option" where
  "sem_down_loop sem int_save s =
     (if sem_val s sem = 0 then
        case sem_wait sem s of
          Inl h \<Rightarrow> Some (Inl h)
        | Inr s' \<Rightarrow> sem_down_loop sem int_save s'
      else
        let s = set_sem_val sem (sem_val s sem - 1) s
        in Some (Inr (snd (intr_set_status int_save s))))"

definition sem_down :: "addr \<Rightarrow> 'a kstate_scheme \<Rightarrow> 'a kstate_scheme halt + 'a kstate_scheme" where
  "sem_down sem s =
     (let (int_save, s) = intr_disable s
      in case sem_down_loop sem int_save s of Some r \<Rightarrow> r | None \<Rightarrow> Inl Spin)"

text \<open>
  What is left of \<^verbatim>\<open>sem_down\<close> for a thread that comes back from \<^verbatim>\<open>schedule()\<close> inside
  \<^verbatim>\<open>thread_block\<close>: \<^verbatim>\<open>thread_block\<close> restores the flag it found, interrupts off, and
  the loop tests the value again.
\<close>

definition sem_down_resume ::
    "addr \<Rightarrow> intr_status \<Rightarrow> 'a kstate_scheme \<Rightarrow> 'a kstate_scheme halt + 'a kstate_scheme" where
  "sem_down_resume sem int_save s =
     (let s = snd (intr_set_status INTR_OFF s)
      in case sem_down_loop sem int_save s of Some r \<Rightarrow> r | None \<Rightarrow> Inl Spin)"

definition sem_up :: "addr \<Rightarrow> 'a kstate_scheme \<Rightarrow> 'a kstate_scheme halt + 'a kstate_scheme" where
  "sem_up sem s =
     (let (int_save, s) = intr_disable s
      in ASSERT (sem_val s sem = 0) ''sem->val == 0''
           (and_then
             (if \<not> list_empty (waiters sem) s then
                let (e, s) = list_pop_front (waiters sem) s
                in thread_unblock (pend_entry e) s
              else Inr s)
             (\<lambda>s. let s = set_sem_val sem (sem_val s sem + 1) s
                  in Inr (snd (intr_set_status int_save s)))))"

definition mutex_lock :: "addr \<Rightarrow> 'a kstate_scheme \<Rightarrow> 'a kstate_scheme halt + 'a kstate_scheme" where
  "mutex_lock mtx s =
     and_then (sem_down (mtx_sem mtx) s) (\<lambda>s. Inr (set_holder mtx (RUNNING_THREAD s) s))"

definition mutex_unlock :: "addr \<Rightarrow> 'a kstate_scheme \<Rightarrow> 'a kstate_scheme halt + 'a kstate_scheme" where
  "mutex_unlock mtx s =
     and_then (sem_up (mtx_sem mtx) s) (\<lambda>s. Inr (set_holder mtx NULL s))"

section \<open>Waiter lists and the view\<close>

definition wait_inv :: "'a kstate_scheme \<Rightarrow> kview \<Rightarrow> bool" where
  "wait_inv s v \<longleftrightarrow> (\<forall>t\<in>waiting v. tcb_status (tcbs s t) = TASK_BLOCKED)"

definition kinv :: "'a kstate_scheme \<Rightarrow> kview \<Rightarrow> bool" where
  "kinv s v \<longleftrightarrow> sinv s v \<and> wait_inv s v"

lemma kinvD: "kinv s v \<Longrightarrow> sinv s v" "kinv s v \<Longrightarrow> wait_inv s v"
  by (simp_all add: kinv_def)

lemma kinv_cong_fields:
  assumes "nodes s' = nodes s" "mem s' = mem s"
    "\<And>t. tcb_status (tcbs s' t) = tcb_status (tcbs s t)"
    "\<And>t. tcb_priority (tcbs s' t) = tcb_priority (tcbs s t)"
    "RQ_MASK_BITMAP s' = RQ_MASK_BITMAP s" "RUNNING_THREAD s' = RUNNING_THREAD s"
  shows "kinv s' v = kinv s v"
  using sinv_cong_fields [OF assms] assms(3) by (simp add: kinv_def wait_inv_def)

lemma kinv_cong:
  assumes "nodes s' = nodes s" "mem s' = mem s" "tcbs s' = tcbs s"
    "RQ_MASK_BITMAP s' = RQ_MASK_BITMAP s" "RUNNING_THREAD s' = RUNNING_THREAD s"
  shows "kinv s' v = kinv s v"
  using assms by (intro kinv_cong_fields) simp_all

lemma WQ_in_kidx: "sem \<in> vs v \<Longrightarrow> WQ sem \<in> kidx v"
  by (simp add: kidx_def)

lemma queued_set_w [simp]: "queued (set_w sem w v) = queued v"
  by (simp add: queued_def)

lemma waiting_set_w:
  "sem \<in> vs v \<Longrightarrow> waiting (set_w sem w v) = set w \<union> (\<Union>m\<in>vs v - {sem}. set (vw v m))"
  by (auto simp: waiting_def split: if_splits)

lemma kinv_set_w:
  assumes inv: "kinv s v" and sem: "sem \<in> vs v"
    and w: "\<And>t. t \<in> set w \<Longrightarrow> t \<in> vt v"
    and f: "dl.family s' klist_addr (kidx v) ((contents v)(WQ sem := map pend_tag w))"
    and fr: "mem s' = mem s" "tcbs s' = tcbs s" "sched s' = sched s"
  shows "sinv s' (set_w sem w v)"
proof -
  have k: "klists s v" using rq_invD(1) [OF sinv_parts(1) [OF kinvD(1) [OF inv]]] .
  have "klists s' (set_w sem w v)"
    using k f w sem unfolding klists_def waiting_set_w [OF sem]
    by (auto simp: contents_set_w waiting_def)
  moreover have "prio_of t s' = prio_of t s" for t using fr(2) by (rule prio_of_cong)
  ultimately show ?thesis
    using kinvD(1) [OF inv] fr
    by (simp add: sinv_def rq_inv_def mask_ok_def prio_ok_def)
qed

lemma running_not_waiting: "kinv s v \<Longrightarrow> RUNNING_THREAD s \<notin> waiting v"
  using sinv_parts(5) by (fastforce simp: kinv_def wait_inv_def)

section \<open>\<^verbatim>\<open>sem_down\<close>\<close>

text \<open>A free semaphore: the value drops by one and nothing else changes, flags included.\<close>

lemma sem_down_free:
  assumes "sem_val s sem \<noteq> 0"
  shows "sem_down sem s = Inr (set_sem_val sem (sem_val s sem - 1) s)"
proof -
  let ?t = "set_sem_val sem (sem_val s sem - 1) (snd (intr_disable s))"
  have "eflags ?t = eflags (snd (intr_disable s))" by (simp add: set_sem_val_def)
  then have "snd (intr_set_status (fst (intr_disable s)) ?t) = ?t\<lparr>eflags := eflags s\<rparr>"
    by (rule intr_bracket_eq)
  also have "\<dots> = set_sem_val sem (sem_val s sem - 1) s"
    by (simp add: set_sem_val_def intr_disable_def cli_def)
  finally show ?thesis
    using assms by (simp add: sem_down_def split_beta sem_down_loop.simps frame Let_def)
qed

text \<open>The state in which \<^verbatim>\<open>sem_down\<close> blocks: the running thread is the last waiter.\<close>

lemma sem_queue_running:
  assumes inv: "kinv s v" and sem: "sem \<in> vs v" and r: "r = RUNNING_THREAD s"
  shows "list_elem_find (waiters sem) (pend_tag r) s = Some False"
    and "sinv (list_push_back (waiters sem) (pend_tag r) s) (set_w sem (vw v sem @ [r]) v)"
proof -
  note sv = kinvD(1) [OF inv]
  have k: "klists s v" using rq_invD(1) [OF sinv_parts(1) [OF sv]] .
  have rt: "r \<in> vt v" "r \<notin> waiting v" using sinv_parts(2) [OF sv] running_not_waiting [OF inv] r by simp_all
  have d: "dlist (nodes s) (waiters sem) (map pend_tag (vw v sem))"
    using dl.family_rep [OF klists_family [OF k] WQ_in_kidx [OF sem]] by simp
  have "pend_tag r \<notin> set (map pend_tag (vw v sem))" using rt(2) sem by (auto simp: waiting_def)
  then show "list_elem_find (waiters sem) (pend_tag r) s = Some False"
    using dlist_find [OF d, of "pend_tag r"] by simp
  have f: "dl.family (list_push_back (waiters sem) (pend_tag r) s) klist_addr (kidx v)
      ((contents v)(WQ sem := map pend_tag (vw v sem @ [r])))"
    using dl.family_push_back [OF klists_family [OF k] WQ_in_kidx [OF sem] fresh_pend [OF k rt]]
    by simp
  show "sinv (list_push_back (waiters sem) (pend_tag r) s) (set_w sem (vw v sem @ [r]) v)"
    by (rule kinv_set_w [OF inv sem _ f])
      (use rt(1) k sem in \<open>auto simp: klists_def waiting_def list_push_back_def list_insert_before_heap\<close>)
qed

lemma push_back_kframe [frame]:
  "mem (list_push_back l e s) = mem s" "tcbs (list_push_back l e s) = tcbs s"
  "sched (list_push_back l e s) = sched s" "sem_val (list_push_back l e s) = sem_val s"
  "mtx_holder (list_push_back l e s) = mtx_holder s" "phys (list_push_back l e s) = phys s"
  "cr3 (list_push_back l e s) = cr3 s" "eflags (list_push_back l e s) = eflags s"
  by (simp_all add: list_push_back_def list_insert_before_heap)

lemma activatable_cong:
  "tcb_pg_dir (tcbs s' t) = tcb_pg_dir (tcbs s t) \<Longrightarrow> phys s' = phys s \<Longrightarrow> cr3 s' = cr3 s \<Longrightarrow>
    activatable t s' = activatable t s"
  by (simp add: activatable_def)

lemma switched_cong:
  assumes "tcbs s = tcbs u" "phys s = phys u" "cr3 s = cr3 u"
  shows "switched s s' = switched u s'"
  using space_of_cong [of s _ u] assms by (simp add: switched_def same_dirs_def)

text \<open>Once blocked threads leave the run queues, no waiting thread can be switched to.\<close>

lemma wait_inv_after_switch:
  assumes w: "wait_inv s v" and inv: "sinv s' v'" and q: "waiting v' = insert r (waiting v)"
    and live: "\<And>t. t \<in> waiting v \<Longrightarrow> t \<noteq> RUNNING_THREAD s'"
    and r: "tcb_status (tcbs s' r) = TASK_BLOCKED"
    and other: "\<forall>u. u \<noteq> r \<longrightarrow> u \<noteq> RUNNING_THREAD s' \<longrightarrow> tcbs s' u = tcbs s u"
  shows "wait_inv s' v'"
  using w r other live unfolding wait_inv_def q by (metis insert_iff)

lemma waiting_deq [simp]: "waiting (deq t p v) = waiting v"
  and waiting_enq [simp]: "waiting (enq_front t p v) = waiting v" "waiting (enq_back t p v) = waiting v"
  by (simp_all add: view_defs)

lemma waiting_push:
  "sem \<in> vs v \<Longrightarrow> waiting (set_w sem (vw v sem @ [r]) v) = insert r (waiting v)"
  unfolding waiting_set_w by (auto simp: waiting_def)

lemma waiting_not_queued: "kinv s v \<Longrightarrow> t \<in> waiting v \<Longrightarrow> t \<in> vt v \<and> t \<notin> queued v"
proof -
  assume inv: "kinv s v" and t: "t \<in> waiting v"
  have "t \<in> vt v"
    using t rq_invD(1) [OF sinv_parts(1) [OF kinvD(1) [OF inv]]] by (auto simp: klists_def)
  moreover have "tcb_status (tcbs s t) = TASK_BLOCKED" using kinvD(2) [OF inv] t by (simp add: wait_inv_def)
  ultimately show ?thesis using kinvD(1) [OF inv] by (auto simp: sinv_def live_def)
qed

lemma sem_wait_suspends:
  assumes inv: "kinv s v" and sem: "sem \<in> vs v" and r: "r = RUNNING_THREAD s"
    and other: "queued v - {r} \<noteq> {}" and act: "\<And>t. t \<in> vt v \<Longrightarrow> activatable t s"
    and v': "v' = deq r (prio_of r s) (set_w sem (vw v sem @ [r]) v)"
  obtains s' p where "sem_wait sem s = Inl (Suspended s')" and "kinv s' v'" and "least_q v' p"
    and "RUNNING_THREAD s' = hd (vq v' p)" and "tcb_status (tcbs s' r) = TASK_BLOCKED"
    and "sem_val s' = sem_val s" and "mtx_holder s' = mtx_holder s" and "\<not> need_schedule s'"
    and "switched s s'"
proof -
  let ?s1 = "list_push_back (waiters sem) (pend_tag r) s" and ?v1 = "set_w sem (vw v sem @ [r]) v"
  note q = sem_queue_running [OF inv sem r]
  have p: "prio_of r ?s1 = prio_of r s" by (simp add: prio_of_def frame)
  have bs: "block_status TASK_BLOCKED" by (simp add: block_status_def)
  have r1: "r = RUNNING_THREAD ?s1" using r by (simp add: frame)
  have o1: "queued ?v1 - {r} \<noteq> {}" using other by simp
  have a1: "activatable t ?s1" if "t \<in> vt ?v1" for t
    using act [of t] that by (simp add: activatable_def frame)
  obtain s' p where b: "thread_block TASK_BLOCKED ?s1 = Inl (Suspended s')" "least_q v' p" "sinv s' v'"
    "RUNNING_THREAD s' = hd (vq v' p)" "tcb_status (tcbs s' r) = TASK_BLOCKED" "\<not> need_schedule s'"
    "sem_val s' = sem_val ?s1" "mtx_holder s' = mtx_holder ?s1" "phys s' = phys ?s1"
    "\<forall>u. u \<noteq> r \<longrightarrow> u \<noteq> RUNNING_THREAD s' \<longrightarrow> tcbs s' u = tcbs ?s1 u" "switched ?s1 s'"
    by (rule thread_block_suspends [OF q(2) bs r1 o1 a1, unfolded p, folded v'])
  have "RUNNING_THREAD s' \<in> queued v'" using sinv_parts(3) [OF b(3)] .
  moreover have "prio_of r s < PRIO_NUM" using sinv_parts(4) [OF kinvD(1) [OF inv]] r by simp
  ultimately have "RUNNING_THREAD s' \<in> queued v"
    using queued_deq [OF sinv_parts(1) [OF q(2)], of r, unfolded p] by (simp add: v')
  then have "wait_inv s' v'"
    by (intro wait_inv_after_switch [OF kinvD(2) [OF inv] b(3), where r = r])
      (use waiting_not_queued [OF inv] waiting_push [OF sem] b(5,10) in \<open>auto simp: v' frame\<close>)
  moreover have "sem_wait sem s = Inl (Suspended s')"
    using b(1) q(1) by (simp add: sem_wait_def r [symmetric] Let_def)
  moreover have "switched s s'" using b(11) by (subst switched_cong [of _ ?s1]) (simp_all add: frame)
  ultimately show thesis using b by (intro that [of s' p]) (simp_all add: kinv_def frame)
qed

lemma kinv_disable: "kinv (snd (intr_disable s)) v = kinv s v"
  by (rule kinv_cong) (simp_all add: frame)

text \<open>A contended semaphore: the caller becomes the last waiter and loses the processor.\<close>

lemma sem_down_resume_suspends:
  assumes inv: "kinv s v" and sem: "sem \<in> vs v" "sem_val s sem = 0" and r: "r = RUNNING_THREAD s"
    and other: "queued v - {r} \<noteq> {}" and act: "\<And>t. t \<in> vt v \<Longrightarrow> activatable t s"
    and v': "v' = deq r (prio_of r s) (set_w sem (vw v sem @ [r]) v)"
  obtains s' p where "sem_down_resume sem i s = Inl (Suspended s')" and "kinv s' v'" and "least_q v' p"
    and "RUNNING_THREAD s' = hd (vq v' p)" and "tcb_status (tcbs s' r) = TASK_BLOCKED"
    and "sem_val s' = sem_val s" and "mtx_holder s' = mtx_holder s" and "\<not> need_schedule s'"
    and "switched s s'" and "sem_wait sem (snd (intr_disable s)) = Inl (Suspended s')"
proof -
  let ?s0 = "snd (intr_disable s)"
  have i0: "kinv ?s0 v" using inv by (simp add: kinv_disable)
  have r0: "r = RUNNING_THREAD ?s0" using r by (simp add: frame)
  have a0: "activatable t ?s0" if "t \<in> vt v" for t using act [OF that] by (simp add: activatable_def frame)
  have v0: "v' = deq r (prio_of r ?s0) (set_w sem (vw v sem @ [r]) v)"
    using v' by (simp add: prio_of_def frame)
  obtain s' p where w: "sem_wait sem ?s0 = Inl (Suspended s')" "kinv s' v'" "least_q v' p"
    "RUNNING_THREAD s' = hd (vq v' p)" "tcb_status (tcbs s' r) = TASK_BLOCKED"
    "sem_val s' = sem_val ?s0" "mtx_holder s' = mtx_holder ?s0" "\<not> need_schedule s'" "switched ?s0 s'"
    by (rule sem_wait_suspends [OF i0 sem(1) r0 other a0 v0])
  moreover have "switched s s'" using w(9) by (subst switched_cong [of _ ?s0]) (simp_all add: frame)
  ultimately show thesis
    using sem(2) by (intro that [of s' p])
      (simp_all add: sem_down_resume_def intr_set_status_def sem_down_loop.simps frame)
qed

text \<open>The first pass is a pass like the others.\<close>

lemma sem_down_first: "sem_down sem s = sem_down_resume sem (intr_get_status s) s"
proof -
  have "fst (intr_disable s) = intr_get_status s"
    by (cases "intr_get_status s") (simp_all add: intr_disable_def)
  then show ?thesis by (simp add: sem_down_def sem_down_resume_def intr_set_status_def split_beta)
qed

lemmas sem_down_suspends = sem_down_resume_suspends [where i = "intr_get_status s" and s = s for s,
  folded sem_down_first]

lemma sem_down_resume_free:
  assumes "sem_val s sem \<noteq> 0"
  shows "sem_down_resume sem i s =
    Inr (snd (intr_set_status i (set_sem_val sem (sem_val s sem - 1) (snd (intr_disable s)))))"
  using assms by (simp add: sem_down_resume_def intr_set_status_def [of INTR_OFF] sem_down_loop.simps frame Let_def)

section \<open>\<^verbatim>\<open>sem_up\<close>\<close>

lemma sem_up_panics: "sem_val s sem \<noteq> 0 \<Longrightarrow> \<exists>c. sem_up sem s = Inl (Panic c)"
  by (simp add: sem_up_def split_beta frame)

lemma waiters_dlist:
  "klists s v \<Longrightarrow> sem \<in> vs v \<Longrightarrow> dlist (nodes s) (waiters sem) (map pend_tag (vw v sem))"
  using dl.family_rep [OF klists_family WQ_in_kidx] by fastforce

lemma kinv_klists: "kinv s v \<Longrightarrow> klists s v"
  using rq_invD(1) sinv_parts(1) kinvD(1) by blast

lemma set_sem_frame [frame]:
  "nodes (set_sem_val sem x s) = nodes s" "mem (set_sem_val sem x s) = mem s"
  "tcbs (set_sem_val sem x s) = tcbs s" "sched (set_sem_val sem x s) = sched s"
  "eflags (set_sem_val sem x s) = eflags s" "mtx_holder (set_sem_val sem x s) = mtx_holder s"
  "sem_val (set_sem_val sem x s) = (sem_val s)(sem := x)"
  "need_schedule (set_sem_val sem x s) = need_schedule s"
  "phys (set_sem_val sem x s) = phys s" "cr3 (set_sem_val sem x s) = cr3 s"
  by (simp_all add: set_sem_val_def need_schedule_def)

text \<open>Nobody waits: the value becomes one and nothing else changes.\<close>

lemma sem_up_no_waiter:
  assumes "list_empty (waiters sem) s" and "sem_val s sem = 0"
  shows "sem_up sem s = Inr (set_sem_val sem 1 s)"
proof -
  let ?d = "snd (intr_disable s)"
  have e: "list_empty (waiters sem) ?d" using assms(1) by (simp add: list_empty_def frame)
  have "eflags (set_sem_val sem 1 ?d) = eflags ?d" by (simp add: frame)
  then have "snd (intr_set_status (fst (intr_disable s)) (set_sem_val sem 1 ?d))
      = (set_sem_val sem 1 ?d)\<lparr>eflags := eflags s\<rparr>"
    by (rule intr_bracket_eq)
  also have "\<dots> = set_sem_val sem 1 s"
    by (simp add: set_sem_val_def intr_disable_def cli_def)
  finally show ?thesis using e assms(2) by (simp add: sem_up_def split_beta frame Let_def)
qed

lemma sem_up_idle:
  assumes "klists s v" and "sem \<in> vs v" and "vw v sem = []" and "sem_val s sem = 0"
  shows "sem_up sem s = Inr (set_sem_val sem 1 s)"
proof -
  have "dlist (nodes s) (waiters sem) []"
    using waiters_dlist [OF assms(1,2)] assms(3) by simp
  then have "list_empty (waiters sem) s" by (simp add: dlist_empty)
  then show ?thesis using assms(4) by (rule sem_up_no_waiter)
qed

lemma remove_kframe [frame]:
  "mem (list_remove e s) = mem s" "tcbs (list_remove e s) = tcbs s"
  "sched (list_remove e s) = sched s" "sem_val (list_remove e s) = sem_val s"
  "mtx_holder (list_remove e s) = mtx_holder s" "phys (list_remove e s) = phys s"
  "cr3 (list_remove e s) = cr3 s" "eflags (list_remove e s) = eflags s"
  by (simp_all add: list_remove_heap)

lemma pop_waiter:
  assumes inv: "kinv s v" and sem: "sem \<in> vs v" and w: "vw v sem = t # ws"
  shows "list_pop_front (waiters sem) s = (pend_tag t, list_remove (pend_tag t) s)"
    and "sinv (list_remove (pend_tag t) s) (set_w sem ws v)"
    and "waiting (set_w sem ws v) = waiting v - {t}"
proof -
  note k = kinv_klists [OF inv]
  have d: "dlist (nodes s) (waiters sem) (pend_tag t # map pend_tag ws)"
    using waiters_dlist [OF k sem] w by simp
  show "list_pop_front (waiters sem) s = (pend_tag t, list_remove (pend_tag t) s)"
    using dlist_first [OF d] by (simp add: list_pop_front_def list_first_elem_def Let_def)
  have "dl.family (list_remove (pend_tag t) s) klist_addr (kidx v)
      ((contents v)(WQ sem := remove1 (pend_tag t) (contents v (WQ sem))))"
    by (rule dl.family_remove [OF klists_family [OF k] WQ_in_kidx [OF sem]]) (simp add: w)
  then have f: "dl.family (list_remove (pend_tag t) s) klist_addr (kidx v)
      ((contents v)(WQ sem := map pend_tag ws))"
    by (simp add: w)
  have "set (vw v sem) \<subseteq> waiting v" using sem by (auto simp: waiting_def)
  then have "set ws \<subseteq> vt v" using waiting_not_queued [OF inv] w by auto
  then show "sinv (list_remove (pend_tag t) s) (set_w sem ws v)"
    by (intro kinv_set_w [OF inv sem _ f]) (auto simp: frame)
  have u: "t \<notin> set (vw v m)" if "m \<in> vs v" "m \<noteq> sem" for m
    using dl.family_unique [OF klists_family [OF k] WQ_in_kidx [OF sem] WQ_in_kidx [OF that(1)], of "pend_tag t"]
      w that by auto
  have "distinct (t # ws)"
    using dl.family_distinct [OF klists_family [OF k] WQ_in_kidx [OF sem]] w by (auto simp: distinct_map)
  with u w sem show "waiting (set_w sem ws v) = waiting v - {t}"
    unfolding waiting_set_w [OF sem] by (auto simp: waiting_def)
qed

text \<open>Somebody waits: the first waiter becomes ready, at the front of its queue.\<close>

lemma sem_up_wakes:
  assumes inv: "kinv s v" and sem: "sem \<in> vs v" "sem_val s sem = 0" and w: "vw v sem = t # ws"
    and v': "v' = enq_front t (prio_of t s) (set_w sem ws v)"
  obtains s' where "sem_up sem s = Inr s'" and "kinv s' v'"
    and "sem_val s' = (sem_val s)(sem := 1)" and "tcb_status (tcbs s' t) = TASK_READY"
    and "RUNNING_THREAD s' = RUNNING_THREAD s" and "eflags s' = eflags s"
    and "mtx_holder s' = mtx_holder s"
    and "need_schedule s' \<longleftrightarrow>
      need_schedule s \<or> tcb_priority (tcbs s (RUNNING_THREAD s)) > tcb_priority (tcbs s t)"
    and "\<forall>u. u \<noteq> t \<longrightarrow> tcbs s' u = tcbs s u"
    and "same_dirs s s'" and "cr3 s' = cr3 s"
proof -
  let ?d = "snd (intr_disable s)" and ?w = "set_w sem ws v"
  let ?r = "list_remove (pend_tag t) ?d"
  have id: "kinv ?d v" using inv by (simp add: kinv_disable)
  note pop = pop_waiter [OF id sem(1) w]
  have tw: "t \<in> waiting v" unfolding waiting_def by (rule UN_I [OF sem(1)]) (simp add: w)
  then have tv: "t \<in> vt ?w" using waiting_not_queued [OF inv] by simp
  have tb: "tcb_status (tcbs ?r t) = TASK_BLOCKED"
    using kinvD(2) [OF inv] tw by (simp add: wait_inv_def frame)
  then have bs: "block_status (tcb_status (tcbs ?r t))" by (simp add: block_status_def)
  have pr: "prio_of t ?r = prio_of t s" by (simp add: prio_of_def frame)
  have nd: "need_schedule ?r = need_schedule s" by (simp add: need_schedule_def frame)
  obtain u where u: "thread_unblock t ?r = Inr u" "sinv u v'" "tcb_status (tcbs u t) = TASK_READY"
    "need_schedule u \<longleftrightarrow> need_schedule ?r
      \<or> tcb_priority (tcbs ?r (RUNNING_THREAD ?r)) > tcb_priority (tcbs ?r t)"
    "RUNNING_THREAD u = RUNNING_THREAD ?r" "eflags u = eflags ?r" "sem_val u = sem_val ?r"
    "mtx_holder u = mtx_holder ?r" "phys u = phys ?r" "\<forall>x. x \<noteq> t \<longrightarrow> tcbs u x = tcbs ?r x" "same_dirs ?r u" "cr3 u = cr3 ?r"
    by (rule thread_unblock_ok [OF pop(2) tv bs, unfolded pr, folded v'])
  let ?u1 = "set_sem_val sem 1 u"
  let ?s' = "snd (intr_set_status (fst (intr_disable s)) ?u1)"
  have ne: "\<not> list_empty (waiters sem) ?d"
    using dlist_empty [OF waiters_dlist [OF kinv_klists [OF id] sem(1)]] w by simp
  have "wait_inv u v'"
    using kinvD(2) [OF inv] u(10) pop(3) by (auto simp: wait_inv_def v' frame)
  with u(2) have "kinv u v'" by (simp add: kinv_def)
  then have k: "kinv ?s' v'" by (subst kinv_cong [of _ u]) (simp_all add: frame)
  have sv: "sem_val u sem = 0" using u(7) sem(2) by (simp add: frame)
  have up: "sem_up sem s = Inr ?s'"
    using sem(2) ne pop(1) u(1) sv by (simp add: sem_up_def split_beta frame Let_def)
  have ef: "eflags ?s' = eflags s" by (rule intr_bracket) (simp add: frame u(6))
  show thesis
    by (rule that [OF up k _ _ _ ef]) (use u nd in \<open>simp_all add: frame same_dirs_def\<close>)
qed

section \<open>Mutexes\<close>

lemma set_holder_frame [frame]:
  "nodes (set_holder m t s) = nodes s" "mem (set_holder m t s) = mem s"
  "tcbs (set_holder m t s) = tcbs s" "sched (set_holder m t s) = sched s"
  "eflags (set_holder m t s) = eflags s" "sem_val (set_holder m t s) = sem_val s"
  "mtx_holder (set_holder m t s) = (mtx_holder s)(m := t)"
  "need_schedule (set_holder m t s) = need_schedule s"
  "phys (set_holder m t s) = phys s" "cr3 (set_holder m t s) = cr3 s"
  by (simp_all add: set_holder_def need_schedule_def)

lemma mutex_lock_free:
  assumes "sem_val s (mtx_sem m) \<noteq> 0"
  shows "mutex_lock m s =
    Inr (set_holder m (RUNNING_THREAD s) (set_sem_val (mtx_sem m) (sem_val s (mtx_sem m) - 1) s))"
  using assms by (simp add: mutex_lock_def sem_down_free frame)

lemma mutex_lock_contended:
  "sem_down (mtx_sem m) s = Inl (Suspended s') \<Longrightarrow> mutex_lock m s = Inl (Suspended s')"
  by (simp add: mutex_lock_def)

lemma mutex_unlock_no_waiter:
  assumes "list_empty (waiters (mtx_sem m)) s" and "sem_val s (mtx_sem m) = 0"
  shows "mutex_unlock m s = Inr (set_holder m NULL (set_sem_val (mtx_sem m) 1 s))"
  using sem_up_no_waiter [OF assms] by (simp add: mutex_unlock_def)

lemma mutex_unlock_idle:
  assumes "klists s v" and "mtx_sem m \<in> vs v" and "vw v (mtx_sem m) = []" and "sem_val s (mtx_sem m) = 0"
  shows "mutex_unlock m s = Inr (set_holder m NULL (set_sem_val (mtx_sem m) 1 s))"
  using sem_up_idle [OF assms] by (simp add: mutex_unlock_def)

text \<open>An uncontended lock followed by its unlock leaves only the holder field changed.\<close>

lemma lock_unlock:
  assumes "klists s v" and "mtx_sem m \<in> vs v" and "vw v (mtx_sem m) = []" and "sem_val s (mtx_sem m) = 1"
  shows "and_then (mutex_lock m s) (mutex_unlock m) = Inr (set_holder m NULL s)"
proof -
  let ?l = "set_holder m (RUNNING_THREAD s) (set_sem_val (mtx_sem m) 0 s)"
  have l: "mutex_lock m s = Inr ?l" using mutex_lock_free [of s m] assms(4) by simp
  have "klists ?l v" using assms(1) by (subst klists_cong [of _ s]) (simp_all add: frame)
  from mutex_unlock_idle [OF this assms(2,3)] have
    "mutex_unlock m ?l = Inr (set_holder m NULL (set_sem_val (mtx_sem m) 1 ?l))"
    by (simp add: frame)
  moreover have "set_holder m NULL (set_sem_val (mtx_sem m) 1 ?l) = set_holder m NULL s"
    using assms(4) by (simp add: set_holder_def set_sem_val_def fun_upd_idem)
  ultimately show ?thesis by (simp add: l)
qed

section \<open>A scheduling point\<close>

lemma waiting_requeue [simp]: "waiting (requeue r p v) = waiting v"
  by (simp add: requeue_def)

text \<open>The processor never goes to a waiting thread, so the waiter lists keep their meaning.\<close>

lemma main_schedule_kinv:
  assumes inv: "kinv s v" and need: "need_schedule s" and r: "r = RUNNING_THREAD s"
    and act: "\<And>t. t \<in> vt v \<Longrightarrow> activatable t s" and v': "v' = requeue r (prio_of r s) v"
  obtains s' p where "main_schedule s = Inr s'" and "least_q v' p" and "kinv s' v'"
    and "RUNNING_THREAD s' = hd (vq v' p)" and "\<not> need_schedule s'"
    and "prio_of r s' = next_prio (prio_of r s)"
    and "tcb_ticks (tcbs s' r) = ticks_get (next_prio (prio_of r s))"
    and "sem_val s' = sem_val s" and "eflags s' = eflags s" and "mtx_holder s' = mtx_holder s"
    and "switched s s'" and "\<forall>u. u \<noteq> r \<longrightarrow> tcb_ticks (tcbs s' u) = tcb_ticks (tcbs s u)"
proof -
  note sv = kinvD(1) [OF inv]
  obtain s' p where m: "main_schedule s = Inr s'" "least_q v' p" "sinv s' v'"
    "RUNNING_THREAD s' = hd (vq v' p)" "\<not> need_schedule s'"
    "prio_of r s' = next_prio (prio_of r s)" "tcb_ticks (tcbs s' r) = ticks_get (next_prio (prio_of r s))"
    "sem_val s' = sem_val s" "eflags s' = eflags s" "phys s' = phys s" "mtx_holder s' = mtx_holder s"
    "\<forall>u. u \<noteq> r \<longrightarrow> u \<noteq> RUNNING_THREAD s' \<longrightarrow> tcbs s' u = tcbs s u" "switched s s'"
    "\<forall>u. u \<noteq> r \<longrightarrow> tcb_ticks (tcbs s' u) = tcb_ticks (tcbs s u)"
    by (rule main_schedule_sinv [OF sv need r act, folded v'])
  have "RUNNING_THREAD s' \<in> queued v"
    using sinv_parts(3) [OF m(3)] requeue_pinv(2) [OF sv r] by (simp add: v')
  then have "t \<noteq> r \<and> t \<noteq> RUNNING_THREAD s'" if "t \<in> waiting v" for t
    using waiting_not_queued [OF inv that] running_not_waiting [OF inv] that r by auto
  then have "wait_inv s' v'" using kinvD(2) [OF inv] m(12) by (simp add: wait_inv_def v')
  with m show thesis by (intro that [of s' p]) (simp_all add: kinv_def)
qed

end
