(* ===== verification/Print.thy ===== *)
theory Print
  imports Machine Libc
begin

text \<open>
  \<^verbatim>\<open>src/lib/kernel/print.c\<close>: the text console on the VGA frame buffer. The cursor
  lives in two CRT controller registers, the characters in video memory at
  \<open>0xc00b8000\<close>, two bytes a cell. A C string argument is its list of bytes. The second
  half gives the abstract screen (a cursor and 2000 cells) and shows that the code implements it.
\<close>

section \<open>Constants\<close>

definition CRT_ADDR_REG :: u16 where "CRT_ADDR_REG = 0x03d4"
definition CRT_DATA_REG :: u16 where "CRT_DATA_REG = 0x03d5"
definition CUR_POS_HIGH_INDEX :: u8 where "CUR_POS_HIGH_INDEX = 0x0e"
definition CUR_POS_LOW_INDEX :: u8 where "CUR_POS_LOW_INDEX = 0x0f"
definition BLK_BACK_WHT_WORD :: u8 where "BLK_BACK_WHT_WORD = 0x07"
definition SCREEN_COL_MAX :: u16 where "SCREEN_COL_MAX = 80"
definition SCREEN_ROW_MAX :: u16 where "SCREEN_ROW_MAX = 25"
definition SCREEN_MAX :: u16 where "SCREEN_MAX = SCREEN_ROW_MAX * SCREEN_COL_MAX"
definition video_base_addr :: addr where "video_base_addr = 0xc00b8000"
definition roll_video_src_addr :: addr where "roll_video_src_addr = 0xc00b80a0"
definition roll_video_dst_addr :: addr where "roll_video_dst_addr = 0xc00b8000"

lemmas crt_consts = CRT_ADDR_REG_def CRT_DATA_REG_def CUR_POS_HIGH_INDEX_def CUR_POS_LOW_INDEX_def

section \<open>The operations\<close>

definition set_cursor :: "u16 \<Rightarrow> 'a machine_scheme \<Rightarrow> 'a machine_scheme" where
  "set_cursor target s =
     (let high = ucast (drop_bit 8 target AND 0xff);
          low = ucast (target AND 0xff);
          s = outb CRT_ADDR_REG CUR_POS_HIGH_INDEX s;
          s = outb CRT_DATA_REG high s;
          s = outb CRT_ADDR_REG CUR_POS_LOW_INDEX s
      in outb CRT_DATA_REG low s)"

definition get_cursor :: "'a machine_scheme \<Rightarrow> u16 \<times> 'a machine_scheme" where
  "get_cursor s =
     (let s = outb CRT_ADDR_REG CUR_POS_HIGH_INDEX s;
          cur_pos_high = ucast (inb CRT_DATA_REG s) :: u16;
          s = outb CRT_ADDR_REG CUR_POS_LOW_INDEX s;
          cur_pos_low = ucast (inb CRT_DATA_REG s) :: u16
      in ((push_bit 8 cur_pos_high AND 0xff00) OR (cur_pos_low AND 0x00ff), s))"

text \<open>The file's own \<^verbatim>\<open>memcpy\<close>, without the assertion of \<^verbatim>\<open>string.c\<close>.\<close>

definition print_memcpy :: "addr \<Rightarrow> addr \<Rightarrow> u32 \<Rightarrow> memory \<Rightarrow> memory" where
  "print_memcpy dst src sz m = memcpy_loop dst src sz 0 m"

definition ROLL_SCREEN :: "'a machine_scheme \<Rightarrow> 'a machine_scheme" where
  "ROLL_SCREEN s =
     s\<lparr>video := print_memcpy roll_video_dst_addr roll_video_src_addr (960 * 4) (video s)\<rparr>"

text \<open>\<open>n\<close> iterations of the loop of \<^verbatim>\<open>clean_last_line\<close>, from \<open>offset\<close> on.\<close>

primrec clean_loop :: "nat \<Rightarrow> u32 \<Rightarrow> memory \<Rightarrow> memory" where
  "clean_loop 0 offset vm = vm"
| "clean_loop (Suc n) offset vm =
     clean_loop n (offset + 2)
       (vm(video_base_addr + offset := 0x20, video_base_addr + (offset + 1) := BLK_BACK_WHT_WORD))"

definition clean_last_line :: "'a machine_scheme \<Rightarrow> 'a machine_scheme" where
  "clean_last_line s = s\<lparr>video := clean_loop 80 3840 (video s)\<rparr>"

definition CHECK_OUT_OF_SCREEN :: "u16 \<Rightarrow> 'a machine_scheme \<Rightarrow> u16 \<times> 'a machine_scheme" where
  "CHECK_OUT_OF_SCREEN next_cur_pos s =
     (if next_cur_pos \<ge> SCREEN_MAX
      then (SCREEN_MAX - SCREEN_COL_MAX, clean_last_line (ROLL_SCREEN s))
      else (next_cur_pos, s))"

definition put_cell :: "u32 \<Rightarrow> u8 \<Rightarrow> 'a machine_scheme \<Rightarrow> 'a machine_scheme" where
  "put_cell offset c s =
     s\<lparr>video := (video s)(video_base_addr + offset := c,
                            video_base_addr + (offset + 1) := BLK_BACK_WHT_WORD)\<rparr>"

definition put_char :: "u8 \<Rightarrow> 'a machine_scheme \<Rightarrow> 'a machine_scheme" where
  "put_char c s =
     (let (cur_pos, s) = get_cursor s;
          (next_cur_pos, s) =
            (if c = 13 \<or> c = 10 then
               CHECK_OUT_OF_SCREEN (cur_pos - cur_pos mod 80 + 80) s
             else if c = 8 then
               (cur_pos - 1, put_cell ((ucast cur_pos - 1) * 2) 0x20 s)
             else
               CHECK_OUT_OF_SCREEN (cur_pos + 1) (put_cell (ucast cur_pos * 2) c s))
      in set_cursor next_cur_pos s)"

fun put_str :: "u8 list \<Rightarrow> 'a machine_scheme \<Rightarrow> 'a machine_scheme" where
  "put_str [] s = s"
| "put_str (c # cs) s = (if c \<noteq> 0 then put_str cs (put_char c s) else s)"

text \<open>A string literal as bytes.\<close>

definition lit :: "string \<Rightarrow> u8 list" where
  "lit cs = map of_char cs"

definition hex_char :: "u8 \<Rightarrow> u8" where
  "hex_char low = (if low \<ge> 0 \<and> low \<le> 9 then low + 0x30 else low - 10 + 0x41)"

text \<open>The digit loop of \<^verbatim>\<open>put_int\<close>; a write outside the nine bytes of the buffer is
  \<open>None\<close>.\<close>

function put_int_loop :: "u32 \<Rightarrow> u8 \<Rightarrow> u8 list \<Rightarrow> (u8 \<times> u8 list) option" where
  "put_int_loop num_tmp off for_print =
     (if num_tmp \<noteq> 0 then
        if unat off < length for_print then
          put_int_loop (drop_bit 4 num_tmp) (off - 1)
            (for_print[unat off := hex_char (ucast (num_tmp AND 0xf))])
        else None
      else Some (off, for_print))"
  by pat_completeness auto
termination
proof (relation "measure (\<lambda>(n, off, buf). unat n)", simp)
  fix n :: u32 and off :: u8 and buf :: "u8 list" assume "n \<noteq> 0"
  then have "0 < unat n" by (simp add: unat_gt_0)
  then have "unat (drop_bit 4 n) < unat n" by (simp add: drop_bit_eq_div unat_div)
  then show "((drop_bit 4 n, off - 1, buf[unat off := hex_char (ucast (n AND 0xf))]), n, off, buf)
      \<in> measure (\<lambda>(n, off, buf). unat n)"
    by simp
qed

declare put_int_loop.simps [simp del]

definition put_int :: "u32 \<Rightarrow> 'a machine_scheme \<Rightarrow> 's halt + 'a machine_scheme" where
  "put_int num s =
     (let for_print = replicate 9 0; off = 7
      in case (if num = 0 then Some (off - 1, for_print[unat off := 0x30])
               else put_int_loop num off for_print) of
           None \<Rightarrow> Inl Overrun
         | Some (off, for_print) \<Rightarrow> Inr (put_str (drop (unat (off + 1)) for_print) s))"

section \<open>The cursor\<close>

definition cursor :: "'a machine_scheme \<Rightarrow> u16" where
  "cursor s = push_bit 8 (ucast (crt_regs s 0x0e)) OR ucast (crt_regs s 0x0f)"

lemma mask_bytes: "(0xff00 :: u16) = push_bit 8 (mask 8)" "(0xff :: u16) = mask 8"
  by (simp_all add: mask_eq_exp_minus_1 push_bit_eq_mult)

lemma get_cursor_eq: "get_cursor s = (cursor s, s\<lparr>crt_index := 0x0f\<rparr>)"
proof -
  have "(push_bit 8 (ucast h) AND 0xff00) OR (ucast l AND 0x00ff) = push_bit 8 (ucast h) OR (ucast l :: u16)"
    for h l :: u8
    unfolding mask_bytes by (rule bit_word_eqI) (auto simp: bit_simps dest: bit_imp_le_length)
  then show ?thesis by (simp add: get_cursor_def cursor_def outb_def inb_def crt_consts Let_def)
qed

lemma set_cursor_eq:
  "set_cursor t s = s\<lparr>crt_index := 0x0f,
     crt_regs := (crt_regs s)(0x0e := ucast (drop_bit 8 t AND 0xff), 0x0f := ucast (t AND 0xff))\<rparr>"
  by (simp add: set_cursor_def outb_def crt_consts Let_def)

text \<open>What is written to the cursor registers is what is read back.\<close>

lemma cursor_set_cursor [simp]: "cursor (set_cursor t s) = t"
proof -
  have "push_bit 8 (ucast (ucast (drop_bit 8 t AND 0xff) :: u8)) OR ucast (ucast (t AND 0xff) :: u8) = t"
    unfolding mask_bytes by (rule bit_word_eqI) (auto simp: bit_simps)
  then show ?thesis by (simp add: cursor_def set_cursor_eq)
qed

section \<open>The abstract screen\<close>

definition vb :: "nat \<Rightarrow> addr" where
  "vb k = video_base_addr + of_nat k"

definition cell :: "memory \<Rightarrow> nat \<Rightarrow> u8 \<times> u8" where
  "cell vm i = (vm (vb (2 * i)), vm (vb (2 * i + 1)))"

definition screen :: "memory \<Rightarrow> (u8 \<times> u8) list" where
  "screen vm = map (cell vm) [0..<2000]"

definition blank :: "u8 \<times> u8" where
  "blank = (0x20, 0x07)"

definition scroll :: "(u8 \<times> u8) list \<Rightarrow> (u8 \<times> u8) list" where
  "scroll cs = drop 80 cs @ replicate 80 blank"

definition advance :: "nat \<Rightarrow> (u8 \<times> u8) list \<Rightarrow> nat \<times> (u8 \<times> u8) list" where
  "advance q cs = (if 2000 \<le> q then (1920, scroll cs) else (q, cs))"

definition type_char :: "u8 \<Rightarrow> nat \<times> (u8 \<times> u8) list \<Rightarrow> nat \<times> (u8 \<times> u8) list" where
  "type_char c st =
     (let (p, cs) = st
      in if c = 13 \<or> c = 10 then advance (p - p mod 80 + 80) cs
         else if c = 8 then (p - 1, cs[p - 1 := blank])
         else advance (p + 1) (cs[p := (c, 0x07)]))"

lemma vb_inj: "j < 4294967296 \<Longrightarrow> k < 4294967296 \<Longrightarrow> vb j = vb k \<longleftrightarrow> j = k"
  by (simp add: vb_def of_nat_inj_u32)

lemma length_screen [simp]: "length (screen vm) = 2000"
  by (simp add: screen_def)

lemma nth_screen: "i < 2000 \<Longrightarrow> screen vm ! i = cell vm i"
  by (simp add: screen_def)

lemma screen_put:
  assumes "p < 2000"
  shows "screen (vm(vb (2 * p) := c, vb (2 * p + 1) := d)) = (screen vm)[p := (c, d)]"
proof (rule nth_equalityI)
  fix i assume "i < length (screen (vm(vb (2 * p) := c, vb (2 * p + 1) := d)))"
  then have i: "i < 2000" by simp
  have "2 * i \<noteq> 2 * p + 1" "2 * i + 1 \<noteq> 2 * p" by presburger+
  with assms i show "screen (vm(vb (2 * p) := c, vb (2 * p + 1) := d)) ! i = (screen vm)[p := (c, d)] ! i"
    by (simp add: nth_screen cell_def vb_inj nth_list_update)
qed simp

lemma put_cell_screen:
  assumes "p < 2000"
  shows "screen (video (put_cell (of_nat p * 2) c s)) = (screen (video s))[p := (c, 0x07)]"
  using screen_put [OF assms, of "video s" c "0x07"]
  by (simp add: put_cell_def BLK_BACK_WHT_WORD_def vb_def mult.commute add.commute)

section \<open>Scrolling\<close>

lemma roll_cell: "print_memcpy roll_video_dst_addr roll_video_src_addr 3840 vm (vb k) =
    (if of_nat k < (3840 :: u32) then vm (vb (k + 160)) else vm (vb k))"
proof -
  have "roll_video_dst_addr = roll_video_src_addr \<or>
      960 * 4 \<le> roll_video_dst_addr - roll_video_src_addr"
    by (simp add: roll_video_dst_addr_def roll_video_src_addr_def word_le_nat_alt)
  from memcpy_loop_read [OF this, of 0 vm vm "vb k"] show ?thesis
    by (simp add: print_memcpy_def vb_def video_base_addr_def roll_video_dst_addr_def
      roll_video_src_addr_def)
qed

lemma clean_loop_read:
  assumes "off + 2 * n \<le> 4294967296" and "k < 4294967296"
  shows "clean_loop n (of_nat off) vm (vb k) =
    (if off \<le> k \<and> k < off + 2 * n then if even (k - off) then 0x20 else 0x07 else vm (vb k))"
  using assms(1)
proof (induction n arbitrary: off vm)
  case 0
  then show ?case by auto
next
  case (Suc n)
  let ?vm = "vm(vb off := 0x20, vb (off + 1) := 0x07)"
  have u: "?vm (vb k) = (if k = off then 0x20 else if k = off + 1 then 0x07 else vm (vb k))"
    using Suc.prems assms(2) by (simp add: vb_inj)
  have "clean_loop (Suc n) (of_nat off) vm (vb k) = clean_loop n (of_nat (off + 2)) ?vm (vb k)"
    by (simp add: vb_def BLK_BACK_WHT_WORD_def add.commute)
  also have "\<dots> = (if off + 2 \<le> k \<and> k < off + 2 + 2 * n
      then if even (k - (off + 2)) then 0x20 else 0x07 else ?vm (vb k))"
    by (rule Suc.IH) (use Suc.prems in simp)
  also have "\<dots> = (if off \<le> k \<and> k < off + 2 * Suc n
      then if even (k - off) then 0x20 else 0x07 else vm (vb k))"
    unfolding u by (cases "k = off"; cases "k = off + 1") (auto simp: le_less_Suc_eq)
  finally show ?case .
qed

definition rolled :: "memory \<Rightarrow> memory" where
  "rolled vm = clean_loop 80 3840 (print_memcpy roll_video_dst_addr roll_video_src_addr (960 * 4) vm)"

lemma rolled_read:
  assumes "k < 4294967296"
  shows "rolled vm (vb k) =
    (if k < 3840 then vm (vb (k + 160))
     else if k < 4000 then if even k then 0x20 else 0x07 else vm (vb k))"
proof -
  have "(of_nat k < (3840 :: u32)) = (k < 3840)"
    using assms by (simp add: word_less_nat_alt unat_of_nat)
  then show ?thesis
    using clean_loop_read [of 3840 80 k] assms by (auto simp: rolled_def roll_cell)
qed

lemma rolled_screen: "screen (rolled vm) = scroll (screen vm)"
proof (rule nth_equalityI)
  show "length (screen (rolled vm)) = length (scroll (screen vm))" by (simp add: scroll_def)
  fix i assume "i < length (screen (rolled vm))"
  then have i: "i < 2000" by simp
  have "cell (rolled vm) i = (if i < 1920 then cell vm (i + 80) else blank)"
    using i by (simp add: cell_def rolled_read blank_def add.commute)
  then show "screen (rolled vm) ! i = scroll (screen vm) ! i"
    using i by (simp add: nth_screen scroll_def nth_append add.commute)
qed

lemma CHECK_eq:
  "CHECK_OUT_OF_SCREEN q s =
    (if 2000 \<le> q then (1920, s\<lparr>video := rolled (video s)\<rparr>) else (q, s))"
  by (simp add: CHECK_OUT_OF_SCREEN_def SCREEN_MAX_def SCREEN_ROW_MAX_def SCREEN_COL_MAX_def
    clean_last_line_def ROLL_SCREEN_def rolled_def)

section \<open>The console implements the abstract screen\<close>

definition console :: "'a machine_scheme \<Rightarrow> nat \<times> (u8 \<times> u8) list" where
  "console s = (unat (cursor s), screen (video s))"

definition console_ok :: "'a machine_scheme \<Rightarrow> bool" where
  "console_ok s \<longleftrightarrow> unat (cursor s) < 2000"

text \<open>Backspace in the top left corner is the one character the abstract screen excludes.\<close>

definition printable_at :: "u8 \<Rightarrow> 'a machine_scheme \<Rightarrow> bool" where
  "printable_at c s \<longleftrightarrow> c = 8 \<longrightarrow> cursor s \<noteq> 0"

lemma video_set_cursor [simp]: "video (set_cursor t s) = video s"
  by (simp add: set_cursor_eq)

lemma newline_pos:
  assumes "unat (p :: u16) < 2000"
  shows "unat (p - p mod 80 + 80) = unat p - unat p mod 80 + 80"
proof -
  have "p mod 80 \<le> p" by (simp add: word_le_nat_alt unat_mod)
  then have "unat (p - p mod 80) = unat p - unat p mod 80" by (simp add: unat_sub unat_mod)
  then show ?thesis using assms by (simp add: unat_word_ariths unat_mod)
qed

lemma put_char_newline:
  "c = 13 \<or> c = 10 \<Longrightarrow> put_char c s =
     (let (q, s) = CHECK_OUT_OF_SCREEN (cursor s - cursor s mod 80 + 80) (s\<lparr>crt_index := 0x0f\<rparr>)
      in set_cursor q s)"
  by (simp add: put_char_def get_cursor_eq)

lemma u16_le: "(2000 \<le> (q :: u16)) = (2000 \<le> unat q)"
  by (simp add: word_le_nat_alt)

lemma advance_step:
  assumes "unat q = n" and "screen (video s) = cs"
  shows "console (let (q, s) = CHECK_OUT_OF_SCREEN q s in set_cursor q s) = advance n cs"
  using assms by (simp add: CHECK_eq console_def advance_def u16_le rolled_screen)

lemma put_char_console:
  assumes ok: "console_ok s" and bs: "printable_at c s"
  shows "console (put_char c s) = type_char c (console s)"
proof -
  let ?p = "cursor s" and ?s = "s\<lparr>crt_index := 0x0f\<rparr>"
  have p: "unat ?p < 2000" using ok by (simp add: console_ok_def)
  consider "c = 13 \<or> c = 10" | "c = 8" | "c \<noteq> 13" "c \<noteq> 10" "c \<noteq> 8" by blast
  then show ?thesis
  proof cases
    case 1
    then show ?thesis
      using advance_step [OF newline_pos [OF p], of ?s "screen (video s)"]
      by (simp add: put_char_newline type_char_def console_def)
  next
    case 2
    with bs have z: "?p \<noteq> 0" by (simp add: printable_at_def)
    have q: "unat (?p - 1) = unat ?p - 1" using z by (simp add: unat_minus_one)
    have "1 \<le> unat ?p" using z by (simp add: Suc_le_eq unat_gt_0)
    then have "(ucast ?p :: u32) * 2 - 2 = of_nat (unat ?p - 1) * 2" by (simp add: of_nat_diff)
    moreover have "unat ?p - 1 < 2000" using p by simp
    ultimately show ?thesis
      using 2 put_cell_screen [of "unat ?p - 1" "0x20" ?s]
      by (simp add: put_char_def get_cursor_eq type_char_def console_def q blank_def)
  next
    case 3
    have q: "unat (?p + 1) = unat ?p + 1" using p by (simp add: unat_word_ariths)
    show ?thesis
      using 3 advance_step [OF q put_cell_screen [OF p, of c ?s]]
      by (simp add: put_char_def get_cursor_eq type_char_def console_def)
  qed
qed


lemma type_char_pos:
  assumes "fst st < 2000"
  shows "fst (type_char c st) < 2000"
  using assms by (cases st) (auto simp: type_char_def advance_def)

lemma put_char_ok: "console_ok s \<Longrightarrow> printable_at c s \<Longrightarrow> console_ok (put_char c s)"
  using put_char_console [of s c] type_char_pos [of "console s" c]
  by (simp add: console_ok_def console_def prod_eq_iff)

text \<open>Only the CRT registers and video memory change.\<close>

definition crt_only :: "'a machine_scheme \<Rightarrow> 'a machine_scheme \<Rightarrow> bool" where
  "crt_only s t \<longleftrightarrow> t = s\<lparr>crt_index := crt_index t, crt_regs := crt_regs t, video := video t\<rparr>"

lemma crt_only_refl: "crt_only s s"
  by (simp add: crt_only_def)

lemma crt_only_trans: "crt_only s t \<Longrightarrow> crt_only t u \<Longrightarrow> crt_only s u"
  by (cases s, cases t, cases u) (simp add: crt_only_def)

lemma put_char_crt: "crt_only s (put_char c s)"
  by (cases s)
    (simp add: crt_only_def put_char_def get_cursor_eq put_cell_def set_cursor_eq CHECK_eq)

lemma put_str_crt: "crt_only s (put_str cs s)"
  by (induction cs arbitrary: s) (auto intro: crt_only_refl crt_only_trans put_char_crt)

lemma crt_only_frame:
  assumes "crt_only s t"
  shows "eflags t = eflags s" "machine.more t = machine.more s" "out_log t = out_log s"
    "in_ports t = in_ports s"
  using assms unfolding crt_only_def by (metis machine.select_convs machine.surjective
    machine.update_convs)+

text \<open>A string with neither zero nor backspace is typed character by character.\<close>

lemma put_str_console:
  assumes "console_ok s" and "0 \<notin> set cs" and "8 \<notin> set cs"
  shows "console (put_str cs s) = fold type_char cs (console s)" and "console_ok (put_str cs s)"
proof -
  have "console (put_str cs s) = fold type_char cs (console s) \<and> console_ok (put_str cs s)"
    using assms
  proof (induction cs arbitrary: s)
    case Nil
    then show ?case by simp
  next
    case (Cons c cs)
    then have "printable_at c s" by (simp add: printable_at_def)
    with Cons show ?case using put_char_console [of s c] put_char_ok [of s c] by simp
  qed
  then show "console (put_str cs s) = fold type_char cs (console s)" and "console_ok (put_str cs s)"
    by simp_all
qed

section \<open>Numbers in hexadecimal\<close>

text \<open>The digits of a number, most significant first.\<close>

function hex_digits :: "u32 \<Rightarrow> u8 list" where
  "hex_digits n =
     (if n < 16 then [hex_char (ucast n)]
      else hex_digits (n div 16) @ [hex_char (ucast (n mod 16))])"
  by pat_completeness auto
termination
  by (relation "measure unat") (simp_all add: word_less_nat_alt unat_div)

declare hex_digits.simps [simp del]

lemma and_f: "(n :: u32) AND 0xf = n mod 16"
  using word_mod_2p_is_mask [of 4 n] by (simp add: mask_eq_exp_minus_1)

lemma put_int_loop_digits:
  assumes "num \<noteq> 0" and "unat num < 16 ^ (k + 1)" and "unat off = k" and "k < length buf"
  shows "\<exists>off' buf'. put_int_loop num off buf = Some (off', buf')
    \<and> drop (unat (off' + 1)) buf' = hex_digits num @ drop (k + 1) buf"
  using assms
proof (induction num arbitrary: k off buf rule: hex_digits.induct)
  case (1 num)
  let ?d = "hex_char (ucast (num AND 0xf))"
  have half: "drop_bit 4 num = num div 16" by (simp add: drop_bit_eq_div)
  have step: "put_int_loop num off buf = put_int_loop (num div 16) (off - 1) (buf[k := ?d])"
    using "1.prems" half by (subst put_int_loop.simps) simp
  show ?case
  proof (cases "num < 16")
    case True
    then have "num div 16 = 0" by (simp add: div_word_less)
    then have "put_int_loop num off buf = Some (off - 1, buf[k := ?d])"
      unfolding step by (subst put_int_loop.simps) simp
    moreover have "num AND 0xf = num" using True by (simp add: and_f mod_word_less)
    moreover have "drop k (buf[k := ?d]) = ?d # drop (k + 1) buf"
      using "1.prems"(4) by (simp add: Cons_nth_drop_Suc [symmetric])
    ultimately show ?thesis using True "1.prems"(3) by (simp add: hex_digits.simps [of num])
  next
    case False
    then have n16: "16 \<le> unat num" by (simp add: word_less_nat_alt)
    have k0: "0 < k" using n16 "1.prems"(2) by (cases k) auto
    then obtain j where j: "k = Suc j" by (cases k) auto
    have o: "unat (off - 1) = j" using j "1.prems"(3) by (subst unat_minus_one) auto
    have nz: "num div 16 \<noteq> 0" using n16 by (auto simp: unat_eq_iff [symmetric] unat_div)
    have lt: "unat (num div 16) < 16 ^ (j + 1)" using "1.prems"(2) j by (simp add: unat_div)
    obtain off' buf' where r: "put_int_loop (num div 16) (off - 1) (buf[k := ?d]) = Some (off', buf')"
      "drop (unat (off' + 1)) buf' = hex_digits (num div 16) @ drop (j + 1) (buf[k := ?d])"
      using "1.IH" [OF False nz lt o, of "buf[k := ?d]"] "1.prems"(4) j by auto
    moreover have "drop (j + 1) (buf[k := ?d]) = ?d # drop (k + 1) buf"
      using "1.prems"(4) j by (simp add: Cons_nth_drop_Suc [symmetric])
    ultimately show ?thesis using False step by (simp add: hex_digits.simps [of num] and_f)
  qed
qed

lemma put_str_nul: "0 \<notin> set cs \<Longrightarrow> put_str (cs @ [0]) s = put_str cs s"
  by (induction cs arbitrary: s) auto

lemma unat_hex_char:
  assumes "unat d < 16"
  shows "unat (hex_char d) = (if unat d \<le> 9 then unat d + 48 else unat d + 55)"
proof -
  have "d - 10 + 65 = d + 55" by simp
  then show ?thesis
    using assms by (simp add: hex_char_def word_le_nat_alt unat_word_ariths)
qed

lemma hex_char_plain: "unat d < 16 \<Longrightarrow> hex_char d \<noteq> 0 \<and> hex_char d \<noteq> 8"
  using unat_hex_char [of d] by (auto split: if_splits)

lemma hex_digits_plain: "0 \<notin> set (hex_digits n) \<and> 8 \<notin> set (hex_digits n)"
proof (induction n rule: hex_digits.induct)
  case (1 n)
  have d: "unat (ucast (m :: u32) :: u8) < 16" if "unat m < 16" for m
    using that by (simp add: unsigned_ucast_eq take_bit_nat_eq_self)
  show ?case
  proof (cases "n < 16")
    case True
    then show ?thesis
      using hex_char_plain [OF d [of n]] by (auto simp: hex_digits.simps [of n] word_less_nat_alt)
  next
    case False
    have "unat (n mod 16) < 16" by (simp add: unat_mod)
    with 1 [OF False] False hex_char_plain [OF d [of "n mod 16"]] show ?thesis
      by (auto simp: hex_digits.simps [of n])
  qed
qed

text \<open>\<^verbatim>\<open>put_int\<close> never leaves its buffer and prints the hexadecimal digits.\<close>

lemma put_int_spec: "put_int num s = Inr (put_str (hex_digits num) s)"
proof (cases "num = 0")
  case True
  have "(replicate 9 (0 :: u8))[7 := x] = replicate 7 0 @ [x, 0]" for x
    by (simp add: eval_nat_numeral)
  with True show ?thesis by (simp add: put_int_def hex_digits.simps [of 0] hex_char_def)
next
  case False
  have "unat num < 16 ^ (7 + 1)" using unat_lt_2p32 [of num] by simp
  from put_int_loop_digits [OF False this, of 7 "replicate 9 0"]
  obtain off' buf' where "put_int_loop num 7 (replicate 9 0) = Some (off', buf')"
    "drop (unat (off' + 1)) buf' = hex_digits num @ [0]"
    by auto
  then show ?thesis
    using False hex_digits_plain [of num] by (simp add: put_int_def put_str_nul)
qed

end
