(* ===== verification/Memory.thy ===== *)
theory Memory
  imports Sync Print
begin

text \<open>
  \<^verbatim>\<open>src/kernel/memory.c\<close>: the physical page pools, the kernel's and the processes' pools of
  virtual pages, the mapping of one onto the other and the page allocators built from them.
  A pool is a bitmap with one bit a page; the pools' mutexes are reached by address.
\<close>

section \<open>Initialisation\<close>

definition MEM_BITMAP_BASE :: addr where "MEM_BITMAP_BASE = 0xc009a000"
definition K_HEAP_START :: addr where "K_HEAP_START = 0xc0100000"
definition PAGE_DIR_START_ADDR :: u32 where "PAGE_DIR_START_ADDR = 0x100000"
definition PAGE_DIR_CNT :: u32 where "PAGE_DIR_CNT = 1"
definition PAGE_TAB_CNT :: u32 where "PAGE_TAB_CNT = 255"

definition btmp_bytes_len4pages :: "u32 \<Rightarrow> u32" where
  "btmp_bytes_len4pages pool_size_pg =
     (if pool_size_pg mod 8 = 0 then pool_size_pg div 8 else pool_size_pg div 8 + 1)"

definition pool_init :: "addr \<Rightarrow> u32 \<Rightarrow> u32 \<Rightarrow> memory \<Rightarrow> 's halt + (pool \<times> memory)" where
  "pool_init btmp_base pool_base pool_size_pg m =
     and_then (bitmap_init btmp_base pool_size_pg m) (\<lambda>(b, m).
       Inr (\<lparr>btmp = b, addr_base = pool_base, pool_size = PG_SIZE * pool_size_pg\<rparr>, m))"

definition mem_pool_init :: "u32 \<Rightarrow> 'a kstate_scheme \<Rightarrow> 'a kstate_scheme halt + 'a kstate_scheme" where
  "mem_pool_init all_mem s =
     (let s = put_str (lit '' mem_pool_init start\<newline>'') s;
          page_table_size = PG_SIZE * (PAGE_DIR_CNT + PAGE_TAB_CNT);
          used_mem = page_table_size + PAGE_DIR_START_ADDR;
          free_mem = all_mem - used_mem;
          all_free_pages = free_mem div PG_SIZE;
          kernel_free_pages = all_free_pages div 2;
          user_free_pages = all_free_pages - kernel_free_pages;
          kbm_len = btmp_bytes_len4pages kernel_free_pages;
          ubm_len = btmp_bytes_len4pages user_free_pages;
          kp_start = used_mem;
          up_start = kp_start + kernel_free_pages * PG_SIZE
      in and_then (pool_init MEM_BITMAP_BASE kp_start kernel_free_pages (mem s)) (\<lambda>(kp, m).
         and_then (pool_init (MEM_BITMAP_BASE + kbm_len) up_start user_free_pages m) (\<lambda>(up, m).
         let s = s\<lparr>kernel_phy_pool := kp, user_phy_pool := up, mem := m\<rparr>;
             s = mutex_init kernel_phy_pool_mtx s;
             s = mutex_init user_phy_pool_mtx s;
             s = put_str (lit '' kernel_pool_bitmap_start: '') s
         in and_then (put_int (base_addr (btmp (kernel_phy_pool s))) s) (\<lambda>s.
         let s = put_str (lit '' kernel_pool_phy_addr_start: '') s
         in and_then (put_int (addr_base (kernel_phy_pool s)) s) (\<lambda>s.
         let s = put_str (lit ''\<newline>'') s;
             s = put_str (lit '' user_pool_bitmap_start: '') s
         in and_then (put_int (base_addr (btmp (user_phy_pool s))) s) (\<lambda>s.
         let s = put_str (lit '' user_pool_phy_addr_start: '') s
         in and_then (put_int (addr_base (user_phy_pool s)) s) (\<lambda>s.
         let s = put_str (lit ''\<newline>'') s
         in and_then (pool_init (MEM_BITMAP_BASE + kbm_len + ubm_len) K_HEAP_START
              kernel_free_pages (mem s)) (\<lambda>(vp, m).
         let s = s\<lparr>kernel_vir_pool := vp, mem := m\<rparr>
         in Inr (put_str (lit '' mem_pool_init done\<newline>'') s)))))))))"

definition mem_init :: "'a kstate_scheme \<Rightarrow> 'a kstate_scheme halt + 'a kstate_scheme" where
  "mem_init s =
     (let s = put_str (lit ''mem_init start\<newline>'') s
      in and_then (vload 0xb00 s) (\<lambda>mem_byte_total.
         and_then (mem_pool_init mem_byte_total s) (\<lambda>s.
         Inr (put_str (lit ''mem_init done\<newline>'') s))))"

section \<open>Pages\<close>

text \<open>The marking loop of \<^verbatim>\<open>vaddr_get\<close>.\<close>

function set_run :: "bitmap \<Rightarrow> u32 \<Rightarrow> u32 \<Rightarrow> u32 \<Rightarrow> memory \<Rightarrow> memory" where
  "set_run b bit_idx_start cnt pg_cnt m =
     (if cnt < pg_cnt
      then set_run b bit_idx_start (cnt + 1) pg_cnt (bitmap_set b (bit_idx_start + cnt) m)
      else m)"
  by pat_completeness auto
termination
  by (relation "measure (\<lambda>(b, i, cnt, n, m). unat n - unat cnt)")
    (auto simp: unat_Suc_bound word_less_nat_alt)

declare set_run.simps [simp del]

definition vpages_get :: "pool \<Rightarrow> u32 \<Rightarrow> memory \<Rightarrow> addr \<times> memory" where
  "vpages_get p pg_cnt m =
     (let bit_idx_start = bitmap_scan (btmp p) 0 pg_cnt m
      in if bit_idx_start = minus1 then (NULL, m)
         else (addr_base p + bit_idx_start * PG_SIZE, set_run (btmp p) bit_idx_start 0 pg_cnt m))"

definition vaddr_get :: "pool_flags \<Rightarrow> u32 \<Rightarrow> 'a kstate_scheme \<Rightarrow> addr \<times> 'a kstate_scheme" where
  "vaddr_get pf pg_cnt s =
     (let p = (if pf = PF_KERNEL then kernel_vir_pool s
               else tcb_user_vaddr_pool (tcbs s (RUNNING_THREAD s)));
          (vaddr_start, m) = vpages_get p pg_cnt (mem s)
      in (vaddr_start, s\<lparr>mem := m\<rparr>))"

definition paddr_get :: "pool \<Rightarrow> memory \<Rightarrow> u32 \<times> memory" where
  "paddr_get mem_pool m =
     (let bit_idx = bitmap_scan (btmp mem_pool) 0 1 m
      in if bit_idx = minus1 then (NULL, m)
         else (bit_idx * PG_SIZE + addr_base mem_pool, bitmap_set (btmp mem_pool) bit_idx m))"

section \<open>Mapping\<close>

definition PG_P_1 :: u32 where "PG_P_1 = 1"
definition PG_RW_W :: u32 where "PG_RW_W = 2"
definition PG_US_U :: u32 where "PG_US_U = 4"

text \<open>\<^verbatim>\<open>*pte = paddr | PG_US_U | PG_RW_W | PG_P_1\<close> after the assertion that it is absent.\<close>

definition pte_fill :: "addr \<Rightarrow> u32 \<Rightarrow> 'a kstate_scheme \<Rightarrow> 'a kstate_scheme halt + 'a kstate_scheme" where
  "pte_fill pte paddr s =
     and_then (vload pte s) (\<lambda>e.
       ASSERT (e AND 1 = 0) ''!((*pte) & 0x1)''
         (vstore pte (paddr OR PG_US_U OR PG_RW_W OR PG_P_1) s))"

definition v2p_mapping :: "addr \<Rightarrow> u32 \<Rightarrow> 'a kstate_scheme \<Rightarrow> 'a kstate_scheme halt + 'a kstate_scheme" where
  "v2p_mapping vaddr paddr s =
     (let pde = pde_vaddr_get vaddr;
          pte = pte_vaddr_get vaddr
      in and_then (vload pde s) (\<lambda>e.
           if e AND 1 \<noteq> 0 then pte_fill pte paddr s
           else
             let (pt_paddr, m) = paddr_get (kernel_phy_pool s) (mem s);
                 s = s\<lparr>mem := m\<rparr>
             in and_then (vstore pde (pt_paddr OR PG_US_U OR PG_RW_W OR PG_P_1) s) (\<lambda>s.
                and_then (vclear_page (pte AND 0xfffff000) s) (\<lambda>s.
                pte_fill pte paddr s))))"

section \<open>Allocators\<close>

definition phy_pool :: "pool_flags \<Rightarrow> 'a kstate_scheme \<Rightarrow> pool" where
  "phy_pool pf s = (if pf = PF_KERNEL then kernel_phy_pool s else user_phy_pool s)"

text \<open>The loop of \<^verbatim>\<open>malloc_page\<close>; \<open>False\<close> is the early return of \<^verbatim>\<open>NULL\<close>.\<close>

primrec malloc_loop ::
    "nat \<Rightarrow> pool_flags \<Rightarrow> addr \<Rightarrow> 'a kstate_scheme \<Rightarrow> 'a kstate_scheme halt + (bool \<times> 'a kstate_scheme)" where
  "malloc_loop 0 pf vaddr s = Inr (True, s)"
| "malloc_loop (Suc cnt) pf vaddr s =
     (let (paddr_start, m) = paddr_get (phy_pool pf s) (mem s);
          s = s\<lparr>mem := m\<rparr>
      in if paddr_start = NULL then Inr (False, s)
         else and_then (v2p_mapping vaddr paddr_start s) (\<lambda>s.
           malloc_loop cnt pf (vaddr + PG_SIZE) s))"

definition malloc_page ::
    "pool_flags \<Rightarrow> u32 \<Rightarrow> 'a kstate_scheme \<Rightarrow> 'a kstate_scheme halt + (addr \<times> 'a kstate_scheme)" where
  "malloc_page pf pg_cnt s =
     (ASSERT (pg_cnt > 0 \<and> pg_cnt < 3840) ''pg_cnt > 0 && pg_cnt < 3840''
       (let (vaddr_start, s) = vaddr_get pf pg_cnt s
        in if vaddr_start = NULL then Inr (NULL, s)
           else and_then (malloc_loop (unat pg_cnt) pf vaddr_start s) (\<lambda>(done, s).
             Inr (if done then vaddr_start else NULL, s))))"

definition kernel_pages_malloc ::
    "u32 \<Rightarrow> 'a kstate_scheme \<Rightarrow> 'a kstate_scheme halt + (addr \<times> 'a kstate_scheme)" where
  "kernel_pages_malloc pg_cnt s = malloc_page PF_KERNEL pg_cnt s"

definition user_pages_malloc ::
    "u32 \<Rightarrow> 'a kstate_scheme \<Rightarrow> 'a kstate_scheme halt + (addr \<times> 'a kstate_scheme)" where
  "user_pages_malloc pg_cnt s =
     and_then (mutex_lock user_phy_pool_mtx s) (\<lambda>s.
     and_then (malloc_page PF_USER pg_cnt s) (\<lambda>(vaddr, s).
     and_then (mutex_unlock user_phy_pool_mtx s) (\<lambda>s.
     Inr (vaddr, s))))"

definition phy_pool_mtx :: "pool_flags \<Rightarrow> addr" where
  "phy_pool_mtx pf = (if pf = PF_KERNEL then kernel_phy_pool_mtx else user_phy_pool_mtx)"

definition target_vaddr_malloc ::
    "pool_flags \<Rightarrow> addr \<Rightarrow> 'a kstate_scheme \<Rightarrow> 'a kstate_scheme halt + (addr \<times> 'a kstate_scheme)" where
  "target_vaddr_malloc pf vaddr s =
     (let running_thread = RUNNING_THREAD s
      in and_then (mutex_lock (phy_pool_mtx pf) s) (\<lambda>s.
         and_then
           (if tcb_pg_dir (tcbs s running_thread) \<noteq> NULL \<and> pf = PF_USER then
              let p = tcb_user_vaddr_pool (tcbs s running_thread);
                  bit_idx = (vaddr - addr_base p) div PG_SIZE
              in Inr (s\<lparr>mem := bitmap_set (btmp p) bit_idx (mem s)\<rparr>)
            else if tcb_pg_dir (tcbs s running_thread) = NULL \<and> pf = PF_KERNEL then
              let p = kernel_vir_pool s;
                  bit_idx = (vaddr - addr_base p) div PG_SIZE
              in Inr (s\<lparr>mem := bitmap_set (btmp p) bit_idx (mem s)\<rparr>)
            else PANIC ''alloc type error!'') (\<lambda>s.
         let (page_phy_addr, m) = paddr_get (phy_pool pf s) (mem s);
             s = s\<lparr>mem := m\<rparr>
         in if page_phy_addr = NULL then Inr (NULL, s)
            else and_then (v2p_mapping vaddr page_phy_addr s) (\<lambda>s.
                 and_then (mutex_unlock (phy_pool_mtx pf) s) (\<lambda>s.
                 Inr (vaddr, s))))))"

end
