(* ===== verification/Memory_Spec.thy ===== *)
theory Memory_Spec
  imports Memory
begin

text \<open>
  What the page allocators of \<^verbatim>\<open>src/kernel/memory.c\<close> promise. A pool is a set of pages of
  which some are taken; \<^verbatim>\<open>paddr_get\<close> takes a free one, \<^verbatim>\<open>vaddr_get\<close> a run of free
  ones. \<^verbatim>\<open>v2p_mapping\<close> changes the processor's translation at exactly one page, and
  \<^verbatim>\<open>malloc_page\<close> maps fresh virtual pages onto fresh frames.
\<close>

section \<open>Pools as sets of pages\<close>

definition page_at :: "pool \<Rightarrow> u32 \<Rightarrow> u32" where
  "page_at p i = addr_base p + i * PG_SIZE"

definition pages :: "pool \<Rightarrow> u32 set" where
  "pages p = page_at p ` {i. i < bit_num (btmp p)}"

definition taken :: "pool \<Rightarrow> memory \<Rightarrow> u32 set" where
  "taken p m = page_at p ` {i. i < bit_num (btmp p) \<and> bitmap_get (btmp p) i m = 1}"

definition wf_pool :: "pool \<Rightarrow> bool" where
  "wf_pool p \<longleftrightarrow>
     wf_bitmap (btmp p) \<and> aligned (addr_base p) \<and> addr_base p \<noteq> 0
     \<and> unat (addr_base p) + unat (bit_num (btmp p)) * 4096 \<le> 2 ^ 32"

lemma unat_page_at:
  assumes "wf_pool p" and "i < bit_num (btmp p)"
  shows "unat (page_at p i) = unat (addr_base p) + unat i * 4096"
proof -
  have i: "unat i + 1 \<le> unat (bit_num (btmp p))" using assms(2) by (simp add: word_less_nat_alt)
  have "unat (addr_base p) + (unat i + 1) * 4096 \<le> 2 ^ 32"
    using assms(1) mult_le_mono1 [OF i, of 4096] unfolding wf_pool_def by linarith
  then show ?thesis by (simp add: page_at_def PG_SIZE_def unat_word_ariths)
qed

lemma page_at_inj:
  assumes "wf_pool p" and "i < bit_num (btmp p)" and "j < bit_num (btmp p)"
  shows "page_at p i = page_at p j \<longleftrightarrow> i = j"
proof -
  have "page_at p i = page_at p j \<longleftrightarrow> unat (page_at p i) = unat (page_at p j)"
    by (simp only: unat_eq_iff)
  also have "\<dots> \<longleftrightarrow> unat i = unat j"
    unfolding unat_page_at [OF assms(1,2)] unat_page_at [OF assms(1,3)] by simp
  finally show ?thesis by (simp only: unat_eq_iff)
qed

lemma page_at_nonzero:
  assumes "wf_pool p" and "i < bit_num (btmp p)"
  shows "page_at p i \<noteq> 0"
proof -
  have "0 < unat (addr_base p)" using assms(1) by (simp add: wf_pool_def unat_gt_0)
  then have "0 < unat (page_at p i)" using unat_page_at [OF assms] by simp
  then show ?thesis by auto
qed

lemma page_at_aligned:
  assumes "wf_pool p" and "i < bit_num (btmp p)"
  shows "aligned (page_at p i)"
proof -
  have "unat (addr_base p) mod 4096 = 0"
    using assms(1) unat_off [of "addr_base p"] by (simp add: wf_pool_def aligned_def)
  then have "unat (page_at p i AND 0xfff) = 0"
    unfolding unat_off unat_page_at [OF assms] by (simp add: mod_add_left_eq [symmetric])
  then show ?thesis by (simp add: aligned_def unat_eq_0)
qed

lemma taken_subset: "taken p m \<subseteq> pages p"
  by (auto simp: taken_def pages_def)

lemma taken_iff:
  assumes "wf_pool p" and "i < bit_num (btmp p)"
  shows "page_at p i \<in> taken p m \<longleftrightarrow> bitmap_get (btmp p) i m = 1"
  using assms page_at_inj [OF assms(1)] by (auto simp: taken_def)

lemma free_bit: "bitmap_get b i m \<noteq> 1 \<longleftrightarrow> bitmap_get b i m = 0"
  using bitmap_get_01 [of b i m] by auto

section \<open>One page\<close>

lemma paddr_get_some:
  assumes wf: "wf_pool p" and free: "taken p m \<noteq> pages p"
  obtains pa m' where "paddr_get p m = (pa, m')" and "pa \<in> pages p - taken p m"
    and "taken p m' = insert pa (taken p m)"
    and "\<And>a. \<not> in_map (btmp p) a \<Longrightarrow> m' a = m a"
proof -
  let ?b = "btmp p" and ?i = "bitmap_scan (btmp p) 0 1 m"
  obtain j where j: "j < bit_num ?b" "bitmap_get ?b j m = 0"
    using free taken_subset [of p m] free_bit by (force simp: pages_def taken_def)
  have i: "?i \<noteq> minus1" using bm.scan1_exists [OF j] .
  note lt = bm.scan1_found(1) [OF i] and z = bm.scan1_found(2) [OF i]
  let ?m' = "bitmap_set ?b ?i m"
  have "taken p ?m' = insert (page_at p ?i) (taken p m)"
    using lt by (auto simp: taken_def bitmap_get_set)
  moreover have "page_at p ?i \<in> pages p - taken p m"
    using lt z taken_iff [OF wf lt] by (auto simp: pages_def)
  moreover have "paddr_get p m = (page_at p ?i, ?m')"
    using i by (simp add: paddr_get_def page_at_def add.commute Let_def)
  moreover have "?m' a = m a" if "\<not> in_map ?b a" for a
    using bitmap_set_frame [OF _ lt that] wf by (simp add: wf_pool_def)
  ultimately show thesis by (intro that)
qed

lemma paddr_get_none:
  assumes wf: "wf_pool p" and full: "taken p m = pages p"
  shows "paddr_get p m = (NULL, m)"
proof -
  have "bitmap_get (btmp p) j m \<noteq> 0" if j: "j < bit_num (btmp p)" for j
  proof -
    have "page_at p j \<in> taken p m" using full j by (auto simp: pages_def)
    then show ?thesis using taken_iff [OF wf j] by simp
  qed
  then have "bitmap_scan (btmp p) 0 1 m = minus1" using bm.scan1_found(1,2) by metis
  then show ?thesis by (simp add: paddr_get_def)
qed

lemma pages_null: "wf_pool p \<Longrightarrow> 0 \<notin> pages p"
  using page_at_nonzero by (force simp: pages_def)

lemma pages_aligned: "wf_pool p \<Longrightarrow> pa \<in> pages p \<Longrightarrow> aligned pa"
  using page_at_aligned by (auto simp: pages_def)

section \<open>The interface of a page pool\<close>

locale page_pool =
  fixes alloc :: "'p \<Rightarrow> 'm \<Rightarrow> u32 \<times> 'm"
    and all :: "'p \<Rightarrow> u32 set"
    and used :: "'p \<Rightarrow> 'm \<Rightarrow> u32 set"
    and ok :: "'p \<Rightarrow> bool"
  assumes used_all: "used p m \<subseteq> all p"
    and finite_all: "finite (all p)"
    and null_free: "ok p \<Longrightarrow> NULL \<notin> all p"
    and alloc_full: "ok p \<Longrightarrow> used p m = all p \<Longrightarrow> alloc p m = (NULL, m)"
    and alloc_free: "ok p \<Longrightarrow> used p m \<noteq> all p \<Longrightarrow>
      \<exists>pa m'. alloc p m = (pa, m') \<and> pa \<in> all p - used p m \<and> used p m' = insert pa (used p m)"
begin

text \<open>\<^verbatim>\<open>NULL\<close> means that the pool is exhausted, nothing else.\<close>

lemma alloc_null_iff: "ok p \<Longrightarrow> fst (alloc p m) = NULL \<longleftrightarrow> used p m = all p"
  using alloc_full alloc_free null_free by fastforce

primrec alloc_many :: "nat \<Rightarrow> 'p \<Rightarrow> 'm \<Rightarrow> u32 list \<times> 'm" where
  "alloc_many 0 p m = ([], m)"
| "alloc_many (Suc n) p m =
     (let (pa, m) = alloc p m; (pas, m) = alloc_many n p m in (pa # pas, m))"

text \<open>As long as pages are free, allocation hands out pages never handed out before.\<close>

lemma alloc_many_fresh:
  assumes "ok p" and "card (used p m) + n \<le> card (all p)"
  shows "distinct (fst (alloc_many n p m)) \<and> length (fst (alloc_many n p m)) = n
    \<and> set (fst (alloc_many n p m)) \<subseteq> all p - used p m
    \<and> used p (snd (alloc_many n p m)) = used p m \<union> set (fst (alloc_many n p m))"
  using assms(2)
proof (induction n arbitrary: m)
  case 0
  then show ?case by simp
next
  case (Suc n)
  then have "used p m \<noteq> all p" by auto
  then obtain pa m' where a: "alloc p m = (pa, m')" "pa \<in> all p - used p m"
    "used p m' = insert pa (used p m)"
    using alloc_free [OF assms(1)] by blast
  have "finite (used p m)" using used_all finite_all by (rule finite_subset)
  then have "card (used p m') = Suc (card (used p m))" using a(2,3) by simp
  then have "card (used p m') + n \<le> card (all p)" using Suc.prems by simp
  from Suc.IH [OF this] a show ?case by (auto simp: split_beta)
qed

end

lemma finite_pages: "finite (pages p)"
  by (simp add: pages_def)

interpretation pp: page_pool paddr_get pages taken wf_pool
proof
  show "taken p m \<subseteq> pages p" for p m by (rule taken_subset)
  show "finite (pages p)" for p by (rule finite_pages)
  show "0 \<notin> pages p" if "wf_pool p" for p using that by (rule pages_null)
  show "paddr_get p m = (NULL, m)" if "wf_pool p" "taken p m = pages p" for p m
    using that by (rule paddr_get_none)
  show "\<exists>pa m'. paddr_get p m = (pa, m') \<and> pa \<in> pages p - taken p m \<and> taken p m' = insert pa (taken p m)"
    if "wf_pool p" "taken p m \<noteq> pages p" for p m
    using paddr_get_some [OF that] by metis
qed

section \<open>Runs of virtual pages\<close>

lemma set_run_get:
  "bitmap_get b j (set_run b st cnt n m) =
    (if \<exists>i. cnt \<le> i \<and> i < n \<and> j = st + i then 1 else bitmap_get b j m)"
proof (induction b st cnt n m rule: set_run.induct)
  case (1 b st cnt n m)
  show ?case
  proof (cases "cnt < n")
    case True
    have "cnt \<le> i \<longleftrightarrow> i = cnt \<or> cnt + 1 \<le> i" for i
      using inc_le_iff [OF True, of i] by auto
    then have "(\<exists>i. cnt \<le> i \<and> i < n \<and> j = st + i) \<longleftrightarrow>
        j = st + cnt \<or> (\<exists>i. cnt + 1 \<le> i \<and> i < n \<and> j = st + i)"
      using True by metis
    then show ?thesis
      using "1.IH" [OF True] True by (auto simp: set_run.simps [of b st cnt] bitmap_get_set)
  next
    case False
    then show ?thesis by (auto simp: set_run.simps [of b st cnt])
  qed
qed

lemma set_run_frame:
  assumes "wf_bitmap b" and "unat st + unat n \<le> unat (bit_num b)" and "\<not> in_map b a"
  shows "set_run b st cnt n m a = m a"
  using assms
proof (induction b st cnt n m rule: set_run.induct)
  case (1 b st cnt n m)
  show ?case
  proof (cases "cnt < n")
    case True
    have "unat st + unat cnt < unat (bit_num b)"
      using True "1.prems"(2) by (simp add: word_less_nat_alt)
    moreover from this have "unat (st + cnt) = unat st + unat cnt"
      using unat_lt_2p32 [of "bit_num b"] by (simp add: unat_word_ariths)
    ultimately have "st + cnt < bit_num b" by (simp add: word_less_nat_alt)
    then show ?thesis
      using "1.IH" [OF True] "1.prems" True
      by (simp add: set_run.simps [of b st cnt] bitmap_set_frame)
  next
    case False
    then show ?thesis by (simp add: set_run.simps [of b st cnt])
  qed
qed

definition run_pages :: "addr \<Rightarrow> u32 \<Rightarrow> addr set" where
  "run_pages v n = (\<lambda>i. v + i * PG_SIZE) ` {i. i < n}"

lemma run_idx:
  assumes "unat st + unat n \<le> unat (bit_num b)" and "i < n"
  shows "st + i < bit_num b" and "unat (st + i) = unat st + unat i"
proof -
  have lt: "unat st + unat i < unat (bit_num b)" using assms by (simp add: word_less_nat_alt)
  then show "unat (st + i) = unat st + unat i"
    using unat_lt_2p32 [of "bit_num b"] by (simp add: unat_word_ariths)
  with lt show "st + i < bit_num b" by (simp add: word_less_nat_alt)
qed

text \<open>A run of \<open>n\<close> pages: all were free, exactly they become taken.\<close>

lemma vpages_get_some:
  assumes wf: "wf_pool p" and n: "0 < n" and v: "vpages_get p n m = (v, m')" and nn: "v \<noteq> NULL"
  shows "run_pages v n \<subseteq> pages p - taken p m" and "taken p m' = taken p m \<union> run_pages v n"
    and "\<And>a. \<not> in_map (btmp p) a \<Longrightarrow> m' a = m a"
proof -
  let ?b = "btmp p" and ?st = "bitmap_scan (btmp p) 0 n m"
  have st: "?st \<noteq> minus1" and ve: "v = page_at p ?st" and me: "m' = set_run ?b ?st 0 n m"
    using v nn by (auto simp: vpages_get_def page_at_def Let_def split: if_splits)
  have f: "unat ?st + unat n \<le> unat (bit_num ?b)"
    "run_of (\<lambda>j. bitmap_get ?b j m = 0) (unat ?st) (unat n)"
    using bitmap_scan_first_run [OF n, of ?b m 0] st by (simp_all add: first_run_def)
  note idx = run_idx [OF f(1)]
  have free: "bitmap_get ?b (?st + i) m = 0" if "i < n" for i
    using f(2) idx(2) [OF that] that by (simp add: run_of_def word_less_nat_alt)
  have "{j. \<exists>i. i < n \<and> j = ?st + i} = (\<lambda>i. ?st + i) ` {i. i < n}" by auto
  moreover have "v + i * PG_SIZE = page_at p (?st + i)" for i
    by (simp add: ve page_at_def algebra_simps)
  ultimately have run: "run_pages v n = page_at p ` {j. \<exists>i. i < n \<and> j = ?st + i}"
    by (simp only: run_pages_def image_image)
  show "run_pages v n \<subseteq> pages p - taken p m"
    unfolding run using idx(1) free taken_iff [OF wf] by (fastforce simp: pages_def)
  have "{j. j < bit_num ?b \<and> bitmap_get ?b j m' = 1} =
      {j. j < bit_num ?b \<and> bitmap_get ?b j m = 1} \<union> {j. \<exists>i. i < n \<and> j = ?st + i}"
    using idx(1) by (auto simp: me set_run_get)
  then show "taken p m' = taken p m \<union> run_pages v n"
    unfolding run taken_def by (simp only: image_Un)
  show "m' a = m a" if "\<not> in_map ?b a" for a
    using set_run_frame [OF _ f(1) that] wf by (simp add: me wf_pool_def)
qed

section \<open>Slots of the page tables\<close>

definition entry :: "u32 \<Rightarrow> u32" where
  "entry pa = pa OR PG_US_U OR PG_RW_W OR PG_P_1"

lemma entry_bits: "entry pa = pa OR mask 3"
  by (simp add: entry_def PG_US_U_def PG_RW_W_def PG_P_1_def mask_eq_exp_minus_1)

lemma aligned_bits: "aligned pa \<Longrightarrow> n < 12 \<Longrightarrow> \<not> bit pa n"
proof
  assume a: "aligned pa" and n: "n < 12" and b: "bit pa n"
  have "bit (pa AND mask 12) n" using n b by (simp add: bit_simps)
  with a show False by (simp add: aligned_def mask_off)
qed

lemma entry_present: "entry pa AND 1 \<noteq> 0"
proof
  assume "entry pa AND 1 = 0"
  then have "\<not> bit (entry pa AND push_bit 0 1) 0" by simp
  then show False by (simp only: bit_and_iff bit_push_bit_one entry_bits bit_or_iff bit_mask_iff) simp
qed

lemma entry_frame: "aligned pa \<Longrightarrow> frame_of (entry pa) = pa"
proof -
  assume a: "aligned pa"
  have "12 \<le> n" if "bit pa n" for n using aligned_bits [OF a, of n] that by force
  then show "frame_of (entry pa) = pa"
    unfolding frame_of_def entry_bits mask_frame
    by (intro bit_word_eqI) (auto simp: bit_and_iff bit_or_iff bit_mask_iff bit_push_bit_iff)
qed

lemma aligned_frame [simp]: "aligned (frame_of w)"
  unfolding aligned_def frame_of_def mask_frame mask_off
  by (rule bit_word_eqI) (auto simp: bit_simps)

lemma slot_frame:
  assumes "aligned f" and "unat i < 1024"
  shows "frame_of (f + i * 4) = f"
proof -
  have "unat (i * 4) < 4096" using assms(2) by (simp add: unat_word_ariths)
  then show ?thesis using aligned_add(2) [OF assms(1)] by blast
qed

lemma slot_inj:
  assumes "unat i < 1024" and "unat j < 1024" and "f + i * 4 = f + j * (4 :: u32)"
  shows "i = j"
proof -
  have "unat (i * 4) = unat (j * 4)" using assms(3) by simp
  then have "unat i * 4 = unat j * 4" using assms(1,2) by (simp add: unat_word_ariths)
  then show ?thesis by (simp add: unat_eq_iff)
qed

lemma pde_slot_frame: "frame_of (pde_slot dir x) = frame_of dir"
  unfolding pde_slot_def by (rule slot_frame) (simp_all add: PDE_IDX_less)

lemma pte_slot_frame: "frame_of (pte_slot ph dir x) = frame_of (ph (pde_slot dir x))"
  unfolding pte_slot_def by (rule slot_frame) (simp_all add: PTE_IDX_less)

lemma pde_slot_eq: "pde_slot dir x = pde_slot dir y \<longleftrightarrow> PDE_IDX x = PDE_IDX y"
  using slot_inj PDE_IDX_less by (auto simp: pde_slot_def)

section \<open>Filling one entry\<close>

text \<open>A page is \<open>mappable\<close>: its directory entry points at a table outside the directory, and the
  table entry is absent.\<close>

definition mappable :: "(u32 \<Rightarrow> u32) \<Rightarrow> u32 \<Rightarrow> addr \<Rightarrow> bool" where
  "mappable ph dir x \<longleftrightarrow>
     ph (pde_slot dir x) AND 1 \<noteq> 0 \<and> frame_of (ph (pde_slot dir x)) \<noteq> frame_of dir
     \<and> ph (pte_slot ph dir x) AND 1 = 0"

definition map_page :: "addr \<Rightarrow> u32 \<Rightarrow> u32 \<Rightarrow> (u32 \<Rightarrow> u32) \<Rightarrow> (u32 \<Rightarrow> u32)" where
  "map_page x pa dir ph = ph(pte_slot ph dir x := entry pa)"

lemma pte_fill_ok:
  assumes "selfmap (phys s) (cr3 s)" and "mappable (phys s) (cr3 s) x"
  shows "pte_fill (pte_vaddr_get x) pa s = Inr (s\<lparr>phys := map_page x pa (cr3 s) (phys s)\<rparr>)"
  using assms
  by (simp add: pte_fill_def vload_def vstore_def walk_pte_vaddr mappable_def map_page_def entry_def)

lemma v2p_mapping_present:
  assumes "selfmap (phys s) (cr3 s)" and "mappable (phys s) (cr3 s) x"
  shows "v2p_mapping x pa s = Inr (s\<lparr>phys := map_page x pa (cr3 s) (phys s)\<rparr>)"
  using pte_fill_ok [OF assms] assms
  by (simp add: v2p_mapping_def vload_def walk_pde_vaddr mappable_def)

text \<open>A second mapping of a page that is mapped already is a panic.\<close>

lemma v2p_mapping_twice:
  assumes self: "selfmap (phys s) (cr3 s)" and w: "walk (phys s) (cr3 s) x = Some y"
  shows "v2p_mapping x pa s = Inl (Panic ''!((*pte) & 0x1)'')"
  using w self
  by (simp add: v2p_mapping_def pte_fill_def vload_def walk_pde_vaddr walk_pte_vaddr
    walk_slots [of _ _ x] split: if_splits)

lemma map_page_pde:
  assumes "mappable ph dir x"
  shows "map_page x pa dir ph (pde_slot dir y) = ph (pde_slot dir y)"
proof -
  have "frame_of (pte_slot ph dir x) \<noteq> frame_of (pde_slot dir y)"
    using assms by (simp add: mappable_def pte_slot_frame pde_slot_frame)
  then show ?thesis by (auto simp: map_page_def)
qed

lemma map_page_slot:
  "mappable ph dir x \<Longrightarrow> pte_slot (map_page x pa dir ph) dir y = pte_slot ph dir y"
  by (simp add: pte_slot_def map_page_pde)

text \<open>The new translation, and every page with another slot keeps its translation.\<close>

lemma map_page_walk:
  assumes m: "mappable ph dir x" and a: "aligned pa"
  shows "walk (map_page x pa dir ph) dir x = Some (pa + (x AND 0xfff))"
  using m entry_present [of pa]
  by (simp add: walk_slots map_page_pde map_page_slot)
    (simp add: map_page_def entry_frame [OF a] mappable_def)

lemma map_page_other:
  assumes m: "mappable ph dir x" and "pte_slot ph dir y \<noteq> pte_slot ph dir x"
  shows "walk (map_page x pa dir ph) dir y = walk ph dir y"
  using assms(2)
  by (simp add: walk_slots map_page_pde [OF m] map_page_slot [OF m]) (simp add: map_page_def)

lemma map_page_selfmap:
  assumes "mappable ph dir x" and "selfmap ph dir"
  shows "selfmap (map_page x pa dir ph) dir"
proof -
  have "PDE_IDX 0xffc00000 = 1023" by (simp add: PDE_IDX_def)
  then have "pde_slot dir 0xffc00000 = frame_of dir + 1023 * 4" by (simp add: pde_slot_def)
  then show ?thesis
    using assms(2) map_page_pde [OF assms(1), of pa "0xffc00000"] by (simp add: selfmap_def)
qed

lemma map_page_mappable:
  assumes m: "mappable ph dir x" and y: "mappable ph dir y" and "pte_slot ph dir y \<noteq> pte_slot ph dir x"
  shows "mappable (map_page x pa dir ph) dir y"
  using y assms(3)
  by (simp add: mappable_def map_page_pde [OF m] map_page_slot [OF m]) (simp add: map_page_def)

section \<open>A new page table\<close>

text \<open>The directory entry is absent: the frame \<open>pt\<close> becomes an empty table first.\<close>

definition new_table :: "addr \<Rightarrow> u32 \<Rightarrow> u32 \<Rightarrow> (u32 \<Rightarrow> u32) \<Rightarrow> (u32 \<Rightarrow> u32)" where
  "new_table x pt dir ph =
     (\<lambda>a. if a - pt < PG_SIZE then 0 else (ph(pde_slot dir x := entry pt)) a)"

lemma frame_window: "aligned pt \<Longrightarrow> a - pt < PG_SIZE \<longleftrightarrow> frame_of a = pt"
proof -
  assume al: "aligned pt"
  show ?thesis
  proof
    assume "a - pt < PG_SIZE"
    then have "unat (a - pt) < 4096" by (simp add: word_less_nat_alt PG_SIZE_def)
    from aligned_add(2) [OF al this] show "frame_of a = pt" by simp
  next
    assume "frame_of a = pt"
    then have "a - pt = a AND 0xfff" using frame_and_off [of a] by (metis add_diff_cancel_left')
    then have "unat (a - pt) < 4096" by (simp add: unat_off)
    then show "a - pt < PG_SIZE" by (simp add: word_less_nat_alt PG_SIZE_def)
  qed
qed

lemma new_table_read:
  assumes "aligned pt" and "pt \<noteq> frame_of dir"
  shows "new_table x pt dir ph (pde_slot dir y) =
      (if PDE_IDX y = PDE_IDX x then entry pt else ph (pde_slot dir y))"
    and "frame_of a = pt \<Longrightarrow> new_table x pt dir ph a = 0"
    and "frame_of a \<noteq> pt \<Longrightarrow> frame_of a \<noteq> frame_of dir \<Longrightarrow> new_table x pt dir ph a = ph a"
  using assms pde_slot_frame [of dir y] pde_slot_frame [of dir x] pde_slot_eq [of dir y x]
  by (auto simp: new_table_def frame_window)

lemma new_table_mappable:
  assumes "aligned pt" and "pt \<noteq> frame_of dir"
  shows "mappable (new_table x pt dir ph) dir x"
proof -
  have p: "new_table x pt dir ph (pde_slot dir x) = entry pt" using new_table_read(1) [OF assms] by simp
  have "frame_of (pte_slot (new_table x pt dir ph) dir x) = pt"
    unfolding pte_slot_frame p by (rule entry_frame [OF assms(1)])
  from new_table_read(2) [OF assms this] show ?thesis
    unfolding mappable_def p using assms(2) by (simp add: entry_present entry_frame [OF assms(1)])
qed

text \<open>Pages under the other directory entries keep their translation, unless their table lies in
  the frame just taken; pages under this entry stay unmapped.\<close>

lemma new_table_walk:
  assumes "aligned pt" and "pt \<noteq> frame_of dir"
    and "ph (pde_slot dir x) AND 1 = 0"
    and "ph (pde_slot dir y) AND 1 \<noteq> 0 \<Longrightarrow>
      frame_of (ph (pde_slot dir y)) \<noteq> pt \<and> frame_of (ph (pde_slot dir y)) \<noteq> frame_of dir"
  shows "walk (new_table x pt dir ph) dir y = walk ph dir y"
proof (cases "PDE_IDX y = PDE_IDX x")
  case True
  then have p: "new_table x pt dir ph (pde_slot dir y) = entry pt" using new_table_read(1) [OF assms(1,2)] by simp
  have "frame_of (pte_slot (new_table x pt dir ph) dir y) = pt"
    unfolding pte_slot_frame p by (rule entry_frame [OF assms(1)])
  from new_table_read(2) [OF assms(1,2) this] show ?thesis
    using assms(3) True pde_slot_eq [of dir x y] by (simp add: walk_slots)
next
  case False
  then have p: "new_table x pt dir ph (pde_slot dir y) = ph (pde_slot dir y)"
    using new_table_read(1) [OF assms(1,2)] by simp
  then have q: "pte_slot (new_table x pt dir ph) dir y = pte_slot ph dir y" by (simp add: pte_slot_def)
  show ?thesis
  proof (cases "ph (pde_slot dir y) AND 1 = 0")
    case True
    then show ?thesis by (simp add: walk_slots p)
  next
    case False
    with assms(4) have "new_table x pt dir ph (pte_slot ph dir y) = ph (pte_slot ph dir y)"
      by (intro new_table_read(3) [OF assms(1,2)]) (simp_all add: pte_slot_frame)
    then show ?thesis by (simp add: walk_slots p q)
  qed
qed

lemma new_table_selfmap:
  assumes "aligned pt" and "pt \<noteq> frame_of dir" and "selfmap ph dir" and "PDE_IDX x \<noteq> 1023"
  shows "selfmap (new_table x pt dir ph) dir"
proof -
  have i: "PDE_IDX 0xffc00000 = 1023" by (simp add: PDE_IDX_def)
  then have "pde_slot dir 0xffc00000 = frame_of dir + 1023 * 4" by (simp add: pde_slot_def)
  then show ?thesis
    using assms(3,4) new_table_read(1) [OF assms(1,2), of x ph "0xffc00000"] i by (simp add: selfmap_def)
qed

lemma pte_page: "pte_vaddr_get x AND 0xfffff000 = window (PDE_IDX x) 0"
proof -
  let ?i = "PDE_IDX x" and ?j = "PTE_IDX x"
  have a: "aligned (window ?i 0)" using window_idx(3) [OF PDE_IDX_less, of 0 x] by (simp add: aligned_def)
  have "pte_vaddr_get x = window ?i 0 + ?j * 4" by (simp add: pte_vaddr_window window_def)
  with slot_frame [OF a PTE_IDX_less] show ?thesis by (simp add: frame_of_def)
qed

lemma v2p_mapping_absent:
  assumes self: "selfmap (phys s) (cr3 s)" and x: "phys s (pde_slot (cr3 s) x) AND 1 = 0"
    and pt: "paddr_get (kernel_phy_pool s) (mem s) = (pt, m')" "aligned pt" "pt \<noteq> frame_of (cr3 s)"
  shows "v2p_mapping x pa s = Inr (s\<lparr>mem := m',
    phys := map_page x pa (cr3 s) (new_table x pt (cr3 s) (phys s))\<rparr>)"
proof -
  let ?dir = "cr3 s" and ?ph = "(phys s)(pde_slot (cr3 s) x := entry pt)"
  have i: "PDE_IDX x \<noteq> 1023" using self x by (auto simp: selfmap_def pde_slot_def)
  then have "pde_slot ?dir x \<noteq> frame_of ?dir + 1023 * 4"
    using slot_inj [of "PDE_IDX x" 1023 "frame_of ?dir"] PDE_IDX_less [of x] by (auto simp: pde_slot_def)
  then have self1: "selfmap ?ph ?dir" using self by (simp add: selfmap_def)
  have w: "walk ?ph ?dir (window (PDE_IDX x) 0) = Some pt"
    using walk_window [OF self1 PDE_IDX_less, of 0 x] entry_present [of pt] entry_frame [OF pt(2)]
    by (simp add: pde_slot_def)
  let ?s = "s\<lparr>mem := m', phys := new_table x pt ?dir (phys s)\<rparr>"
  have clear: "vclear_page (window (PDE_IDX x) 0) (s\<lparr>mem := m', phys := ?ph\<rparr>) = Inr ?s"
    by (simp add: vclear_page_def w new_table_def fun_eq_iff)
  have fill: "pte_fill (pte_vaddr_get x) pa ?s = Inr (?s\<lparr>phys := map_page x pa ?dir (phys ?s)\<rparr>)"
    using pte_fill_ok [of ?s x pa] new_table_selfmap [OF pt(2,3) self i] new_table_mappable [OF pt(2,3)]
    by simp
  show ?thesis
    using x clear fill
    by (simp add: v2p_mapping_def vload_def vstore_def walk_pde_vaddr [OF self] pt(1) pte_page
      entry_def [symmetric])
qed

section \<open>Several pages\<close>

definition nth_page :: "addr \<Rightarrow> nat \<Rightarrow> addr" where
  "nth_page x i = x + of_nat i * PG_SIZE"

lemma nth_page_Suc: "nth_page (x + PG_SIZE) i = nth_page x (Suc i)"
  by (simp add: nth_page_def algebra_simps)

text \<open>The pages from \<open>x\<close> on can be mapped, each through a slot of its own.\<close>

definition range_ok :: "(u32 \<Rightarrow> u32) \<Rightarrow> u32 \<Rightarrow> addr \<Rightarrow> nat \<Rightarrow> bool" where
  "range_ok ph dir x n \<longleftrightarrow>
     (\<forall>i<n. mappable ph dir (nth_page x i))
     \<and> (\<forall>i<n. \<forall>j<n. pte_slot ph dir (nth_page x i) = pte_slot ph dir (nth_page x j) \<longrightarrow> i = j)"

lemma range_ok_Suc:
  assumes "range_ok ph dir x (Suc n)"
  shows "mappable ph dir x" and "range_ok (map_page x pa dir ph) dir (x + PG_SIZE) n"
    and "\<And>i. i < n \<Longrightarrow> pte_slot ph dir (nth_page (x + PG_SIZE) i) \<noteq> pte_slot ph dir x"
proof -
  have x: "nth_page x 0 = x" by (simp add: nth_page_def)
  have all: "\<And>i. i < Suc n \<Longrightarrow> mappable ph dir (nth_page x i)"
    and inj: "\<And>i j. i < Suc n \<Longrightarrow> j < Suc n \<Longrightarrow>
      pte_slot ph dir (nth_page x i) = pte_slot ph dir (nth_page x j) \<Longrightarrow> i = j"
    using assms unfolding range_ok_def by blast+
  show m: "mappable ph dir x" using all [of 0] x by simp
  show ne: "pte_slot ph dir (nth_page (x + PG_SIZE) i) \<noteq> pte_slot ph dir x" if "i < n" for i
    using inj [of "Suc i" 0] that x by (auto simp: nth_page_Suc)
  have "i = j" if "i < n" "j < n"
    "pte_slot ph dir (nth_page x (Suc i)) = pte_slot ph dir (nth_page x (Suc j))" for i j
    using inj [of "Suc i" "Suc j"] that by simp
  then show "range_ok (map_page x pa dir ph) dir (x + PG_SIZE) n"
    unfolding range_ok_def map_page_slot [OF m]
    using map_page_mappable [OF m] ne all by (auto simp: nth_page_Suc)
qed

text \<open>The allocation loop gives every page a frame of its own that was free before.\<close>

lemma malloc_loop_ok:
  assumes "selfmap (phys s) (cr3 s)" and "wf_pool (phy_pool pf s)"
    and "card (taken (phy_pool pf s) (mem s)) + n \<le> card (pages (phy_pool pf s))"
    and "range_ok (phys s) (cr3 s) x n"
  shows "\<exists>pas m ph. malloc_loop n pf x s = Inr (True, s\<lparr>mem := m, phys := ph\<rparr>)
    \<and> length pas = n \<and> distinct pas \<and> set pas \<subseteq> pages (phy_pool pf s) - taken (phy_pool pf s) (mem s)
    \<and> taken (phy_pool pf s) m = taken (phy_pool pf s) (mem s) \<union> set pas
    \<and> (\<forall>a. \<not> in_map (btmp (phy_pool pf s)) a \<longrightarrow> m a = mem s a)
    \<and> selfmap ph (cr3 s)
    \<and> (\<forall>i<n. walk ph (cr3 s) (nth_page x i) = Some (pas ! i + (nth_page x i AND 0xfff)))
    \<and> (\<forall>y. (\<forall>i<n. pte_slot (phys s) (cr3 s) y \<noteq> pte_slot (phys s) (cr3 s) (nth_page x i)) \<longrightarrow>
        walk ph (cr3 s) y = walk (phys s) (cr3 s) y)
    \<and> (\<forall>y. ph (pde_slot (cr3 s) y) = phys s (pde_slot (cr3 s) y))
    \<and> (\<forall>a. (\<forall>i<n. a \<noteq> pte_slot (phys s) (cr3 s) (nth_page x i)) \<longrightarrow> ph a = phys s a)"
  using assms
proof (induction n arbitrary: x s)
  case 0
  then show ?case by (intro exI [of _ "[]"] exI [of _ "mem s"] exI [of _ "phys s"]) simp
next
  case (Suc n)
  let ?p = "phy_pool pf s" and ?dir = "cr3 s"
  note wf = Suc.prems(2)
  have "taken ?p (mem s) \<noteq> pages ?p" using Suc.prems(3) by auto
  then obtain pa m1 where g: "paddr_get ?p (mem s) = (pa, m1)" "pa \<in> pages ?p - taken ?p (mem s)"
    "taken ?p m1 = insert pa (taken ?p (mem s))" "\<And>a. \<not> in_map (btmp ?p) a \<Longrightarrow> m1 a = mem s a"
    by (rule paddr_get_some [OF wf]) blast
  have nn: "pa \<noteq> NULL" and al: "aligned pa" using g(2) pages_null [OF wf] pages_aligned [OF wf] by auto
  note r = range_ok_Suc [OF Suc.prems(4)]
  let ?ph1 = "map_page x pa ?dir (phys s)" and ?s1 = "s\<lparr>mem := m1, phys := map_page x pa (cr3 s) (phys s)\<rparr>"
  have v: "v2p_mapping x pa (s\<lparr>mem := m1\<rparr>) = Inr ?s1"
    using v2p_mapping_present [of "s\<lparr>mem := m1\<rparr>" x pa] Suc.prems(1) r(1) by simp
  have step: "malloc_loop (Suc n) pf x s = malloc_loop n pf (x + PG_SIZE) ?s1"
    using g(1) nn v by simp
  have p1: "phy_pool pf ?s1 = ?p" by (simp add: phy_pool_def)
  have "finite (taken ?p (mem s))" using taken_subset finite_pages by (rule finite_subset)
  then have c: "card (taken ?p m1) + n \<le> card (pages ?p)" using g(2,3) Suc.prems(3) by simp
  obtain pas m ph where ih: "malloc_loop n pf (x + PG_SIZE) ?s1 = Inr (True, ?s1\<lparr>mem := m, phys := ph\<rparr>)"
    "length pas = n" "distinct pas" "set pas \<subseteq> pages ?p - taken ?p m1"
    "taken ?p m = taken ?p m1 \<union> set pas" "\<forall>a. \<not> in_map (btmp ?p) a \<longrightarrow> m a = m1 a"
    "selfmap ph ?dir"
    "\<forall>i<n. walk ph ?dir (nth_page (x + PG_SIZE) i) = Some (pas ! i + (nth_page (x + PG_SIZE) i AND 0xfff))"
    "\<forall>y. (\<forall>i<n. pte_slot ?ph1 ?dir y \<noteq> pte_slot ?ph1 ?dir (nth_page (x + PG_SIZE) i)) \<longrightarrow>
      walk ph ?dir y = walk ?ph1 ?dir y"
    "\<forall>y. ph (pde_slot ?dir y) = ?ph1 (pde_slot ?dir y)"
    "\<forall>a. (\<forall>i<n. a \<noteq> pte_slot ?ph1 ?dir (nth_page (x + PG_SIZE) i)) \<longrightarrow> ph a = ?ph1 a"
    using Suc.IH [of ?s1 "x + PG_SIZE", unfolded p1] map_page_selfmap [OF r(1) Suc.prems(1)] wf c r(2)
    by auto
  have first: "walk ph ?dir x = Some (pa + (x AND 0xfff))"
    using ih(9) r(3) map_page_walk [OF r(1) al] map_page_slot [OF r(1)] by metis
  have "walk ph ?dir (nth_page x i) = Some ((pa # pas) ! i + (nth_page x i AND 0xfff))" if "i < Suc n" for i
    using that first ih(8) by (cases i) (auto simp: nth_page_Suc, simp add: nth_page_def)
  moreover have "walk ph ?dir y = walk (phys s) ?dir y"
    if y: "\<forall>i<Suc n. pte_slot (phys s) ?dir y \<noteq> pte_slot (phys s) ?dir (nth_page x i)" for y
  proof -
    have "pte_slot (phys s) ?dir y \<noteq> pte_slot (phys s) ?dir x" using y [rule_format, of 0] by (simp add: nth_page_def)
    from map_page_other [OF r(1) this] show ?thesis
      using ih(9) y by (simp add: map_page_slot [OF r(1)] nth_page_Suc)
  qed
  moreover have "ph (pde_slot ?dir y) = phys s (pde_slot ?dir y)" for y
    using ih(10) map_page_pde [OF r(1)] by simp
  moreover have "ph a = phys s a" if a: "\<forall>i<Suc n. a \<noteq> pte_slot (phys s) ?dir (nth_page x i)" for a
  proof -
    have "a \<noteq> pte_slot (phys s) ?dir x" using a [rule_format, of 0] by (simp add: nth_page_def)
    then show ?thesis
      using ih(11) a by (simp add: map_page_slot [OF r(1)] nth_page_Suc) (simp add: map_page_def)
  qed
  ultimately show ?case
    using step ih g by (intro exI [of _ "pa # pas"] exI [of _ m] exI [of _ ph]) auto
qed

section \<open>The page allocator\<close>

lemma taken_cong:
  assumes "wf_pool p" and "\<And>a. in_map (btmp p) a \<Longrightarrow> m' a = m a"
  shows "taken p m' = taken p m"
proof -
  have "bitmap_get (btmp p) i m' = bitmap_get (btmp p) i m" if "i < bit_num (btmp p)" for i
    using assms that by (intro bitmap_get_cong) (simp_all add: wf_pool_def)
  then show ?thesis by (auto simp: taken_def)
qed

definition maps_apart :: "bitmap \<Rightarrow> bitmap \<Rightarrow> bool" where
  "maps_apart b c \<longleftrightarrow> (\<forall>a. \<not> (in_map b a \<and> in_map c a))"

definition vir_pool :: "pool_flags \<Rightarrow> 'a kstate_scheme \<Rightarrow> pool" where
  "vir_pool pf s = (if pf = PF_KERNEL then kernel_vir_pool s
     else tcb_user_vaddr_pool (tcbs s (RUNNING_THREAD s)))"

lemma vaddr_get_eq:
  "vaddr_get pf n s = (fst (vpages_get (vir_pool pf s) n (mem s)),
     s\<lparr>mem := snd (vpages_get (vir_pool pf s) n (mem s))\<rparr>)"
  by (simp add: vaddr_get_def vir_pool_def split_beta Let_def)

lemma nth_page_run: "i < unat n \<Longrightarrow> nth_page v i \<in> run_pages v n"
proof -
  assume i: "i < unat n"
  then have "i < 2 ^ 32" using unat_lt_2p32 [of n] by simp
  then have "of_nat i < n" using i by (simp add: word_less_nat_alt unat_of_nat)
  then show ?thesis by (auto simp: nth_page_def run_pages_def)
qed

text \<open>The virtual pages that are free have page tables and are not mapped.\<close>

definition free_unmapped :: "pool_flags \<Rightarrow> u32 \<Rightarrow> 'a kstate_scheme \<Rightarrow> bool" where
  "free_unmapped pf n s \<longleftrightarrow>
     (\<forall>v. run_pages v n \<subseteq> pages (vir_pool pf s) - taken (vir_pool pf s) (mem s) \<longrightarrow>
        range_ok (phys s) (cr3 s) v (unat n))"

lemma malloc_page_ok:
  fixes s :: "'a kstate_scheme" and pf :: pool_flags
  defines "vp \<equiv> vir_pool pf s" and "fp \<equiv> phy_pool pf s"
  assumes self: "selfmap (phys s) (cr3 s)" and wf: "wf_pool vp" "wf_pool fp"
    and apart: "maps_apart (btmp vp) (btmp fp)" and n: "0 < n" "n < 3840"
    and virt: "bitmap_scan (btmp vp) 0 n (mem s) \<noteq> minus1"
    and frames: "card (taken fp (mem s)) + unat n \<le> card (pages fp)"
    and unmapped: "free_unmapped pf n s"
  obtains v pas m ph where "malloc_page pf n s = Inr (v, s\<lparr>mem := m, phys := ph\<rparr>)"
    and "v \<noteq> NULL" and "run_pages v n \<subseteq> pages vp - taken vp (mem s)"
    and "taken vp m = taken vp (mem s) \<union> run_pages v n"
    and "length pas = unat n" and "distinct pas" and "set pas \<subseteq> pages fp - taken fp (mem s)"
    and "taken fp m = taken fp (mem s) \<union> set pas"
    and "\<forall>i<unat n. walk ph (cr3 s) (nth_page v i) = Some (pas ! i)"
    and "\<forall>y. (\<forall>i<unat n. pte_slot (phys s) (cr3 s) y \<noteq> pte_slot (phys s) (cr3 s) (nth_page v i)) \<longrightarrow>
      walk ph (cr3 s) y = walk (phys s) (cr3 s) y"
    and "\<forall>a. \<not> in_map (btmp vp) a \<longrightarrow> \<not> in_map (btmp fp) a \<longrightarrow> m a = mem s a"
    and "selfmap ph (cr3 s)"
    and "\<forall>y. ph (pde_slot (cr3 s) y) = phys s (pde_slot (cr3 s) y)"
    and "v = page_at vp (bitmap_scan (btmp vp) 0 n (mem s))"
    and "\<forall>a. (\<forall>i<unat n. a \<noteq> pte_slot (phys s) (cr3 s) (nth_page v i)) \<longrightarrow> ph a = phys s a"
proof -
  let ?st = "bitmap_scan (btmp vp) 0 n (mem s)"
  let ?v = "page_at vp ?st" and ?m1 = "set_run (btmp vp) ?st 0 n (mem s)"
  have g: "vpages_get vp n (mem s) = (?v, ?m1)"
    using virt by (simp add: vpages_get_def page_at_def Let_def)
  have "unat ?st + unat n \<le> unat (bit_num (btmp vp))"
    using bitmap_scan_first_run [OF n(1), of "btmp vp" "mem s" 0] virt by (simp add: first_run_def)
  from run_idx(1) [OF this n(1)] have st: "?st < bit_num (btmp vp)" by simp
  have nn: "?v \<noteq> NULL" using page_at_nonzero [OF wf(1) st] .
  note run = vpages_get_some [OF wf(1) n(1) g nn]
  have t1: "taken fp ?m1 = taken fp (mem s)"
    using run(3) apart by (intro taken_cong [OF wf(2)]) (auto simp: maps_apart_def)
  let ?s1 = "s\<lparr>mem := ?m1\<rparr>"
  have p1: "phy_pool pf ?s1 = fp" by (simp add: fp_def phy_pool_def)
  have r: "range_ok (phys s) (cr3 s) ?v (unat n)"
    using unmapped run(1) by (simp add: free_unmapped_def vp_def)
  obtain pas m ph where l: "malloc_loop (unat n) pf ?v ?s1 = Inr (True, ?s1\<lparr>mem := m, phys := ph\<rparr>)"
    "length pas = unat n" "distinct pas" "set pas \<subseteq> pages fp - taken fp ?m1"
    "taken fp m = taken fp ?m1 \<union> set pas" "\<forall>a. \<not> in_map (btmp fp) a \<longrightarrow> m a = ?m1 a"
    "selfmap ph (cr3 s)"
    "\<forall>i<unat n. walk ph (cr3 s) (nth_page ?v i) = Some (pas ! i + (nth_page ?v i AND 0xfff))"
    "\<forall>y. (\<forall>i<unat n. pte_slot (phys s) (cr3 s) y \<noteq> pte_slot (phys s) (cr3 s) (nth_page ?v i)) \<longrightarrow>
      walk ph (cr3 s) y = walk (phys s) (cr3 s) y"
    "\<forall>y. ph (pde_slot (cr3 s) y) = phys s (pde_slot (cr3 s) y)"
    "\<forall>a. (\<forall>i<unat n. a \<noteq> pte_slot (phys s) (cr3 s) (nth_page ?v i)) \<longrightarrow> ph a = phys s a"
    using malloc_loop_ok [of ?s1 pf "unat n" ?v, unfolded p1] self wf(2) frames t1 r by auto
  have al: "nth_page ?v i AND 0xfff = 0" if "i < unat n" for i
    using pages_aligned [OF wf(1)] nth_page_run [OF that] run(1) by (auto simp: aligned_def)
  have tv: "taken vp m = taken vp ?m1"
    using l(6) apart by (intro taken_cong [OF wf(1)]) (auto simp: maps_apart_def)
  show thesis
  proof (rule that [of ?v ph m pas])
    show "malloc_page pf n s = Inr (?v, s\<lparr>mem := m, phys := ph\<rparr>)"
      using n nn l(1) g by (simp add: malloc_page_def vaddr_get_eq vp_def [symmetric])
    show "\<forall>i<unat n. walk ph (cr3 s) (nth_page ?v i) = Some (pas ! i)" using l(8) al by simp
  qed (use nn run l t1 tv in auto)
qed

text \<open>The allocator refuses: no run of virtual pages is left.\<close>

lemma malloc_page_null:
  assumes "0 < n" "n < 3840" and "bitmap_scan (btmp (vir_pool pf s)) 0 n (mem s) = minus1"
  shows "malloc_page pf n s = Inr (NULL, s)"
  using assms by (simp add: malloc_page_def vaddr_get_eq vpages_get_def)

end
