(* ===== verification/Memory_Init.thy ===== *)
theory Memory_Init
  imports Memory_Spec
begin

text \<open>
  \<^verbatim>\<open>mem_pool_init\<close> of \<^verbatim>\<open>src/kernel/memory.c\<close>: the three pools it builds are well
  formed and empty, the two physical pools are disjoint and inside the machine's memory, and the
  three bitmaps do not overlap.
\<close>

section \<open>Console output leaves the kernel's data alone\<close>

lemma crt_only_kernel:
  assumes "crt_only s t"
  shows "nodes t = nodes s" "mem t = mem s" "phys t = phys s" "cr3 t = cr3 s" "tcbs t = tcbs s"
    "sem_val t = sem_val s" "mtx_holder t = mtx_holder s" "sched t = sched s"
    "kernel_phy_pool t = kernel_phy_pool s" "user_phy_pool t = user_phy_pool s"
    "kernel_vir_pool t = kernel_vir_pool s" "tss_seg t = tss_seg s" "kstate.more t = kstate.more s"
proof -
  have t: "f t = f (s\<lparr>crt_index := crt_index t, crt_regs := crt_regs t, video := video t\<rparr>)" for f :: "'a kstate_scheme \<Rightarrow> 'b"
    using assms unfolding crt_only_def by (rule arg_cong)
  show "nodes t = nodes s" "mem t = mem s" "phys t = phys s" "cr3 t = cr3 s" "tcbs t = tcbs s"
    "sem_val t = sem_val s" "mtx_holder t = mtx_holder s" "sched t = sched s"
    "kernel_phy_pool t = kernel_phy_pool s" "user_phy_pool t = user_phy_pool s"
    "kernel_vir_pool t = kernel_vir_pool s" "tss_seg t = tss_seg s" "kstate.more t = kstate.more s"
    by (subst t, simp)+
qed

lemmas put_str_frame [frame] = crt_only_frame(1) [OF put_str_crt] crt_only_kernel [OF put_str_crt]

section \<open>One pool\<close>

definition new_pool :: "addr \<Rightarrow> u32 \<Rightarrow> u32 \<Rightarrow> pool" where
  "new_pool base start n =
     \<lparr>btmp = \<lparr>base_addr = base, bit_num = n, byte_len = bit_num_2_byte_len n\<rparr>,
      addr_base = start, pool_size = PG_SIZE * n\<rparr>"

lemma bytes_len_eq: "btmp_bytes_len4pages n = bit_num_2_byte_len n"
  by (simp add: btmp_bytes_len4pages_def bit_num_2_byte_len_def)

lemma pool_init_ok:
  assumes "base \<noteq> 0"
  obtains m' where "pool_init base start n m = (Inr (new_pool base start n, m') :: 's halt + _)"
    and "taken (new_pool base start n) m' = {}"
    and "\<And>a. \<not> in_map (btmp (new_pool base start n)) a \<Longrightarrow> m' a = m a"
proof -
  let ?m' = "\<lambda>a. if a - base < bit_num_2_byte_len n then 0 else m a"
  have "bitmap_get (btmp (new_pool base start n)) i ?m' = 0" if "i < n" for i
    using bit_in_bytes [OF that] by (simp add: bitmap_get_bit new_pool_def)
  then show thesis
    by (intro that [of ?m'])
      (use assms in \<open>auto simp: pool_init_def bitmap_init_def memset_spec new_pool_def taken_def in_map_def\<close>)
qed

lemma new_pool_wf:
  assumes "aligned start" and "start \<noteq> 0" and "unat start + unat n * 4096 \<le> 2 ^ 32"
  shows "wf_pool (new_pool base start n)"
  using assms by (simp add: wf_pool_def new_pool_def wf_bitmap_def)

text \<open>Adjacent maps: the second starts where the first ends.\<close>

lemma maps_apart_adjacent:
  assumes "unat base + unat (byte_len b) \<le> unat (base_addr c)" and "base_addr b = base"
    and "unat (base_addr c) + unat (byte_len c) \<le> 2 ^ 32"
  shows "maps_apart b c"
  unfolding maps_apart_def in_map_def
proof (intro allI notI)
  fix a assume a: "a - base_addr b < byte_len b \<and> a - base_addr c < byte_len c"
  show False
  proof (cases "base_addr c \<le> a")
    case True
    then have "unat base \<le> unat a" using assms(1) by (simp add: word_le_nat_alt)
    then have "unat (a - base_addr b) = unat a - unat base"
      using assms(2) by (simp add: unat_sub word_le_nat_alt)
    moreover have "unat (a - base_addr b) < unat (byte_len b)" using a by (simp add: word_less_nat_alt)
    moreover have "unat (base_addr c) \<le> unat a" using True by (simp add: word_le_nat_alt)
    ultimately show ?thesis using assms(1) by linarith
  next
    case False
    then have "unat (a - base_addr c) = 2 ^ 32 + unat a - unat (base_addr c)"
      using unat_lt_2p32 [of "base_addr c"] by (simp add: unat_sub_if' word_le_nat_alt)
    moreover have "unat (a - base_addr c) < unat (byte_len c)" using a by (simp add: word_less_nat_alt)
    ultimately show ?thesis using assms(3) by simp
  qed
qed

lemma pages_range:
  assumes "wf_pool p" and "x \<in> pages p"
  shows "unat (addr_base p) \<le> unat x"
    and "unat x + 4096 \<le> unat (addr_base p) + unat (bit_num (btmp p)) * 4096"
proof -
  obtain i where i: "i < bit_num (btmp p)" "x = page_at p i" using assms(2) by (auto simp: pages_def)
  note u = unat_page_at [OF assms(1) i(1)]
  then show "unat (addr_base p) \<le> unat x" using i by simp
  have "(unat i + 1) * 4096 \<le> unat (bit_num (btmp p)) * 4096"
    using i(1) by (intro mult_le_mono1) (simp add: word_less_nat_alt)
  with u i show "unat x + 4096 \<le> unat (addr_base p) + unat (bit_num (btmp p)) * 4096" by simp
qed

section \<open>The layout\<close>

definition kernel_pages :: "u32 \<Rightarrow> u32" where
  "kernel_pages all_mem = (all_mem - 0x200000) div PG_SIZE div 2"

definition user_pages :: "u32 \<Rightarrow> u32" where
  "user_pages all_mem = (all_mem - 0x200000) div PG_SIZE - kernel_pages all_mem"

lemma page_counts:
  assumes "0x200000 \<le> all_mem"
  shows "unat (kernel_pages all_mem) = (unat all_mem - 2097152) div 4096 div 2"
    and "unat (kernel_pages all_mem) + unat (user_pages all_mem) = (unat all_mem - 2097152) div 4096"
proof -
  have a: "unat (all_mem - 0x200000) = unat all_mem - 2097152"
    using assms by (simp add: unat_sub word_le_nat_alt)
  show k: "unat (kernel_pages all_mem) = (unat all_mem - 2097152) div 4096 div 2"
    by (simp add: kernel_pages_def PG_SIZE_def unat_div a)
  have "kernel_pages all_mem \<le> (all_mem - 0x200000) div PG_SIZE"
    by (simp add: word_le_nat_alt k PG_SIZE_def unat_div a)
  then show "unat (kernel_pages all_mem) + unat (user_pages all_mem) = (unat all_mem - 2097152) div 4096"
    using k by (simp add: user_pages_def unat_sub word_le_nat_alt PG_SIZE_def unat_div a)
qed

definition the_kernel_pool :: "u32 \<Rightarrow> pool" where
  "the_kernel_pool all_mem = new_pool MEM_BITMAP_BASE 0x200000 (kernel_pages all_mem)"

definition the_user_pool :: "u32 \<Rightarrow> pool" where
  "the_user_pool all_mem =
     new_pool (MEM_BITMAP_BASE + bit_num_2_byte_len (kernel_pages all_mem))
       (0x200000 + kernel_pages all_mem * PG_SIZE) (user_pages all_mem)"

definition the_heap_pool :: "u32 \<Rightarrow> pool" where
  "the_heap_pool all_mem =
     new_pool (MEM_BITMAP_BASE + bit_num_2_byte_len (kernel_pages all_mem)
         + bit_num_2_byte_len (user_pages all_mem))
       K_HEAP_START (kernel_pages all_mem)"

lemmas the_pools = the_kernel_pool_def the_user_pool_def the_heap_pool_def

lemma bitmap_bytes:
  assumes "0x200000 \<le> all_mem"
  shows "unat (bit_num_2_byte_len (kernel_pages all_mem)) \<le> 65536"
    and "unat (bit_num_2_byte_len (user_pages all_mem)) \<le> 131072"
proof -
  have "unat all_mem < 4294967296" by (rule unat_lt_2p32)
  then have a: "(unat all_mem - 2097152) div 4096 \<le> 1048575" by linarith
  note c = page_counts [OF assms]
  have "unat (kernel_pages all_mem) \<le> 524287" using c(1) a by linarith
  then show "unat (bit_num_2_byte_len (kernel_pages all_mem)) \<le> 65536" unfolding unat_byte_len by linarith
  have "unat (user_pages all_mem) \<le> 1048575" using c(2) a by linarith
  then show "unat (bit_num_2_byte_len (user_pages all_mem)) \<le> 131072" unfolding unat_byte_len by linarith
qed

lemma bitmap_bases:
  assumes "0x200000 \<le> all_mem"
  shows "unat (base_addr (btmp (the_kernel_pool all_mem))) = 3221856256"
    and "unat (base_addr (btmp (the_user_pool all_mem))) =
      3221856256 + unat (bit_num_2_byte_len (kernel_pages all_mem))"
    and "unat (base_addr (btmp (the_heap_pool all_mem))) =
      3221856256 + unat (bit_num_2_byte_len (kernel_pages all_mem)) + unat (bit_num_2_byte_len (user_pages all_mem))"
  using bitmap_bytes [OF assms]
  by (simp_all add: the_pools new_pool_def MEM_BITMAP_BASE_def unat_word_ariths)

lemma maps_layout:
  assumes "0x200000 \<le> all_mem"
  shows "maps_apart (btmp (the_kernel_pool all_mem)) (btmp (the_user_pool all_mem))"
    and "maps_apart (btmp (the_kernel_pool all_mem)) (btmp (the_heap_pool all_mem))"
    and "maps_apart (btmp (the_user_pool all_mem)) (btmp (the_heap_pool all_mem))"
  using bitmap_bases [OF assms] bitmap_bytes [OF assms]
  by (auto intro!: maps_apart_adjacent [OF _ refl] simp: the_pools new_pool_def)

lemma maps_apart_sym: "maps_apart b c \<longleftrightarrow> maps_apart c b"
  by (auto simp: maps_apart_def)

lemma pools_wf:
  assumes "0x200000 \<le> all_mem" and "all_mem \<le> 0x70000000"
  shows "wf_pool (the_kernel_pool all_mem)" "wf_pool (the_user_pool all_mem)" "wf_pool (the_heap_pool all_mem)"
    and "unat (addr_base (the_user_pool all_mem)) = 2097152 + unat (kernel_pages all_mem) * 4096"
proof -
  have "unat all_mem \<le> 1879048192" using assms(2) by (simp add: word_le_nat_alt)
  then have a: "(unat all_mem - 2097152) div 4096 \<le> 458240" by linarith
  note c = page_counts [OF assms(1)]
  have k: "unat (kernel_pages all_mem) \<le> 229120" using c(1) a by linarith
  have u: "unat (kernel_pages all_mem) + unat (user_pages all_mem) \<le> 458240" using c(2) a by linarith
  have al: "aligned 0x200000" "aligned K_HEAP_START" by (simp_all add: aligned_def K_HEAP_START_def)
  have base: "unat (0x200000 + kernel_pages all_mem * PG_SIZE) = 2097152 + unat (kernel_pages all_mem) * 4096"
    using k by (simp add: PG_SIZE_def unat_word_ariths)
  have "(2097152 + unat (kernel_pages all_mem) * 4096) mod 4096 = 0" by presburger
  then have "unat ((0x200000 + kernel_pages all_mem * PG_SIZE) AND 0xfff) = 0"
    unfolding unat_off base .
  then have ua: "aligned (0x200000 + kernel_pages all_mem * PG_SIZE)"
    unfolding aligned_def by (simp only: unat_eq_0)
  have nz: "0x200000 + kernel_pages all_mem * PG_SIZE \<noteq> 0" using base by auto
  show "wf_pool (the_kernel_pool all_mem)" "wf_pool (the_heap_pool all_mem)"
    using k by (simp_all add: the_pools new_pool_wf al K_HEAP_START_def)
      (use al in \<open>auto simp: K_HEAP_START_def intro!: new_pool_wf\<close>)
  show "wf_pool (the_user_pool all_mem)"
    unfolding the_pools by (rule new_pool_wf [OF ua nz]) (use base u in simp)
  show "unat (addr_base (the_user_pool all_mem)) = 2097152 + unat (kernel_pages all_mem) * 4096"
    using base by (simp add: the_pools new_pool_def)
qed

lemma phys_pools_disjoint:
  assumes "0x200000 \<le> all_mem" and "all_mem \<le> 0x70000000"
  shows "pages (the_kernel_pool all_mem) \<inter> pages (the_user_pool all_mem) = {}"
    and "x \<in> pages (the_kernel_pool all_mem) \<union> pages (the_user_pool all_mem) \<Longrightarrow>
      2097152 \<le> unat x \<and> unat x + 4096 \<le> unat all_mem"
proof -
  note wf = pools_wf [OF assms] and c = page_counts [OF assms(1)]
  have n: "unat (kernel_pages all_mem) * 4096 + unat (user_pages all_mem) * 4096 \<le> unat all_mem - 2097152"
    using c(2) by (metis add_mult_distrib div_times_less_eq_dividend)
  have ge: "2097152 \<le> unat all_mem" using assms(1) by (simp add: word_le_nat_alt)
  have kp: "2097152 \<le> unat x" "unat x + 4096 \<le> 2097152 + unat (kernel_pages all_mem) * 4096"
    if "x \<in> pages (the_kernel_pool all_mem)" for x
    using pages_range [OF wf(1) that] by (simp_all add: the_pools new_pool_def)
  have up: "2097152 + unat (kernel_pages all_mem) * 4096 \<le> unat x"
    "unat x + 4096 \<le> 2097152 + unat (kernel_pages all_mem) * 4096 + unat (user_pages all_mem) * 4096"
    if "x \<in> pages (the_user_pool all_mem)" for x
    using pages_range [OF wf(2) that] wf(4) by (simp_all add: the_pools new_pool_def)
  show "pages (the_kernel_pool all_mem) \<inter> pages (the_user_pool all_mem) = {}"
    using kp(2) up(1) by fastforce
  show "2097152 \<le> unat x \<and> unat x + 4096 \<le> unat all_mem"
    if "x \<in> pages (the_kernel_pool all_mem) \<union> pages (the_user_pool all_mem)"
    using that kp up n ge by fastforce
qed

section \<open>\<^verbatim>\<open>mem_pool_init\<close>\<close>

lemma put_int_frame:
  assumes "put_int n s = Inr t"
  shows "nodes t = nodes s" "mem t = mem s" "phys t = phys s" "cr3 t = cr3 s" "tcbs t = tcbs s"
    "sem_val t = sem_val s" "mtx_holder t = mtx_holder s" "sched t = sched s"
    "kernel_phy_pool t = kernel_phy_pool s" "user_phy_pool t = user_phy_pool s"
    "kernel_vir_pool t = kernel_vir_pool s" "tss_seg t = tss_seg s"
  using assms by (auto simp: put_int_spec frame)

lemma list_init_kframe:
  "mem (list_init l s) = mem s" "phys (list_init l s) = phys s" "cr3 (list_init l s) = cr3 s"
  "tcbs (list_init l s) = tcbs s" "sched (list_init l s) = sched s"
  "kernel_phy_pool (list_init l s) = kernel_phy_pool s" "user_phy_pool (list_init l s) = user_phy_pool s"
  "kernel_vir_pool (list_init l s) = kernel_vir_pool s" "tss_seg (list_init l s) = tss_seg s"
  "eflags (list_init l s) = eflags s" "sem_val (list_init l s) = sem_val s"
  "mtx_holder (list_init l s) = mtx_holder s" "kstate.more (list_init l s) = kstate.more s"
  by (subst list_init_upd, simp)+

lemma mutex_init_frame [frame]:
  "mem (mutex_init x s) = mem s" "phys (mutex_init x s) = phys s" "cr3 (mutex_init x s) = cr3 s"
  "tcbs (mutex_init x s) = tcbs s" "sched (mutex_init x s) = sched s"
  "kernel_phy_pool (mutex_init x s) = kernel_phy_pool s" "user_phy_pool (mutex_init x s) = user_phy_pool s"
  "kernel_vir_pool (mutex_init x s) = kernel_vir_pool s" "tss_seg (mutex_init x s) = tss_seg s"
  "eflags (mutex_init x s) = eflags s" "kstate.more (mutex_init x s) = kstate.more s"
  "sem_val (mutex_init x s) = (sem_val s)(mtx_sem x := 1)"
  "mtx_holder (mutex_init x s) = (mtx_holder s)(x := NULL)"
  by (simp_all add: mutex_init_def sem_init_def set_sem_val_def set_holder_def list_init_kframe)

definition pools_ready :: "u32 \<Rightarrow> 'a kstate_scheme \<Rightarrow> bool" where
  "pools_ready all_mem s \<longleftrightarrow>
     kernel_phy_pool s = the_kernel_pool all_mem \<and> user_phy_pool s = the_user_pool all_mem
     \<and> kernel_vir_pool s = the_heap_pool all_mem
     \<and> taken (kernel_phy_pool s) (mem s) = {} \<and> taken (user_phy_pool s) (mem s) = {}
     \<and> taken (kernel_vir_pool s) (mem s) = {}
     \<and> sem_val s (mtx_sem kernel_phy_pool_mtx) = 1 \<and> sem_val s (mtx_sem user_phy_pool_mtx) = 1"

lemma bitmap_base_nonzero:
  assumes "0x200000 \<le> all_mem"
  shows "MEM_BITMAP_BASE \<noteq> 0"
    and "MEM_BITMAP_BASE + bit_num_2_byte_len (kernel_pages all_mem) \<noteq> 0"
    and "MEM_BITMAP_BASE + bit_num_2_byte_len (kernel_pages all_mem)
      + bit_num_2_byte_len (user_pages all_mem) \<noteq> 0"
proof -
  have ne: "w \<noteq> 0" if "unat w = 3221856256 + k" for w :: u32 and k using that by auto
  show "MEM_BITMAP_BASE \<noteq> 0" by (simp add: MEM_BITMAP_BASE_def)
  show "MEM_BITMAP_BASE + bit_num_2_byte_len (kernel_pages all_mem) \<noteq> 0"
    using bitmap_bases(2) [OF assms] by (intro ne) (simp add: the_pools new_pool_def)
  show "MEM_BITMAP_BASE + bit_num_2_byte_len (kernel_pages all_mem)
      + bit_num_2_byte_len (user_pages all_mem) \<noteq> 0"
    using bitmap_bases(3) [OF assms]
    by (intro ne [of _ "_ + _"]) (simp add: the_pools new_pool_def add.assoc)
qed

lemma taken_apart:
  assumes "wf_pool p" and "maps_apart (btmp p) b" and "\<And>a. \<not> in_map b a \<Longrightarrow> m' a = m a"
  shows "taken p m' = taken p m"
  using assms by (intro taken_cong) (auto simp: maps_apart_def)

lemma mem_pool_init_ready:
  assumes ge: "0x200000 \<le> all_mem" and le: "all_mem \<le> 0x70000000"
  obtains s' where "mem_pool_init all_mem s = Inr s'" and "pools_ready all_mem s'"
    and "phys s' = phys s" "cr3 s' = cr3 s" "tcbs s' = tcbs s" "sched s' = sched s" "eflags s' = eflags s"
    and "kstate.more s' = kstate.more s"
proof -
  note wf = pools_wf [OF ge le] and apart = maps_layout [OF ge] and nz = bitmap_base_nonzero [OF ge]
  let ?k = "kernel_pages all_mem" and ?u = "user_pages all_mem"
  let ?kp = "the_kernel_pool all_mem" and ?up = "the_user_pool all_mem" and ?vp = "the_heap_pool all_mem"
  have used_mem: "PG_SIZE * (PAGE_DIR_CNT + PAGE_TAB_CNT) + PAGE_DIR_START_ADDR = 0x200000"
    by (simp add: PG_SIZE_def PAGE_DIR_CNT_def PAGE_TAB_CNT_def PAGE_DIR_START_ADDR_def)
  define s0 where "s0 = put_str (lit '' mem_pool_init start\<newline>'') s"
  obtain m1 where m1: "pool_init MEM_BITMAP_BASE 0x200000 ?k (mem s0) = (Inr (?kp, m1) :: 'a kstate_scheme halt + _)"
    "taken ?kp m1 = {}"
    using pool_init_ok [OF nz(1), of "0x200000" ?k "mem s0"] unfolding the_pools by metis
  obtain m2 where m2: "pool_init (MEM_BITMAP_BASE + bit_num_2_byte_len ?k) (0x200000 + ?k * PG_SIZE) ?u m1
      = (Inr (?up, m2) :: 'a kstate_scheme halt + _)"
    "taken ?up m2 = {}" "\<And>a. \<not> in_map (btmp ?up) a \<Longrightarrow> m2 a = m1 a"
    using pool_init_ok [OF nz(2), of "0x200000 + ?k * PG_SIZE" ?u m1] unfolding the_pools by metis
  obtain m3 where m3: "pool_init (MEM_BITMAP_BASE + bit_num_2_byte_len ?k + bit_num_2_byte_len ?u) K_HEAP_START ?k m2
      = (Inr (?vp, m3) :: 'a kstate_scheme halt + _)"
    "taken ?vp m3 = {}" "\<And>a. \<not> in_map (btmp ?vp) a \<Longrightarrow> m3 a = m2 a"
    using pool_init_ok [OF nz(3), of K_HEAP_START ?k m2] unfolding the_pools by metis
  have t: "taken ?kp m3 = {}" "taken ?up m3 = {}"
    using taken_apart [OF wf(1) apart(2) m3(3)] taken_apart [OF wf(1) apart(1) m2(3)]
      taken_apart [OF wf(2) apart(3) m3(3)] m1(2) m2(2) by simp_all
  let ?a = "mutex_init user_phy_pool_mtx (mutex_init kernel_phy_pool_mtx
      (s0\<lparr>kernel_phy_pool := ?kp, user_phy_pool := ?up, mem := m2\<rparr>))"
  define s1 where "s1 = put_str (lit ''\<newline>'') (put_str (hex_digits (addr_base ?up))
      (put_str (lit '' user_pool_phy_addr_start: '') (put_str (hex_digits (base_addr (btmp ?up)))
      (put_str (lit '' user_pool_bitmap_start: '') (put_str (lit ''\<newline>'') (put_str (hex_digits (addr_base ?kp))
      (put_str (lit '' kernel_pool_phy_addr_start: '') (put_str (hex_digits (base_addr (btmp ?kp)))
      (put_str (lit '' kernel_pool_bitmap_start: '') ?a)))))))))"
  let ?s' = "put_str (lit '' mem_pool_init done\<newline>'') (s1\<lparr>kernel_vir_pool := ?vp, mem := m3\<rparr>)"
  have f: "mem s1 = m2" "kernel_phy_pool s1 = ?kp" "user_phy_pool s1 = ?up" "phys s1 = phys s" "cr3 s1 = cr3 s"
    "tcbs s1 = tcbs s" "sched s1 = sched s" "eflags s1 = eflags s" "kstate.more s1 = kstate.more s"
    "sem_val s1 (mtx_sem kernel_phy_pool_mtx) = 1" "sem_val s1 (mtx_sem user_phy_pool_mtx) = 1"
    by (simp_all add: s1_def s0_def frame mtx_sem_def)
  have "mem_pool_init all_mem s = Inr ?s'"
    unfolding mem_pool_init_def Let_def used_mem s0_def [symmetric] bytes_len_eq
      kernel_pages_def [symmetric] user_pages_def [symmetric] m1(1)
    using m2(1) m3(1) f(1) by (simp add: put_int_spec frame s1_def)
  then show thesis
    by (rule that) (use f t m3(2) in \<open>simp_all add: pools_ready_def frame\<close>)
qed

end
