(* ===== verification/System_State.thy ===== *)
theory System_State
  imports Memory_Init
begin

text \<open>
  The rest of the machine and kernel state: kernel stacks, descriptor tables, the interrupt
  handler table, the keyboard's I/O queue and the tick counter. Pointers to functions of the kernel are
  values of the datatype \<open>code\<close>. Initial stack frames are records, kept by their address.
\<close>

section \<open>Code pointers\<close>

datatype code =
    No_code
  | General_intr_handler
  | Intr_timer_handler
  | Intr_keyboard_handler
  | Kernel_thread_entry
  | Process_entry
  | Sys_pid_get
  | Func addr

section \<open>Stacks (\<^verbatim>\<open>src/thread/thread.h\<close>)\<close>

datatype save_flag = ALL_SAVE_FLAG | FAST_SAVE_FLAG

record intr_stack =
  is_save_flag :: save_flag
  is_edi :: u32
  is_esi :: u32
  is_ebp :: u32
  is_esp_dummy :: u32
  is_ebx :: u32
  is_edx :: u32
  is_ecx :: u32
  is_eax :: u32
  is_gs :: u32
  is_fs :: u32
  is_es :: u32
  is_ds :: u32
  is_err_code :: u32
  is_eip :: addr
  is_cs :: u32
  is_eflags :: u32
  is_esp :: addr
  is_ss :: u32

record thread_stack =
  ts_save_flag :: save_flag
  ts_ebp :: u32
  ts_ebx :: u32
  ts_edi :: u32
  ts_esi :: u32
  ts_eip :: code
  ts_unused_ret_addr :: addr
  ts_func :: code
  ts_func_arg :: addr

text \<open>\<^verbatim>\<open>sizeof(struct intr_stack)\<close> and \<^verbatim>\<open>sizeof(struct thread_stack)\<close>: 19 and 9 double
  words.\<close>

definition sizeof_intr_stack :: u32 where "sizeof_intr_stack = 76"
definition sizeof_thread_stack :: u32 where "sizeof_thread_stack = 36"

section \<open>Constants of \<^verbatim>\<open>src/kernel/global.h\<close>\<close>

text \<open>Fields of selectors and descriptors; they are used at several widths.\<close>

abbreviation (input) RPL0 :: "'a::len word" where "RPL0 \<equiv> 0"
abbreviation (input) RPL3 :: "'a::len word" where "RPL3 \<equiv> 3"
abbreviation (input) TI_GDT :: "'a::len word" where "TI_GDT \<equiv> 0"
abbreviation (input) DESC_G_4K :: "'a::len word" where "DESC_G_4K \<equiv> 1"
abbreviation (input) DESC_D_32 :: "'a::len word" where "DESC_D_32 \<equiv> 1"
abbreviation (input) DESC_L :: "'a::len word" where "DESC_L \<equiv> 0"
abbreviation (input) DESC_P :: "'a::len word" where "DESC_P \<equiv> 1"
abbreviation (input) DESC_DPL_0 :: "'a::len word" where "DESC_DPL_0 \<equiv> 0"
abbreviation (input) DESC_DPL_3 :: "'a::len word" where "DESC_DPL_3 \<equiv> 3"
abbreviation (input) DESC_AVL :: "'a::len word" where "DESC_AVL \<equiv> 0"
abbreviation (input) DESC_S_CODE :: "'a::len word" where "DESC_S_CODE \<equiv> 1"
abbreviation (input) DESC_S_DATA :: "'a::len word" where "DESC_S_DATA \<equiv> DESC_S_CODE"
abbreviation (input) DESC_S_SYS :: "'a::len word" where "DESC_S_SYS \<equiv> 0"
abbreviation (input) DESC_TYPE_CODE :: "'a::len word" where "DESC_TYPE_CODE \<equiv> 8"
abbreviation (input) DESC_TYPE_DATA :: "'a::len word" where "DESC_TYPE_DATA \<equiv> 2"
abbreviation (input) DESC_TYPE_TSS :: "'a::len word" where "DESC_TYPE_TSS \<equiv> 9"
abbreviation (input) TSS_DESC_D :: "'a::len word" where "TSS_DESC_D \<equiv> 0"
abbreviation (input) IDT_DESC_P :: "'a::len word" where "IDT_DESC_P \<equiv> 1"
abbreviation (input) IDT_DESC_DPL0 :: "'a::len word" where "IDT_DESC_DPL0 \<equiv> 0"
abbreviation (input) IDT_DESC_DPL3 :: "'a::len word" where "IDT_DESC_DPL3 \<equiv> 3"
abbreviation (input) IDT_DESC_32_TYPE :: "'a::len word" where "IDT_DESC_32_TYPE \<equiv> 0xe"

section \<open>Descriptors\<close>

record gate_desc =
  func_offset_low_word :: u16
  selector :: u16
  dcount :: u8
  attribute :: u8
  func_offset_high_word :: u16

record gdt_desc =
  limit_low_word :: u16
  base_low_word :: u16
  base_mid_byte :: u8
  attr_low_byte :: u8
  limit_high_attr_high :: u8
  base_high_byte :: u8

section \<open>The I/O queue (\<^verbatim>\<open>src/device/ioqueue.h\<close>)\<close>

definition BUF_SIZE :: u32 where "BUF_SIZE = 64"

text \<open>The mutex is the first field: it has the address of the queue.\<close>

record ioqueue =
  producer :: addr
  consumer :: addr
  buf :: "u8 list"
  head :: u32
  tail :: u32

section \<open>The state\<close>

record kernel = kstate +
  intr_stacks :: "addr \<Rightarrow> intr_stack"
  thread_stacks :: "addr \<Rightarrow> thread_stack"
  idt :: "gate_desc list"
  idtr :: u64
  idt_table :: "code list"
  gdt :: "gdt_desc list"
  gdtr :: u64
  tr :: u16
  syscall_table :: "code list"
  ticks :: u32
  ioqs :: "addr \<Rightarrow> ioqueue"
  ext_scan_code :: bool
  ctrl_status :: bool
  shift_status :: bool
  alt_status :: bool
  caps_lock_status :: bool

end
