(* ===== verification/Thread.thy ===== *)
theory Thread
  imports System_State
begin

text \<open>
  Creation of threads, \<^verbatim>\<open>src/thread/thread.c\<close>: the scheduler's initialisation, thread
  control blocks, process identifiers, initial stacks and the idle thread. The names passed to
  these functions are C strings, given as their bytes.
\<close>

section \<open>Scheduler initialisation\<close>

definition set_sched :: "(scheduler \<Rightarrow> scheduler) \<Rightarrow> 'a kstate_scheme \<Rightarrow> 'a kstate_scheme" where
  "set_sched f s = s\<lparr>sched := f (sched s)\<rparr>"

text \<open>\<open>n\<close> remaining iterations of the loop that initialises the run queues, from \<open>i\<close> on.\<close>

primrec rq_init_loop :: "nat \<Rightarrow> u32 \<Rightarrow> 'a kstate_scheme \<Rightarrow> 'a kstate_scheme" where
  "rq_init_loop 0 i s = s"
| "rq_init_loop (Suc n) i s = rq_init_loop n (i + 1) (list_init (THIS_RQ i) s)"

definition scheduler_init :: "'a kstate_scheme \<Rightarrow> 'a kstate_scheme halt + 'a kstate_scheme" where
  "scheduler_init s =
     (let s = set_running_thread NULL s;
          s = set_need_schedule False s;
          s = set_sched (\<lambda>c. c\<lparr>sch_idle_thread := NULL\<rparr>) s;
          s = set_sched (\<lambda>c. c\<lparr>sch_thread_table := replicate MAX_THREAD_NUM NULL\<rparr>) s
      in and_then (kernel_pages_malloc 1 s) (\<lambda>(btmp_base, s).
         and_then (bitmap_init btmp_base PRIO_NUM (mem s)) (\<lambda>(b, m).
         let s = set_sched (\<lambda>c. c\<lparr>sch_rq_mask := b\<rparr>) (s\<lparr>mem := m\<rparr>);
             s = rq_init_loop (unat PRIO_NUM) 0 s;
             s = list_init all_list s
         in Inr (mutex_init pid_mtx s))))"

section \<open>Thread control blocks\<close>

text \<open>
  \<^verbatim>\<open>memset(pthread, 0, sizeof(*pthread))\<close>: the fields of the record, the three list nodes
  and, in the embedded pool, the mutex (at offset 88) with its semaphore and waiter list.
\<close>

definition zero_tcb :: tcb where
  "zero_tcb = \<lparr>tcb_stack_top = 0, tcb_pid = 0, tcb_status = TASK_RUNNING, tcb_priority = 0,
     tcb_name = replicate 16 0, tcb_ticks = 0, tcb_elapsed_ticks = 0, tcb_pg_dir = 0,
     tcb_user_vaddr_pool =
       \<lparr>btmp = \<lparr>base_addr = 0, bit_num = 0, byte_len = 0\<rparr>, addr_base = 0, pool_size = 0\<rparr>,
     tcb_stack_magic = 0\<rparr>"

definition tcb_pool_mtx :: "addr \<Rightarrow> addr" where
  "tcb_pool_mtx t = t + 88"

definition null_node :: list_elem where
  "null_node = \<lparr>prev = 0, nxt = 0\<rparr>"

definition tcb_zero :: "addr \<Rightarrow> 'a kstate_scheme \<Rightarrow> 'a kstate_scheme" where
  "tcb_zero t s =
     (let w = waiters (mtx_sem (tcb_pool_mtx t))
      in s\<lparr>tcbs := (tcbs s)(t := zero_tcb),
           nodes := (nodes s)(ready_tag t := null_node, pend_tag t := null_node,
             all_list_tag t := null_node, w := null_node, list_tail w := null_node),
           sem_val := (sem_val s)(mtx_sem (tcb_pool_mtx t) := 0),
           mtx_holder := (mtx_holder s)(tcb_pool_mtx t := 0)\<rparr>)"

text \<open>\<^verbatim>\<open>strcpy\<close> into the 16 zero bytes of \<^verbatim>\<open>name\<close>; a longer name runs into the fields
  behind it.\<close>

definition name_copy :: "u8 list \<Rightarrow> addr \<Rightarrow> 'a kstate_scheme \<Rightarrow> 'a kstate_scheme halt + 'a kstate_scheme" where
  "name_copy name t s =
     (if length name \<le> 16
      then Inr (upd_tcb t (\<lambda>c. c\<lparr>tcb_name := name @ drop (length name) (tcb_name c)\<rparr>) s)
      else Inl Overrun)"

text \<open>The search of \<^verbatim>\<open>pid_alloc\<close> over the slots from \<open>i\<close> on.\<close>

function pid_loop :: "nat \<Rightarrow> addr \<Rightarrow> 'a kstate_scheme \<Rightarrow> 'a kstate_scheme" where
  "pid_loop i thread s =
     (if i < MAX_THREAD_NUM then
        if sch_thread_table (sched s) ! i = NULL then
          set_sched (\<lambda>c. c\<lparr>sch_thread_table := (sch_thread_table c)[i := thread]\<rparr>)
            (upd_tcb thread (\<lambda>c. c\<lparr>tcb_pid := of_nat i\<rparr>) s)
        else pid_loop (i + 1) thread s
      else s)"
  by pat_completeness auto
termination
  by (relation "measure (\<lambda>(i, thread, s). MAX_THREAD_NUM - i)") auto

declare pid_loop.simps [simp del]

definition pid_alloc :: "addr \<Rightarrow> 'a kstate_scheme \<Rightarrow> 'a kstate_scheme halt + 'a kstate_scheme" where
  "pid_alloc thread s =
     and_then (mutex_lock pid_mtx s) (\<lambda>s. mutex_unlock pid_mtx (pid_loop 0 thread s))"

definition thread_tcb_init ::
    "addr \<Rightarrow> u8 list \<Rightarrow> u8 \<Rightarrow> 'a kstate_scheme \<Rightarrow> 'a kstate_scheme halt + 'a kstate_scheme" where
  "thread_tcb_init pthread name prio s =
     (ASSERT (pthread \<noteq> NULL) ''dst != NULL''
       (and_then (name_copy name pthread (tcb_zero pthread s)) (\<lambda>s.
        let st = (if pthread = sch_idle_thread (sched s) then TASK_RUNNING else TASK_READY);
            s = upd_tcb pthread (\<lambda>c. c\<lparr>tcb_status := st\<rparr>) s;
            s = upd_tcb pthread (\<lambda>c. c\<lparr>tcb_priority := prio\<rparr>) s;
            s = upd_tcb pthread (\<lambda>c. c\<lparr>tcb_stack_top := pthread + PG_SIZE\<rparr>) s;
            s = upd_tcb pthread (\<lambda>c. c\<lparr>tcb_ticks := ticks_get (ucast prio)\<rparr>) s;
            s = upd_tcb pthread (\<lambda>c. c\<lparr>tcb_pg_dir := NULL\<rparr>) s
        in and_then (pid_alloc pthread s) (\<lambda>s.
           Inr (upd_tcb pthread (\<lambda>c. c\<lparr>tcb_stack_magic := 0x19980820\<rparr>) s)))))"

definition thread_stack_init :: "addr \<Rightarrow> code \<Rightarrow> addr \<Rightarrow> 'a kernel_scheme \<Rightarrow> 'a kernel_scheme" where
  "thread_stack_init pthread func func_arg s =
     (let kstack_tmp = tcb_stack_top (tcbs s pthread);
          kstack_tmp = kstack_tmp - sizeof_intr_stack;
          kstack_tmp = kstack_tmp - sizeof_thread_stack;
          s = upd_tcb pthread (\<lambda>c. c\<lparr>tcb_stack_top := kstack_tmp\<rparr>) s
      in s\<lparr>thread_stacks := (thread_stacks s)(kstack_tmp := (thread_stacks s kstack_tmp)
            \<lparr>ts_eip := Kernel_thread_entry, ts_func := func, ts_func_arg := func_arg,
             ts_save_flag := FAST_SAVE_FLAG, ts_ebp := 0, ts_ebx := 0, ts_esi := 0, ts_edi := 0\<rparr>)\<rparr>)"

definition thread_init ::
    "addr \<Rightarrow> u8 list \<Rightarrow> u8 \<Rightarrow> code \<Rightarrow> addr \<Rightarrow> 'a kernel_scheme \<Rightarrow> 'a kernel_scheme halt + 'a kernel_scheme" where
  "thread_init pthread name prio func func_arg s =
     and_then (thread_tcb_init pthread name prio s) (\<lambda>s.
       Inr (thread_stack_init pthread func func_arg s))"

definition thread_create ::
    "u8 list \<Rightarrow> u8 \<Rightarrow> code \<Rightarrow> addr \<Rightarrow> 'a kernel_scheme \<Rightarrow> 'a kernel_scheme halt + (addr \<times> 'a kernel_scheme)" where
  "thread_create thread_name thread_prio func func_arg s =
     and_then (kernel_pages_malloc 1 s) (\<lambda>(thread, s).
     and_then (thread_init thread thread_name thread_prio func func_arg s) (\<lambda>s.
     Inr (thread, s)))"

definition thread_run ::
    "u8 list \<Rightarrow> u8 \<Rightarrow> code \<Rightarrow> addr \<Rightarrow> 'a kernel_scheme \<Rightarrow> 'a kernel_scheme halt + (addr \<times> 'a kernel_scheme)" where
  "thread_run name prio func func_arg s =
     and_then (thread_create name prio func func_arg s) (\<lambda>(thread, s).
       let s = scheduler_rq_join thread s;
           s = list_push_back all_list (all_list_tag thread) s
       in Inr (thread, s))"

text \<open>\<^verbatim>\<open>kernel_thread_entry\<close> enables interrupts; the call of the thread's function follows.\<close>

definition kernel_thread_entry :: "'a kstate_scheme \<Rightarrow> 'a kstate_scheme" where
  "kernel_thread_entry s = snd (intr_enable s)"

section \<open>The idle thread\<close>

text \<open>The stack pointer, which \<^verbatim>\<open>running_thread_get\<close> reads by inline assembly, is an argument.\<close>

definition running_thread_get :: "addr \<Rightarrow> addr" where
  "running_thread_get esp = esp AND 0xfffff000"

definition idle_thread_make :: "addr \<Rightarrow> 'a kstate_scheme \<Rightarrow> 'a kstate_scheme halt + 'a kstate_scheme" where
  "idle_thread_make esp s =
     (let s = set_running_thread (running_thread_get esp) s;
          s = set_sched (\<lambda>c. c\<lparr>sch_idle_thread := sch_running_thread c\<rparr>) s
      in and_then (thread_tcb_init (sch_idle_thread (sched s)) (lit ''idle'') 31 s) (\<lambda>s.
         let s = scheduler_rq_join (RUNNING_THREAD s) s
         in Inr (list_push_back all_list (all_list_tag (RUNNING_THREAD s)) s)))"

definition thread_all_init :: "addr \<Rightarrow> 'a kstate_scheme \<Rightarrow> 'a kstate_scheme halt + 'a kstate_scheme" where
  "thread_all_init esp s =
     (let s = put_str (lit ''thread_all_init begin\<newline>'') s
      in and_then (scheduler_init s) (\<lambda>s.
         and_then (idle_thread_make esp s) (\<lambda>s.
         Inr (put_str (lit ''thread_all_init done\<newline>'') s))))"

end
