(* ===== verification/Interrupts.thy ===== *)
theory Interrupts
  imports Thread
begin

text \<open>
  Interrupt handling: the descriptor table, the interrupt controller and the default handler of
  \<^verbatim>\<open>src/kernel/interrupt.c\<close>, the clock of \<^verbatim>\<open>src/device/timer.c\<close>, and \<^verbatim>\<open>panic_spin\<close>
  of \<^verbatim>\<open>src/kernel/debug.c\<close>. The addresses of the entry stubs of
  \<^verbatim>\<open>src/kernel/kernel.s\<close> are an argument of the functions that store them.
\<close>

section \<open>The interrupt descriptor table\<close>

definition IDT_DESC_CNT :: nat where "IDT_DESC_CNT = 0x81"
definition SELECTOR_K_CODE :: u16 where "SELECTOR_K_CODE = push_bit 3 1 + push_bit 2 TI_GDT + RPL0"
definition IDT_DESC_ATTR_DPL0 :: u8 where 
  "IDT_DESC_ATTR_DPL0 = push_bit 7 IDT_DESC_P + push_bit 5 IDT_DESC_DPL0 + IDT_DESC_32_TYPE"
definition IDT_DESC_ATTR_DPL3 :: u8 where 
  "IDT_DESC_ATTR_DPL3 = push_bit 7 IDT_DESC_P + push_bit 5 IDT_DESC_DPL3 + IDT_DESC_32_TYPE"
definition INT_KEYBOARD :: u8 where "INT_KEYBOARD = 0x21"
definition INT_SYSCALL :: nat where "INT_SYSCALL = 0x80"
definition EXP_PAGE_FAULT :: u8 where "EXP_PAGE_FAULT = 14"

text \<open>The address of \<^verbatim>\<open>syscall_entry\<close> in \<^verbatim>\<open>src/build/kernel.map\<close>.\<close>

definition syscall_entry :: addr where "syscall_entry = 0xc0002366"

definition idt_desc_make :: "gate_desc \<Rightarrow> u8 \<Rightarrow> addr \<Rightarrow> gate_desc" where
  "idt_desc_make p_gdesc attr func = p_gdesc
     \<lparr>func_offset_low_word := ucast (func AND 0x0000ffff),
      selector := SELECTOR_K_CODE,
      dcount := 0,
      attribute := attr,
      func_offset_high_word := ucast (drop_bit 16 (func AND 0xffff0000))\<rparr>"

definition gate_set :: "nat \<Rightarrow> u8 \<Rightarrow> addr \<Rightarrow> 'a kernel_scheme \<Rightarrow> 'a kernel_scheme" where
  "gate_set i attr func s = s\<lparr>idt := (idt s)[i := idt_desc_make (idt s ! i) attr func]\<rparr>"

primrec idt_fill :: "(nat \<Rightarrow> addr) \<Rightarrow> nat \<Rightarrow> 'a kernel_scheme \<Rightarrow> 'a kernel_scheme" where
  "idt_fill intr_entry_table 0 s = s"
| "idt_fill intr_entry_table (Suc i) s =
     gate_set i IDT_DESC_ATTR_DPL0 (intr_entry_table i) (idt_fill intr_entry_table i s)"

definition idt_desc_init :: "(nat \<Rightarrow> addr) \<Rightarrow> 'a kernel_scheme \<Rightarrow> 'a kernel_scheme" where
  "idt_desc_init intr_entry_table s =
     (let s = put_str (lit ''   idt_desc_init begin\<newline>'') s;
          s = idt_fill intr_entry_table IDT_DESC_CNT s;
          s = gate_set INT_SYSCALL IDT_DESC_ATTR_DPL3 syscall_entry s
      in put_str (lit ''   idt_desc_init done\<newline>'') s)"

text \<open>Ports of the two interrupt controllers.\<close>

abbreviation (input) PIC_M_CTRL :: "u16" where "PIC_M_CTRL \<equiv> 0x20"
abbreviation (input) PIC_M_DATA :: "u16" where "PIC_M_DATA \<equiv> 0x21"
abbreviation (input) PIC_S_CTRL :: "u16" where "PIC_S_CTRL \<equiv> 0xa0"
abbreviation (input) PIC_S_DATA :: "u16" where "PIC_S_DATA \<equiv> 0xa1"

definition pic_init :: "'a machine_scheme \<Rightarrow> 'a machine_scheme" where
  "pic_init s =
     (let s = outb PIC_M_CTRL 0x11 s;
          s = outb PIC_M_DATA 0x20 s;
          s = outb PIC_M_DATA 0x04 s;
          s = outb PIC_M_DATA 0x01 s;
          s = outb PIC_S_CTRL 0x11 s;
          s = outb PIC_S_DATA 0x28 s;
          s = outb PIC_S_DATA 0x02 s;
          s = outb PIC_S_DATA 0x01 s;
          s = outb PIC_M_DATA 0xfe s;
          s = outb PIC_S_DATA 0xff s;
          s = outb PIC_M_DATA 0xfc s;
          s = outb PIC_S_DATA 0xff s
      in put_str (lit ''   pic_init done\<newline>'') s)"

primrec exception_fill :: "nat \<Rightarrow> 'a kernel_scheme \<Rightarrow> 'a kernel_scheme" where
  "exception_fill 0 s = s"
| "exception_fill (Suc i) s =
     (let s = exception_fill i s in s\<lparr>idt_table := (idt_table s)[i := General_intr_handler]\<rparr>)"

definition exception_init :: "'a kernel_scheme \<Rightarrow> 'a kernel_scheme" where
  "exception_init s = exception_fill IDT_DESC_CNT s"

text \<open>\<open>idt_addr\<close> is the address of the table, \<^verbatim>\<open>sizeof(idt)\<close> is eight bytes an entry.\<close>

definition idt_init :: "(nat \<Rightarrow> addr) \<Rightarrow> addr \<Rightarrow> 'a kernel_scheme \<Rightarrow> 'a kernel_scheme" where
  "idt_init intr_entry_table idt_addr s =
     (let s = put_str (lit ''idt_init start\<newline>'') s;
          s = idt_desc_init intr_entry_table s;
          s = exception_init s;
          s = pic_init s;
          idt_base_addr = push_bit 16 (ucast idt_addr) AND 0xffffffff0000 :: u64;
          idt_limit = of_nat (8 * IDT_DESC_CNT) - 1 :: u64;
          s = s\<lparr>idtr := idt_base_addr OR idt_limit\<rparr>
      in put_str (lit ''idt_init done\<newline>'') s)"

definition intr_handler_register :: "u8 \<Rightarrow> code \<Rightarrow> 'a kernel_scheme \<Rightarrow> 'a kernel_scheme halt + 'a kernel_scheme" where
  "intr_handler_register vec_no func s =
     (if unat vec_no < length (idt_table s)
      then Inr (s\<lparr>idt_table := (idt_table s)[unat vec_no := func]\<rparr>)
      else Inl Overrun)"

section \<open>The default handler and panics\<close>

text \<open>\<^verbatim>\<open>intr_name\<close>: the names of the vectors; \<open>None\<close> is a null pointer.\<close>

definition intr_name :: "nat \<Rightarrow> string option" where
  "intr_name vec =
     (if vec < 20 then
        [Some ''#DE'', Some ''#DB'', Some ''#NMI'', Some ''#BP'', Some ''#OF'', Some ''#BR'',
         Some ''#UD'', Some ''#NM'', Some ''#DF'', Some ''#CSO'', Some ''TS'', Some ''NP'',
         Some ''SS'', Some ''GP'', Some ''PF'', None, Some ''MF'', Some ''AC'', Some ''MC'',
         Some ''XF''] ! vec
      else if vec = 0x20 then Some ''TIMER''
      else if vec = 0x80 then Some ''SYSCALL''
      else None)"

primrec blank_loop :: "nat \<Rightarrow> 'a machine_scheme \<Rightarrow> 'a machine_scheme" where
  "blank_loop 0 s = s"
| "blank_loop (Suc n) s = blank_loop n (put_char 0x20 s)"

text \<open>
  What the default handler shows before it spins; \<open>cr2\<close> is the faulting address and
  \<open>at_null\<close> the C string at address zero, which a null name makes it print. The result
  \<open>Inr\<close> is the return for the two spurious vectors, \<open>Inl Spin\<close> the endless loop.
\<close>

definition exception_message ::
    "u8 \<Rightarrow> u32 \<Rightarrow> u8 list \<Rightarrow> 'a machine_scheme \<Rightarrow> 's halt + 'a machine_scheme" where
  "exception_message vec_nr cr2 at_null s =
     (let s = set_cursor 0 s;
          s = blank_loop 320 s;
          s = set_cursor 0 s;
          s = put_str (lit ''!!!!!!!  exception message begin !!!!!!!\<newline>'') s;
          s = set_cursor 88 s;
          s = put_str (case intr_name (unat vec_nr) of Some name \<Rightarrow> lit name | None \<Rightarrow> at_null) s
      in and_then
           (if vec_nr = EXP_PAGE_FAULT then
              let s = put_str (lit ''\<newline>page fault vaddr is '') s in put_int cr2 s
            else Inr s) (\<lambda>s.
         Inr (put_str (lit ''\<newline>!!!!!!!  exception message end !!!!!!!\<newline>'') s)))"

definition general_intr_handler ::
    "u8 \<Rightarrow> u32 \<Rightarrow> u8 list \<Rightarrow> 'a machine_scheme \<Rightarrow> 's halt + 'a machine_scheme" where
  "general_intr_handler vec_nr cr2 at_null s =
     (if vec_nr = 0x27 \<or> vec_nr = 0x2f then Inr s
      else and_then (exception_message vec_nr cr2 at_null s) (\<lambda>s. Inl Spin))"

text \<open>What \<^verbatim>\<open>panic_spin\<close> shows before it spins with interrupts off.\<close>

definition panic_message ::
    "u8 list \<Rightarrow> u32 \<Rightarrow> u8 list \<Rightarrow> u8 list \<Rightarrow> 'a machine_scheme \<Rightarrow> 's halt + 'a machine_scheme" where
  "panic_message filename line func cond s =
     (let s = snd (intr_disable s);
          s = put_str (lit ''filename: '') s;
          s = put_str filename s;
          s = put_str (lit ''\<newline>'') s;
          s = put_str (lit ''line: 0x'') s
      in and_then (put_int line s) (\<lambda>s.
         let s = put_str (lit ''\<newline>'') s;
             s = put_str (lit ''function: '') s;
             s = put_str func s;
             s = put_str (lit ''\<newline>'') s;
             s = put_str (lit ''condition: '') s;
             s = put_str cond s
         in Inr (put_str (lit ''\<newline>'') s)))"

section \<open>The clock\<close>

abbreviation (input) IRQ0_FREQUENCY :: "nat" where "IRQ0_FREQUENCY \<equiv> 100"
abbreviation (input) INPUT_FREQUENCY :: "nat" where "INPUT_FREQUENCY \<equiv> 1193180"
abbreviation (input) COUNTER0_PORT :: "u8" where "COUNTER0_PORT \<equiv> 0x40"
abbreviation (input) COUNTER0_NO :: "u8" where "COUNTER0_NO \<equiv> 0"
abbreviation (input) COUNTER_MODE :: "u8" where "COUNTER_MODE \<equiv> 2"
abbreviation (input) READ_WRITE_LATCH :: "u8" where "READ_WRITE_LATCH \<equiv> 3"
abbreviation (input) PIT_CONTROL_PORT :: "u16" where "PIT_CONTROL_PORT \<equiv> 0x43"

definition freq_set :: "u8 \<Rightarrow> u8 \<Rightarrow> u8 \<Rightarrow> u8 \<Rightarrow> u16 \<Rightarrow> 'a machine_scheme \<Rightarrow> 'a machine_scheme" where
  "freq_set counter_port counter_no rwl counter_mode counter_value s =
     (let ctl = push_bit 6 (ucast counter_no) OR push_bit 4 (ucast rwl)
            OR push_bit 1 (ucast counter_mode) :: u32;
          s = outb PIT_CONTROL_PORT (ucast ctl) s;
          s = outb (ucast counter_port) (ucast counter_value) s
      in outb (ucast counter_port) (ucast (drop_bit 8 counter_value)) s)"

definition intr_timer_handler :: "'a kernel_scheme \<Rightarrow> 'a kernel_scheme halt + 'a kernel_scheme" where
  "intr_timer_handler s =
     (ASSERT (tcb_stack_magic (tcbs s (RUNNING_THREAD s)) = 0x19980820) ''RUNNING_THREAD->stack_magic == 0x19980820''
       (let s = upd_tcb (RUNNING_THREAD s) (\<lambda>c. c\<lparr>tcb_elapsed_ticks := tcb_elapsed_ticks c + 1\<rparr>) s;
            s = s\<lparr>ticks := ticks s + 1\<rparr>
        in Inr (if tcb_ticks (tcbs s (RUNNING_THREAD s)) = 0 then set_need_schedule True s
                else upd_tcb (RUNNING_THREAD s) (\<lambda>c. c\<lparr>tcb_ticks := tcb_ticks c - 1\<rparr>) s)))"

definition COUNTER0_VALUE :: u16 where "COUNTER0_VALUE = of_nat (INPUT_FREQUENCY div IRQ0_FREQUENCY)"

definition timer_init :: "'a kernel_scheme \<Rightarrow> 'a kernel_scheme halt + 'a kernel_scheme" where
  "timer_init s =
     (let s = put_str (lit ''timer_init start\<newline>'') s;
          s = freq_set COUNTER0_PORT COUNTER0_NO READ_WRITE_LATCH COUNTER_MODE COUNTER0_VALUE s
      in and_then (intr_handler_register 0x20 Intr_timer_handler s) (\<lambda>s.
         Inr (put_str (lit ''timer_init done\<newline>'') s)))"

section \<open>The path of a hardware interrupt\<close>

text \<open>
  The entry stub of \<^verbatim>\<open>src/kernel/kernel.s\<close> saves the registers on the stack of the running
  thread, records its stack pointer \<open>esp\<close> in the control block and acknowledges the
  interrupt at both controllers. The handler runs next, and \<^verbatim>\<open>hwi_tail_handle\<close> ends in the
  scheduler.
\<close>

definition intr_enter :: "addr \<Rightarrow> 'a kstate_scheme \<Rightarrow> 'a kstate_scheme" where
  "intr_enter esp s =
     (let s = upd_tcb (RUNNING_THREAD s) (\<lambda>c. c\<lparr>tcb_stack_top := esp\<rparr>) s;
          s = outb 0xa0 0x20 s
      in outb 0x20 0x20 s)"

definition hwi_tail_handle :: "'a kstate_scheme \<Rightarrow> 'a kstate_scheme halt + 'a kstate_scheme" where
  "hwi_tail_handle s = main_schedule s"

definition clock_interrupt :: "addr \<Rightarrow> 'a kernel_scheme \<Rightarrow> 'a kernel_scheme halt + 'a kernel_scheme" where
  "clock_interrupt esp s = and_then (intr_timer_handler (intr_enter esp s)) hwi_tail_handle"

section \<open>What a clock interrupt does\<close>

lemma intr_enter_frame [frame]:
  "nodes (intr_enter esp s) = nodes s" "mem (intr_enter esp s) = mem s"
  "sched (intr_enter esp s) = sched s" "sem_val (intr_enter esp s) = sem_val s"
  "mtx_holder (intr_enter esp s) = mtx_holder s" "phys (intr_enter esp s) = phys s"
  "cr3 (intr_enter esp s) = cr3 s"
  "tcbs (intr_enter esp s) u =
     (if u = RUNNING_THREAD s then (tcbs s u)\<lparr>tcb_stack_top := esp\<rparr> else tcbs s u)"
  by (simp_all add: intr_enter_def Let_def outb_def frame)

definition STACK_MAGIC :: u32 where
  "STACK_MAGIC = 0x19980820"

text \<open>
  The handler counts the tick, charges it to the running thread and, when its slice is used up,
  asks for a reschedule; a damaged stack is a panic.
\<close>

lemma timer_tick:
  assumes magic: "tcb_stack_magic (tcbs s r) = STACK_MAGIC" and r: "r = RUNNING_THREAD s"
    and c: "c = tcbs s r" and fin: "fin \<longleftrightarrow> tcb_ticks c = 0"
  shows "intr_timer_handler s = Inr (s\<lparr>
    tcbs := (tcbs s)(r := c\<lparr>tcb_elapsed_ticks := tcb_elapsed_ticks c + 1,
      tcb_ticks := if fin then 0 else tcb_ticks c - 1\<rparr>),
    ticks := ticks s + 1,
    sched := (sched s)\<lparr>sch_need_schedule := fin \<or> need_schedule s\<rparr>\<rparr>)"
proof -
  have m: "tcb_stack_magic (tcbs s (RUNNING_THREAD s)) = 0x19980820"
    using magic r by (simp add: STACK_MAGIC_def)
  show ?thesis
  proof (cases fin)
    case True
    then have e: "(tcbs s r)\<lparr>tcb_elapsed_ticks := x, tcb_ticks := 0\<rparr> = (tcbs s r)\<lparr>tcb_elapsed_ticks := x\<rparr>" for x
      using fin c by (cases "tcbs s r") simp
    show ?thesis
      unfolding intr_timer_handler_def using m fin c True
      by (simp add: upd_tcb_def set_need_schedule_def r [symmetric] e)
  next
    case False
    then show ?thesis
      unfolding intr_timer_handler_def using m fin c
      by (simp add: upd_tcb_def need_schedule_def r [symmetric])
  qed
qed

lemma timer_panics:
  "tcb_stack_magic (tcbs s (RUNNING_THREAD s)) \<noteq> STACK_MAGIC \<Longrightarrow>
    \<exists>c. intr_timer_handler s = Inl (Panic c)"
  by (simp add: intr_timer_handler_def STACK_MAGIC_def)

text \<open>A clock interrupt keeps the invariant; the slice's end is a scheduling point.\<close>

lemma clock_interrupt_kinv:
  assumes inv: "kinv s v" and magic: "tcb_stack_magic (tcbs s r) = STACK_MAGIC"
    and r: "r = RUNNING_THREAD s" and act: "\<And>t. t \<in> vt v \<Longrightarrow> activatable t s"
    and fin: "fin \<longleftrightarrow> tcb_ticks (tcbs s r) = 0 \<or> need_schedule s"
    and v': "v' = (if fin then requeue r (prio_of r s) v else v)"
  obtains s' where "clock_interrupt esp s = Inr s'" and "kinv s' v'"
    and "sem_val s' = sem_val s" and "mtx_holder s' = mtx_holder s"
    and "if fin then switched s s' else same_dirs s s' \<and> cr3 s' = cr3 s"
    and "\<not> fin \<Longrightarrow> RUNNING_THREAD s' = r \<and> tcb_ticks (tcbs s' r) = tcb_ticks (tcbs s r) - 1
      \<and> \<not> need_schedule s' \<and> prio_of r s' = prio_of r s"
    and "fin \<Longrightarrow> prio_of r s' = next_prio (prio_of r s)
      \<and> (\<exists>p. least_q v' p \<and> RUNNING_THREAD s' = hd (vq v' p))"
    and "\<forall>u. u \<noteq> r \<longrightarrow> tcb_ticks (tcbs s' u) = tcb_ticks (tcbs s u)"
    and "fin \<Longrightarrow> \<not> need_schedule s' \<and> tcb_ticks (tcbs s' r) = ticks_get (next_prio (prio_of r s))"
proof -
  let ?e = "intr_enter esp s"
  have "tcb_stack_magic (tcbs ?e r) = STACK_MAGIC" "r = RUNNING_THREAD ?e"
    using magic r by (simp_all add: frame)
  note t = timer_tick [OF this refl refl]
  then obtain u where u: "intr_timer_handler ?e = Inr u" by blast
  have f: "nodes u = nodes s" "mem u = mem s" "phys u = phys s" "cr3 u = cr3 s" "sem_val u = sem_val s"
    "mtx_holder u = mtx_holder s" "RUNNING_THREAD u = r" "RQ_MASK_BITMAP u = RQ_MASK_BITMAP s"
    "\<And>x. tcb_status (tcbs u x) = tcb_status (tcbs s x)"
    "\<And>x. tcb_priority (tcbs u x) = tcb_priority (tcbs s x)"
    "\<And>x. tcb_pg_dir (tcbs u x) = tcb_pg_dir (tcbs s x)"
    "\<And>x. tcb_stack_magic (tcbs u x) = tcb_stack_magic (tcbs s x)"
    "need_schedule u \<longleftrightarrow> fin"
    "\<not> fin \<Longrightarrow> tcb_ticks (tcbs u r) = tcb_ticks (tcbs s r) - 1"
    "\<And>x. x \<noteq> r \<Longrightarrow> tcb_ticks (tcbs u x) = tcb_ticks (tcbs s x)"
    using t u r fin by (auto simp: frame need_schedule_def)
  have ku: "kinv u v" using inv f r by (subst kinv_cong_fields [of _ s]) simp_all
  have au: "activatable x u" if "x \<in> vt v" for x
    using act [OF that] f by (subst activatable_cong [of _ _ s]) simp_all
  have pu: "prio_of r u = prio_of r s" using f by (simp add: prio_of_def)
  have c: "clock_interrupt esp s = main_schedule u"
    using u by (simp add: clock_interrupt_def hwi_tail_handle_def)
  show thesis
  proof (cases fin)
    case True
    obtain s' p where m: "main_schedule u = Inr s'" "kinv s' v'" "sem_val s' = sem_val u"
      "mtx_holder s' = mtx_holder u" "switched u s'" "least_q v' p" "RUNNING_THREAD s' = hd (vq v' p)"
      "prio_of r s' = next_prio (prio_of r u)" "\<not> need_schedule s'"
      "tcb_ticks (tcbs s' r) = ticks_get (next_prio (prio_of r u))"
      "\<forall>x. x \<noteq> r \<longrightarrow> tcb_ticks (tcbs s' x) = tcb_ticks (tcbs u x)"
      by (rule main_schedule_kinv [OF ku _ f(7) [symmetric] au, where v' = v'])
        (use True f(13) v' pu in auto)
    moreover have "switched s s'"
      using m(5) f by (simp add: switched_def same_dirs_def) (subst space_of_cong [of _ _ u]; simp)
    ultimately show ?thesis using c f True pu by (intro that [of s']) auto
  next
    case False
    then have "main_schedule u = Inr u" using f(13) main_schedule_noop by blast
    then show ?thesis using c f False ku v' pu by (intro that [of u]) (simp_all add: same_dirs_def)
  qed
qed

section \<open>Time slices\<close>

text \<open>\<open>n\<close> clock interrupts with nothing between them.\<close>

primrec clock_run :: "nat \<Rightarrow> addr \<Rightarrow> 'a kernel_scheme \<Rightarrow> 'a kernel_scheme halt + 'a kernel_scheme" where
  "clock_run 0 esp s = Inr s"
| "clock_run (Suc n) esp s = and_then (clock_interrupt esp s) (clock_run n esp)"

lemma clock_run_add: "clock_run (m + n) esp s = and_then (clock_run m esp s) (clock_run n esp)"
proof (induction m arbitrary: s)
  case (Suc m)
  then show ?case by (cases "clock_interrupt esp s") simp_all
qed simp

text \<open>A fresh slice lasts at most eleven ticks.\<close>

lemma slice_length: "unat (ticks_get (next_prio p)) \<le> 11"
proof -
  have "unat (next_prio p) div 3 \<le> 10"
    using next_prio_less [of p] by (simp add: PRIO_NUM_def word_less_nat_alt)
  then show ?thesis by (simp add: ticks_get_def unat_word_ariths unat_div)
qed

text \<open>
  A slice ends: after as many interrupts as the thread has ticks left and one more, the thread
  has been put behind the others, one priority down.
\<close>

lemma slice_ends:
  assumes "kinv s v" and "tcb_stack_magic (tcbs s r) = STACK_MAGIC" and "r = RUNNING_THREAD s"
    and "\<And>t. t \<in> vt v \<Longrightarrow> activatable t s" and "\<not> need_schedule s" and "unat (tcb_ticks (tcbs s r)) = n"
    and "v' = requeue r (prio_of r s) v"
  shows "\<exists>s' p. clock_run (Suc n) esp s = Inr s' \<and> kinv s' v' \<and> least_q v' p
    \<and> RUNNING_THREAD s' = hd (vq v' p) \<and> prio_of r s' = next_prio (prio_of r s)"
  using assms
proof (induction n arbitrary: s)
  case 0
  then have "tcb_ticks (tcbs s r) = 0" by (simp add: unat_eq_0)
  then have fin: "True \<longleftrightarrow> tcb_ticks (tcbs s r) = 0 \<or> need_schedule s" by simp
  obtain s' where "clock_interrupt esp s = Inr s'" "kinv s' v'" "prio_of r s' = next_prio (prio_of r s)"
    "\<exists>p. least_q v' p \<and> RUNNING_THREAD s' = hd (vq v' p)"
    by (rule clock_interrupt_kinv [OF 0(1-4) fin, of v' esp]) (use 0(7) in auto)
  then show ?case by auto
next
  case (Suc n)
  then have nz: "tcb_ticks (tcbs s r) \<noteq> 0" by auto
  with Suc.prems(5) have fin: "False \<longleftrightarrow> tcb_ticks (tcbs s r) = 0 \<or> need_schedule s" by simp
  obtain s1 where s1: "clock_interrupt esp s = Inr s1" "kinv s1 v"
    "same_dirs s s1 \<and> cr3 s1 = cr3 s" "RUNNING_THREAD s1 = r \<and> tcb_ticks (tcbs s1 r) = tcb_ticks (tcbs s r) - 1
      \<and> \<not> need_schedule s1 \<and> prio_of r s1 = prio_of r s"
    by (rule clock_interrupt_kinv [OF Suc.prems(1-4) fin, of v esp]) auto
  have "activatable t s1" if "t \<in> vt v" for t
    using Suc.prems(4) [OF that] s1(3) by (simp add: activatable_def same_dirs_def)
  moreover have "unat (tcb_ticks (tcbs s1 r)) = n"
    using s1(4) nz Suc.prems(6) by (simp add: unat_minus_one)
  ultimately have "\<exists>s' p. clock_run (Suc n) esp s1 = Inr s' \<and> kinv s' v' \<and> least_q v' p
      \<and> RUNNING_THREAD s' = hd (vq v' p) \<and> prio_of r s' = next_prio (prio_of r s1)"
    using Suc.prems(2,7) s1 by (intro Suc.IH) (simp_all add: same_dirs_def)
  then show ?case using s1(1,4) by simp
qed

end
