(* ===== verification/Ioqueue.thy ===== *)
theory Ioqueue
  imports Interrupts
begin

text \<open>
  \<^verbatim>\<open>src/device/ioqueue.c\<close>: the bounded byte buffer between an interrupt handler and a
  thread. \<open>head\<close> is the next position to write, \<open>tail\<close> the next to read, one slot stays
  free. A call that has to wait is \<open>Suspended\<close> in \<open>thread_block\<close> with the queue's mutex
  held; \<open>ioq_getchar_resume\<close> and \<open>ioq_putchar_resume\<close> are what it does when it goes on.
\<close>

definition upd_ioq :: "addr \<Rightarrow> (ioqueue \<Rightarrow> ioqueue) \<Rightarrow> 'a kernel_scheme \<Rightarrow> 'a kernel_scheme" where
  "upd_ioq q f s = s\<lparr>ioqs := (ioqs s)(q := f (ioqs s q))\<rparr>"

definition ioqueue_init :: "addr \<Rightarrow> 'a kernel_scheme \<Rightarrow> 'a kernel_scheme" where
  "ioqueue_init q s =
     (let s = mutex_init q s
      in upd_ioq q (\<lambda>c. c\<lparr>producer := NULL, consumer := NULL, head := 0, tail := 0\<rparr>) s)"

definition next_pos_get :: "u32 \<Rightarrow> u32" where
  "next_pos_get pos = (pos + 1) mod BUF_SIZE"

definition ioq_full :: "addr \<Rightarrow> 'a kernel_scheme \<Rightarrow> bool" where
  "ioq_full q s \<longleftrightarrow> next_pos_get (head (ioqs s q)) = tail (ioqs s q)"

definition ioq_empty :: "addr \<Rightarrow> 'a kernel_scheme \<Rightarrow> bool" where
  "ioq_empty q s \<longleftrightarrow> head (ioqs s q) = tail (ioqs s q)"

text \<open>\<^verbatim>\<open>ioq_wait(&q->consumer)\<close> and \<^verbatim>\<open>ioq_wait(&q->producer)\<close>, given the field's update;
  \<^verbatim>\<open>ioq_signal\<close> likewise.\<close>

definition ioq_wait ::
    "addr \<Rightarrow> ((addr \<Rightarrow> addr) \<Rightarrow> ioqueue \<Rightarrow> ioqueue) \<Rightarrow> 'a kernel_scheme \<Rightarrow> 'a kernel_scheme halt + 'a kernel_scheme" where
  "ioq_wait q set_waiter s =
     (let s = upd_ioq q (set_waiter (\<lambda>_. RUNNING_THREAD s)) s
      in thread_block TASK_BLOCKED s)"

definition ioq_signal ::
    "addr \<Rightarrow> (ioqueue \<Rightarrow> addr) \<Rightarrow> ((addr \<Rightarrow> addr) \<Rightarrow> ioqueue \<Rightarrow> ioqueue) \<Rightarrow> 'a kernel_scheme \<Rightarrow> 'a kernel_scheme halt + 'a kernel_scheme" where
  "ioq_signal q waiter set_waiter s =
     and_then (thread_unblock (waiter (ioqs s q)) s) (\<lambda>s.
       Inr (upd_ioq q (set_waiter (\<lambda>_. NULL)) s))"

section \<open>Reading\<close>

partial_function (option) ioq_nonempty ::
    "addr \<Rightarrow> 'a kernel_scheme \<Rightarrow> ('a kernel_scheme halt + 'a kernel_scheme) option" where
  "ioq_nonempty q s =
     (if ioq_empty q s then
        case and_then (mutex_lock q s) (\<lambda>s.
             and_then (ioq_wait q consumer_update s) (\<lambda>s. mutex_unlock q s)) of
          Inl h \<Rightarrow> Some (Inl h)
        | Inr s \<Rightarrow> ioq_nonempty q s
      else Some (Inr s))"

definition ioq_take :: "addr \<Rightarrow> 'a kernel_scheme \<Rightarrow> 'a kernel_scheme halt + (u8 \<times> 'a kernel_scheme)" where
  "ioq_take q s =
     (let t = tail (ioqs s q)
      in if unat t < length (buf (ioqs s q)) then
           let byte = buf (ioqs s q) ! unat t;
               s = upd_ioq q (\<lambda>c. c\<lparr>tail := next_pos_get t\<rparr>) s
           in and_then
                (if producer (ioqs s q) \<noteq> NULL then ioq_signal q producer producer_update s
                 else Inr s) (\<lambda>s. Inr (byte, s))
         else Inl Overrun)"

definition ioq_getchar :: "addr \<Rightarrow> 'a kernel_scheme \<Rightarrow> 'a kernel_scheme halt + (u8 \<times> 'a kernel_scheme)" where
  "ioq_getchar q s =
     (case ioq_nonempty q s of
        None \<Rightarrow> Inl Spin
      | Some r \<Rightarrow> and_then r (ioq_take q))"

definition ioq_getchar_resume :: "addr \<Rightarrow> 'a kernel_scheme \<Rightarrow> 'a kernel_scheme halt + (u8 \<times> 'a kernel_scheme)" where
  "ioq_getchar_resume q s = and_then (mutex_unlock q s) (ioq_getchar q)"

section \<open>Writing\<close>

partial_function (option) ioq_nonfull ::
    "addr \<Rightarrow> 'a kernel_scheme \<Rightarrow> ('a kernel_scheme halt + 'a kernel_scheme) option" where
  "ioq_nonfull q s =
     (if ioq_full q s then
        case and_then (mutex_lock q s) (\<lambda>s.
             and_then (ioq_wait q producer_update s) (\<lambda>s. mutex_unlock q s)) of
          Inl h \<Rightarrow> Some (Inl h)
        | Inr s \<Rightarrow> ioq_nonfull q s
      else Some (Inr s))"

definition ioq_put :: "addr \<Rightarrow> u8 \<Rightarrow> 'a kernel_scheme \<Rightarrow> 'a kernel_scheme halt + 'a kernel_scheme" where
  "ioq_put q byte s =
     (let h = head (ioqs s q)
      in if unat h < length (buf (ioqs s q)) then
           let s = upd_ioq q (\<lambda>c. c\<lparr>buf := (buf c)[unat h := byte]\<rparr>) s;
               s = upd_ioq q (\<lambda>c. c\<lparr>head := next_pos_get h\<rparr>) s
           in if consumer (ioqs s q) \<noteq> NULL then ioq_signal q consumer consumer_update s
              else Inr s
         else Inl Overrun)"

definition ioq_putchar :: "addr \<Rightarrow> u8 \<Rightarrow> 'a kernel_scheme \<Rightarrow> 'a kernel_scheme halt + 'a kernel_scheme" where
  "ioq_putchar q byte s =
     (case ioq_nonfull q s of
        None \<Rightarrow> Inl Spin
      | Some r \<Rightarrow> and_then r (ioq_put q byte))"

definition ioq_putchar_resume :: "addr \<Rightarrow> u8 \<Rightarrow> 'a kernel_scheme \<Rightarrow> 'a kernel_scheme halt + 'a kernel_scheme" where
  "ioq_putchar_resume q byte s = and_then (mutex_unlock q s) (ioq_putchar q byte)"

section \<open>The queue as a sequence\<close>

definition ioq_wf :: "ioqueue \<Rightarrow> bool" where
  "ioq_wf c \<longleftrightarrow> length (buf c) = 64 \<and> head c < BUF_SIZE \<and> tail c < BUF_SIZE"

definition ioq_len :: "ioqueue \<Rightarrow> nat" where
  "ioq_len c = (unat (head c) + 64 - unat (tail c)) mod 64"

definition ioq_bytes :: "ioqueue \<Rightarrow> u8 list" where
  "ioq_bytes c = map (\<lambda>i. buf c ! ((unat (tail c) + i) mod 64)) [0..<ioq_len c]"

definition ring_put :: "u8 \<Rightarrow> ioqueue \<Rightarrow> ioqueue" where
  "ring_put byte c = c\<lparr>buf := (buf c)[unat (head c) := byte], head := next_pos_get (head c)\<rparr>"

definition ring_get :: "ioqueue \<Rightarrow> u8 \<times> ioqueue" where
  "ring_get c = (buf c ! unat (tail c), c\<lparr>tail := next_pos_get (tail c)\<rparr>)"

lemma ioq_wfD:
  assumes "ioq_wf c"
  shows "length (buf c) = 64" "unat (head c) < 64" "unat (tail c) < 64"
  using assms by (simp_all add: ioq_wf_def BUF_SIZE_def word_less_nat_alt)

lemma next_pos: "unat p < 64 \<Longrightarrow> unat (next_pos_get p) = (unat p + 1) mod 64"
  by (simp add: next_pos_get_def BUF_SIZE_def unat_mod unat_word_ariths)

lemma ioq_len_less: "ioq_len c < 64"
  by (simp add: ioq_len_def)

lemma length_ioq_bytes [simp]: "length (ioq_bytes c) = ioq_len c"
  by (simp add: ioq_bytes_def)

text \<open>Ring arithmetic: the head is \<open>ioq_len\<close> places after the tail.\<close>

lemma ioq_head:
  assumes "ioq_wf c"
  shows "(unat (tail c) + ioq_len c) mod 64 = unat (head c)"
proof -
  note w = ioq_wfD [OF assms]
  have "(unat (tail c) + (unat (head c) + 64 - unat (tail c)) mod 64) mod 64
      = (unat (tail c) + (unat (head c) + 64 - unat (tail c))) mod 64"
    by (rule mod_add_right_eq)
  also have "unat (tail c) + (unat (head c) + 64 - unat (tail c)) = unat (head c) + 64" using w by simp
  finally show ?thesis using w by (simp add: ioq_len_def)
qed

lemma ring_len:
  assumes "t < 64" and "h < (64 :: nat)"
  shows "(h + 64 - t) mod 64 = (if t \<le> h then h - t else h + 64 - t)"
proof (cases "t \<le> h")
  case True
  then have "h + 64 - t = (h - t) + 64" by simp
  then show ?thesis using True assms by (simp only: mod_add_self2) simp
next
  case False
  then show ?thesis using assms by simp
qed

lemma ioq_len_cases:
  assumes "ioq_wf c"
  shows "ioq_len c = (if unat (tail c) \<le> unat (head c) then unat (head c) - unat (tail c)
    else unat (head c) + 64 - unat (tail c))"
  unfolding ioq_len_def by (rule ring_len) (use ioq_wfD [OF assms] in simp_all)

lemma inc64: "p < (64 :: nat) \<Longrightarrow> (p + 1) mod 64 = (if p = 63 then 0 else p + 1)"
  by auto

lemma ioq_empty_iff:
  assumes "ioq_wf (ioqs s q)"
  shows "ioq_empty q s \<longleftrightarrow> ioq_bytes (ioqs s q) = []"
proof -
  note w = ioq_wfD [OF assms]
  have "ioq_bytes (ioqs s q) = [] \<longleftrightarrow> ioq_len (ioqs s q) = 0" by (simp add: ioq_bytes_def)
  also have "\<dots> \<longleftrightarrow> unat (head (ioqs s q)) = unat (tail (ioqs s q))"
    using w by (simp add: ioq_len_cases [OF assms])
  finally show ?thesis by (simp add: ioq_empty_def unat_eq_iff)
qed

text \<open>Full means 63 bytes: one of the 64 slots is never used.\<close>

lemma ioq_full_iff:
  assumes "ioq_wf (ioqs s q)"
  shows "ioq_full q s \<longleftrightarrow> length (ioq_bytes (ioqs s q)) = 63"
proof -
  note w = ioq_wfD [OF assms]
  have "ioq_full q s \<longleftrightarrow> unat (next_pos_get (head (ioqs s q))) = unat (tail (ioqs s q))"
    by (simp add: ioq_full_def unat_eq_iff)
  also have "\<dots> \<longleftrightarrow> ioq_len (ioqs s q) = 63"
    unfolding ioq_len_cases [OF assms] next_pos [OF w(2)] inc64 [OF w(2)] using w by auto
  finally show ?thesis by simp
qed

lemma ring_put_spec:
  assumes wf: "ioq_wf c" and room: "ioq_len c < 63"
  shows "ioq_wf (ring_put b c)" and "ioq_bytes (ring_put b c) = ioq_bytes c @ [b]"
proof -
  note w = ioq_wfD [OF wf]
  have h: "unat (head (ring_put b c)) = (unat (head c) + 1) mod 64" using next_pos [OF w(2)] by (simp add: ring_put_def)
  show wf': "ioq_wf (ring_put b c)"
    using wf h w by (simp add: ioq_wf_def ring_put_def BUF_SIZE_def word_less_nat_alt)
  have t: "tail (ring_put b c) = tail c" by (simp add: ring_put_def)
  have len: "ioq_len (ring_put b c) = Suc (ioq_len c)"
    using room w unfolding ioq_len_cases [OF wf'] ioq_len_cases [OF wf] h t inc64 [OF w(2)]
    by (auto split: if_splits)
  have old: "buf (ring_put b c) ! ((unat (tail c) + i) mod 64) = buf c ! ((unat (tail c) + i) mod 64)"
    if i: "i < ioq_len c" for i
  proof -
    have "(unat (tail c) + i) mod 64 \<noteq> unat (head c)"
    proof
      assume "(unat (tail c) + i) mod 64 = unat (head c)"
      then have "(unat (tail c) + i) mod 64 = (unat (tail c) + ioq_len c) mod 64" using ioq_head [OF wf] by simp
      then have "64 dvd unat (tail c) + ioq_len c - (unat (tail c) + i)"
        using i by (subst mod_eq_dvd_iff_nat [symmetric]) simp_all
      then have "64 dvd ioq_len c - i" by simp
      then show False using i room by (auto dest!: dvd_imp_le)
    qed
    then show ?thesis by (simp add: ring_put_def)
  qed
  have new: "buf (ring_put b c) ! ((unat (tail c) + ioq_len c) mod 64) = b"
    unfolding ioq_head [OF wf] using w by (simp add: ring_put_def)
  show "ioq_bytes (ring_put b c) = ioq_bytes c @ [b]"
    using old new by (simp add: ioq_bytes_def len t)
qed

lemma ring_get_spec:
  assumes wf: "ioq_wf c" and ne: "ioq_bytes c \<noteq> []"
  shows "ioq_wf (snd (ring_get c))" and "ioq_bytes c = fst (ring_get c) # ioq_bytes (snd (ring_get c))"
proof -
  note w = ioq_wfD [OF wf]
  let ?c = "snd (ring_get c)"
  have t: "unat (tail ?c) = (unat (tail c) + 1) mod 64" using next_pos [OF w(3)] by (simp add: ring_get_def)
  have f: "buf ?c = buf c" "head ?c = head c" by (simp_all add: ring_get_def)
  show wf': "ioq_wf ?c"
    using wf t w f by (simp add: ioq_wf_def BUF_SIZE_def word_less_nat_alt)
  have pos: "0 < ioq_len c" using ne by (simp add: ioq_bytes_def)
  have len: "ioq_len c = Suc (ioq_len ?c)"
    using pos w unfolding ioq_len_cases [OF wf'] ioq_len_cases [OF wf] t f inc64 [OF w(3)]
    by (auto split: if_splits)
  have "((unat (tail c) + 1) mod 64 + i) mod 64 = (unat (tail c) + Suc i) mod 64" for i
    by (simp add: mod_add_left_eq)
  then have "ioq_bytes ?c = map (\<lambda>i. buf c ! ((unat (tail c) + Suc i) mod 64)) [0..<ioq_len ?c]"
    unfolding ioq_bytes_def t f by simp
  then show "ioq_bytes c = fst (ring_get c) # ioq_bytes ?c"
    using w unfolding ioq_bytes_def [of c] len
    by (simp add: upt_conv_Cons map_Suc_upt [symmetric] ring_get_def del: upt_Suc)
qed

section \<open>The interface of a bounded queue\<close>

locale bounded_fifo =
  fixes put :: "'x \<Rightarrow> 'q \<Rightarrow> 'q"
    and get :: "'q \<Rightarrow> 'x \<times> 'q"
    and items :: "'q \<Rightarrow> 'x list"
    and ok :: "'q \<Rightarrow> bool"
    and cap :: nat
  assumes put_ok: "ok q \<Longrightarrow> length (items q) < cap \<Longrightarrow> ok (put x q)"
    and put_items: "ok q \<Longrightarrow> length (items q) < cap \<Longrightarrow> items (put x q) = items q @ [x]"
    and get_ok: "ok q \<Longrightarrow> items q \<noteq> [] \<Longrightarrow> ok (snd (get q))"
    and get_items: "ok q \<Longrightarrow> items q \<noteq> [] \<Longrightarrow> items q = fst (get q) # items (snd (get q))"
begin

primrec get_many :: "nat \<Rightarrow> 'q \<Rightarrow> 'x list \<times> 'q" where
  "get_many 0 q = ([], q)"
| "get_many (Suc n) q = (let (x, q) = get q; (xs, q) = get_many n q in (x # xs, q))"

lemma put_many:
  assumes "ok q" and "length (items q) + length xs \<le> cap"
  shows "ok (fold put xs q) \<and> items (fold put xs q) = items q @ xs"
  using assms
proof (induction xs arbitrary: q)
  case Nil
  then show ?case by simp
next
  case (Cons x xs)
  then show ?case using put_ok [of q x] put_items [of q x] by simp
qed

lemma get_many_take:
  assumes "ok q" and "n \<le> length (items q)"
  shows "fst (get_many n q) = take n (items q) \<and> ok (snd (get_many n q))
    \<and> items (snd (get_many n q)) = drop n (items q)"
  using assms
proof (induction n arbitrary: q)
  case 0
  then show ?case by simp
next
  case (Suc n)
  then have ne: "items q \<noteq> []" by auto
  note g = get_items [OF Suc.prems(1) ne]
  have "n \<le> length (items (snd (get q)))" using Suc.prems(2) g by (metis Suc_le_mono length_Cons)
  from Suc.IH [OF get_ok [OF Suc.prems(1) ne] this] show ?case
    using g by (simp add: split_beta)
qed

text \<open>First in, first out: what is put is got back in the same order.\<close>

lemma fifo_order:
  assumes "ok q" and "items q = []" and "length xs \<le> cap"
  shows "fst (get_many (length xs) (fold put xs q)) = xs"
  using put_many [OF assms(1), of xs] get_many_take [of "fold put xs q" "length xs"] assms by simp

end

interpretation ring: bounded_fifo ring_put ring_get ioq_bytes ioq_wf 63
  by unfold_locales (use ring_put_spec ring_get_spec in auto)

section \<open>The operations on the kernel state\<close>

lemma ioq_getchar_ready:
  assumes wf: "ioq_wf (ioqs s q)" and ne: "ioq_bytes (ioqs s q) \<noteq> []"
    and np: "producer (ioqs s q) = NULL"
  shows "ioq_getchar q s = Inr (fst (ring_get (ioqs s q)),
    s\<lparr>ioqs := (ioqs s)(q := snd (ring_get (ioqs s q)))\<rparr>)"
proof -
  have "\<not> ioq_empty q s" using ioq_empty_iff [OF wf] ne by simp
  then have "ioq_nonempty q s = Some (Inr s)" by (simp add: ioq_nonempty.simps)
  then show ?thesis
    using ioq_wfD [OF wf] np by (simp add: ioq_getchar_def ioq_take_def upd_ioq_def ring_get_def Let_def)
qed

lemma ioq_putchar_ready:
  assumes wf: "ioq_wf (ioqs s q)" and room: "length (ioq_bytes (ioqs s q)) < 63"
    and nc: "consumer (ioqs s q) = NULL"
  shows "ioq_putchar q b s = Inr (s\<lparr>ioqs := (ioqs s)(q := ring_put b (ioqs s q))\<rparr>)"
proof -
  have "\<not> ioq_full q s" using ioq_full_iff [OF wf] room by simp
  then have "ioq_nonfull q s = Some (Inr s)" by (simp add: ioq_nonfull.simps)
  then show ?thesis
    using ioq_wfD [OF wf] nc by (simp add: ioq_putchar_def ioq_put_def upd_ioq_def ring_put_def Let_def)
qed

text \<open>A reader sleeps on the queue: the byte is stored and the reader is unblocked.\<close>

lemma ioq_putchar_wakes:
  assumes wf: "ioq_wf (ioqs s q)" and room: "length (ioq_bytes (ioqs s q)) < 63"
    and c: "consumer (ioqs s q) = t" "t \<noteq> NULL"
  shows "ioq_putchar q b s =
    and_then (thread_unblock t (s\<lparr>ioqs := (ioqs s)(q := ring_put b (ioqs s q))\<rparr>)) (\<lambda>s.
      Inr (upd_ioq q (consumer_update (\<lambda>_. NULL)) s))"
proof -
  have "\<not> ioq_full q s" using ioq_full_iff [OF wf] room by simp
  then have "ioq_nonfull q s = Some (Inr s)" by (simp add: ioq_nonfull.simps)
  then show ?thesis
    using ioq_wfD [OF wf] c
    by (simp add: ioq_putchar_def ioq_put_def upd_ioq_def ring_put_def ioq_signal_def Let_def)
qed

end
