(* ===== verification/Keyboard.thy ===== *)
theory Keyboard
  imports Ioqueue
begin

text \<open>
  \<^verbatim>\<open>src/device/keyboard.c\<close> and \<^verbatim>\<open>keyboard.h\<close>: the keyboard interrupt. Scan codes come
  from port \<open>0x60\<close>; modifier keys change four flags, other keys put a character into the
  keyboard buffer. Also \<^verbatim>\<open>src/device/console.c\<close>: printing under the console's mutex.
\<close>

section \<open>Key codes\<close>

abbreviation (input) KBD_BUF_PORT :: "u16" where "KBD_BUF_PORT \<equiv> 0x60"

definition SHIFT_LEFT_MAKE :: u16 where "SHIFT_LEFT_MAKE = 0x002a"
definition SHIFT_RIGHT_MAKE :: u16 where "SHIFT_RIGHT_MAKE = 0x0036"
definition ALT_LEFT_MAKE :: u16 where "ALT_LEFT_MAKE = 0x0038"
definition ALT_RIGHT_MAKE :: u16 where "ALT_RIGHT_MAKE = 0xe038"
definition CTRL_LEFT_MAKE :: u16 where "CTRL_LEFT_MAKE = 0x001d"
definition CTRL_RIGHT_MAKE :: u16 where "CTRL_RIGHT_MAKE = 0xe01d"
definition CAPS_LOCK_MAKE :: u16 where "CAPS_LOCK_MAKE = 0x003a"

lemmas make_codes = SHIFT_LEFT_MAKE_def SHIFT_RIGHT_MAKE_def ALT_LEFT_MAKE_def ALT_RIGHT_MAKE_def
  CTRL_LEFT_MAKE_def CTRL_RIGHT_MAKE_def CAPS_LOCK_MAKE_def

definition ESC :: u8 where "ESC = 27"
definition BACKSPACE :: u8 where "BACKSPACE = 8"
definition TAB :: u8 where "TAB = 9"
definition ENTER :: u8 where "ENTER = 13"
definition CHAR_INVISIBLE :: u8 where "CHAR_INVISIBLE = 0"
abbreviation (input) CTRL_LEFT_CHAR :: "u8" where "CTRL_LEFT_CHAR \<equiv> CHAR_INVISIBLE"
abbreviation (input) SHIFT_LEFT_CHAR :: "u8" where "SHIFT_LEFT_CHAR \<equiv> CHAR_INVISIBLE"
abbreviation (input) SHIFT_RIGHT_CHAR :: "u8" where "SHIFT_RIGHT_CHAR \<equiv> CHAR_INVISIBLE"
abbreviation (input) ALT_LEFT_CHAR :: "u8" where "ALT_LEFT_CHAR \<equiv> CHAR_INVISIBLE"
abbreviation (input) CAPS_LOCK_CHAR :: "u8" where "CAPS_LOCK_CHAR \<equiv> CHAR_INVISIBLE"

abbreviation ch :: "char \<Rightarrow> u8" where
  "ch c \<equiv> of_char c"

definition keymap :: "(u8 \<times> u8) list" where
  "keymap =
    [(0, 0), (ESC, ESC),
     (ch CHR ''1'', ch CHR ''!''), (ch CHR ''2'', ch CHR ''@''), (ch CHR ''3'', ch CHR ''#''),
     (ch CHR ''4'', ch CHR ''$''), (ch CHR ''5'', ch CHR ''%''), (ch CHR ''6'', ch CHR ''^''),
     (ch CHR ''7'', ch CHR ''&''), (ch CHR ''8'', ch CHR ''*''), (ch CHR ''9'', ch CHR ''(''),
     (ch CHR ''0'', ch CHR '')''), (ch CHR ''-'', ch CHR ''_''), (ch CHR ''='', ch CHR ''+''),
     (BACKSPACE, BACKSPACE), (TAB, TAB),
     (ch CHR ''q'', ch CHR ''Q''), (ch CHR ''w'', ch CHR ''W''), (ch CHR ''e'', ch CHR ''E''),
     (ch CHR ''r'', ch CHR ''R''), (ch CHR ''t'', ch CHR ''T''), (ch CHR ''y'', ch CHR ''Y''),
     (ch CHR ''u'', ch CHR ''U''), (ch CHR ''i'', ch CHR ''I''), (ch CHR ''o'', ch CHR ''O''),
     (ch CHR ''p'', ch CHR ''P''), (ch CHR ''['', ch CHR ''{''), (ch CHR '']'', ch CHR ''}''),
     (ENTER, ENTER), (CTRL_LEFT_CHAR, CTRL_LEFT_CHAR),
     (ch CHR ''a'', ch CHR ''A''), (ch CHR ''s'', ch CHR ''S''), (ch CHR ''d'', ch CHR ''D''),
     (ch CHR ''f'', ch CHR ''F''), (ch CHR ''g'', ch CHR ''G''), (ch CHR ''h'', ch CHR ''H''),
     (ch CHR ''j'', ch CHR ''J''), (ch CHR ''k'', ch CHR ''K''), (ch CHR ''l'', ch CHR ''L''),
     (ch CHR '';'', ch CHR '':''), (0x27, 0x22), (0x60, 0x7e),
     (SHIFT_LEFT_CHAR, SHIFT_LEFT_CHAR), (0x5c, 0x7c),
     (ch CHR ''z'', ch CHR ''Z''), (ch CHR ''x'', ch CHR ''X''), (ch CHR ''c'', ch CHR ''C''),
     (ch CHR ''v'', ch CHR ''V''), (ch CHR ''b'', ch CHR ''B''), (ch CHR ''n'', ch CHR ''N''),
     (ch CHR ''m'', ch CHR ''M''), (ch CHR '','', ch CHR ''<''), (ch CHR ''.'', ch CHR ''>''),
     (ch CHR ''/'', ch CHR ''?''), (SHIFT_RIGHT_CHAR, SHIFT_RIGHT_CHAR), (ch CHR ''*'', ch CHR ''*''),
     (ALT_LEFT_CHAR, ALT_LEFT_CHAR), (ch CHR '' '', ch CHR '' ''), (CAPS_LOCK_CHAR, CAPS_LOCK_CHAR)]"

definition KEYMAP_MAX_INDEX :: u32 where
  "KEYMAP_MAX_INDEX = of_nat (length keymap) - 1"

definition break_code :: "u16 \<Rightarrow> bool" where
  "break_code scan_code \<longleftrightarrow> scan_code AND 0x0080 \<noteq> 0"

definition break_code2make_code :: "u16 \<Rightarrow> u16" where
  "break_code2make_code code = code AND 0xff7f"

section \<open>The interrupt handler\<close>

definition scan_code_get :: "'a kernel_scheme \<Rightarrow> u16 \<times> 'a kernel_scheme" where
  "scan_code_get s =
     (let scan_code = inb KBD_BUF_PORT s
      in if ext_scan_code s then (0xe000 OR ucast scan_code, s\<lparr>ext_scan_code := False\<rparr>)
         else (ucast scan_code, if scan_code = 0xe0 then s\<lparr>ext_scan_code := True\<rparr> else s))"

definition ctrl_key_proc :: "u16 \<Rightarrow> 'a kernel_scheme \<Rightarrow> bool \<times> 'a kernel_scheme" where
  "ctrl_key_proc scan_code s =
     (let status_to_set = \<not> break_code scan_code;
          scan_code = (if break_code scan_code then break_code2make_code scan_code else scan_code)
      in if scan_code = CTRL_LEFT_MAKE then (True, s\<lparr>ctrl_status := status_to_set\<rparr>)
         else if scan_code = CTRL_RIGHT_MAKE then (True, s\<lparr>ctrl_status := status_to_set\<rparr>)
         else if scan_code = ALT_LEFT_MAKE then (True, s\<lparr>alt_status := status_to_set\<rparr>)
         else if scan_code = ALT_RIGHT_MAKE then (True, s\<lparr>alt_status := status_to_set\<rparr>)
         else if scan_code = SHIFT_LEFT_MAKE then (True, s\<lparr>shift_status := status_to_set\<rparr>)
         else if scan_code = SHIFT_RIGHT_MAKE then (True, s\<lparr>shift_status := status_to_set\<rparr>)
         else if scan_code = CAPS_LOCK_MAKE then
           (True, if \<not> status_to_set then s\<lparr>caps_lock_status := \<not> caps_lock_status s\<rparr> else s)
         else (False, s))"

definition normal_key_proc :: "u16 \<Rightarrow> 'a kernel_scheme \<Rightarrow> 'a kernel_scheme halt + (bool \<times> 'a kernel_scheme)" where
  "normal_key_proc scan_code s =
     (if break_code scan_code then Inr (True, s)
      else
        let shift = shift_status s \<or> caps_lock_status s;
            index = ucast (scan_code AND 0xff) :: u8
        in if ucast index > KEYMAP_MAX_INDEX then Inr (False, s)
           else
             let (plain, shifted) = keymap ! unat index
             in and_then (ioq_putchar kbd_buf (if shift then shifted else plain) s) (\<lambda>s.
                Inr (True, s)))"

definition intr_keyboard_handler :: "'a kernel_scheme \<Rightarrow> 'a kernel_scheme halt + 'a kernel_scheme" where
  "intr_keyboard_handler s =
     (let (scan_code, s) = scan_code_get s
      in if scan_code = 0x00e0 then Inr s
         else
           let (ret, s) = ctrl_key_proc scan_code s
           in if ret then Inr s
              else and_then (normal_key_proc scan_code s) (\<lambda>(ret, s).
                Inr (if ret then s else put_str (lit ''unknown key\<newline>'') s)))"

definition keyboard_init :: "'a kernel_scheme \<Rightarrow> 'a kernel_scheme halt + 'a kernel_scheme" where
  "keyboard_init s =
     (let s = put_str (lit ''keyboard init start\<newline>'') s;
          s = ioqueue_init kbd_buf s
      in and_then (intr_handler_register INT_KEYBOARD Intr_keyboard_handler s) (\<lambda>s.
         Inr (put_str (lit ''keyboard init done\<newline>'') s)))"

text \<open>The path of a keyboard interrupt with \<open>scan\<close> in the controller's data port.\<close>

definition key_interrupt :: "addr \<Rightarrow> u8 \<Rightarrow> 'a kernel_scheme \<Rightarrow> 'a kernel_scheme halt + 'a kernel_scheme" where
  "key_interrupt esp scan s =
     and_then (intr_keyboard_handler (intr_enter esp (s\<lparr>in_ports := (in_ports s)(KBD_BUF_PORT := scan)\<rparr>))) hwi_tail_handle"

section \<open>The console\<close>

definition console_init :: "'a kstate_scheme \<Rightarrow> 'a kstate_scheme" where
  "console_init s = mutex_init console_mutex s"

definition console_acquire :: "'a kstate_scheme \<Rightarrow> 'a kstate_scheme halt + 'a kstate_scheme" where
  "console_acquire s = mutex_lock console_mutex s"

definition console_release :: "'a kstate_scheme \<Rightarrow> 'a kstate_scheme halt + 'a kstate_scheme" where
  "console_release s = mutex_unlock console_mutex s"

definition console_put_str :: "u8 list \<Rightarrow> 'a kstate_scheme \<Rightarrow> 'a kstate_scheme halt + 'a kstate_scheme" where
  "console_put_str str s = and_then (console_acquire s) (\<lambda>s. console_release (put_str str s))"

definition console_put_char :: "u8 \<Rightarrow> 'a kstate_scheme \<Rightarrow> 'a kstate_scheme halt + 'a kstate_scheme" where
  "console_put_char c s = and_then (console_acquire s) (\<lambda>s. console_release (put_char c s))"

definition console_put_int :: "u32 \<Rightarrow> 'a kstate_scheme \<Rightarrow> 'a kstate_scheme halt + 'a kstate_scheme" where
  "console_put_int num s =
     and_then (console_acquire s) (\<lambda>s. and_then (put_int num s) (\<lambda>s. console_release s))"

section \<open>What a key does\<close>

lemma length_keymap: "length keymap = 59"
  by (simp add: keymap_def)

lemma scan_code_get_plain:
  "\<not> ext_scan_code s \<Longrightarrow> in_ports s 0x60 = c \<Longrightarrow> c \<noteq> 0xe0 \<Longrightarrow> scan_code_get s = (ucast c, s)"
  by (simp add: scan_code_get_def inb_def)

text \<open>The prefix is remembered and nothing else happens.\<close>

lemma keyboard_prefix:
  "\<not> ext_scan_code s \<Longrightarrow> in_ports s 0x60 = 0xe0 \<Longrightarrow>
    intr_keyboard_handler s = Inr (s\<lparr>ext_scan_code := True\<rparr>)"
  by (simp add: intr_keyboard_handler_def scan_code_get_def inb_def)

lemma break_code_iff: "break_code (ucast (c :: u8)) \<longleftrightarrow> 128 \<le> unat c"
proof -
  have m: "(0x0080 :: u16) = push_bit 7 1" by simp
  have "(ucast c :: u16) AND push_bit 7 1 \<noteq> 0 \<longleftrightarrow> bit c 7"
  proof
    assume "(ucast c :: u16) AND push_bit 7 1 \<noteq> 0"
    then obtain k where "bit ((ucast c :: u16) AND push_bit 7 1) k" by (auto simp: bit_eq_iff)
    then have "bit (ucast c :: u16) k \<and> k = 7" by (metis bit_and_iff bit_push_bit_one)
    then show "bit c 7" by (auto simp: bit_ucast_iff)
  next
    assume "bit c 7"
    then have "bit ((ucast c :: u16) AND push_bit 7 1) 7"
      by (simp only: bit_and_iff bit_push_bit_one bit_ucast_iff) simp
    then show "(ucast c :: u16) AND push_bit 7 1 \<noteq> 0" by auto
  qed
  moreover have "bit c 7 \<longleftrightarrow> odd (unat c div 128)"
    using bit_iff_odd [of "unat c" 7] by (simp add: bit_unsigned_iff)
  moreover have "unat c < 256" using unsigned_less [of c] by simp
  then have "unat c div 128 = (if 128 \<le> unat c then 1 else 0)"
    by (auto intro: div_nat_eqI)
  then have "odd (unat c div 128) \<longleftrightarrow> 128 \<le> unat c" by simp
  ultimately show ?thesis unfolding break_code_def m by simp
qed

definition modifier :: "u8 \<Rightarrow> bool" where
  "modifier c \<longleftrightarrow> c \<in> {0x1d, 0x2a, 0x36, 0x38, 0x3a}"

lemma unat_u8_u16: "unat (ucast (c :: u8) :: u16) = unat c"
  and unat_u8_u32: "unat (ucast (c :: u8) :: u32) = unat c"
proof -
  have "unat c < 256" using unsigned_less [of c] by simp
  then show "unat (ucast c :: u16) = unat c" and "unat (ucast c :: u32) = unat c"
    by (simp_all add: unsigned_ucast_eq take_bit_nat_eq_self)
qed

lemma ctrl_key_other:
  assumes "unat c < 128" and "\<not> modifier c"
  shows "ctrl_key_proc (ucast c) s = (False, s)"
proof -
  have "(ucast c :: u16) = w \<longleftrightarrow> unat c = unat w" for w
    by (metis unat_eq_iff unat_u8_u16)
  moreover have "unat c \<noteq> 29" "unat c \<noteq> 42" "unat c \<noteq> 54" "unat c \<noteq> 56" "unat c \<noteq> 58"
    using assms(2) unat_eq_iff [of c 29] unat_eq_iff [of c 42] unat_eq_iff [of c 54]
      unat_eq_iff [of c 56] unat_eq_iff [of c 58] by (auto simp: modifier_def)
  moreover have "\<not> break_code (ucast c)" using assms(1) by (simp add: break_code_iff)
  ultimately show ?thesis
    using assms(1) by (simp add: ctrl_key_proc_def make_codes)
qed

text \<open>A plain key press puts the character of the map, shifted by shift or caps lock.\<close>

definition key_char :: "u8 \<Rightarrow> 'a kernel_scheme \<Rightarrow> u8" where
  "key_char c s =
     (if shift_status s \<or> caps_lock_status s then snd (keymap ! unat c) else fst (keymap ! unat c))"

lemma keyboard_plain:
  assumes "\<not> ext_scan_code s" and c: "in_ports s 0x60 = c" "unat c < 59" "\<not> modifier c"
  shows "intr_keyboard_handler s = ioq_putchar kbd_buf (key_char c s) s"
proof -
  have ne: "c \<noteq> 0xe0" using c(2) by auto
  have u: "(ucast c :: u16) \<noteq> 0xe0" using c(2) unat_u8_u16 [of c] by auto
  have i: "ucast ((ucast c :: u16) AND 0xff) = c"
    unfolding mask_bytes by (rule bit_word_eqI) (simp add: bit_simps)
  have k: "\<not> (ucast c :: u32) > KEYMAP_MAX_INDEX"
    using c(2) by (simp add: KEYMAP_MAX_INDEX_def length_keymap word_less_nat_alt unat_u8_u32)
  have nb: "\<not> break_code (ucast c)" using c(2) by (simp add: break_code_iff)
  have "ctrl_key_proc (ucast c) s = (False, s)" using c(2,3) by (intro ctrl_key_other) simp_all
  moreover have "normal_key_proc (ucast c) s =
      and_then (ioq_putchar kbd_buf (key_char c s) s) (\<lambda>s. Inr (True, s))"
    using nb k by (simp add: normal_key_proc_def i key_char_def split_beta Let_def)
  ultimately show ?thesis
    using u by (cases "ioq_putchar kbd_buf (key_char c s) s")
      (simp_all add: intr_keyboard_handler_def scan_code_get_plain [OF assms(1) c(1) ne])
qed

lemma keyboard_press:
  assumes "\<not> ext_scan_code s" and c: "in_ports s 0x60 = c" "unat c < 59" "\<not> modifier c"
    and q: "ioq_wf (ioqs s kbd_buf)" "length (ioq_bytes (ioqs s kbd_buf)) < 63"
      "consumer (ioqs s kbd_buf) = NULL"
  shows "intr_keyboard_handler s =
    Inr (s\<lparr>ioqs := (ioqs s)(kbd_buf := ring_put (key_char c s) (ioqs s kbd_buf))\<rparr>)"
  using keyboard_plain [OF assms(1-4)] ioq_putchar_ready [OF q] by simp

text \<open>
  Whatever the scan code, with room in the buffer and nobody asleep on it the handler changes the buffer, the
  flags and the screen only.
\<close>

definition kbd_ok :: "'a kernel_scheme \<Rightarrow> bool" where
  "kbd_ok s \<longleftrightarrow> ioq_wf (ioqs s kbd_buf) \<and> consumer (ioqs s kbd_buf) = NULL \<and> producer (ioqs s kbd_buf) = NULL"

definition kbd_room :: "'a kernel_scheme \<Rightarrow> bool" where
  "kbd_room s \<longleftrightarrow> length (ioq_bytes (ioqs s kbd_buf)) < 63"

lemma kbd_cong:
  "ioqs s' kbd_buf = ioqs s kbd_buf \<Longrightarrow> kbd_ok s' = kbd_ok s" "ioqs s' kbd_buf = ioqs s kbd_buf \<Longrightarrow> kbd_room s' = kbd_room s"
  by (simp_all add: kbd_ok_def kbd_room_def)

lemma put_str_ioqs [frame]:
  fixes s :: "'a kernel_scheme"
  shows "ioqs (put_str cs s) = ioqs s"
  by (subst put_str_crt [of s cs, unfolded crt_only_def]) simp

definition kbd_only :: "'a kernel_scheme \<Rightarrow> 'a kernel_scheme \<Rightarrow> bool" where
  "kbd_only s s' \<longleftrightarrow>
     nodes s' = nodes s \<and> mem s' = mem s \<and> tcbs s' = tcbs s \<and> sched s' = sched s \<and> phys s' = phys s
     \<and> cr3 s' = cr3 s \<and> sem_val s' = sem_val s"

lemma kbd_only_flags:
  "kbd_only s s" "kbd_only s (s\<lparr>ctrl_status := b\<rparr>)" "kbd_only s (s\<lparr>shift_status := b\<rparr>)"
  "kbd_only s (s\<lparr>alt_status := b\<rparr>)" "kbd_only s (s\<lparr>caps_lock_status := b\<rparr>)" "kbd_only s (s\<lparr>ioqs := q\<rparr>)"
  "kbd_only s (s\<lparr>ext_scan_code := b\<rparr>)"
  by (simp_all add: kbd_only_def)

lemma ctrl_key_only:
  fixes s :: "'a kernel_scheme"
  shows "kbd_only s (snd (ctrl_key_proc scan s))" and "ioqs (snd (ctrl_key_proc scan s)) = ioqs s"
  by (simp_all add: ctrl_key_proc_def Let_def if_distrib [of snd] if_distrib [of "kbd_only s"] if_distrib [of ioqs]
    kbd_only_flags)

lemma scan_code_only:
  fixes s :: "'a kernel_scheme"
  shows "kbd_only s (snd (scan_code_get s))" and "ioqs (snd (scan_code_get s)) = ioqs s"
  by (simp_all add: scan_code_get_def kbd_only_flags Let_def)

lemma kbd_only_trans: "kbd_only s t \<Longrightarrow> kbd_only t u \<Longrightarrow> kbd_only s u"
  by (simp add: kbd_only_def)

lemma normal_key_ok:
  fixes s :: "'a kernel_scheme"
  assumes ok: "kbd_ok s" and room: "kbd_room s"
  obtains r s' where "normal_key_proc scan s = Inr (r, s')" and "kbd_only s s'" and "kbd_ok s'"
proof -
  note q = ok [unfolded kbd_ok_def] room [unfolded kbd_room_def]
  have put: "ioq_putchar kbd_buf b s = Inr (s\<lparr>ioqs := (ioqs s)(kbd_buf := ring_put b (ioqs s kbd_buf))\<rparr>)" for b
    using q by (intro ioq_putchar_ready) simp_all
  have "kbd_ok (s\<lparr>ioqs := (ioqs s)(kbd_buf := ring_put b (ioqs s kbd_buf))\<rparr>)" for b
    using q ring_put_spec(1) [of "ioqs s kbd_buf" b] by (simp add: kbd_ok_def ring_put_def)
  moreover define i where "i = (ucast (scan AND 0xff) :: u8)"
  moreover define b where "b = (if shift_status s \<or> caps_lock_status s then snd (keymap ! unat i) else fst (keymap ! unat i))"
  ultimately have b: "kbd_ok (s\<lparr>ioqs := (ioqs s)(kbd_buf := ring_put b (ioqs s kbd_buf))\<rparr>)"
    and e: "normal_key_proc scan s =
      (if break_code scan then Inr (True, s) else if ucast i > KEYMAP_MAX_INDEX then Inr (False, s)
       else Inr (True, s\<lparr>ioqs := (ioqs s)(kbd_buf := ring_put b (ioqs s kbd_buf))\<rparr>))"
    by (simp_all add: normal_key_proc_def Let_def put split_beta)
  show thesis
  proof (cases "break_code scan \<or> ucast i > KEYMAP_MAX_INDEX")
    case True
    then show ?thesis using e by (intro that [OF _ kbd_only_flags(1) ok, of "break_code scan"]) auto
  next
    case False
    then show ?thesis using e by (intro that [OF _ kbd_only_flags(6) b, of True]) simp
  qed
qed

lemma keyboard_handler_ok:
  fixes s :: "'a kernel_scheme"
  assumes ok: "kbd_ok s" and room: "kbd_room s"
  obtains s' where "intr_keyboard_handler s = Inr s'" and "kbd_only s s'" and "kbd_ok s'"
proof -
  obtain scan s1 where s1: "scan_code_get s = (scan, s1)" by fastforce
  then have o1: "kbd_only s s1" "ioqs s1 = ioqs s" using scan_code_only [where s = s] by simp_all
  obtain ret s2 where s2: "ctrl_key_proc scan s1 = (ret, s2)" by fastforce
  then have o2: "kbd_only s s2" "ioqs s2 = ioqs s"
    using ctrl_key_only [where s = s1 and scan = scan] o1 kbd_only_trans by auto
  have k: "kbd_ok s1" "kbd_ok s2" "kbd_room s2" using ok room kbd_cong o1(2) o2(2) by metis+
  obtain r s3 where s3: "normal_key_proc scan s2 = Inr (r, s3)" "kbd_only s2 s3" "kbd_ok s3"
    by (rule normal_key_ok [OF k(2,3)])
  let ?u = "put_str (lit ''unknown key\<newline>'') s3"
  have "kbd_only s2 ?u" using s3(2) by (simp add: kbd_only_def frame)
  moreover have "ioqs ?u = ioqs s3" by (simp add: put_str_ioqs)
  ultimately have u: "kbd_only s s3" "kbd_only s ?u" "kbd_ok ?u"
    using o2(1) s3(2,3) kbd_only_trans kbd_cong(1) [of ?u s3] by auto
  have "intr_keyboard_handler s =
      (if scan = 0x00e0 then Inr s1 else if ret then Inr s2 else if r then Inr s3 else Inr ?u)"
    by (simp add: intr_keyboard_handler_def s1 s2 s3(1))
  then show thesis
    using that [OF _ o1(1) k(1)] that [OF _ o2(1) k(2)] that [OF _ u(1) s3(3)] that [OF _ u(2,3)]
    by (cases "scan = 0x00e0"; cases ret; cases r) simp_all
qed

text \<open>Modifiers: pressing sets, releasing clears; caps lock toggles on release only.\<close>

lemma modifier_codes:
  "ctrl_key_proc 0x2a s = (True, s\<lparr>shift_status := True\<rparr>)"
  "ctrl_key_proc 0xaa s = (True, s\<lparr>shift_status := False\<rparr>)"
  "ctrl_key_proc 0x36 s = (True, s\<lparr>shift_status := True\<rparr>)"
  "ctrl_key_proc 0xb6 s = (True, s\<lparr>shift_status := False\<rparr>)"
  "ctrl_key_proc 0x3a s = (True, s)"
  "ctrl_key_proc 0xba s = (True, s\<lparr>caps_lock_status := \<not> caps_lock_status s\<rparr>)"
  "ctrl_key_proc 0x1d s = (True, s\<lparr>ctrl_status := True\<rparr>)"
  "ctrl_key_proc 0xe09d s = (True, s\<lparr>ctrl_status := False\<rparr>)"
  "ctrl_key_proc 0xe038 s = (True, s\<lparr>alt_status := True\<rparr>)"
  "ctrl_key_proc 0xb8 s = (True, s\<lparr>alt_status := False\<rparr>)"
  by (simp_all add: ctrl_key_proc_def break_code_def break_code2make_code_def make_codes)

end
