(* ===== verification/Ioqueue_Inv.thy ===== *)
theory Ioqueue_Inv
  imports Keyboard
begin

text \<open>
  The I/O queue and the scheduler together. Blocking and unblocking leave the device part of the
  state alone, so a reader that finds the queue empty sleeps with its name in the queue, and the
  next byte wakes it.
\<close>

section \<open>The scheduler does not touch the devices\<close>

lemma intr_more [frame]:
  fixes s :: "'a kstate_scheme"
  shows "kstate.more (snd (intr_disable s)) = kstate.more s"
    "kstate.more (snd (intr_set_status i s)) = kstate.more s"
    "kstate.more (snd (intr_enable s)) = kstate.more s"
  by (simp_all add: intr_disable_def intr_set_status_def intr_enable_def cli_def sti_def)

lemma link_more:
  fixes s :: "'a kstate_scheme"
  shows "kstate.more (set_next e x s) = kstate.more s" "kstate.more (set_prev e x s) = kstate.more s"
  by (simp_all add: set_next_def set_prev_def)

lemma list_more [frame]:
  fixes s :: "'a kstate_scheme"
  shows "kstate.more (list_remove e s) = kstate.more s"
    "kstate.more (list_push_back l e s) = kstate.more s"
    "kstate.more (list_push_front l e s) = kstate.more s"
    "kstate.more (snd (list_pop_front l s)) = kstate.more s"
  by (simp_all add: list_remove_def list_push_back_def list_push_front_def list_insert_before_def
    list_pop_front_def Let_def split_beta link_more intr_more)

lemma update_more [frame]:
  "kstate.more (upd_tcb t f s) = kstate.more s"
  "kstate.more (set_need_schedule b s) = kstate.more s"
  "kstate.more (set_running_thread t s) = kstate.more s"
  by (simp_all add: upd_tcb_def set_need_schedule_def set_running_thread_def)

lemma queue_more [frame]:
  "kstate.more (scheduler_rq_join_only t s) = kstate.more s"
  "kstate.more (scheduler_rq_leave_only t s) = kstate.more s"
  "kstate.more (scheduler_rq_leave t s) = kstate.more s"
  "kstate.more (scheduler_rq_jump t s) = kstate.more s"
  by (simp_all add: scheduler_rq_join_only_def scheduler_rq_leave_only_def scheduler_rq_leave_def
    scheduler_rq_jump_def scheduler_rq_jump_only_def Let_def frame)

lemma requeue_running_more [frame]: "kstate.more (requeue_running t s) = kstate.more s"
  by (simp add: requeue_running_def Let_def thread_prio_change_def frame)

lemma process_activate_more:
  assumes "process_activate t s = Inr s'"
  shows "kstate.more s' = kstate.more s"
proof (cases "tcb_pg_dir (tcbs s t) = NULL")
  case True
  then show ?thesis using assms by (simp add: process_activate_def page_dir_activate_def) auto
next
  case False
  then obtain p where "addr_v2p (tcb_pg_dir (tcbs s t)) s = Inr p"
    using assms by (cases "addr_v2p (tcb_pg_dir (tcbs s t)) s")
      (simp_all add: process_activate_def page_dir_activate_def)
  then show ?thesis
    using assms False
    by (simp add: process_activate_def page_dir_activate_def tss_esp0_update_def) auto
qed

lemma main_schedule_more:
  assumes "main_schedule s = Inr s'"
  shows "kstate.more s' = kstate.more s"
proof (cases "need_schedule s")
  case True
  then show ?thesis
    using assms process_activate_more by (fastforce simp: main_schedule_def Let_def frame)
next
  case False
  then show ?thesis using assms by (simp add: main_schedule_def)
qed

text \<open>The scheduler itself never suspends: its one failure is a page fault.\<close>

lemma main_schedule_not_suspended: "main_schedule s \<noteq> Inl (Suspended t)"
proof -
  have "addr_v2p p u \<noteq> Inl (Suspended t)" for p and u :: "'a kstate_scheme"
    by (auto simp: addr_v2p_def vload_def and_then_Inl_iff split: option.splits)
  then have "process_activate p u \<noteq> Inl (Suspended t)" for p and u :: "'a kstate_scheme"
    by (auto simp: process_activate_def page_dir_activate_def and_then_Inl_iff)
  then show ?thesis by (auto simp: main_schedule_def Let_def)
qed

lemma thread_block_more:
  assumes "thread_block st s = Inl (Suspended s')"
  shows "kstate.more s' = kstate.more s"
proof -
  let ?b = "scheduler_rq_leave (RUNNING_THREAD (snd (intr_disable s)))
    (upd_tcb (RUNNING_THREAD (snd (intr_disable s))) (\<lambda>t. t\<lparr>tcb_status := st\<rparr>) (snd (intr_disable s)))"
  have "schedule ?b = Inl (Suspended s')"
    using assms
    by (auto simp: thread_block_def Let_def split_beta and_then_Inl_iff upd_tcb_def split: if_splits)
  then have "main_schedule ?b = Inr s'"
    using main_schedule_not_suspended [of ?b s']
    by (auto simp: schedule_def and_then_Inl_iff split: if_splits)
  then show ?thesis using main_schedule_more by (fastforce simp: frame)
qed

lemma thread_unblock_more:
  assumes "thread_unblock t s = Inr s'"
  shows "kstate.more s' = kstate.more s"
  using assms by (auto simp: thread_unblock_def Let_def split_beta frame split: if_splits)

lemma ioqs_more:
  fixes s s' :: "'a kernel_scheme"
  assumes "kstate.more s' = kstate.more s"
  shows "ioqs s' = ioqs s"
  using assms by (cases s, cases s') simp

text \<open>Semaphores and the clock leave the queues alone.\<close>

lemma sem_wait_more:
  assumes "sem_wait sem s = Inl (Suspended s')"
  shows "kstate.more s' = kstate.more s"
proof -
  obtain u where "thread_block TASK_BLOCKED u = Inl (Suspended s')" "kstate.more u = kstate.more s"
    using assms by (auto simp: sem_wait_def Let_def frame split: option.splits if_splits)
  then show ?thesis using thread_block_more by metis
qed

lemma ioqs_intr [frame]:
  fixes s :: "'a kernel_scheme"
  shows "ioqs (snd (intr_disable s)) = ioqs s" "ioqs (snd (intr_set_status i s)) = ioqs s"
  by (rule ioqs_more; simp add: frame)+

lemma sem_up_more:
  assumes "sem_up sem s = Inr s'"
  shows "kstate.more s' = kstate.more s"
proof -
  have v: "kstate.more (set_sem_val sem x u) = kstate.more u" for x and u :: "'a kstate_scheme"
    by (simp add: set_sem_val_def)
  show ?thesis
    using assms thread_unblock_more
    by (fastforce simp: sem_up_def Let_def split_beta frame v elim!: and_then_InrE split: if_splits)
qed

lemma clock_interrupt_ioqs:
  fixes s :: "'a kernel_scheme"
  assumes "clock_interrupt esp s = Inr s'"
  shows "ioqs s' = ioqs s"
proof -
  have t: "ioqs (upd_tcb t f u) = ioqs u" "ioqs (set_need_schedule b u) = ioqs u" "ioqs (intr_enter esp u) = ioqs u"
    for t f b and u :: "'a kernel_scheme"
    by (rule ioqs_more; simp add: update_more intr_enter_def outb_def Let_def)+
  from assms obtain u where "intr_timer_handler (intr_enter esp s) = Inr u" "main_schedule u = Inr s'"
    unfolding clock_interrupt_def hwi_tail_handle_def by (rule and_then_InrE)
  then show ?thesis
    using ioqs_more [OF main_schedule_more, of u s'] t by (auto simp: intr_timer_handler_def Let_def split: if_splits)
qed

section \<open>A reader sleeps\<close>

lemma ioq_frame [frame]:
  "nodes (upd_ioq q f s) = nodes s" "mem (upd_ioq q f s) = mem s" "tcbs (upd_ioq q f s) = tcbs s"
  "sched (upd_ioq q f s) = sched s" "sem_val (upd_ioq q f s) = sem_val s" "phys (upd_ioq q f s) = phys s"
  "cr3 (upd_ioq q f s) = cr3 s" "eflags (upd_ioq q f s) = eflags s"
  "ioqs (upd_ioq q f s) = (ioqs s)(q := f (ioqs s q))"
  by (simp_all add: upd_ioq_def)

lemma holder_ioqs [frame]:
  fixes s :: "'a kernel_scheme"
  shows "ioqs (set_holder m t s) = ioqs s" "ioqs (set_sem_val sem x s) = ioqs s"
  by (simp_all add: set_holder_def set_sem_val_def)

text \<open>What a reader of an empty queue and a writer of a full one do.\<close>

abbreviation (input) ioq_sleep where
  "ioq_sleep q set_waiter s \<equiv> and_then (mutex_lock q s) (\<lambda>s.
     and_then (ioq_wait q set_waiter s) (\<lambda>s. mutex_unlock q s))"

lemma ioq_sleep_suspends:
  fixes s :: "'a kernel_scheme"
  assumes inv: "sinv s v" and r: "r = RUNNING_THREAD s" and other: "queued v - {r} \<noteq> {}"
    and act: "\<And>t. t \<in> vt v \<Longrightarrow> activatable t s" and free: "sem_val s (mtx_sem q) = 1"
  obtains s' p where "ioq_sleep q w s = Inl (Suspended s')" and "sinv s' (deq r (prio_of r s) v)"
    and "least_q (deq r (prio_of r s) v) p" and "RUNNING_THREAD s' = hd (vq (deq r (prio_of r s) v) p)"
    and "tcb_status (tcbs s' r) = TASK_BLOCKED" and "sem_val s' = (sem_val s)(mtx_sem q := 0)"
    and "ioqs s' = (ioqs s)(q := w (\<lambda>_. r) (ioqs s q))"
    and "\<forall>u. u \<noteq> r \<longrightarrow> u \<noteq> RUNNING_THREAD s' \<longrightarrow> tcbs s' u = tcbs s u"
proof -
  let ?l = "set_holder q r (set_sem_val (mtx_sem q) 0 s)"
  let ?w = "upd_ioq q (w (\<lambda>_. r)) ?l"
  have l: "mutex_lock q s = Inr ?l" using mutex_lock_free [of s q] free r by simp
  have sw: "sinv ?w v" using inv by (subst sinv_cong_fields [of _ s]) (simp_all add: frame)
  have aw: "activatable t ?w" if "t \<in> vt v" for t
    using act [OF that] by (subst activatable_cong [of _ _ s]) (simp_all add: frame)
  have rw: "r = RUNNING_THREAD ?w" using r by (simp add: frame)
  have bs: "block_status TASK_BLOCKED" by (simp add: block_status_def)
  have pw: "prio_of r ?w = prio_of r s" by (simp add: prio_of_def frame)
  obtain s' p where s': "thread_block TASK_BLOCKED ?w = Inl (Suspended s')"
    "least_q (deq r (prio_of r s) v) p" "sinv s' (deq r (prio_of r s) v)"
    "RUNNING_THREAD s' = hd (vq (deq r (prio_of r s) v) p)" "tcb_status (tcbs s' r) = TASK_BLOCKED"
    "sem_val s' = sem_val ?w" "\<forall>u. u \<noteq> r \<longrightarrow> u \<noteq> RUNNING_THREAD s' \<longrightarrow> tcbs s' u = tcbs ?w u"
    by (rule thread_block_suspends [OF sw bs rw other aw, unfolded pw])
  have "ioqs s' = ioqs ?w" by (rule ioqs_more [OF thread_block_more [OF s'(1)]])
  moreover have "ioq_sleep q w s = Inl (Suspended s')" using l s'(1) r by (simp add: ioq_wait_def frame)
  ultimately show thesis
    using s' by (intro that [of s' p]) (simp_all add: frame set_sem_val_def)
qed

lemma ioq_empty_sleeps:
  "ioq_empty q s \<Longrightarrow> ioq_sleep q consumer_update s = Inl h \<Longrightarrow> ioq_getchar q s = Inl h"
  by (simp add: ioq_getchar_def ioq_nonempty.simps)

lemma ioq_full_sleeps:
  "ioq_full q s \<Longrightarrow> ioq_sleep q producer_update s = Inl h \<Longrightarrow> ioq_putchar q b s = Inl h"
  by (simp add: ioq_putchar_def ioq_nonfull.simps)

lemma ioq_reader_suspends:
  fixes s :: "'a kernel_scheme"
  assumes inv: "sinv s v" and r: "r = RUNNING_THREAD s" and other: "queued v - {r} \<noteq> {}"
    and act: "\<And>t. t \<in> vt v \<Longrightarrow> activatable t s"
    and empty: "ioq_empty q s" and free: "sem_val s (mtx_sem q) = 1"
  obtains s' p where "ioq_getchar q s = Inl (Suspended s')" and "sinv s' (deq r (prio_of r s) v)"
    and "least_q (deq r (prio_of r s) v) p" and "RUNNING_THREAD s' = hd (vq (deq r (prio_of r s) v) p)"
    and "tcb_status (tcbs s' r) = TASK_BLOCKED" and "sem_val s' = (sem_val s)(mtx_sem q := 0)"
    and "ioqs s' = (ioqs s)(q := (ioqs s q)\<lparr>consumer := r\<rparr>)"
  by (rule ioq_sleep_suspends [OF inv r other act free, of consumer_update])
    (auto intro: that ioq_empty_sleeps [OF empty])

text \<open>When it runs again it gives the mutex back and takes the first byte.\<close>

lemma ioq_reader_resumes:
  assumes k: "klists s v" and m: "mtx_sem q \<in> vs v" "vw v (mtx_sem q) = []" "sem_val s (mtx_sem q) = 0"
    and wf: "ioq_wf (ioqs s q)" and b: "ioq_bytes (ioqs s q) = b # bs" and p: "producer (ioqs s q) = NULL"
  shows "\<exists>s'. ioq_getchar_resume q s = Inr (b, s') \<and> ioq_bytes (ioqs s' q) = bs
    \<and> sem_val s' = (sem_val s)(mtx_sem q := 1)"
proof -
  let ?u = "set_holder q NULL (set_sem_val (mtx_sem q) 1 s)"
  have u: "mutex_unlock q s = Inr ?u" by (rule mutex_unlock_idle [OF k m])
  have q: "ioqs ?u = ioqs s" by (simp add: frame)
  have g: "ioq_getchar q ?u = Inr (fst (ring_get (ioqs s q)),
      ?u\<lparr>ioqs := (ioqs s)(q := snd (ring_get (ioqs s q)))\<rparr>)"
    using ioq_getchar_ready [of ?u q] wf b p unfolding q by simp
  have "fst (ring_get (ioqs s q)) = b \<and> ioq_bytes (snd (ring_get (ioqs s q))) = bs"
    using ring_get_spec(2) [OF wf] b by simp
  moreover have "sem_val ?u = (sem_val s)(mtx_sem q := 1)"
    by (simp add: set_holder_def set_sem_val_def)
  ultimately show ?thesis by (simp add: ioq_getchar_resume_def u g)
qed

section \<open>A byte wakes it\<close>

lemma ioq_writer_wakes:
  fixes s :: "'a kernel_scheme"
  assumes inv: "sinv s v" and t: "t \<in> vt v" "block_status (tcb_status (tcbs s t))"
    and c: "consumer (ioqs s q) = t" "t \<noteq> NULL"
    and wf: "ioq_wf (ioqs s q)" and room: "length (ioq_bytes (ioqs s q)) < 63"
  obtains s' where "ioq_putchar q b s = Inr s'" and "sinv s' (enq_front t (prio_of t s) v)"
    and "tcb_status (tcbs s' t) = TASK_READY" and "RUNNING_THREAD s' = RUNNING_THREAD s"
    and "ioqs s' = (ioqs s)(q := (ring_put b (ioqs s q))\<lparr>consumer := NULL\<rparr>)"
proof -
  let ?w = "s\<lparr>ioqs := (ioqs s)(q := ring_put b (ioqs s q))\<rparr>"
  have sw: "sinv ?w v" using inv by (subst sinv_cong_fields [of _ s]) simp_all
  have bw: "block_status (tcb_status (tcbs ?w t))" using t by simp
  obtain s1 where s1: "thread_unblock t ?w = Inr s1" "sinv s1 (enq_front t (prio_of t s) v)"
    "tcb_status (tcbs s1 t) = TASK_READY" "RUNNING_THREAD s1 = RUNNING_THREAD s"
    using thread_unblock_ok [OF sw t(1) bw] by (auto simp: prio_of_def)
  let ?s' = "upd_ioq q (consumer_update (\<lambda>_. NULL)) s1"
  have "ioqs s1 = ioqs ?w" by (rule ioqs_more [OF thread_unblock_more [OF s1(1)]])
  then have "ioqs ?s' = (ioqs s)(q := (ring_put b (ioqs s q))\<lparr>consumer := NULL\<rparr>)"
    by (simp add: frame)
  moreover have "sinv ?s' (enq_front t (prio_of t s) v)"
    using s1(2) by (subst sinv_cong_fields [of _ s1]) (simp_all add: frame)
  moreover have "ioq_putchar q b s = Inr ?s'"
    using ioq_putchar_wakes [OF wf room c] s1(1) by simp
  ultimately show thesis using s1 by (intro that [of ?s']) (simp_all add: frame)
qed

section \<open>A writer of a full queue\<close>

text \<open>
  It sleeps too, the first one with the queue's mutex in its hands, every later one in the waiter list of
  the mutex.
\<close>

lemma ioq_writer_suspends:
  fixes s :: "'a kernel_scheme"
  assumes inv: "kinv s v" and r: "r = RUNNING_THREAD s" and other: "queued v - {r} \<noteq> {}"
    and act: "\<And>t. t \<in> vt v \<Longrightarrow> activatable t s" and full: "ioq_full q s"
    and m: "mtx_sem q \<in> vs v" "sem_val s (mtx_sem q) \<in> {0, 1}"
  obtains s' v' p where "ioq_putchar q b s = Inl (Suspended s')" and "kinv s' v'" and "vt v' = vt v" and "vs v' = vs v"
    and "queued v' = queued v - {r}" and "least_q v' p" and "RUNNING_THREAD s' = hd (vq v' p)"
    and "tcb_status (tcbs s' r) = TASK_BLOCKED" and "sem_val s' (mtx_sem q) = 0" and "ioq_full q s'"
proof (cases "sem_val s (mtx_sem q) = 0")
  case True
  let ?v = "deq r (prio_of r s) (set_w (mtx_sem q) (vw v (mtx_sem q) @ [r]) v)"
  note sv = kinvD(1) [OF inv]
  obtain s' p where s': "sem_down (mtx_sem q) s = Inl (Suspended s')" "kinv s' ?v" "least_q ?v p"
    "RUNNING_THREAD s' = hd (vq ?v p)" "tcb_status (tcbs s' r) = TASK_BLOCKED" "sem_val s' = sem_val s"
    "sem_wait (mtx_sem q) (snd (intr_disable s)) = Inl (Suspended s')"
    unfolding sem_down_first by (rule sem_down_resume_suspends [OF inv m(1) True r other act refl])
  have p: "prio_of r s < PRIO_NUM" using sinv_parts(4) [OF sv] r by simp
  have "queued ?v = queued (deq r (prio_of r s) v)" by (simp add: queued_def view_defs)
  also have "\<dots> = queued v - {r}" by (rule queued_deq [OF sinv_parts(1) [OF sv] p])
  finally have qv: "queued ?v = queued v - {r}" .
  have "ioqs s' = ioqs (snd (intr_disable s))" by (rule ioqs_more [OF sem_wait_more [OF s'(7)]])
  then have "ioqs s' = ioqs s" by (simp add: frame)
  moreover have "mutex_lock q s = Inl (Suspended s')" by (rule mutex_lock_contended [OF s'(1)])
  then have "ioq_putchar q b s = Inl (Suspended s')" by (intro ioq_full_sleeps [OF full]) simp
  ultimately show thesis
    using s' True qv full by (intro that [of s' ?v p]) (simp_all add: ioq_full_def view_defs)
next
  case False
  let ?v = "deq r (prio_of r s) v"
  note sv = kinvD(1) [OF inv]
  have f: "sem_val s (mtx_sem q) = 1" using False m(2) by simp
  obtain s' p where s': "ioq_sleep q producer_update s = Inl (Suspended s')" "sinv s' ?v"
    "least_q ?v p" "RUNNING_THREAD s' = hd (vq ?v p)" "tcb_status (tcbs s' r) = TASK_BLOCKED"
    "sem_val s' = (sem_val s)(mtx_sem q := 0)" "ioqs s' = (ioqs s)(q := producer_update (\<lambda>_. r) (ioqs s q))"
    "\<forall>u. u \<noteq> r \<longrightarrow> u \<noteq> RUNNING_THREAD s' \<longrightarrow> tcbs s' u = tcbs s u"
    by (rule ioq_sleep_suspends [OF sv r other act f])
  have p: "prio_of r s < PRIO_NUM" using sinv_parts(4) [OF sv] r by simp
  have qv: "queued ?v = queued v - {r}" by (rule queued_deq [OF sinv_parts(1) [OF sv] p])
  have "wait_inv s' ?v"
    unfolding wait_inv_def
  proof
    fix t assume "t \<in> waiting ?v"
    then have t: "t \<in> waiting v" by simp
    then have "t \<noteq> r" "t \<noteq> RUNNING_THREAD s'"
      using running_not_waiting [OF inv] r waiting_not_queued [OF inv t] sinv_parts(3) [OF s'(2)] qv by auto
    then show "tcb_status (tcbs s' t) = TASK_BLOCKED" using s'(8) kinvD(2) [OF inv] t by (simp add: wait_inv_def)
  qed
  then have "kinv s' ?v" using s'(2) by (simp add: kinv_def)
  then show thesis
    using s' qv full ioq_full_sleeps [OF full s'(1)]
    by (intro that [of s' ?v p]) (simp_all add: ioq_full_def view_defs)
qed

end
