(* ===== verification/System.thy ===== *)
theory System
  imports Ioqueue_Inv
begin

text \<open>
  The kernel as a transition system: any number of threads that use mutexes and read the keyboard buffer,
  interrupted by the clock and by the keyboard at any moment between the calls. \<open>sem_down\<close> and \<open>sem_up\<close> run with
  interrupts masked and are single steps, as are the writes of \<^verbatim>\<open>holder\<close> that follow them
  in \<^verbatim>\<open>mutex_lock\<close> and \<^verbatim>\<open>mutex_unlock\<close>. A thread that finds the mutex taken is suspended
  inside \<open>sem_down\<close>, and when it is scheduled again it goes on there. The threads keep one
  rule: a thread inside a critical section does not lock a further mutex. A key arrives while
  the buffer has room, and threads read the buffer when it holds a byte: nobody sleeps on it.
\<close>

section \<open>States and steps\<close>

text \<open>Where a thread is: in its own code, suspended in \<open>sem_down\<close> of a mutex (with the interrupt
  status the call found), or just before the write of the holder.\<close>

datatype pc = Run | Waiting addr intr_status | Acquired addr | Released addr

text \<open>\<open>crit c m\<close>: the threads between the end of \<open>sem_down\<close> and the start of
  \<open>sem_up\<close> on the mutex \<open>m\<close>.\<close>

record lsys =
  kern :: kernel
  crit :: "addr \<Rightarrow> addr set"
  pcs :: "addr \<Rightarrow> pc"

abbreviation current :: "lsys \<Rightarrow> addr" where
  "current c \<equiv> RUNNING_THREAD (kern c)"

abbreviation goto :: "pc \<Rightarrow> lsys \<Rightarrow> lsys" where
  "goto p c \<equiv> c\<lparr>pcs := (pcs c)(current c := p)\<rparr>"

definition enter :: "addr \<Rightarrow> lsys \<Rightarrow> lsys" where
  "enter m c = c\<lparr>crit := (crit c)(m := insert (current c) (crit c m))\<rparr>"

definition leave :: "addr \<Rightarrow> lsys \<Rightarrow> lsys" where
  "leave m c = c\<lparr>crit := (crit c)(m := crit c m - {current c})\<rparr>"

definition may_lock :: "lsys \<Rightarrow> bool" where
  "may_lock c \<longleftrightarrow> pcs c (current c) = Run \<and> (\<forall>m. current c \<notin> crit c m)"

definition may_unlock :: "addr \<Rightarrow> lsys \<Rightarrow> bool" where
  "may_unlock m c \<longleftrightarrow> pcs c (current c) = Run \<and> current c \<in> crit c m"

inductive lstep :: "addr set \<Rightarrow> lsys \<Rightarrow> lsys \<Rightarrow> bool" for M where
  down_ok: "may_lock c \<Longrightarrow> m \<in> M \<Longrightarrow> sem_down (mtx_sem m) (kern c) = Inr s \<Longrightarrow>
    lstep M c ((goto (Acquired m) (enter m c))\<lparr>kern := s\<rparr>)"
| down_wait: "may_lock c \<Longrightarrow> m \<in> M \<Longrightarrow> sem_down (mtx_sem m) (kern c) = Inl (Suspended s) \<Longrightarrow>
    lstep M c ((goto (Waiting m (intr_get_status (kern c))) c)\<lparr>kern := s\<rparr>)"
| resume_ok: "pcs c (current c) = Waiting m i \<Longrightarrow> m \<in> M \<Longrightarrow>
    sem_down_resume (mtx_sem m) i (kern c) = Inr s \<Longrightarrow>
    lstep M c ((goto (Acquired m) (enter m c))\<lparr>kern := s\<rparr>)"
| resume_wait: "pcs c (current c) = Waiting m i \<Longrightarrow> m \<in> M \<Longrightarrow>
    sem_down_resume (mtx_sem m) i (kern c) = Inl (Suspended s) \<Longrightarrow> lstep M c (c\<lparr>kern := s\<rparr>)"
| own: "pcs c (current c) = Acquired m \<Longrightarrow>
    lstep M c ((goto Run c)\<lparr>kern := set_holder m (current c) (kern c)\<rparr>)"
| up: "may_unlock m c \<Longrightarrow> m \<in> M \<Longrightarrow> sem_up (mtx_sem m) (kern c) = Inr s \<Longrightarrow>
    lstep M c ((goto (Released m) (leave m c))\<lparr>kern := s\<rparr>)"
| disown: "pcs c (current c) = Released m \<Longrightarrow>
    lstep M c ((goto Run c)\<lparr>kern := set_holder m NULL (kern c)\<rparr>)"
| clock: "clock_interrupt esp (kern c) = Inr s \<Longrightarrow> lstep M c (c\<lparr>kern := s\<rparr>)"
| key: "kbd_room (kern c) \<Longrightarrow> key_interrupt esp scan (kern c) = Inr s \<Longrightarrow> lstep M c (c\<lparr>kern := s\<rparr>)"
| getc: "pcs c (current c) = Run \<Longrightarrow> \<not> ioq_empty kbd_buf (kern c) \<Longrightarrow>
    ioq_getchar kbd_buf (kern c) = Inr (b, s) \<Longrightarrow> lstep M c (c\<lparr>kern := s\<rparr>)"

section \<open>The invariant\<close>

text \<open>Every thread's page directory is found from every address space of \<open>D\<close>, and is in it.\<close>

definition spaces_ok :: "u32 set \<Rightarrow> kernel \<Rightarrow> addr set \<Rightarrow> bool" where
  "spaces_ok D s T \<longleftrightarrow>
     cr3 s \<in> D \<and> (\<forall>t\<in>T. \<forall>d\<in>D. \<exists>e\<in>D. space_of t (s\<lparr>cr3 := d\<rparr>) = Inr e)"

text \<open>A mutex is free and in nobody's hands, or taken by one thread that can run.\<close>

definition mutex_ok :: "lsys \<Rightarrow> kview \<Rightarrow> addr \<Rightarrow> bool" where
  "mutex_ok c v m \<longleftrightarrow>
     (if crit c m = {} then sem_val (kern c) (mtx_sem m) = 1
      else sem_val (kern c) (mtx_sem m) = 0
        \<and> (\<exists>u\<in>queued v. crit c m = {u} \<and> (\<forall>n i. pcs c u \<noteq> Waiting n i)))"

text \<open>Waiters are inside \<open>sem_down\<close>, and when the mutex is free one of them is awake to take it.\<close>

definition waiters_ok :: "lsys \<Rightarrow> kview \<Rightarrow> addr \<Rightarrow> bool" where
  "waiters_ok c v m \<longleftrightarrow>
     (\<forall>t\<in>set (vw v (mtx_sem m)). \<exists>i. pcs c t = Waiting m i)
     \<and> (vw v (mtx_sem m) \<noteq> [] \<longrightarrow> crit c m = {} \<longrightarrow> (\<exists>t\<in>queued v. \<exists>i. pcs c t = Waiting m i))"

definition linv :: "addr set \<Rightarrow> u32 set \<Rightarrow> lsys \<Rightarrow> kview \<Rightarrow> bool" where
  "linv M D c v \<longleftrightarrow>
     kinv (kern c) v \<and> vs v = mtx_sem ` M \<and> vt v \<subseteq> queued v \<union> waiting v
     \<and> (\<forall>t\<in>vt v. tcb_stack_magic (tcbs (kern c) t) = STACK_MAGIC)
     \<and> spaces_ok D (kern c) (vt v) \<and> kbd_ok (kern c)
     \<and> (\<forall>m\<in>M. mutex_ok c v m \<and> waiters_ok c v m)"

text \<open>Nobody holds a mutex or waits for one, and nobody sleeps on the keyboard buffer.\<close>

definition linit :: "addr set \<Rightarrow> u32 set \<Rightarrow> lsys \<Rightarrow> bool" where
  "linit M D c \<longleftrightarrow>
     (\<exists>v. kinv (kern c) v \<and> vs v = mtx_sem ` M \<and> vt v = queued v \<and> waiting v = {}
        \<and> (\<forall>t\<in>vt v. tcb_stack_magic (tcbs (kern c) t) = STACK_MAGIC)
        \<and> spaces_ok D (kern c) (vt v) \<and> kbd_ok (kern c)
        \<and> (\<forall>m\<in>M. sem_val (kern c) (mtx_sem m) = 1))
     \<and> (\<forall>m. crit c m = {}) \<and> (\<forall>t. pcs c t = Run)"

inductive lreach :: "addr set \<Rightarrow> u32 set \<Rightarrow> lsys \<Rightarrow> bool" for M D where
  init: "linit M D c \<Longrightarrow> lreach M D c"
| step: "lreach M D c \<Longrightarrow> lstep M c c' \<Longrightarrow> lreach M D c'"

lemma linvD:
  assumes "linv M D c v"
  shows "kinv (kern c) v" "vs v = mtx_sem ` M" "vt v \<subseteq> queued v \<union> waiting v"
    "t \<in> vt v \<Longrightarrow> tcb_stack_magic (tcbs (kern c) t) = STACK_MAGIC"
    "spaces_ok D (kern c) (vt v)" "m \<in> M \<Longrightarrow> mutex_ok c v m" "m \<in> M \<Longrightarrow> waiters_ok c v m"
    "kbd_ok (kern c)"
  using assms by (simp_all add: linv_def)

lemma mutex_ok_frame:
  assumes "mutex_ok c v n" and "crit c' n = crit c n"
    and "sem_val (kern c') (mtx_sem n) = sem_val (kern c) (mtx_sem n)"
    and "\<And>u. u \<in> crit c n \<Longrightarrow> u \<in> queued v \<Longrightarrow>
      u \<in> queued v' \<and> (\<forall>m i. pcs c' u = Waiting m i \<longrightarrow> pcs c u = Waiting m i)"
  shows "mutex_ok c' v' n"
proof (cases "crit c n = {}")
  case False
  with assms(1) obtain u where "u \<in> queued v" "crit c n = {u}" "\<forall>n i. pcs c u \<noteq> Waiting n i"
    "sem_val (kern c) (mtx_sem n) = 0"
    by (auto simp: mutex_ok_def)
  with assms(2-4) show ?thesis unfolding mutex_ok_def by auto
qed (use assms in \<open>simp add: mutex_ok_def\<close>)

lemma waiters_okD:
  assumes "waiters_ok c v n"
  shows "t \<in> set (vw v (mtx_sem n)) \<Longrightarrow> \<exists>i. pcs c t = Waiting n i"
    and "vw v (mtx_sem n) \<noteq> [] \<Longrightarrow> crit c n = {} \<Longrightarrow> \<exists>t\<in>queued v. \<exists>i. pcs c t = Waiting n i"
  using assms by (auto simp: waiters_ok_def)

lemma waiters_okI:
  assumes "\<And>t. t \<in> set (vw v (mtx_sem n)) \<Longrightarrow> \<exists>i. pcs c t = Waiting n i"
    and "vw v (mtx_sem n) \<noteq> [] \<Longrightarrow> crit c n = {} \<Longrightarrow> \<exists>t\<in>queued v. \<exists>i. pcs c t = Waiting n i"
  shows "waiters_ok c v n"
  using assms by (auto simp: waiters_ok_def)

text \<open>Other mutexes are not affected when the current thread changes its place.\<close>

lemma waiters_ok_frame:
  assumes "waiters_ok c v n" and "crit c' n = crit c n" and "vw v' (mtx_sem n) = vw v (mtx_sem n)"
    and "\<And>t i. pcs c t = Waiting n i \<Longrightarrow> pcs c' t = Waiting n i"
    and "\<And>t i. pcs c t = Waiting n i \<Longrightarrow> t \<in> queued v \<Longrightarrow> t \<in> queued v'"
  shows "waiters_ok c' v' n"
  using waiters_okD [OF assms(1)] assms(2-5) by (intro waiters_okI) (simp, blast)+

lemma mtx_sem_inj [simp]: "mtx_sem m = mtx_sem n \<longleftrightarrow> m = n"
  by (simp add: mtx_sem_def)

lemma linit_linv: "linit M D c \<Longrightarrow> \<exists>v. linv M D c v"
proof -
  assume "linit M D c"
  then obtain v where v: "kinv (kern c) v" "vs v = mtx_sem ` M" "vt v = queued v" "waiting v = {}"
    "\<forall>t\<in>vt v. tcb_stack_magic (tcbs (kern c) t) = STACK_MAGIC" "spaces_ok D (kern c) (vt v)"
    "kbd_ok (kern c)" "\<forall>m\<in>M. sem_val (kern c) (mtx_sem m) = 1" "\<forall>m. crit c m = {}"
    unfolding linit_def by blast
  have "vw v (mtx_sem m) = []" if "m \<in> M" for m
    using v(2,4) that by (auto simp: waiting_def)
  with v have "linv M D c v" by (simp add: linv_def mutex_ok_def waiters_ok_def)
  then show ?thesis by blast
qed

section \<open>Address spaces\<close>

lemma spaces_activatable:
  assumes "spaces_ok D s T" and "t \<in> T"
  shows "activatable t s"
proof -
  from assms obtain e where "space_of t (s\<lparr>cr3 := cr3 s\<rparr>) = Inr e" unfolding spaces_ok_def by blast
  then have "space_of t s = Inr e" by simp
  then show ?thesis
    unfolding activatable_def space_of_def addr_v2p_def vload_def
    by (auto elim!: and_then_InrE split: if_splits option.splits)
qed

lemma spaces_cong:
  assumes "spaces_ok D s T" and "phys s' = phys s" "cr3 s' \<in> D"
    "\<And>t. tcb_pg_dir (tcbs s' t) = tcb_pg_dir (tcbs s t)"
  shows "spaces_ok D s' T"
proof -
  have "space_of t (s'\<lparr>cr3 := d\<rparr>) = space_of t (s\<lparr>cr3 := d\<rparr>)" for t d
    using assms(2,4) by (intro space_of_cong) simp_all
  then show ?thesis using assms by (simp add: spaces_ok_def)
qed

lemma spaces_switched:
  assumes ok: "spaces_ok D s T" and sw: "switched s s'" and t: "RUNNING_THREAD s' \<in> T"
  shows "spaces_ok D s' T"
proof -
  from ok have "cr3 s \<in> D" by (simp add: spaces_ok_def)
  with ok t obtain e where "e \<in> D" "space_of (RUNNING_THREAD s') (s\<lparr>cr3 := cr3 s\<rparr>) = Inr e"
    unfolding spaces_ok_def by blast
  then have "cr3 s' \<in> D" using sw by (simp add: switched_def)
  with ok sw show ?thesis by (intro spaces_cong [OF ok]) (simp_all add: switched_def same_dirs_def)
qed

text \<open>An interrupt that switches threads or leaves the running one.\<close>

lemma spaces_interrupt:
  assumes sp: "spaces_ok D s T" and t: "RUNNING_THREAD s' \<in> T"
    and c: "if fin then switched s s' else same_dirs s s' \<and> cr3 s' = cr3 s"
  shows "same_dirs s s'" and "spaces_ok D s' T"
proof -
  show d: "same_dirs s s'" using c by (simp add: switched_def split: if_splits)
  show "spaces_ok D s' T"
    using c spaces_switched [OF sp _ t] spaces_cong [OF sp, of s'] sp
    by (auto simp: same_dirs_def spaces_ok_def [of D s] split: if_splits)
qed

section \<open>The steps keep the invariant\<close>

text \<open>A thread that asks for \<open>m\<close>: it holds no mutex and waits for no other one.\<close>

definition asks :: "addr set \<Rightarrow> lsys \<Rightarrow> addr \<Rightarrow> bool" where
  "asks M c m \<longleftrightarrow> m \<in> M \<and> (\<forall>n\<in>M. current c \<notin> crit c n)
     \<and> (\<forall>n i. pcs c (current c) = Waiting n i \<longrightarrow> n = m)"

lemma may_lock_asks: "may_lock c \<Longrightarrow> m \<in> M \<Longrightarrow> asks M c m"
  by (simp add: may_lock_def asks_def)

lemma waiting_asks:
  assumes "linv M D c v" and "pcs c (current c) = Waiting m i" and "m \<in> M"
  shows "asks M c m"
proof -
  have "current c \<notin> crit c n" if "n \<in> M" for n
    using linvD(6) [OF assms(1) that] assms(2) by (fastforce simp: mutex_ok_def split: if_splits)
  with assms show ?thesis by (simp add: asks_def)
qed

text \<open>The mutex is taken: its owner can run, so the caller is suspended and waits.\<close>

lemma taken_suspends:
  assumes inv: "linv M D c v" and a: "asks M c m" and val: "sem_val (kern c) (mtx_sem m) = 0"
  obtains s' v' where "sem_down_resume (mtx_sem m) i (kern c) = Inl (Suspended s')"
    and "linv M D ((goto (Waiting m i) c)\<lparr>kern := s'\<rparr>) v'"
proof -
  let ?s = "kern c" and ?r = "current c" and ?sem = "mtx_sem m"
  note k = linvD(1) [OF inv] and sp = linvD(5) [OF inv]
  have m: "m \<in> M" "\<And>n. n \<in> M \<Longrightarrow> ?r \<notin> crit c n" "\<And>n j. pcs c ?r = Waiting n j \<Longrightarrow> n = m"
    using a by (auto simp: asks_def)
  have sem: "?sem \<in> vs v" using linvD(2) [OF inv] m(1) by simp
  have ne: "crit c m \<noteq> {}" using linvD(6) [OF inv m(1)] val by (auto simp: mutex_ok_def)
  then obtain u where u: "u \<in> queued v" "crit c m = {u}"
    using linvD(6) [OF inv m(1)] by (auto simp: mutex_ok_def)
  then have other: "queued v - {?r} \<noteq> {}" using m(1,2) by fastforce
  have act: "activatable t ?s" if "t \<in> vt v" for t using sp that by (rule spaces_activatable)
  define v' where "v' = deq ?r (prio_of ?r ?s) (set_w ?sem (vw v ?sem @ [?r]) v)"
  obtain s' p where d: "sem_down_resume ?sem i ?s = Inl (Suspended s')" "kinv s' v'"
    "sem_val s' = sem_val ?s" "switched ?s s'"
    "sem_wait ?sem (snd (intr_disable ?s)) = Inl (Suspended s')"
    by (rule sem_down_resume_suspends [OF k sem val refl other act v'_def])
  have rv: "?r \<in> queued v" "?r \<notin> waiting v" "prio_of ?r ?s < PRIO_NUM"
    using sinv_parts [OF kinvD(1) [OF k]] running_not_waiting [OF k] by simp_all
  have rq: "rq_inv (list_push_back (waiters ?sem) (pend_tag ?r) ?s) (set_w ?sem (vw v ?sem @ [?r]) v)"
    using sem_queue_running(2) [OF k sem refl] by (rule sinv_parts(1))
  have q: "queued v' = queued v - {?r}"
    using queued_deq [OF rq, of ?r] rv(3) by (simp add: v'_def prio_of_def frame)
  have w: "waiting v' = insert ?r (waiting v)" using waiting_push [OF sem] by (simp add: v'_def)
  have vw': "vw v' x = (if x = ?sem then vw v ?sem @ [?r] else vw v x)" for x by (simp add: v'_def view_defs)
  have sel: "vs v' = vs v" "vt v' = vt v" by (simp_all add: v'_def view_defs)
  let ?c = "(goto (Waiting m i) c)\<lparr>kern := s'\<rparr>"
  have mo: "mutex_ok ?c v' n" if n: "n \<in> M" for n
    by (rule mutex_ok_frame [OF linvD(6) [OF inv n]]) (use m(2) [OF n] d(3) q in auto)
  have wo: "waiters_ok ?c v' n" if n: "n \<in> M" for n
  proof (cases "n = m")
    case True
    then show ?thesis
      using waiters_okD(1) [OF linvD(7) [OF inv n]] ne by (intro waiters_okI) (auto simp: vw')
  next
    case False
    then show ?thesis
      by (intro waiters_ok_frame [OF linvD(7) [OF inv n]]) (use m(3) q in \<open>auto simp: vw'\<close>)
  qed
  have "RUNNING_THREAD s' \<in> vt v'" using sinv_parts(2) [OF kinvD(1) [OF d(2)]] .
  then have "spaces_ok D s' (vt v')" using spaces_switched [OF sp d(4)] by (simp add: sel)
  moreover have "ioqs s' = ioqs ?s" using ioqs_more [OF sem_wait_more [OF d(5)]] by (simp add: ioqs_intr)
  then have "kbd_ok s'" using linvD(8) [OF inv] kbd_cong(1) by metis
  ultimately have "linv M D ?c v'"
    using d(2) linvD(2,3,4) [OF inv] d(4) mo wo q w by (auto simp: linv_def sel switched_def same_dirs_def)
  with d(1) show thesis by (rule that)
qed

text \<open>The mutex is free: the caller takes it.\<close>

lemma free_taken:
  assumes inv: "linv M D c v" and a: "asks M c m" and val: "sem_val (kern c) (mtx_sem m) \<noteq> 0"
  obtains s' where "sem_down_resume (mtx_sem m) i (kern c) = Inr s'"
    and "linv M D ((goto (Acquired m) (enter m c))\<lparr>kern := s'\<rparr>) v"
proof -
  let ?s = "kern c" and ?r = "current c" and ?sem = "mtx_sem m"
  note k = linvD(1) [OF inv] and sp = linvD(5) [OF inv]
  have m: "m \<in> M" "\<And>n. n \<in> M \<Longrightarrow> ?r \<notin> crit c n" "\<And>n j. pcs c ?r = Waiting n j \<Longrightarrow> n = m"
    using a by (auto simp: asks_def)
  have e: "crit c m = {}" "sem_val ?s ?sem = 1"
    using linvD(6) [OF inv m(1)] val by (auto simp: mutex_ok_def split: if_splits)
  define s' where "s' = snd (intr_set_status i (set_sem_val ?sem (sem_val ?s ?sem - 1) (snd (intr_disable ?s))))"
  have f: "nodes s' = nodes ?s" "mem s' = mem ?s" "tcbs s' = tcbs ?s" "sched s' = sched ?s"
    "phys s' = phys ?s" "cr3 s' = cr3 ?s" "sem_val s' = (sem_val ?s)(?sem := 0)"
    using e(2) by (simp_all add: s'_def frame set_sem_val_def)
  have kb: "kbd_ok s'"
    using linvD(8) [OF inv] by (subst kbd_cong(1) [of _ ?s]) (simp_all add: s'_def frame)
  let ?c = "(goto (Acquired m) (enter m c))\<lparr>kern := s'\<rparr>"
  have rv: "?r \<in> queued v" "?r \<notin> waiting v"
    using sinv_parts [OF kinvD(1) [OF k]] running_not_waiting [OF k] by simp_all
  have "kinv s' v" using k f by (subst kinv_cong [of _ ?s]) simp_all
  moreover have "spaces_ok D s' (vt v)"
    using sp f by (intro spaces_cong [OF sp]) (simp_all add: spaces_ok_def)
  moreover have "mutex_ok ?c v n" if n: "n \<in> M" for n
  proof (cases "n = m")
    case True
    then show ?thesis using e f(7) rv(1) by (simp add: mutex_ok_def enter_def)
  next
    case False
    then show ?thesis
      by (intro mutex_ok_frame [OF linvD(6) [OF inv n]]) (use m(2) [OF n] f(7) in \<open>auto simp: enter_def\<close>)
  qed
  moreover have "waiters_ok ?c v n" if n: "n \<in> M" for n
  proof (cases "n = m")
    case True
    have "mtx_sem m \<in> vs v" using linvD(2) [OF inv] m(1) by simp
    then have "?r \<notin> set (vw v (mtx_sem m))" using rv(2) by (auto simp: waiting_def)
    with True show ?thesis
      using waiters_okD(1) [OF linvD(7) [OF inv n]] by (intro waiters_okI) (auto simp: enter_def)
  next
    case False
    then show ?thesis
      by (intro waiters_ok_frame [OF linvD(7) [OF inv n]]) (use m(3) in \<open>auto simp: enter_def\<close>)
  qed
  ultimately have "linv M D ?c v"
    using linvD(2,3,4) [OF inv] f(3) kb by (auto simp: linv_def)
  with sem_down_resume_free [OF val, of i] show thesis by (intro that [of s']) (simp_all add: s'_def)
qed

text \<open>Unlocking: a waiter, if there is one, becomes ready to take the mutex.\<close>

lemma unlock_releases:
  assumes inv: "linv M D c v" and ul: "may_unlock m c" and m: "m \<in> M"
  obtains s' v' where "sem_up (mtx_sem m) (kern c) = Inr s'"
    and "linv M D ((goto (Released m) (leave m c))\<lparr>kern := s'\<rparr>) v'"
proof -
  let ?s = "kern c" and ?r = "current c" and ?sem = "mtx_sem m"
  note k = linvD(1) [OF inv] and sp = linvD(5) [OF inv]
  have r: "pcs c ?r = Run" "?r \<in> crit c m" using ul by (auto simp: may_unlock_def)
  have e: "crit c m = {?r}" "sem_val ?s ?sem = 0"
    using linvD(6) [OF inv m] r(2) by (auto simp: mutex_ok_def split: if_splits)
  have sem: "?sem \<in> vs v" using linvD(2) [OF inv] m by simp
  have step: "linv M D ((goto (Released m) (leave m c))\<lparr>kern := s'\<rparr>) v'" (is "linv M D ?c v'")
    if "kinv s' v'" "sem_val s' = (sem_val ?s)(?sem := 1)" "same_dirs ?s s'" "cr3 s' = cr3 ?s" and kb: "kbd_ok s'"
      and v': "vs v' = vs v" "vt v' = vt v" "queued v \<subseteq> queued v'" "vt v \<subseteq> queued v' \<union> waiting v'"
        "\<And>n. n \<noteq> ?sem \<Longrightarrow> vw v' n = vw v n" "set (vw v' ?sem) \<subseteq> set (vw v ?sem)"
        "vw v' ?sem \<noteq> [] \<Longrightarrow> \<exists>t\<in>queued v'. t \<in> set (vw v ?sem)"
    for s' v'
  proof -
    have sc: "spaces_ok D s' (vt v')"
      unfolding v'(2) by (rule spaces_cong [OF sp]) (use that(3,4) sp in \<open>simp_all add: same_dirs_def spaces_ok_def\<close>)
    have mo: "mutex_ok ?c v' n" if n: "n \<in> M" for n
    proof (cases "n = m")
      case True
      then show ?thesis using e \<open>sem_val s' = _\<close> by (simp add: mutex_ok_def leave_def)
    next
      case False
      then show ?thesis
        by (intro mutex_ok_frame [OF linvD(6) [OF inv n]])
          (use \<open>sem_val s' = _\<close> v'(3) r in \<open>auto simp: leave_def\<close>)
    qed
    note w = waiters_okD(1) [OF linvD(7) [OF inv m]]
    have wo: "waiters_ok ?c v' n" if n: "n \<in> M" for n
    proof (cases "n = m")
      case True
      have nr: "t \<noteq> ?r" if "t \<in> set (vw v ?sem)" for t using w [OF that] r(1) by auto
      show ?thesis unfolding True
        by (rule waiters_okI) (use w v'(6,7) nr in \<open>auto simp: leave_def, blast\<close>)
    next
      case False
      then show ?thesis
        by (intro waiters_ok_frame [OF linvD(7) [OF inv n]]) (use r v' in \<open>auto simp: leave_def\<close>)
    qed
    show ?thesis using that sc mo wo linvD(2,4) [OF inv] kb by (auto simp: linv_def same_dirs_def)
  qed
  show thesis
  proof (cases "vw v ?sem")
    case Nil
    let ?u = "set_sem_val ?sem 1 ?s"
    have "kinv ?u v" using k by (subst kinv_cong [of _ ?s]) (simp_all add: frame)
    moreover have "kbd_ok ?u" using linvD(8) [OF inv] by (subst kbd_cong(1) [of _ ?s]) (simp_all add: frame)
    ultimately have "linv M D ((goto (Released m) (leave m c))\<lparr>kern := ?u\<rparr>) v"
      using Nil linvD(3) [OF inv] by (intro step) (auto simp: frame same_dirs_def)
    then show ?thesis by (rule that [OF sem_up_idle [OF kinv_klists [OF k] sem Nil e(2)]])
  next
    case (Cons t ws)
    define v' where "v' = enq_front t (prio_of t ?s) (set_w ?sem ws v)"
    obtain s' where u: "sem_up ?sem ?s = Inr s'" "kinv s' v'" "sem_val s' = (sem_val ?s)(?sem := 1)"
      "same_dirs ?s s'" "cr3 s' = cr3 ?s"
      by (rule sem_up_wakes [OF k sem e(2) Cons v'_def])
    have tw: "t \<in> waiting v" unfolding waiting_def by (rule UN_I [OF sem]) (simp add: Cons)
    then have "prio_of t ?s < PRIO_NUM"
      using waiting_not_queued [OF k] kinvD(1) [OF k] by (simp add: sinv_def)
    then have q: "queued v' = insert t (queued v)" by (simp add: v'_def queued_enq(2))
    have w: "waiting v' = waiting v - {t}" using pop_waiter(3) [OF k sem Cons] by (simp add: v'_def)
    have "kbd_ok s'" using linvD(8) [OF inv] ioqs_more [OF sem_up_more [OF u(1)]] kbd_cong(1) by metis
    then have "linv M D ((goto (Released m) (leave m c))\<lparr>kern := s'\<rparr>) v'"
      by (rule step [OF u(2-5)])
        (use q w linvD(3) [OF inv] Cons in \<open>auto simp: v'_def view_defs\<close>)
    with u(1) show ?thesis by (rule that)
  qed
qed

text \<open>Interrupts, readers of the keyboard and the holder's writes change nothing the mutexes rely on.\<close>

lemma linv_kern:
  assumes inv: "linv M D c v" and k: "kinv s' v'" and sv: "sem_val s' = sem_val (kern c)"
    and d: "same_dirs (kern c) s'" and sp: "spaces_ok D s' (vt v)" and kb: "kbd_ok s'"
    and v': "vs v' = vs v" "vt v' = vt v" "vw v' = vw v" "queued v' = queued v"
    and c': "crit c' = crit c" "kern c' = s'" "\<And>t m i. pcs c' t = Waiting m i \<longleftrightarrow> pcs c t = Waiting m i"
  shows "linv M D c' v'"
proof -
  have "waiting v' = waiting v" using v' by (simp add: waiting_def)
  then show ?thesis
    using inv k sv d sp kb v' c' by (simp add: linv_def mutex_ok_def waiters_ok_def same_dirs_def)
qed

lemma clock_keeps:
  assumes inv: "linv M D c v"
  obtains s' v' where "clock_interrupt esp (kern c) = Inr s'" and "linv M D (c\<lparr>kern := s'\<rparr>) v'"
proof -
  let ?s = "kern c" and ?r = "current c"
  note k = linvD(1) [OF inv] and sp = linvD(5) [OF inv]
  have mg: "tcb_stack_magic (tcbs ?s ?r) = STACK_MAGIC"
    using linvD(4) [OF inv] sinv_parts(2) [OF kinvD(1) [OF k]] by blast
  have act: "activatable t ?s" if "t \<in> vt v" for t using sp that by (rule spaces_activatable)
  define fin where "fin \<longleftrightarrow> tcb_ticks (tcbs ?s ?r) = 0 \<or> need_schedule ?s"
  define v' where "v' = (if fin then requeue ?r (prio_of ?r ?s) v else v)"
  obtain s' where c: "clock_interrupt esp ?s = Inr s'" "kinv s' v'" "sem_val s' = sem_val ?s"
    "if fin then switched ?s s' else same_dirs ?s s' \<and> cr3 s' = cr3 ?s"
    by (rule clock_interrupt_kinv [OF k mg refl act fin_def v'_def])
  have v': "vs v' = vs v" "vt v' = vt v" "vw v' = vw v" "queued v' = queued v"
    using requeue_pinv(2) [OF kinvD(1) [OF k] refl] by (simp_all add: v'_def)
  have "RUNNING_THREAD s' \<in> vt v" using sinv_parts(2) [OF kinvD(1) [OF c(2)]] v'(2) by simp
  note d = spaces_interrupt [OF sp this c(4)]
  have kb: "kbd_ok s'" using linvD(8) [OF inv] clock_interrupt_ioqs [OF c(1)] kbd_cong(1) by metis
  have "linv M D (c\<lparr>kern := s'\<rparr>) v'" by (rule linv_kern [OF inv c(2,3) d kb v']) simp_all
  with c(1) show thesis by (rule that)
qed

text \<open>A key: the handler fills the buffer, and a reschedule that was pending takes place.\<close>

lemma key_keeps:
  assumes inv: "linv M D c v" and room: "kbd_room (kern c)"
  obtains s' v' where "key_interrupt esp scan (kern c) = Inr s'" and "linv M D (c\<lparr>kern := s'\<rparr>) v'"
proof -
  let ?s = "kern c" and ?r = "current c"
  let ?e = "intr_enter esp (?s\<lparr>in_ports := (in_ports ?s)(KBD_BUF_PORT := scan)\<rparr>)"
  note k = linvD(1) [OF inv] and sp = linvD(5) [OF inv] and ok = linvD(8) [OF inv]
  have i: "ioqs ?e = ioqs ?s" by (simp add: intr_enter_def upd_tcb_def outb_def Let_def)
  have ke: "kbd_ok ?e" "kbd_room ?e"
    using ok room i by (simp_all add: kbd_ok_def kbd_room_def)
  obtain u where u: "intr_keyboard_handler ?e = Inr u" "kbd_only ?e u" "kbd_ok u"
    by (rule keyboard_handler_ok [OF ke])
  have f: "nodes u = nodes ?s" "mem u = mem ?s" "phys u = phys ?s" "cr3 u = cr3 ?s" "sem_val u = sem_val ?s"
    "sched u = sched ?s" "tcbs u = tcbs ?e"
    using u(2) by (simp_all add: kbd_only_def frame)
  have t: "tcb_status (tcbs u x) = tcb_status (tcbs ?s x)" "tcb_priority (tcbs u x) = tcb_priority (tcbs ?s x)"
    "tcb_pg_dir (tcbs u x) = tcb_pg_dir (tcbs ?s x)" "tcb_stack_magic (tcbs u x) = tcb_stack_magic (tcbs ?s x)" for x
    by (simp_all add: f(7) frame)
  have ku: "kinv u v" using k f t by (subst kinv_cong_fields [of _ ?s]) simp_all
  have su: "spaces_ok D u (vt v)" using f t sp by (intro spaces_cong [OF sp]) (simp_all add: spaces_ok_def)
  have du: "same_dirs ?s u" using f t by (simp add: same_dirs_def)
  have r: "?r = RUNNING_THREAD u" by (simp add: f)
  have go: "key_interrupt esp scan ?s = main_schedule u"
    using u(1) by (simp add: key_interrupt_def hwi_tail_handle_def)
  show thesis
  proof (cases "need_schedule u")
    case True
    have act: "activatable x u" if "x \<in> vt v" for x using su that by (rule spaces_activatable)
    let ?v' = "requeue ?r (prio_of ?r u) v"
    obtain s' p where m: "main_schedule u = Inr s'" "least_q ?v' p" "kinv s' ?v'" "RUNNING_THREAD s' = hd (vq ?v' p)"
      "\<not> need_schedule s'" "prio_of ?r s' = next_prio (prio_of ?r u)"
      "tcb_ticks (tcbs s' ?r) = ticks_get (next_prio (prio_of ?r u))"
      "sem_val s' = sem_val u" "eflags s' = eflags u" "mtx_holder s' = mtx_holder u" "switched u s'"
      by (rule main_schedule_kinv [OF ku True r act refl])
    have v': "vs ?v' = vs v" "vt ?v' = vt v" "vw ?v' = vw v" "queued ?v' = queued v"
      using requeue_pinv(2) [OF kinvD(1) [OF ku] r] by simp_all
    have rv: "RUNNING_THREAD s' \<in> vt v" using sinv_parts(2) [OF kinvD(1) [OF m(3)]] by simp
    have "spaces_ok D s' (vt v)" by (rule spaces_switched [OF su m(11) rv])
    moreover have "same_dirs ?s s'" using du m(11) by (simp add: switched_def same_dirs_def)
    moreover have "kbd_ok s'" using u(3) ioqs_more [OF main_schedule_more [OF m(1)]] kbd_cong(1) by metis
    moreover have "sem_val s' = sem_val ?s" using m(8) f(5) by simp
    ultimately have "linv M D (c\<lparr>kern := s'\<rparr>) ?v'" by (intro linv_kern [OF inv m(3) _ _ _ _ v']) simp_all
    then show thesis using m(1) go by (intro that [of s' ?v']) simp_all
  next
    case False
    then have "main_schedule u = Inr u" by (rule main_schedule_noop)
    moreover have "linv M D (c\<lparr>kern := u\<rparr>) v" by (rule linv_kern [OF inv ku f(5) du su u(3)]) simp_all
    ultimately show thesis using go by (intro that [of u v]) simp_all
  qed
qed

text \<open>A thread that takes a byte from the buffer.\<close>

lemma getc_keeps:
  assumes inv: "linv M D c v" and g: "\<not> ioq_empty kbd_buf (kern c)" "ioq_getchar kbd_buf (kern c) = Inr (b, s)"
  shows "linv M D (c\<lparr>kern := s\<rparr>) v"
proof -
  let ?s = "kern c" and ?q = "ioqs (kern c) kbd_buf"
  note ok = linvD(8) [OF inv, unfolded kbd_ok_def] and sp = linvD(5) [OF inv]
  have ne: "ioq_bytes ?q \<noteq> []" using g(1) ioq_empty_iff ok by blast
  then have s: "s = ?s\<lparr>ioqs := (ioqs ?s)(kbd_buf := snd (ring_get ?q))\<rparr>"
    using ioq_getchar_ready [of ?s kbd_buf] ok g(2) by simp
  have "kinv s v" using linvD(1) [OF inv] by (subst kinv_cong [of _ ?s]) (simp_all add: s)
  moreover have "spaces_ok D s (vt v)" using sp by (intro spaces_cong [OF sp]) (simp_all add: s spaces_ok_def)
  moreover have "kbd_ok s" using ok ring_get_spec(1) [OF _ ne] by (simp add: s kbd_ok_def ring_get_def)
  ultimately show ?thesis by (intro linv_kern [OF inv]) (simp_all add: s same_dirs_def)
qed

lemma holder_keeps:
  assumes inv: "linv M D c v" and "\<And>m i. pcs c (current c) \<noteq> Waiting m i"
  shows "linv M D ((goto Run c)\<lparr>kern := set_holder m x (kern c)\<rparr>) v"
proof (rule linv_kern [OF inv])
  show "kinv (set_holder m x (kern c)) v"
    using linvD(1) [OF inv] by (subst kinv_cong [of _ "kern c"]) (simp_all add: frame)
  show "kbd_ok (set_holder m x (kern c))" using linvD(8) [OF inv] by (subst kbd_cong(1) [of _ "kern c"]) (simp_all add: frame)
  show "spaces_ok D (set_holder m x (kern c)) (vt v)"
    using linvD(5) [OF inv] by (intro spaces_cong [OF linvD(5) [OF inv]]) (simp_all add: frame spaces_ok_def)
qed (use assms(2) in \<open>auto simp: frame same_dirs_def\<close>)

section \<open>Reachable states\<close>

lemma lstep_linv:
  assumes "lstep M c c'" and inv: "linv M D c v"
  shows "\<exists>v'. linv M D c' v'"
  using assms(1)
proof cases
  case (down_ok m s)
  note a = may_lock_asks [OF down_ok(2,3)]
  show ?thesis
    using free_taken [OF inv a] taken_suspends [OF inv a] down_ok(1,4)
    by (metis sem_down_first Inr_Inl_False sum.inject(2))
next
  case (down_wait m s)
  note a = may_lock_asks [OF down_wait(2,3)]
  show ?thesis
    using free_taken [OF inv a] taken_suspends [OF inv a] down_wait(1,4)
    by (metis sem_down_first Inr_Inl_False sum.inject(1) halt.inject(3))
next
  case (resume_ok m i s)
  note a = waiting_asks [OF inv resume_ok(2,3)]
  show ?thesis
    using free_taken [OF inv a] taken_suspends [OF inv a] resume_ok(1,4)
    by (metis Inr_Inl_False sum.inject(2))
next
  case (resume_wait m i s)
  note a = waiting_asks [OF inv resume_wait(2,3)]
  have "(pcs c)(current c := Waiting m i) = pcs c" using resume_wait(2) by (metis fun_upd_triv)
  then show ?thesis
    using free_taken [OF inv a] taken_suspends [OF inv a, of i] resume_wait(1,4)
    by (metis Inr_Inl_False sum.inject(1) halt.inject(3) lsys.surjective lsys.update_convs(3))
next
  case (own m)
  then show ?thesis using holder_keeps [OF inv] by auto
next
  case (up m s)
  then show ?thesis using unlock_releases [OF inv up(2,3)] by (metis sum.inject(2))
next
  case (disown m)
  then show ?thesis using holder_keeps [OF inv] by auto
next
  case (clock esp s)
  then show ?thesis using clock_keeps [OF inv] by (metis sum.inject(2))
next
  case (key esp scan s)
  then show ?thesis using key_keeps [OF inv key(2)] by (metis sum.inject(2))
next
  case (getc b s)
  then show ?thesis using getc_keeps [OF inv] by blast
qed

lemma lreach_linv: "lreach M D c \<Longrightarrow> \<exists>v. linv M D c v"
  by (induction rule: lreach.induct) (blast intro: linit_linv lstep_linv)+

text \<open>Whoever waits for a mutex: somebody ready to run holds it or is about to take it.\<close>

lemma waiter_served:
  assumes inv: "linv M D c v" and m: "m \<in> M" and t: "t \<in> vt v" and pc: "pcs c t = Waiting m i"
  shows "\<exists>u\<in>queued v. crit c m = {u} \<or> crit c m = {} \<and> (\<exists>j. pcs c u = Waiting m j)"
proof (cases "crit c m = {}")
  case False
  then show ?thesis using linvD(6) [OF inv m] by (auto simp: mutex_ok_def)
next
  case e: True
  show ?thesis
  proof (cases "t \<in> queued v")
    case True
    then show ?thesis using e pc by blast
  next
    case False
    then have "t \<in> waiting v" using linvD(3) [OF inv] t by blast
    then obtain n where n: "n \<in> M" "t \<in> set (vw v (mtx_sem n))"
      using linvD(2) [OF inv] by (auto simp: waiting_def)
    from waiters_okD(1) [OF linvD(7) [OF inv n(1)] n(2)] pc have "n = m" by auto
    with n waiters_okD(2) [OF linvD(7) [OF inv m]] e show ?thesis by fastforce
  qed
qed

end
