(* ===== verification/Thread_Inv.thy ===== *)
theory Thread_Inv
  imports Thread
begin

text \<open>
  Thread creation and the start of the scheduler. Initialising a list adds an empty sequence to
  the kernel's family of lists; a new control block on a page of its own disturbs none of them.
  From these, \<open>scheduler_init\<close> leaves empty queues, \<open>idle_thread_make\<close> establishes
  the kernel's invariant with one running thread, and starting a thread keeps it.
\<close>

section \<open>Adding lists\<close>

lemma family_init:
  assumes f: "dl.family s L I Q" and j: "j \<notin> I" "Q j = []"
    and d: "\<And>i. i \<in> I \<Longrightarrow> sentinels (L j) \<inter> (sentinels (L i) \<union> set (Q i)) = {}"
  shows "dl.family (list_init (L j) s) L (insert j I) Q"
proof (rule dl.familyI)
  show "dlist (nodes (list_init (L j) s)) (L i) (Q i)" if "i \<in> insert j I" for i
  proof (cases "i = j")
    case True
    then show ?thesis using dlist_init j(2) by simp
  next
    case False
    with that have i: "i \<in> I" by simp
    show ?thesis
      by (rule dlist_frame_disj [OF dl.family_rep [OF f i] _ d [OF i]]) (rule list_init_other)
  qed
  show "(sentinels (L a) \<union> set (Q a)) \<inter> (sentinels (L b) \<union> set (Q b)) = {}"
    if "a \<in> insert j I" "b \<in> insert j I" "a \<noteq> b" for a b
    using that dl.family_disjoint [OF f, of a b] d j(2) by auto
qed

text \<open>Sixteen bytes a list: lists that do not overlap have different sentinels.\<close>

lemma sentinels_apart:
  assumes "unat l + 16 \<le> unat k" and "unat k + 16 \<le> 4294967296"
  shows "sentinels l \<inter> sentinels k = {}" and "sentinels k \<inter> sentinels l = {}"
proof -
  have "unat (list_tail l) = unat l + 8" "unat (list_tail k) = unat k + 8"
    using assms by (simp_all add: list_tail_def unat_word_ariths)
  then have "l \<noteq> k" "l \<noteq> list_tail k" "list_tail l \<noteq> k" "list_tail l \<noteq> list_tail k"
    using assms by auto
  then show "sentinels l \<inter> sentinels k = {}" "sentinels k \<inter> sentinels l = {}"
    by (auto simp: sentinels_def)
qed

lemma unat_THIS_RQ: "p < PRIO_NUM \<Longrightarrow> unat (THIS_RQ p) = 3221257304 + 16 * unat p"
  by (simp add: THIS_RQ_def scheduler_addr_def PRIO_NUM_def unat_word_ariths word_less_nat_alt)

lemma unat_all_list: "unat all_list = 3221257816"
  by (simp add: all_list_def scheduler_addr_def)

text \<open>The page that holds the kernel's static data.\<close>

definition static_page :: addr where
  "static_page = 0xc0007000"

lemma frame_static:
  assumes "0xc0007000 \<le> unat a" and "unat a < 0xc0008000"
  shows "frame_of a = static_page"
proof -
  have "aligned static_page" by (simp add: aligned_def static_page_def)
  moreover have "unat (a - static_page) = unat a - unat static_page"
    using assms by (intro unat_sub) (simp add: word_le_nat_alt static_page_def)
  ultimately have "frame_of (static_page + (a - static_page)) = static_page"
    using assms by (intro aligned_add) (simp_all add: static_page_def)
  then show ?thesis by simp
qed

lemma static_sentinels:
  assumes "0xc0007000 \<le> unat l" and "unat l + 8 < 0xc0008000" and "a \<in> sentinels l"
  shows "frame_of a = static_page"
proof -
  have "unat (list_tail l) = unat l + 8"
    using assms by (simp add: list_tail_def unat_word_ariths)
  with assms show ?thesis by (auto simp: sentinels_def intro!: frame_static)
qed

lemma static_lists:
  "p < PRIO_NUM \<Longrightarrow> a \<in> sentinels (THIS_RQ p) \<Longrightarrow> frame_of a = static_page"
  "a \<in> sentinels all_list \<Longrightarrow> frame_of a = static_page"
  "a \<in> sentinels (waiters (mtx_sem pid_mtx)) \<Longrightarrow> frame_of a = static_page"
proof -
  show "p < PRIO_NUM \<Longrightarrow> a \<in> sentinels (THIS_RQ p) \<Longrightarrow> frame_of a = static_page"
    by (rule static_sentinels) (simp_all add: unat_THIS_RQ PRIO_NUM_def word_less_nat_alt)
qed (rule static_sentinels; simp add: unat_all_list waiters_def mtx_sem_def pid_mtx_def scheduler_addr_def)+

section \<open>Empty queues\<close>

definition empty_view :: kview where
  "empty_view = \<lparr>vq = \<lambda>_. [], vw = \<lambda>_. [], va = [], vt = {}, vs = {mtx_sem pid_mtx}\<rparr>"

lemma empty_view_sel [simp]:
  "vq empty_view p = []" "vw empty_view m = []" "va empty_view = []" "vt empty_view = {}"
  "vs empty_view = {mtx_sem pid_mtx}" "queued empty_view = {}" "waiting empty_view = {}"
  "contents empty_view i = []"
  by (simp_all add: empty_view_def queued_def waiting_def) (cases i; simp)

lemma rq_apart:
  assumes "p < PRIO_NUM" and "q < PRIO_NUM" and "p \<noteq> q"
  shows "sentinels (THIS_RQ p) \<inter> sentinels (THIS_RQ q) = {}"
proof -
  have b: "unat p < 32" "unat q < 32" "unat p \<noteq> unat q"
    using assms by (simp_all add: PRIO_NUM_def word_less_nat_alt unat_eq_iff)
  then have "unat p < unat q \<or> unat q < unat p" by linarith
  then show ?thesis
    using b sentinels_apart [of "THIS_RQ p" "THIS_RQ q"] sentinels_apart [of "THIS_RQ q" "THIS_RQ p"]
    by (auto simp: unat_THIS_RQ [OF assms(1)] unat_THIS_RQ [OF assms(2)])
qed

lemma rq_init_loop_family:
  assumes "dl.family s klist_addr (RQ ` {p. p < i}) (contents empty_view)"
    and "unat i + n \<le> 32"
  shows "dl.family (rq_init_loop n i s) klist_addr (RQ ` {p. unat p < unat i + n}) (contents empty_view)"
  using assms
proof (induction n arbitrary: i s)
  case 0
  then show ?case by (simp add: word_less_nat_alt)
next
  case (Suc n)
  have i: "i < PRIO_NUM" "unat (i + 1) = unat i + 1"
    using Suc.prems(2) by (simp_all add: PRIO_NUM_def word_less_nat_alt unat_word_ariths)
  have "dl.family (list_init (klist_addr (RQ i)) s) klist_addr (insert (RQ i) (RQ ` {p. p < i}))
      (contents empty_view)"
  proof (rule family_init [OF Suc.prems(1)])
    show "sentinels (klist_addr (RQ i)) \<inter> (sentinels (klist_addr j) \<union> set (contents empty_view j)) = {}"
      if "j \<in> RQ ` {p. p < i}" for j
    proof -
      from that obtain x where "j = RQ x" "x < i" by blast
      then show ?thesis using rq_apart [OF i(1), of x] i(1) by simp
    qed
  qed auto
  moreover have "insert (RQ i) (RQ ` {p. p < i}) = RQ ` {p. p < i + 1}"
    using i(2) by (auto simp: word_less_nat_alt image_iff unat_eq_iff less_Suc_eq)
  ultimately have "dl.family (list_init (THIS_RQ i) s) klist_addr (RQ ` {p. p < i + 1}) (contents empty_view)"
    by simp
  from Suc.IH [OF this] Suc.prems(2) i(2) show ?case by simp
qed

lemma scheduler_lists:
  fixes s :: "'a kstate_scheme"
  shows "klists (mutex_init pid_mtx (list_init all_list (rq_init_loop (unat PRIO_NUM) 0 s))) empty_view"
proof -
  let ?C = "contents empty_view" and ?s1 = "rq_init_loop (unat PRIO_NUM) 0 s"
  have "dl.family s klist_addr (RQ ` {p. p < 0}) ?C" by (rule dl.familyI) auto
  from rq_init_loop_family [OF this, of "unat PRIO_NUM"]
  have f1: "dl.family ?s1 klist_addr (RQ ` {p. p < PRIO_NUM}) ?C"
    by (simp add: PRIO_NUM_def word_less_nat_alt)
  have all_apart: "sentinels all_list \<inter> sentinels (THIS_RQ p) = {}" if "p < PRIO_NUM" for p
    using sentinels_apart(2) [of "THIS_RQ p" all_list] that
    by (simp add: unat_THIS_RQ unat_all_list PRIO_NUM_def word_less_nat_alt)
  have "dl.family (list_init (klist_addr EVERY) ?s1) klist_addr (insert EVERY (RQ ` {p. p < PRIO_NUM})) ?C"
    by (intro family_init [OF f1]) (use all_apart in \<open>auto simp: disjoint_iff\<close>)
  then have f2: "dl.family (list_init all_list ?s1) klist_addr (insert EVERY (RQ ` {p. p < PRIO_NUM})) ?C"
    by simp
  let ?s2 = "set_sem_val (mtx_sem pid_mtx) 1 (set_holder pid_mtx NULL (list_init all_list ?s1))"
  have "nodes ?s2 = nodes (list_init all_list ?s1)" by (simp add: frame)
  then have f3: "dl.family ?s2 klist_addr (insert EVERY (RQ ` {p. p < PRIO_NUM})) ?C"
    using f2 family_state_cong by blast
  have w: "unat (waiters (mtx_sem pid_mtx)) = 3221257840"
    by (simp add: waiters_def mtx_sem_def pid_mtx_def scheduler_addr_def)
  have d: "sentinels (waiters (mtx_sem pid_mtx)) \<inter> sentinels (THIS_RQ p) = {}" if "p < PRIO_NUM" for p
    using sentinels_apart(2) [of "THIS_RQ p" "waiters (mtx_sem pid_mtx)"] that
    by (simp add: unat_THIS_RQ w PRIO_NUM_def word_less_nat_alt)
  have "dl.family (list_init (klist_addr (WQ (mtx_sem pid_mtx))) ?s2) klist_addr
      (insert (WQ (mtx_sem pid_mtx)) (insert EVERY (RQ ` {p. p < PRIO_NUM}))) ?C"
    using d sentinels_apart(2) [of all_list "waiters (mtx_sem pid_mtx)"]
    by (intro family_init [OF f3]) (auto simp: unat_all_list w disjoint_iff)
  moreover have "kidx empty_view = insert (WQ (mtx_sem pid_mtx)) (insert EVERY (RQ ` {p. p < PRIO_NUM}))"
    by (auto simp: kidx_def)
  ultimately show ?thesis
    by (simp add: klists_def mutex_init_def sem_init_def)
qed

lemma rq_init_loop_frame [frame]:
  "mem (rq_init_loop n i s) = mem s" "tcbs (rq_init_loop n i s) = tcbs s"
  "sched (rq_init_loop n i s) = sched s" "sem_val (rq_init_loop n i s) = sem_val s"
  "phys (rq_init_loop n i s) = phys s" "cr3 (rq_init_loop n i s) = cr3 s"
  "kernel_vir_pool (rq_init_loop n i s) = kernel_vir_pool s" "kernel_phy_pool (rq_init_loop n i s) = kernel_phy_pool s"
  "kstate.more (rq_init_loop n i s) = kstate.more s"
  by (induction n arbitrary: i s) (simp_all add: list_init_kframe)

text \<open>The scheduler's fields after the first assignments of \<^verbatim>\<open>scheduler_init\<close>.\<close>

definition sched_cleared :: "'a kstate_scheme \<Rightarrow> 'a kstate_scheme" where
  "sched_cleared s = s\<lparr>sched := (sched s)\<lparr>sch_running_thread := NULL, sch_need_schedule := False,
     sch_idle_thread := NULL, sch_thread_table := replicate MAX_THREAD_NUM NULL\<rparr>\<rparr>"

text \<open>The run-queue mask on its page, and the heap around it.\<close>

definition mask_at :: "addr \<Rightarrow> bitmap" where
  "mask_at base = \<lparr>base_addr = base, bit_num = PRIO_NUM, byte_len = bit_num_2_byte_len PRIO_NUM\<rparr>"

definition heap_masked :: "addr \<Rightarrow> 'a kstate_scheme \<Rightarrow> 'a kstate_scheme \<Rightarrow> bool" where
  "heap_masked base s s' \<longleftrightarrow>
     kernel_vir_pool s' = kernel_vir_pool s \<and> kernel_phy_pool s' = kernel_phy_pool s
     \<and> phys s' = phys s \<and> cr3 s' = cr3 s \<and> RQ_MASK_BITMAP s' = mask_at base
     \<and> (\<forall>a. \<not> in_map (mask_at base) a \<longrightarrow> mem s' a = mem s a)"

lemma scheduler_init_ok:
  fixes s :: "'a kstate_scheme"
  assumes pg: "kernel_pages_malloc 1 (sched_cleared s) = Inr (base, s1)" and b: "base \<noteq> NULL"
  obtains s' where "scheduler_init s = Inr s'" and "rq_inv s' empty_view"
    and "sem_val s' (mtx_sem pid_mtx) = 1" and "tcbs s' = tcbs s1" and "phys s' = phys s1" and "cr3 s' = cr3 s1"
    and "\<exists>b. sched s' = (sched s1)\<lparr>sch_rq_mask := b\<rparr>" and "wf_bitmap (RQ_MASK_BITMAP s')"
    and "heap_masked base s1 s'" and "kstate.more s' = kstate.more s1"
proof -
  let ?b = "mask_at base"
  obtain m' where m': "bitmap_init base PRIO_NUM (mem s1) = (Inr (?b, m') :: 'a kstate_scheme halt + _)"
    "\<And>i. i < PRIO_NUM \<Longrightarrow> bitmap_get ?b i m' = 0" "\<And>a. \<not> a - base < bit_num_2_byte_len PRIO_NUM \<Longrightarrow> m' a = mem s1 a"
    by (rule bitmap_init_ok [of base PRIO_NUM "mem s1", folded mask_at_def]) (use b in blast)+
  let ?s2 = "set_sched (\<lambda>c. c\<lparr>sch_rq_mask := ?b\<rparr>) (s1\<lparr>mem := m'\<rparr>)"
  let ?s' = "mutex_init pid_mtx (list_init all_list (rq_init_loop (unat PRIO_NUM) 0 ?s2))"
  have "scheduler_init s = Inr ?s'"
    using pg m'(1) by (simp add: scheduler_init_def sched_cleared_def set_running_thread_def
      set_need_schedule_def set_sched_def Let_def)
  moreover have "rq_inv ?s' empty_view"
    using scheduler_lists [of ?s2] m'(2)
    by (simp add: rq_inv_def mask_ok_def prio_ok_def frame list_init_kframe set_sched_def mask_at_def)
  ultimately show thesis
    by (rule that) (use m'(3) in \<open>auto simp: frame list_init_kframe set_sched_def wf_bitmap_def mask_at_def
      heap_masked_def in_map_def mutex_init_def sem_init_def set_sem_val_def set_holder_def\<close>)
qed

section \<open>A page for a new thread\<close>

definition add_thread :: "addr \<Rightarrow> kview \<Rightarrow> kview" where
  "add_thread t v = v\<lparr>vt := insert t (vt v)\<rparr>"

lemma add_thread_sel [simp]:
  "vq (add_thread t v) = vq v" "vw (add_thread t v) = vw v" "va (add_thread t v) = va v"
  "vs (add_thread t v) = vs v" "vt (add_thread t v) = insert t (vt v)"
  "queued (add_thread t v) = queued v" "waiting (add_thread t v) = waiting v"
  "kidx (add_thread t v) = kidx v"
  by (simp_all add: add_thread_def queued_def waiting_def kidx_def)

lemma contents_add_thread [simp]: "contents (add_thread t v) = contents v"
proof
  show "contents (add_thread t v) i = contents v i" for i by (cases i) simp_all
qed

text \<open>A page without sentinels that is not a control block yet.\<close>

definition new_page :: "addr \<Rightarrow> kview \<Rightarrow> bool" where
  "new_page t v \<longleftrightarrow> aligned t \<and> t \<noteq> NULL \<and> t \<notin> vt v
     \<and> (\<forall>i\<in>kidx v. \<forall>a\<in>sentinels (klist_addr i). frame_of a \<noteq> t)"

lemma contents_frame:
  assumes "klists s v" and "i \<in> kidx v" and "a \<in> set (contents v i)"
  shows "frame_of a \<in> vt v"
proof -
  have "\<exists>t\<in>vt v. a = ready_tag t \<or> a = pend_tag t \<or> a = all_list_tag t"
    using assms by (cases i) (auto simp: klists_def kidx_def queued_def waiting_def)
  then show ?thesis using tag_frame klists_aligned [OF assms(1)] by fastforce
qed

lemma new_page_klists:
  assumes k: "klists s v" and t: "new_page t v"
    and n: "\<And>a. frame_of a \<noteq> t \<Longrightarrow> nodes s' a = nodes s a"
  shows "klists s' v" and "klists s' (add_thread t v)"
proof -
  have "dl.family s' klist_addr (kidx v) (contents v)"
  proof (rule dl.familyI)
    fix i assume i: "i \<in> kidx v"
    have "nodes s' a = nodes s a" if "a \<in> sentinels (klist_addr i) \<union> set (contents v i)" for a
      using that t i contents_frame [OF k i, of a] by (intro n) (auto simp: new_page_def)
    then show "dlist (nodes s') (klist_addr i) (contents v i)"
      using dlist_frame dl.family_rep [OF klists_family [OF k] i] by blast
  qed (rule dl.family_disjoint [OF klists_family [OF k]])
  then show "klists s' v" "klists s' (add_thread t v)"
    using k t by (auto simp: klists_def new_page_def)
qed

lemma tcb_zero_other:
  assumes "aligned t" and "frame_of a \<noteq> t"
  shows "nodes (tcb_zero t s) a = nodes s a"
proof -
  have "frame_of (t + 96) = t" "frame_of (t + 104) = t"
    using assms(1) by (simp_all add: aligned_add)
  then have "frame_of (96 + t) = t" "frame_of (104 + t) = t"
    by (simp_all add: add.commute)
  then show ?thesis
    using assms tag_frame(1-3) [OF assms(1)]
    by (auto simp: tcb_zero_def Let_def waiters_def mtx_sem_def tcb_pool_mtx_def list_tail_def)
qed

section \<open>Process identifiers\<close>

definition first_free :: "addr list \<Rightarrow> nat \<Rightarrow> nat option" where
  "first_free tbl i = List.find (\<lambda>k. tbl ! k = NULL) [i..<MAX_THREAD_NUM]"

definition give_pid :: "addr \<Rightarrow> nat option \<Rightarrow> 'a kstate_scheme \<Rightarrow> 'a kstate_scheme" where
  "give_pid t k s = (case k of None \<Rightarrow> s
     | Some i \<Rightarrow> s\<lparr>tcbs := (tcbs s)(t := (tcbs s t)\<lparr>tcb_pid := of_nat i\<rparr>),
         sched := (sched s)\<lparr>sch_thread_table := (sch_thread_table (sched s))[i := t]\<rparr>\<rparr>)"

lemma pid_loop_first: "pid_loop i t s = give_pid t (first_free (sch_thread_table (sched s)) i) s"
proof (induction i t s rule: pid_loop.induct)
  case (1 i t s)
  then show ?case
    by (subst pid_loop.simps) (simp add: first_free_def give_pid_def upt_conv_Cons upd_tcb_def set_sched_def)
qed

lemma first_free_Some:
  "first_free tbl 0 = Some i \<longleftrightarrow> i < MAX_THREAD_NUM \<and> tbl ! i = NULL \<and> (\<forall>j < i. tbl ! j \<noteq> NULL)"
  "first_free tbl 0 = None \<longleftrightarrow> (\<forall>j < MAX_THREAD_NUM. tbl ! j \<noteq> NULL)"
proof -
  show "first_free tbl 0 = Some i \<longleftrightarrow> i < MAX_THREAD_NUM \<and> tbl ! i = NULL \<and> (\<forall>j < i. tbl ! j \<noteq> NULL)"
    by (auto simp: first_free_def find_Some_iff)
qed (auto simp: first_free_def find_None_iff)

lemma give_pid_frame [frame]:
  "nodes (give_pid t k s) = nodes s" "mem (give_pid t k s) = mem s" "phys (give_pid t k s) = phys s"
  "cr3 (give_pid t k s) = cr3 s" "sem_val (give_pid t k s) = sem_val s" "eflags (give_pid t k s) = eflags s"
  "mtx_holder (give_pid t k s) = mtx_holder s" "need_schedule (give_pid t k s) = need_schedule s"
  "RUNNING_THREAD (give_pid t k s) = RUNNING_THREAD s" "RQ_MASK_BITMAP (give_pid t k s) = RQ_MASK_BITMAP s"
  "sch_idle_thread (sched (give_pid t k s)) = sch_idle_thread (sched s)"
  "tcbs (give_pid t k s) u = (if u = t then (tcbs s t)\<lparr>tcb_pid := tcb_pid (tcbs (give_pid t k s) t)\<rparr> else tcbs s u)"
  by (simp_all add: give_pid_def need_schedule_def split: option.split)

text \<open>With the mutex free, \<^verbatim>\<open>pid_alloc\<close> takes the first free slot and leaves the mutex free.\<close>

lemma pid_alloc_ok:
  assumes k: "klists s v" and m: "mtx_sem pid_mtx \<in> vs v" "vw v (mtx_sem pid_mtx) = []"
    and val: "sem_val s (mtx_sem pid_mtx) = 1"
  shows "pid_alloc t s =
    Inr (set_holder pid_mtx NULL (give_pid t (first_free (sch_thread_table (sched s)) 0) s))"
proof -
  let ?k = "first_free (sch_thread_table (sched s)) 0"
  let ?l = "set_holder pid_mtx (RUNNING_THREAD s) (set_sem_val (mtx_sem pid_mtx) 0 s)"
  have l: "mutex_lock pid_mtx s = Inr ?l" using mutex_lock_free [of s pid_mtx] val by simp
  have p: "pid_loop 0 t ?l = give_pid t ?k ?l" by (simp add: pid_loop_first frame)
  have "klists (give_pid t ?k ?l) v" using k by (subst klists_cong [of _ s]) (simp_all add: frame)
  from mutex_unlock_idle [OF this m] have "mutex_unlock pid_mtx (give_pid t ?k ?l) =
      Inr (set_holder pid_mtx NULL (set_sem_val (mtx_sem pid_mtx) 1 (give_pid t ?k ?l)))"
    by (simp add: frame)
  also have "set_holder pid_mtx NULL (set_sem_val (mtx_sem pid_mtx) 1 (give_pid t ?k ?l)) =
      set_holder pid_mtx NULL (give_pid t ?k s)"
    using val by (simp add: give_pid_def set_holder_def set_sem_val_def fun_upd_idem split: option.split)
  finally show ?thesis by (simp add: pid_alloc_def l p)
qed

section \<open>Control blocks\<close>

text \<open>Pools, page tables and every bitmap but the run-queue mask stay as they are.\<close>

definition same_heap :: "'a kstate_scheme \<Rightarrow> 'a kstate_scheme \<Rightarrow> bool" where
  "same_heap s s' \<longleftrightarrow>
     kernel_vir_pool s' = kernel_vir_pool s \<and> kernel_phy_pool s' = kernel_phy_pool s
     \<and> phys s' = phys s \<and> cr3 s' = cr3 s \<and> RQ_MASK_BITMAP s' = RQ_MASK_BITMAP s
     \<and> (\<forall>a. \<not> in_map (RQ_MASK_BITMAP s) a \<longrightarrow> mem s' a = mem s a)"

lemma same_heap_trans: "same_heap s t \<Longrightarrow> same_heap t u \<Longrightarrow> same_heap s u"
  by (simp add: same_heap_def)

lemma upd_tcb_sched [frame]:
  "sched (set_sched f s) = f (sched s)" "nodes (set_sched f s) = nodes s" "mem (set_sched f s) = mem s"
  "tcbs (set_sched f s) = tcbs s" "sem_val (set_sched f s) = sem_val s" "phys (set_sched f s) = phys s"
  "cr3 (set_sched f s) = cr3 s" "eflags (set_sched f s) = eflags s"
  by (simp_all add: set_sched_def)

lemma tcb_zero_frame [frame]:
  "mem (tcb_zero t s) = mem s" "sched (tcb_zero t s) = sched s" "phys (tcb_zero t s) = phys s"
  "cr3 (tcb_zero t s) = cr3 s" "eflags (tcb_zero t s) = eflags s"
  "tcbs (tcb_zero t s) u = (if u = t then zero_tcb else tcbs s u)"
  by (simp_all add: tcb_zero_def Let_def)

text \<open>The lists of other pages keep their semaphores' values too.\<close>

lemma tcb_zero_sem: "aligned t \<Longrightarrow> frame_of x \<noteq> t \<Longrightarrow> sem_val (tcb_zero t s) x = sem_val s x"
  using aligned_add(2) [of t 92]
  by (auto simp: tcb_zero_def Let_def mtx_sem_def tcb_pool_mtx_def add.commute [of 92 t])

lemma pid_sem_static: "frame_of (mtx_sem pid_mtx) = static_page"
  by (rule frame_static) (simp_all add: mtx_sem_def pid_mtx_def scheduler_addr_def)

lemma new_page_not_static:
  assumes "new_page t v" and "mtx_sem pid_mtx \<in> vs v"
  shows "t \<noteq> static_page"
proof -
  have "waiters (mtx_sem pid_mtx) \<in> sentinels (klist_addr (WQ (mtx_sem pid_mtx)))"
    by (simp add: sentinels_def)
  then show ?thesis
    using assms static_lists(3) WQ_in_kidx [OF assms(2)] unfolding new_page_def by fastforce
qed

text \<open>
  \<^verbatim>\<open>thread_tcb_init\<close> on a page of its own: the control block is as asked for, the first free
  slot of the thread table names it, and everything else is as before.
\<close>

lemma thread_tcb_init_ok:
  assumes k: "klists s v" and pg: "new_page t v" and name: "length name \<le> 16"
    and m: "mtx_sem pid_mtx \<in> vs v" "vw v (mtx_sem pid_mtx) = []" "sem_val s (mtx_sem pid_mtx) = 1"
    and free: "free = first_free (sch_thread_table (sched s)) 0"
    and st: "st = (if t = sch_idle_thread (sched s) then TASK_RUNNING else TASK_READY)"
  obtains s' where "thread_tcb_init t name prio s = Inr s'" and "klists s' (add_thread t v)"
    and "tcb_status (tcbs s' t) = st" and "tcb_priority (tcbs s' t) = prio"
    and "tcb_ticks (tcbs s' t) = ticks_get (ucast prio)" and "tcb_pg_dir (tcbs s' t) = NULL"
    and "tcb_stack_top (tcbs s' t) = t + PG_SIZE" and "tcb_stack_magic (tcbs s' t) = 0x19980820"
    and "\<forall>i. free = Some i \<longrightarrow> tcb_pid (tcbs s' t) = of_nat i"
    and "\<forall>u. u \<noteq> t \<longrightarrow> tcbs s' u = tcbs s u"
    and "sched s' = (sched s)\<lparr>sch_thread_table := (case free of None \<Rightarrow> sch_thread_table (sched s)
      | Some i \<Rightarrow> (sch_thread_table (sched s))[i := t])\<rparr>"
    and "mem s' = mem s" and "phys s' = phys s" and "cr3 s' = cr3 s"
    and "\<forall>x. frame_of x \<noteq> t \<longrightarrow> sem_val s' x = sem_val s x" and "same_heap s s'" and "eflags s' = eflags s"
    and "kstate.more s' = kstate.more s"
proof -
  have t: "aligned t" "t \<noteq> NULL" using pg by (auto simp: new_page_def)
  define u where "u = upd_tcb t (\<lambda>c. c\<lparr>tcb_pg_dir := NULL\<rparr>)
    (upd_tcb t (\<lambda>c. c\<lparr>tcb_ticks := ticks_get (ucast prio)\<rparr>)
    (upd_tcb t (\<lambda>c. c\<lparr>tcb_stack_top := t + PG_SIZE\<rparr>)
    (upd_tcb t (\<lambda>c. c\<lparr>tcb_priority := prio\<rparr>)
    (upd_tcb t (\<lambda>c. c\<lparr>tcb_status := st\<rparr>)
    (upd_tcb t (\<lambda>c. c\<lparr>tcb_name := name @ drop (length name) (tcb_name c)\<rparr>) (tcb_zero t s))))))"
  have un: "nodes u a = nodes s a" if "frame_of a \<noteq> t" for a
    using tcb_zero_other [OF t(1) that] by (simp add: u_def frame)
  have ku: "klists u v" using k pg un by (rule new_page_klists(1))
  have us: "sem_val u x = sem_val s x" if "frame_of x \<noteq> t" for x
    using tcb_zero_sem [OF t(1) that] by (simp add: u_def frame)
  have "sem_val u (mtx_sem pid_mtx) = 1"
    using us [of "mtx_sem pid_mtx"] m(3) new_page_not_static [OF pg m(1)] pid_sem_static by auto
  then have "pid_alloc t u = Inr (set_holder pid_mtx NULL (give_pid t free u))"
    using pid_alloc_ok [OF ku m(1,2)] by (simp add: free u_def frame)
  moreover define s' where
    "s' = upd_tcb t (\<lambda>c. c\<lparr>tcb_stack_magic := 0x19980820\<rparr>) (set_holder pid_mtx NULL (give_pid t free u))"
  ultimately have i: "thread_tcb_init t name prio s = Inr s'"
    using name t(2) st by (simp add: thread_tcb_init_def name_copy_def Let_def u_def frame)
  have ks: "klists s' (add_thread t v)"
    using k pg un by (intro new_page_klists(2) [OF k pg]) (simp add: s'_def frame)
  show thesis
    by (rule that [OF i ks])
      (use us in \<open>auto simp: s'_def u_def frame give_pid_def set_holder_def upd_tcb_def tcb_zero_def Let_def
        same_heap_def split: option.split\<close>)
qed

section \<open>Joining the queues\<close>

definition set_all :: "addr list \<Rightarrow> kview \<Rightarrow> kview" where
  "set_all xs v = v\<lparr>va := xs\<rparr>"

lemma set_all_sel [simp]:
  "vq (set_all xs v) = vq v" "vw (set_all xs v) = vw v" "va (set_all xs v) = xs"
  "vs (set_all xs v) = vs v" "vt (set_all xs v) = vt v"
  "queued (set_all xs v) = queued v" "waiting (set_all xs v) = waiting v" "kidx (set_all xs v) = kidx v"
  by (simp_all add: set_all_def queued_def waiting_def kidx_def)

lemma contents_set_all: "contents (set_all xs v) = (contents v)(EVERY := map all_list_tag xs)"
proof
  show "contents (set_all xs v) i = ((contents v)(EVERY := map all_list_tag xs)) i" for i
    by (cases i) simp_all
qed

lemma all_list_inv:
  assumes inv: "rq_inv s v" and t: "t \<in> vt v" "t \<notin> set (va v)"
  shows "rq_inv (list_push_back all_list (all_list_tag t) s) (set_all (va v @ [t]) v)"
proof -
  let ?s' = "list_push_back all_list (all_list_tag t) s"
  note k = rq_invD(1) [OF inv]
  have "all_list_tag t \<notin> set (contents v i)" if i: "i \<in> kidx v" for i
  proof
    assume a: "all_list_tag t \<in> set (contents v i)"
    from k i a show False
      by (rule contents_tag) (use t tags_differ [symmetric] klists_aligned [OF k] in auto)
  qed
  then have "dl.fresh klist_addr (kidx v) (contents v) (all_list_tag t)"
    using tag_not_sentinel [OF k t(1)] by (simp add: dl.fresh_def)
  from dl.family_push_back [OF klists_family [OF k] _ this, of EVERY]
  have "dl.family ?s' klist_addr (kidx v) (contents (set_all (va v @ [t]) v))"
    by (simp add: contents_set_all kidx_def)
  then have "klists ?s' (set_all (va v @ [t]) v)" using k t(1) by (simp add: klists_def)
  moreover have "prio_of u ?s' = prio_of u s" for u by (simp add: prio_of_def frame)
  ultimately show ?thesis
    using inv by (simp add: rq_inv_def mask_ok_def prio_ok_def frame)
qed

text \<open>The end of \<^verbatim>\<open>thread_run\<close> and of \<^verbatim>\<open>idle_thread_make\<close>.\<close>

definition start :: "addr \<Rightarrow> 'a kstate_scheme \<Rightarrow> 'a kstate_scheme" where
  "start t s = list_push_back all_list (all_list_tag t) (scheduler_rq_join t s)"

definition started :: "addr \<Rightarrow> u32 \<Rightarrow> kview \<Rightarrow> kview" where
  "started t p v = set_all (va v @ [t]) (enq_back t p v)"

lemma started_sel [simp]:
  "vw (started t p v) = vw v" "va (started t p v) = va v @ [t]" "vs (started t p v) = vs v"
  "vt (started t p v) = vt v" "waiting (started t p v) = waiting v"
  by (simp_all add: started_def view_defs)

lemma queued_started: "p < PRIO_NUM \<Longrightarrow> queued (started t p v) = insert t (queued v)"
  by (simp add: started_def queued_enq(1))

lemma join_only_kframe [frame]:
  "tcbs (scheduler_rq_join t s) = tcbs s" "sem_val (scheduler_rq_join t s) = sem_val s"
  "phys (scheduler_rq_join t s) = phys s" "cr3 (scheduler_rq_join t s) = cr3 s"
  "RUNNING_THREAD (scheduler_rq_join t s) = RUNNING_THREAD s"
  "need_schedule (scheduler_rq_join t s) \<longleftrightarrow>
     need_schedule s \<or> tcb_priority (tcbs s (RUNNING_THREAD s)) > tcb_priority (tcbs s t)"
  by (simp_all add: scheduler_rq_join_def Let_def frame need_schedule_def set_need_schedule_def)

lemma start_inv:
  assumes inv: "rq_inv s v" and t: "t \<in> vt v" "t \<notin> set (va v)" "t \<notin> queued v" and p: "prio_of t s < PRIO_NUM"
  shows "rq_inv (start t s) (started t (prio_of t s) v)"
proof -
  have "rq_inv (scheduler_rq_join t s) (enq_back t (prio_of t s) v)"
    using join_only_inv [OF inv t(1,3) p] by (simp add: scheduler_rq_join_def Let_def rq_inv_set_need)
  from all_list_inv [OF this, of t] t(1,2) show ?thesis
    by (simp add: start_def started_def view_defs)
qed

lemma start_frame [frame]:
  "tcbs (start t s) = tcbs s" "sem_val (start t s) = sem_val s" "phys (start t s) = phys s"
  "cr3 (start t s) = cr3 s" "RUNNING_THREAD (start t s) = RUNNING_THREAD s"
  "need_schedule (start t s) \<longleftrightarrow>
     need_schedule s \<or> tcb_priority (tcbs s (RUNNING_THREAD s)) > tcb_priority (tcbs s t)"
proof -
  have "need_schedule (start t s) = need_schedule (scheduler_rq_join t s)"
    by (simp add: start_def need_schedule_def frame)
  then show "need_schedule (start t s) \<longleftrightarrow>
     need_schedule s \<or> tcb_priority (tcbs s (RUNNING_THREAD s)) > tcb_priority (tcbs s t)"
    by (simp add: frame)
qed (simp_all add: start_def frame)

lemma start_more [frame]: "kstate.more (start t s) = kstate.more s"
  by (simp add: start_def scheduler_rq_join_def scheduler_rq_join_only_def Let_def list_push_back_def
    list_insert_before_heap set_need_schedule_def)

lemma start_same_heap:
  assumes "wf_bitmap (RQ_MASK_BITMAP s)" and "prio_of t s < bit_num (RQ_MASK_BITMAP s)"
  shows "same_heap s (start t s)"
  using bitmap_set_frame [OF assms] 
  by (simp add: same_heap_def start_def scheduler_rq_join_def scheduler_rq_join_only_def Let_def
    list_push_back_def list_insert_before_heap set_need_schedule_def prio_of_def)

text \<open>Starting a fresh thread keeps the kernel's invariant.\<close>

lemma start_kinv:
  assumes inv: "kinv s v" and t: "new_page t v" and k: "klists u (add_thread t v)"
    and st: "tcb_status (tcbs u t) = TASK_READY" and p: "prio_of t u < PRIO_NUM"
    and other: "\<forall>x. x \<noteq> t \<longrightarrow> tcbs u x = tcbs s x" and mm: "mem u = mem s"
    and sc: "RQ_MASK_BITMAP u = RQ_MASK_BITMAP s" "RUNNING_THREAD u = RUNNING_THREAD s"
  shows "kinv (start t u) (started t (prio_of t u) (add_thread t v))"
proof -
  let ?w = "add_thread t v"
  note sv = kinvD(1) [OF inv] and kl = kinv_klists [OF inv]
  have nt: "t \<notin> vt v" "t \<notin> queued v" "t \<notin> waiting v" "t \<notin> set (va v)"
    using t kl by (auto simp: new_page_def klists_def)
  have pr: "prio_of x u = prio_of x s" if "x \<noteq> t" for x using other that by (simp add: prio_of_def)
  have "prio_ok u ?w"
    using rq_invD(3) [OF sinv_parts(1) [OF sv]] nt(2) pr
    unfolding prio_ok_def queued_def by (metis (mono_tags) UN_I add_thread_sel(1) mem_Collect_eq)
  then have "rq_inv u ?w"
    using k rq_invD(2) [OF sinv_parts(1) [OF sv]] mm sc by (simp add: rq_inv_def mask_ok_def)
  from start_inv [OF this _ _ _ p] nt have rq: "rq_inv (start t u) (started t (prio_of t u) ?w)" by simp
  have tc: "tcbs (start t u) = tcbs u" by (simp add: frame)
  have ps: "prio_of x (start t u) = prio_of x u" for x using tc by (simp add: prio_of_def)
  have "t \<noteq> RUNNING_THREAD s" using sinv_parts(2) [OF sv] nt(1) by auto
  moreover have "prio_of x u < PRIO_NUM" if "x \<in> insert t (vt v)" for x
    using sv p pr [of x] that by (cases "x = t") (simp_all add: sinv_def)
  moreover have "tcbs u x = tcbs s x" if "x \<in> vt v" for x using other that nt(1) by metis
  ultimately have "sinv (start t u) (started t (prio_of t u) ?w)"
    using sv rq st nt unfolding sinv_def
    by (auto simp: tc ps frame sc live_def queued_started [OF p])
  moreover have "wait_inv (start t u) (started t (prio_of t u) ?w)"
    using kinvD(2) [OF inv] nt(3) other by (auto simp: wait_inv_def tc)
  ultimately show ?thesis by (simp add: kinv_def)
qed

section \<open>The idle thread\<close>

text \<open>
  The first thread: after \<^verbatim>\<open>idle_thread_make\<close> the code that called it is the idle thread, it
  is running at the lowest priority, it is the only thread, and the invariant holds.
\<close>

lemma idle_thread_make_ok:
  assumes inv: "rq_inv s empty_view" and val: "sem_val s (mtx_sem pid_mtx) = 1"
    and t: "t = running_thread_get esp" "t \<noteq> NULL" "t \<noteq> static_page"
    and tab: "sch_thread_table (sched s) = replicate MAX_THREAD_NUM NULL" and need: "\<not> need_schedule s"
    and wf: "wf_bitmap (RQ_MASK_BITMAP s)"
  obtains s' where "idle_thread_make esp s = Inr s'" and "kinv s' (started t 31 (add_thread t empty_view))"
    and "RUNNING_THREAD s' = t" and "sch_idle_thread (sched s') = t"
    and "tcb_pid (tcbs s' t) = 0" and "sch_thread_table (sched s') ! 0 = t"
    and "tcb_stack_magic (tcbs s' t) = 0x19980820" and "tcb_pg_dir (tcbs s' t) = NULL"
    and "sem_val s' (mtx_sem pid_mtx) = 1" and "\<not> need_schedule s'" and "same_heap s s'"
    and "sch_thread_table (sched s') = (replicate MAX_THREAD_NUM NULL)[0 := t]" and "kstate.more s' = kstate.more s"
    and "tcb_ticks (tcbs s' t) = 11"
proof -
  let ?s1 = "set_sched (\<lambda>c. c\<lparr>sch_idle_thread := sch_running_thread c\<rparr>) (set_running_thread t s)"
  let ?w = "add_thread t empty_view"
  have f1: "nodes ?s1 = nodes s" "mem ?s1 = mem s" "tcbs ?s1 = tcbs s" "sem_val ?s1 = sem_val s"
    "cr3 ?s1 = cr3 s" "RUNNING_THREAD ?s1 = t" "sch_idle_thread (sched ?s1) = t"
    "RQ_MASK_BITMAP ?s1 = RQ_MASK_BITMAP s" "sch_thread_table (sched ?s1) = sch_thread_table (sched s)"
    "need_schedule ?s1 = need_schedule s" "kstate.more ?s1 = kstate.more s"
    by (simp_all add: set_sched_def set_running_thread_def need_schedule_def)
  have k1: "klists ?s1 empty_view"
    using rq_invD(1) [OF inv] f1(1) by (subst klists_cong [of _ s]) simp_all
  have "frame_of a = static_page" if "i \<in> kidx empty_view" "a \<in> sentinels (klist_addr i)" for i a
    using that static_lists by (auto simp: kidx_def)
  moreover have "aligned t" using aligned_frame [of esp] t(1) by (simp add: running_thread_get_def frame_of_def)
  ultimately have pg: "new_page t empty_view" using t by (fastforce simp: new_page_def)
  have ff: "first_free (sch_thread_table (sched ?s1)) 0 = Some 0"
    using tab f1(9) by (simp add: first_free_Some MAX_THREAD_NUM_def)
  have nm: "length (lit ''idle'') \<le> 16" by (simp add: lit_def)
  obtain u where u: "thread_tcb_init t (lit ''idle'') 31 ?s1 = Inr u" "klists u ?w"
    "tcb_status (tcbs u t) = TASK_RUNNING" "tcb_priority (tcbs u t) = 31" "tcb_pg_dir (tcbs u t) = NULL"
    "tcb_stack_magic (tcbs u t) = 0x19980820" "\<forall>i. Some 0 = Some i \<longrightarrow> tcb_pid (tcbs u t) = of_nat i"
    "sched u = (sched ?s1)\<lparr>sch_thread_table := (sch_thread_table (sched ?s1))[0 := t]\<rparr>"
    "mem u = mem ?s1" "cr3 u = cr3 ?s1" "\<forall>x. frame_of x \<noteq> t \<longrightarrow> sem_val u x = sem_val ?s1 x"
    "same_heap ?s1 u" "kstate.more u = kstate.more ?s1" "tcb_ticks (tcbs u t) = ticks_get (ucast (31 :: u8))"
    by (rule thread_tcb_init_ok [OF k1 pg nm, where prio = 31 and st = TASK_RUNNING and free = "Some 0"])
      (use ff val f1 in simp_all)
  have p: "prio_of t u = 31" using u(4) by (simp add: prio_of_def)
  have "rq_inv u ?w"
    using u(2) rq_invD(2) [OF inv] u(8,9) f1 by (simp add: rq_inv_def mask_ok_def prio_ok_def)
  from start_inv [OF this, of t] p have rq: "rq_inv (start t u) (started t 31 ?w)"
    by (simp add: PRIO_NUM_def)
  have q: "queued (started t 31 ?w) = {t}" by (simp add: queued_started PRIO_NUM_def)
  have "prio_of t (start t u) = 31" using p by (simp add: prio_of_def frame)
  with rq q u(3,8) f1 have "kinv (start t u) (started t 31 ?w)"
    by (simp add: kinv_def wait_inv_def sinv_def frame live_def PRIO_NUM_def)
  moreover have "idle_thread_make esp s = Inr (start t u)"
    using u(1,8) f1 t(1) by (simp add: idle_thread_make_def start_def Let_def frame)
  moreover have "sch_idle_thread (sched (start t u)) = sch_idle_thread (sched u)"
    "sch_thread_table (sched (start t u)) = sch_thread_table (sched u)"
    by (simp_all add: start_def scheduler_rq_join_def scheduler_rq_join_only_def Let_def frame
      set_need_schedule_def)
  moreover have "frame_of (mtx_sem pid_mtx) \<noteq> t" using t(3) pid_sem_static by simp
  moreover have "need_schedule u = need_schedule s" using u(8) f1(10) by (simp add: need_schedule_def)
  moreover have "same_heap s (start t u)"
  proof (rule same_heap_trans)
    show "same_heap s u"
      using u(12) by (rule same_heap_trans [rotated]) (simp add: same_heap_def set_sched_def set_running_thread_def)
    show "same_heap u (start t u)"
      using wf p rq_invD(2) [OF inv] u(8) f1(8)
      by (intro start_same_heap) (simp_all add: mask_ok_def PRIO_NUM_def)
  qed
  ultimately show thesis
    using u f1 val tab need by (intro that [of "start t u"]) (simp_all add: frame MAX_THREAD_NUM_def ticks_get_def)
qed

section \<open>Running a thread\<close>

lemma kinv_mem:
  assumes inv: "kinv s v" and wf: "wf_bitmap (RQ_MASK_BITMAP s)"
    and m: "\<And>a. in_map (RQ_MASK_BITMAP s) a \<Longrightarrow> m a = mem s a"
  shows "kinv (s\<lparr>mem := m, phys := ph\<rparr>) v"
proof -
  note rq = sinv_parts(1) [OF kinvD(1) [OF inv]]
  have n: "bit_num (RQ_MASK_BITMAP s) = PRIO_NUM" using rq_invD(2) [OF rq] by (simp add: mask_ok_def)
  have "bitmap_get (RQ_MASK_BITMAP s) p m = bitmap_get (RQ_MASK_BITMAP s) p (mem s)" if "p < PRIO_NUM" for p
    using wf that n m by (intro bitmap_get_cong) simp_all
  then show ?thesis
    using inv klists_cong [of "s\<lparr>mem := m, phys := ph\<rparr>" s v]
    by (simp add: kinv_def sinv_def rq_inv_def mask_ok_def prio_ok_def prio_of_def wait_inv_def)
qed

text \<open>
  The kernel's heap has a free page and a frame for it, its bitmaps keep clear of the run-queue
  mask, and its free pages hold neither control blocks nor list heads.
\<close>

definition heap_ready :: "'a kstate_scheme \<Rightarrow> kview \<Rightarrow> bool" where
  "heap_ready s v \<longleftrightarrow>
     selfmap (phys s) (cr3 s) \<and> wf_pool (kernel_vir_pool s) \<and> wf_pool (kernel_phy_pool s)
     \<and> maps_apart (btmp (kernel_vir_pool s)) (btmp (kernel_phy_pool s))
     \<and> wf_bitmap (RQ_MASK_BITMAP s) \<and> maps_apart (RQ_MASK_BITMAP s) (btmp (kernel_vir_pool s))
     \<and> maps_apart (RQ_MASK_BITMAP s) (btmp (kernel_phy_pool s))
     \<and> bitmap_scan (btmp (kernel_vir_pool s)) 0 1 (mem s) \<noteq> minus1
     \<and> card (taken (kernel_phy_pool s) (mem s)) + 1 \<le> card (pages (kernel_phy_pool s))
     \<and> free_unmapped PF_KERNEL 1 s
     \<and> (\<forall>t\<in>pages (kernel_vir_pool s) - taken (kernel_vir_pool s) (mem s). new_page t v)"

lemma kernel_page_ok:
  assumes h: "heap_ready s v" and inv: "kinv s v"
  obtains t m ph where "kernel_pages_malloc 1 s = Inr (t, s\<lparr>mem := m, phys := ph\<rparr>)"
    and "t \<in> pages (kernel_vir_pool s) - taken (kernel_vir_pool s) (mem s)"
    and "taken (kernel_vir_pool s) m = insert t (taken (kernel_vir_pool s) (mem s))"
    and "new_page t v" and "kinv (s\<lparr>mem := m, phys := ph\<rparr>) v"
    and "\<exists>pa. walk ph (cr3 s) t = Some pa \<and> pa \<in> pages (kernel_phy_pool s) - taken (kernel_phy_pool s) (mem s)"
    and "selfmap ph (cr3 s)" and "\<forall>y. ph (pde_slot (cr3 s) y) = phys s (pde_slot (cr3 s) y)"
proof -
  have v: "vir_pool PF_KERNEL s = kernel_vir_pool s" "phy_pool PF_KERNEL s = kernel_phy_pool s"
    by (simp_all add: vir_pool_def phy_pool_def)
  note d = h [unfolded heap_ready_def]
  obtain t pas m ph where p: "malloc_page PF_KERNEL 1 s = Inr (t, s\<lparr>mem := m, phys := ph\<rparr>)"
    "run_pages t 1 \<subseteq> pages (kernel_vir_pool s) - taken (kernel_vir_pool s) (mem s)"
    "taken (kernel_vir_pool s) m = taken (kernel_vir_pool s) (mem s) \<union> run_pages t 1"
    "length pas = unat (1 :: u32)" "set pas \<subseteq> pages (kernel_phy_pool s) - taken (kernel_phy_pool s) (mem s)"
    "\<forall>i<unat (1 :: u32). walk ph (cr3 s) (nth_page t i) = Some (pas ! i)"
    "\<forall>a. \<not> in_map (btmp (kernel_vir_pool s)) a \<longrightarrow> \<not> in_map (btmp (kernel_phy_pool s)) a \<longrightarrow> m a = mem s a"
    "selfmap ph (cr3 s)" "\<forall>y. ph (pde_slot (cr3 s) y) = phys s (pde_slot (cr3 s) y)"
    by (rule malloc_page_ok [of s PF_KERNEL 1, unfolded v]) (use d in auto)
  have r: "run_pages t 1 = {t}"
    using word_less_1 by (auto simp: run_pages_def)
  have "m a = mem s a" if "in_map (RQ_MASK_BITMAP s) a" for a
    using p(7) d that unfolding maps_apart_def by blast
  then have k: "kinv (s\<lparr>mem := m, phys := ph\<rparr>) v" using d by (intro kinv_mem [OF inv]) auto
  have f: "t \<in> pages (kernel_vir_pool s) - taken (kernel_vir_pool s) (mem s)" using p(2) r by simp
  obtain pa where pa: "pas = [pa]" using p(4) by (auto simp: length_Suc_conv)
  then have w: "\<exists>pa. walk ph (cr3 s) t = Some pa
      \<and> pa \<in> pages (kernel_phy_pool s) - taken (kernel_phy_pool s) (mem s)"
    using p(5,6) by (auto simp: nth_page_def)
  show thesis
    by (rule that [of t ph m]) (use p(1,3,8,9) r f d k w in \<open>auto simp: kernel_pages_malloc_def\<close>)
qed

text \<open>The initial stack: under the room for an interrupt frame, a frame that enters the thread.\<close>

definition entry_frame :: "code \<Rightarrow> addr \<Rightarrow> thread_stack \<Rightarrow> bool" where
  "entry_frame func arg f \<longleftrightarrow>
     ts_save_flag f = FAST_SAVE_FLAG \<and> ts_eip f = Kernel_thread_entry
     \<and> ts_func f = func \<and> ts_func_arg f = arg
     \<and> ts_ebp f = 0 \<and> ts_ebx f = 0 \<and> ts_edi f = 0 \<and> ts_esi f = 0"

lemma thread_stack_init_frame [frame]:
  fixes s :: "'a kernel_scheme"
  shows "nodes (thread_stack_init t f a s) = nodes s" "mem (thread_stack_init t f a s) = mem s"
    "sched (thread_stack_init t f a s) = sched s" "sem_val (thread_stack_init t f a s) = sem_val s"
    "phys (thread_stack_init t f a s) = phys s" "cr3 (thread_stack_init t f a s) = cr3 s"
    "tcbs (thread_stack_init t f a s) u =
       (if u = t then (tcbs s t)\<lparr>tcb_stack_top := tcb_stack_top (tcbs s t) - 112\<rparr> else tcbs s u)"
    "entry_frame f a (thread_stacks (thread_stack_init t f a s) (tcb_stack_top (tcbs s t) - 112))"
  by (simp_all add: thread_stack_init_def Let_def frame sizeof_intr_stack_def sizeof_thread_stack_def
    entry_frame_def)

lemma start_thread_stacks [frame]:
  fixes s :: "'a kernel_scheme"
  shows "thread_stacks (start t s) = thread_stacks s"
  by (simp add: start_def scheduler_rq_join_def scheduler_rq_join_only_def Let_def list_push_back_def
    list_insert_before_heap set_need_schedule_def)

lemma thread_run_ok:
  fixes s :: "'a kernel_scheme"
  assumes inv: "kinv s v" and h: "heap_ready s v" and name: "length name \<le> 16" and p: "prio < 32"
    and m: "mtx_sem pid_mtx \<in> vs v" "vw v (mtx_sem pid_mtx) = []" "sem_val s (mtx_sem pid_mtx) = 1"
    and idle: "sch_idle_thread (sched s) \<in> vt v"
  obtains t s' where "thread_run name prio func arg s = Inr (t, s')"
    and "t \<in> pages (kernel_vir_pool s) - taken (kernel_vir_pool s) (mem s)"
    and "new_page t v" and "kinv s' (started t (ucast prio) (add_thread t v))"
    and "tcb_status (tcbs s' t) = TASK_READY" and "tcb_priority (tcbs s' t) = prio"
    and "tcb_ticks (tcbs s' t) = ticks_get (ucast prio)"
    and "tcb_stack_magic (tcbs s' t) = 0x19980820" and "tcb_pg_dir (tcbs s' t) = NULL"
    and "\<forall>i. first_free (sch_thread_table (sched s)) 0 = Some i \<longrightarrow>
      tcb_pid (tcbs s' t) = of_nat i"
    and "tcb_stack_top (tcbs s' t) = t + PG_SIZE - 112"
    and "entry_frame func arg (thread_stacks s' (tcb_stack_top (tcbs s' t)))"
    and "need_schedule s' \<longleftrightarrow>
      need_schedule s \<or> tcb_priority (tcbs s (RUNNING_THREAD s)) > prio"
    and "RUNNING_THREAD s' = RUNNING_THREAD s" and "sem_val s' (mtx_sem pid_mtx) = 1"
    and "\<forall>u. u \<noteq> t \<longrightarrow> tcbs s' u = tcbs s u"
proof -
  obtain t mm ph where a: "kernel_pages_malloc 1 s = Inr (t, s\<lparr>mem := mm, phys := ph\<rparr>)"
    "t \<in> pages (kernel_vir_pool s) - taken (kernel_vir_pool s) (mem s)" "new_page t v"
    "kinv (s\<lparr>mem := mm, phys := ph\<rparr>) v"
    by (rule kernel_page_ok [OF h inv])
  let ?s1 = "s\<lparr>mem := mm, phys := ph\<rparr>"
  have ni: "t \<noteq> sch_idle_thread (sched ?s1)" using a(3) idle by (auto simp: new_page_def)
  obtain u where u: "thread_tcb_init t name prio ?s1 = Inr u" "klists u (add_thread t v)"
    "tcb_status (tcbs u t) = TASK_READY" "tcb_priority (tcbs u t) = prio"
    "tcb_ticks (tcbs u t) = ticks_get (ucast prio)" "tcb_pg_dir (tcbs u t) = NULL"
    "tcb_stack_top (tcbs u t) = t + PG_SIZE" "tcb_stack_magic (tcbs u t) = 0x19980820"
    "\<forall>i. first_free (sch_thread_table (sched ?s1)) 0 = Some i \<longrightarrow> tcb_pid (tcbs u t) = of_nat i"
    "\<forall>x. x \<noteq> t \<longrightarrow> tcbs u x = tcbs ?s1 x"
    "sched u = (sched ?s1)\<lparr>sch_thread_table :=
      (case first_free (sch_thread_table (sched ?s1)) 0 of None \<Rightarrow> sch_thread_table (sched ?s1)
      | Some i \<Rightarrow> (sch_thread_table (sched ?s1))[i := t])\<rparr>"
    "mem u = mem ?s1" "phys u = phys ?s1" "cr3 u = cr3 ?s1"
    "\<forall>x. frame_of x \<noteq> t \<longrightarrow> sem_val u x = sem_val ?s1 x"
    by (rule thread_tcb_init_ok [OF kinv_klists [OF a(4)] a(3) name m(1,2) _ refl, where prio = prio and st = TASK_READY])
      (use m(3) ni in simp_all)
  let ?u = "thread_stack_init t func arg u"
  have pr: "prio_of t ?u = ucast prio" using u(4) by (simp add: prio_of_def frame)
  have pl: "(ucast prio :: u32) < PRIO_NUM"
    using p by (simp add: PRIO_NUM_def word_less_nat_alt unsigned_ucast_eq take_bit_nat_eq_self)
  have "klists ?u (add_thread t v)" using u(2) by (subst klists_cong [of _ u]) (simp_all add: frame)
  from start_kinv [OF a(4,3) this] have k: "kinv (start t ?u) (started t (ucast prio) (add_thread t v))"
    using u pl by (simp add: frame pr)
  have r: "thread_run name prio func arg s = Inr (t, start t ?u)"
    using a(1) u(1) by (simp add: thread_run_def thread_create_def thread_init_def start_def Let_def)
  have rt: "RUNNING_THREAD s \<noteq> t"
    using sinv_parts(2) [OF kinvD(1) [OF inv]] a(3) by (auto simp: new_page_def)
  have sp: "frame_of (mtx_sem pid_mtx) \<noteq> t"
    using new_page_not_static [OF a(3) m(1)] pid_sem_static by simp
  have n: "need_schedule ?u = need_schedule s" using u(11) by (simp add: need_schedule_def frame)
  have e: "entry_frame func arg (thread_stacks ?u (t + PG_SIZE - 112))"
    using thread_stack_init_frame(8) [of func arg t u] u(7) by simp
  show thesis
    by (rule that [OF r a(2,3) k]) (use u rt sp n e m(3) in \<open>simp_all add: frame\<close>)
qed

section \<open>The start of the scheduler\<close>

text \<open>Whatever page allocation does, it writes bitmaps and page tables only.\<close>

definition heap_only :: "'a kstate_scheme \<Rightarrow> 'a kstate_scheme \<Rightarrow> bool" where
  "heap_only s s' \<longleftrightarrow> (\<exists>m ph. s' = s\<lparr>mem := m, phys := ph\<rparr>)"

lemma heap_onlyI: "heap_only s (s\<lparr>mem := m\<rparr>)" "heap_only s (s\<lparr>phys := ph\<rparr>)" "heap_only s s"
proof -
  have "s\<lparr>mem := m\<rparr> = s\<lparr>mem := m, phys := phys s\<rparr>" "s\<lparr>phys := ph\<rparr> = s\<lparr>mem := mem s, phys := ph\<rparr>"
    "s = s\<lparr>mem := mem s, phys := phys s\<rparr>"
    by simp_all
  then show "heap_only s (s\<lparr>mem := m\<rparr>)" "heap_only s (s\<lparr>phys := ph\<rparr>)" "heap_only s s"
    unfolding heap_only_def by blast+
qed

lemma heap_only_trans: "heap_only s t \<Longrightarrow> heap_only t u \<Longrightarrow> heap_only s u"
  unfolding heap_only_def by (elim exE) (simp, blast)

lemma heap_only_frame:
  assumes "heap_only s s'"
  shows "nodes s' = nodes s" "tcbs s' = tcbs s" "sched s' = sched s" "sem_val s' = sem_val s"
    "cr3 s' = cr3 s" "kstate.more s' = kstate.more s"
  using assms by (auto simp: heap_only_def)

lemma store_heap_only:
  "vstore a w s = Inr s' \<Longrightarrow> heap_only s s'" "vclear_page a s = Inr s' \<Longrightarrow> heap_only s s'"
  "pte_fill a w s = Inr s' \<Longrightarrow> heap_only s s'"
  by (auto simp: vstore_def vclear_page_def pte_fill_def heap_onlyI elim!: and_then_InrE
    split: option.splits if_splits)

lemma v2p_heap_only:
  assumes "v2p_mapping x pa s = Inr s'"
  shows "heap_only s s'"
proof -
  obtain pt m where pt: "paddr_get (kernel_phy_pool s) (mem s) = (pt, m)" by fastforce
  from assms consider "pte_fill (pte_vaddr_get x) pa s = Inr s'"
    | u w where "vstore (pde_vaddr_get x) (pt OR PG_US_U OR PG_RW_W OR PG_P_1) (s\<lparr>mem := m\<rparr>) = Inr u"
      "vclear_page (pte_vaddr_get x AND 0xfffff000) u = Inr w" "pte_fill (pte_vaddr_get x) pa w = Inr s'"
    unfolding v2p_mapping_def Let_def pt by (auto elim!: and_then_InrE split: if_splits)
  then show ?thesis
  proof cases
    case (2 u w)
    then have "heap_only (s\<lparr>mem := m\<rparr>) u" "heap_only u w" "heap_only w s'"
      using store_heap_only by blast+
    then show ?thesis using heap_onlyI(1) [of s m] by (blast intro: heap_only_trans)
  qed (rule store_heap_only(3))
qed

lemma malloc_loop_heap_only: "malloc_loop n pf x s = Inr (b, s') \<Longrightarrow> heap_only s s'"
proof (induction n arbitrary: x s)
  case 0
  then show ?case by (simp add: heap_onlyI)
next
  case (Suc n)
  obtain pa m where pa: "paddr_get (phy_pool pf s) (mem s) = (pa, m)" by fastforce
  from Suc.prems consider "s' = s\<lparr>mem := m\<rparr>"
    | u where "v2p_mapping x pa (s\<lparr>mem := m\<rparr>) = Inr u" "malloc_loop n pf (x + PG_SIZE) u = Inr (b, s')"
    by (auto simp: pa Let_def elim!: and_then_InrE split: if_splits)
  then show ?case
  proof cases
    case (2 u)
    then have "heap_only (s\<lparr>mem := m\<rparr>) u" "heap_only u s'" using v2p_heap_only Suc.IH by blast+
    then show ?thesis using heap_onlyI(1) [of s m] by (blast intro: heap_only_trans)
  qed (simp add: heap_onlyI)
qed

lemma kernel_pages_heap_only:
  assumes "kernel_pages_malloc n s = Inr (a, s')"
  shows "heap_only s s'"
proof -
  let ?p = "vpages_get (vir_pool PF_KERNEL s) n (mem s)"
  from assms consider "s' = s\<lparr>mem := snd ?p\<rparr>"
    | b where "malloc_loop (unat n) PF_KERNEL (fst ?p) (s\<lparr>mem := snd ?p\<rparr>) = Inr (b, s')"
    by (auto simp: kernel_pages_malloc_def malloc_page_def vaddr_get_eq elim!: and_then_InrE split: if_splits)
  then show ?thesis
  proof cases
    case (2 b)
    with heap_onlyI(1) [of s "snd ?p"] show ?thesis
      by (blast intro: heap_only_trans malloc_loop_heap_only)
  qed (simp add: heap_onlyI)
qed

text \<open>
  The scheduler's start: given a page for the run-queue mask, \<^verbatim>\<open>thread_all_init\<close> turns the
  running code into the idle thread and establishes the kernel's invariant.
\<close>

lemma thread_all_init_ok:
  fixes s :: "'a kstate_scheme"
  defines "s0 \<equiv> put_str (lit ''thread_all_init begin\<newline>'') s"
  assumes pg: "kernel_pages_malloc 1 (sched_cleared s0) = Inr (base, s1)" "base \<noteq> NULL"
    and t: "t = running_thread_get esp" "t \<noteq> NULL" "t \<noteq> static_page"
  obtains s' where "thread_all_init esp s = Inr s'"
    and "kinv s' (started t 31 (add_thread t empty_view))"
    and "RUNNING_THREAD s' = t" and "sch_idle_thread (sched s') = t"
    and "tcb_pid (tcbs s' t) = 0" and "sch_thread_table (sched s') ! 0 = t"
    and "tcb_stack_magic (tcbs s' t) = 0x19980820" and "tcb_pg_dir (tcbs s' t) = NULL"
    and "sem_val s' (mtx_sem pid_mtx) = 1" and "\<not> need_schedule s'" and "cr3 s' = cr3 s"
    and "heap_masked base s1 s'" and "sch_thread_table (sched s') = (replicate MAX_THREAD_NUM NULL)[0 := t]"
    and "kstate.more s' = kstate.more s" and "tcb_ticks (tcbs s' t) = 11"
proof -
  note h = heap_only_frame [OF kernel_pages_heap_only [OF pg(1)]]
  obtain u b where u: "scheduler_init s0 = Inr u" "rq_inv u empty_view" "sem_val u (mtx_sem pid_mtx) = 1"
    "cr3 u = cr3 s1" "sched u = (sched s1)\<lparr>sch_rq_mask := b\<rparr>" "wf_bitmap (RQ_MASK_BITMAP u)"
    "heap_masked base s1 u" "kstate.more u = kstate.more s1"
    by (rule scheduler_init_ok [OF pg]) blast
  have tab: "sch_thread_table (sched u) = replicate MAX_THREAD_NUM NULL" "\<not> need_schedule u"
    using u(5) h(3) by (simp_all add: sched_cleared_def need_schedule_def)
  obtain s' where i: "idle_thread_make esp u = Inr s'" "kinv s' (started t 31 (add_thread t empty_view))"
    "RUNNING_THREAD s' = t" "sch_idle_thread (sched s') = t" "tcb_pid (tcbs s' t) = 0"
    "sch_thread_table (sched s') ! 0 = t" "tcb_stack_magic (tcbs s' t) = 0x19980820"
    "tcb_pg_dir (tcbs s' t) = NULL" "sem_val s' (mtx_sem pid_mtx) = 1" "\<not> need_schedule s'" "same_heap u s'"
    "sch_thread_table (sched s') = (replicate MAX_THREAD_NUM NULL)[0 := t]" "kstate.more s' = kstate.more u" "tcb_ticks (tcbs s' t) = 11"
    by (rule idle_thread_make_ok [OF u(2,3) t tab u(6)])
  let ?s' = "put_str (lit ''thread_all_init done\<newline>'') s'"
  have "thread_all_init esp s = Inr ?s'" using u(1) i(1) by (simp add: thread_all_init_def s0_def)
  moreover have "kinv ?s' (started t 31 (add_thread t empty_view))"
    using i(2) by (subst kinv_cong [of _ s']) (simp_all add: frame)
  moreover have "cr3 u = cr3 s" using u(4) h(5) by (simp add: sched_cleared_def s0_def frame)
  moreover have "heap_masked base s1 ?s'" using u(7) i(11) by (simp add: heap_masked_def same_heap_def frame)
  moreover have "kstate.more ?s' = kstate.more s"
    using u(8) i(13) h(6) by (simp add: sched_cleared_def s0_def frame)
  ultimately show thesis
    using i by (intro that [of ?s']) (simp_all add: frame same_heap_def, simp add: need_schedule_def frame)
qed

end
