(* ===== verification/Scenario.thy ===== *)
theory Scenario
  imports System Thread_Inv
begin

text \<open>
  A concrete kernel: empty lists, a run-queue mask, a page directory that maps itself, a heap of
  one free page, and then the idle thread made by \<open>idle_thread_make\<close> and a second thread
  started with priority 0. It shows that the hypotheses of the theorems on the scheduler, the
  semaphores and the transition system hold together.
\<close>

section \<open>The machine before the scheduler starts\<close>

definition node0 :: "addr \<Rightarrow> list_elem" where
  "node0 a = null_node"

definition phys0 :: "u32 \<Rightarrow> u32" where
  "phys0 a = (if a = 0x100ffc then 0x100003 else if a = 0x100c00 then 0x101003 else 0)"

definition mask0 :: bitmap where
  "mask0 = \<lparr>base_addr = 0xc009b000, bit_num = 32, byte_len = 4\<rparr>"

definition heap0 :: pool where
  "heap0 = \<lparr>btmp = \<lparr>base_addr = 0xc009a000, bit_num = 1, byte_len = 1\<rparr>,
     addr_base = 0xc0200000, pool_size = 4096\<rparr>"

definition frames0 :: pool where
  "frames0 = \<lparr>btmp = \<lparr>base_addr = 0xc009a010, bit_num = 1, byte_len = 1\<rparr>,
     addr_base = 0x200000, pool_size = 4096\<rparr>"

definition sched0 :: scheduler where
  "sched0 = \<lparr>sch_running_thread = NULL, sch_need_schedule = False, sch_idle_thread = NULL,
     sch_thread_table = replicate MAX_THREAD_NUM NULL, sch_rq_mask = mask0\<rparr>"

definition tss0 :: tss where
  "tss0 = \<lparr>seg_backlink = 0, seg_esp0 = 0, seg_ss0 = 0, seg_esp1 = 0, seg_ss1 = 0, seg_esp2 = 0,
     seg_ss2 = 0, seg_cr3 = 0, seg_eip = 0, seg_eflags = 0, seg_eax = 0, seg_ecx = 0, seg_edx = 0,
     seg_ebx = 0, seg_esp = 0, seg_ebp = 0, seg_esi = 0, seg_edi = 0, seg_es = 0, seg_cs = 0,
     seg_ss = 0, seg_ds = 0, seg_fs = 0, seg_gs = 0, seg_ldt = 0, seg_trace = 0, seg_io_base = 0\<rparr>"

definition istack0 :: intr_stack where
  "istack0 = \<lparr>is_save_flag = ALL_SAVE_FLAG, is_edi = 0, is_esi = 0, is_ebp = 0, is_esp_dummy = 0,
     is_ebx = 0, is_edx = 0, is_ecx = 0, is_eax = 0, is_gs = 0, is_fs = 0, is_es = 0, is_ds = 0,
     is_err_code = 0, is_eip = 0, is_cs = 0, is_eflags = 0, is_esp = 0, is_ss = 0\<rparr>"

definition tstack0 :: thread_stack where
  "tstack0 = \<lparr>ts_save_flag = FAST_SAVE_FLAG, ts_ebp = 0, ts_ebx = 0, ts_edi = 0, ts_esi = 0,
     ts_eip = No_code, ts_unused_ret_addr = 0, ts_func = No_code, ts_func_arg = 0\<rparr>"

definition gate0 :: gate_desc where
  "gate0 = \<lparr>func_offset_low_word = 0, selector = 0, dcount = 0, attribute = 0,
     func_offset_high_word = 0\<rparr>"

definition ioq0 :: ioqueue where
  "ioq0 = \<lparr>producer = NULL, consumer = NULL, buf = replicate 64 0, head = 0, tail = 0\<rparr>"

definition raw0 :: kernel where
  "raw0 = \<lparr>eflags = 0x202, crt_index = 0, crt_regs = \<lambda>_. 0, in_ports = \<lambda>_. 0, out_log = [],
     video = \<lambda>_. 0, nodes = node0, mem = \<lambda>_. 0, phys = phys0, cr3 = 0x100000,
     tcbs = \<lambda>_. zero_tcb, sem_val = \<lambda>_. 0, mtx_holder = \<lambda>_. NULL, sched = sched0,
     kernel_phy_pool = frames0, user_phy_pool = frames0, kernel_vir_pool = heap0, tss_seg = tss0,
     intr_stacks = \<lambda>_. istack0, thread_stacks = \<lambda>_. tstack0, idt = replicate IDT_DESC_CNT gate0,
     idtr = 0, idt_table = replicate IDT_DESC_CNT No_code, gdt = [], gdtr = 0, tr = 0,
     syscall_table = replicate 32 No_code, ticks = 0, ioqs = \<lambda>_. ioq0, ext_scan_code = False,
     ctrl_status = False, shift_status = False, alt_status = False, caps_lock_status = False\<rparr>"

definition k0 :: kernel where
  "k0 = mutex_init pid_mtx (list_init all_list (rq_init_loop (unat PRIO_NUM) 0 raw0))"

lemma k0_fields:
  "mem k0 = (\<lambda>_. 0)" "phys k0 = phys0" "cr3 k0 = 0x100000" "sched k0 = sched0"
  "kernel_vir_pool k0 = heap0" "kernel_phy_pool k0 = frames0"
  "sem_val k0 (mtx_sem pid_mtx) = 1"
proof -
  have "kernel_vir_pool (rq_init_loop n i s) = kernel_vir_pool s"
    "kernel_phy_pool (rq_init_loop n i s) = kernel_phy_pool s" for n i and s :: kernel
    by (induction n arbitrary: i s) (simp_all add: list_init_kframe)
  then show "kernel_vir_pool k0 = heap0" "kernel_phy_pool k0 = frames0"
    by (simp_all add: k0_def frame list_init_kframe raw0_def)
qed (simp_all add: k0_def frame list_init_kframe raw0_def)

lemma k0_ioqs: "ioqs k0 = (\<lambda>_. ioq0)"
proof -
  have "ioqs (list_init l s) = ioqs s" for l and s :: kernel
    by (rule ioqs_more) (simp add: list_init_kframe)
  moreover from this have "ioqs (rq_init_loop n i s) = ioqs s" for n i and s :: kernel
    by (induction n arbitrary: i s) simp_all
  ultimately show ?thesis by (simp add: k0_def mutex_init_def sem_init_def holder_ioqs raw0_def)
qed

lemma k0_inv: "rq_inv k0 empty_view"
proof -
  have "klists k0 empty_view" unfolding k0_def by (rule scheduler_lists)
  then show ?thesis
    by (simp add: rq_inv_def mask_ok_def prio_ok_def k0_fields sched0_def mask0_def PRIO_NUM_def bitmap_get_def)
qed

section \<open>Two threads\<close>

definition outcome :: "'s halt + 's \<Rightarrow> 's" where
  "outcome r = (case r of Inr s \<Rightarrow> s | Inl (Suspended s) \<Rightarrow> s)"

lemma outcome_simps [simp]: "outcome (Inr s) = s" "outcome (Inl (Suspended s)) = s"
  by (simp_all add: outcome_def)

definition idle_t :: addr where "idle_t = 0xc009f000"
definition work_t :: addr where "work_t = 0xc0300000"

lemma byte_prio:
  assumes "prio_of t s = x"
  shows "tcb_priority (tcbs s t) = ucast x"
proof -
  have "(ucast (ucast b :: u32) :: u8) = b" for b by (rule bit_word_eqI) (simp add: bit_unsigned_iff)
  then show ?thesis using assms by (auto simp: prio_of_def)
qed

definition v1 :: kview where
  "v1 = started idle_t 31 (add_thread idle_t empty_view)"

definition k1 :: kernel where
  "k1 = outcome (idle_thread_make 0xc009fe00 k0)"

lemma k1_facts:
  "idle_thread_make 0xc009fe00 k0 = Inr k1" "kinv k1 v1" "RUNNING_THREAD k1 = idle_t"
  "sch_idle_thread (sched k1) = idle_t" "tcb_stack_magic (tcbs k1 idle_t) = 0x19980820"
  "tcb_pg_dir (tcbs k1 idle_t) = NULL" "sem_val k1 (mtx_sem pid_mtx) = 1" "\<not> need_schedule k1"
  "same_heap k0 k1" "tcb_priority (tcbs k1 idle_t) = 31"
  "tcb_ticks (tcbs k1 idle_t) = 11" "ioqs k1 = (\<lambda>_. ioq0)"
proof -
  obtain s' where s': "idle_thread_make 0xc009fe00 k0 = Inr s'"
    "kinv s' (started idle_t 31 (add_thread idle_t empty_view))"
    "RUNNING_THREAD s' = idle_t" "sch_idle_thread (sched s') = idle_t"
    "tcb_stack_magic (tcbs s' idle_t) = 0x19980820" "tcb_pg_dir (tcbs s' idle_t) = NULL"
    "sem_val s' (mtx_sem pid_mtx) = 1" "\<not> need_schedule s'" "same_heap k0 s'"
    "kstate.more s' = kstate.more k0" "tcb_ticks (tcbs s' idle_t) = 11"
    by (rule idle_thread_make_ok [OF k0_inv k0_fields(7), of idle_t "0xc009fe00"])
      (auto simp: idle_t_def running_thread_get_def static_page_def k0_fields sched0_def
        need_schedule_def wf_bitmap_def mask0_def bit_num_2_byte_len_def)
  moreover have "prio_of idle_t s' = 31"
    using rq_invD(3) [OF sinv_parts(1) [OF kinvD(1) [OF s'(2)]]]
    by (auto simp: prio_ok_def started_def view_defs PRIO_NUM_def)
  then have "tcb_priority (tcbs s' idle_t) = 31"
    using byte_prio [of idle_t s' 31] by simp
  moreover have "ioqs s' = (\<lambda>_. ioq0)" using ioqs_more [OF s'(10)] k0_ioqs by simp
  ultimately show "idle_thread_make 0xc009fe00 k0 = Inr k1" "kinv k1 v1" "RUNNING_THREAD k1 = idle_t"
    "sch_idle_thread (sched k1) = idle_t" "tcb_stack_magic (tcbs k1 idle_t) = 0x19980820"
    "tcb_pg_dir (tcbs k1 idle_t) = NULL" "sem_val k1 (mtx_sem pid_mtx) = 1" "\<not> need_schedule k1"
    "same_heap k0 k1" "tcb_priority (tcbs k1 idle_t) = 31"
    "tcb_ticks (tcbs k1 idle_t) = 11" "ioqs k1 = (\<lambda>_. ioq0)"
    by (simp_all add: k1_def v1_def)
qed

text \<open>The second thread is set up on its page as \<^verbatim>\<open>thread_run\<close> does and joins the queues.\<close>

definition k2 :: kernel where
  "k2 = start work_t (outcome (thread_tcb_init work_t (lit ''work'') 0 k1))"

definition v2 :: kview where
  "v2 = started work_t 0 (add_thread work_t v1)"

lemma new_page_static:
  assumes "aligned t" "t \<noteq> NULL" "t \<noteq> static_page" "t \<notin> vt v" "vs v = {mtx_sem pid_mtx}"
  shows "new_page t v"
  using assms static_lists unfolding new_page_def kidx_def by fastforce

lemma k2_facts:
  "kinv k2 v2" "RUNNING_THREAD k2 = idle_t" "need_schedule k2" "sem_val k2 (mtx_sem pid_mtx) = 1"
  "tcb_stack_magic (tcbs k2 idle_t) = 0x19980820" "tcb_stack_magic (tcbs k2 work_t) = 0x19980820"
  "tcb_pg_dir (tcbs k2 idle_t) = NULL" "tcb_pg_dir (tcbs k2 work_t) = NULL"
  "tcb_status (tcbs k2 work_t) = TASK_READY" "cr3 k2 = 0x100000" "phys k2 = phys0"
  "tcb_priority (tcbs k2 idle_t) = 31"  "tcb_priority (tcbs k2 work_t) = 0"
  "tcb_ticks (tcbs k2 idle_t) = 11" "tcb_ticks (tcbs k2 work_t) = 1" "kbd_ok k2" "kbd_room k2"
proof -
  note k = k1_facts
  have pg: "new_page work_t v1"
    by (rule new_page_static) (simp_all add: work_t_def aligned_def static_page_def v1_def idle_t_def)
  have nm: "length (lit ''work'') \<le> 16" by (simp add: lit_def)
  obtain u where u: "thread_tcb_init work_t (lit ''work'') 0 k1 = Inr u" "klists u (add_thread work_t v1)"
    "tcb_status (tcbs u work_t) = TASK_READY" "tcb_priority (tcbs u work_t) = 0"
    "tcb_pg_dir (tcbs u work_t) = NULL" "tcb_stack_magic (tcbs u work_t) = 0x19980820"
    "\<forall>x. x \<noteq> work_t \<longrightarrow> tcbs u x = tcbs k1 x"
    "sched u = (sched k1)\<lparr>sch_thread_table :=
      (case first_free (sch_thread_table (sched k1)) 0 of None \<Rightarrow> sch_thread_table (sched k1)
       | Some i \<Rightarrow> (sch_thread_table (sched k1))[i := work_t])\<rparr>"
    "mem u = mem k1" "phys u = phys k1" "cr3 u = cr3 k1"
    "\<forall>x. frame_of x \<noteq> work_t \<longrightarrow> sem_val u x = sem_val k1 x"
    "tcb_ticks (tcbs u work_t) = ticks_get (ucast (0 :: u8))" "kstate.more u = kstate.more k1"
    by (rule thread_tcb_init_ok [OF kinv_klists [OF k(2)] pg nm, where prio = 0 and st = TASK_READY])
      (use k in \<open>auto simp: v1_def work_t_def idle_t_def\<close>)
  have k2: "k2 = start work_t u" using u(1) by (simp add: k2_def)
  have p: "prio_of work_t u = 0" using u(4) by (simp add: prio_of_def)
  have ne: "idle_t \<noteq> work_t" by (simp add: idle_t_def work_t_def)
  have "kinv (start work_t u) (started work_t (prio_of work_t u) (add_thread work_t v1))"
    by (rule start_kinv [OF k(2) pg u(2,3)]) (use p u in \<open>simp_all add: PRIO_NUM_def\<close>)
  then show "kinv k2 v2" by (simp add: k2 v2_def p)
  have "frame_of (mtx_sem pid_mtx) \<noteq> work_t"
    using pid_sem_static by (simp add: static_page_def work_t_def)
  then show "sem_val k2 (mtx_sem pid_mtx) = 1" using u(12) k(7) by (simp add: k2 frame)
  have "need_schedule u = need_schedule k1" using u(8) by (simp add: need_schedule_def)
  then show "need_schedule k2" using u(4,7,8) k(3,10) ne by (simp add: k2 frame)
  show "RUNNING_THREAD k2 = idle_t"
    "tcb_stack_magic (tcbs k2 idle_t) = 0x19980820" "tcb_stack_magic (tcbs k2 work_t) = 0x19980820"
    "tcb_pg_dir (tcbs k2 idle_t) = NULL" "tcb_pg_dir (tcbs k2 work_t) = NULL"
    "tcb_status (tcbs k2 work_t) = TASK_READY" "cr3 k2 = 0x100000" "phys k2 = phys0"
    "tcb_priority (tcbs k2 idle_t) = 31"  "tcb_priority (tcbs k2 work_t) = 0"
    using u k ne k0_fields by (simp_all add: k2 frame same_heap_def)
  show "tcb_ticks (tcbs k2 idle_t) = 11" "tcb_ticks (tcbs k2 work_t) = 1"
    using u(7,13) k(11) ne by (simp_all add: k2 frame ticks_get_def)
  have "ioqs k2 = (\<lambda>_. ioq0)" using ioqs_more [of k2 k1] u(14) k(12) by (simp add: k2 frame)
  then show "kbd_ok k2" "kbd_room k2"
    by (simp_all add: kbd_ok_def kbd_room_def ioq0_def ioq_wf_def ioq_len_def BUF_SIZE_def)
qed

section \<open>The transition system\<close>

definition c2 :: lsys where
  "c2 = \<lparr>kern = k2, crit = \<lambda>_. {}, pcs = \<lambda>_. Run\<rparr>"

lemma v2_sel: "vt v2 = {work_t, idle_t}" "queued v2 = {work_t, idle_t}" "waiting v2 = {}"
  "vs v2 = {mtx_sem pid_mtx}" "vw v2 m = []"
  by (auto simp: v2_def v1_def queued_started PRIO_NUM_def)

lemma k2_spaces: "spaces_ok {0x100000} k2 (vt v2)"
  using k2_facts by (auto simp: spaces_ok_def v2_sel space_of_def KERNEL_PAGE_DIR_BASE_ADDR_def)

lemma k2_activatable: "t \<in> vt v2 \<Longrightarrow> activatable t k2"
  using k2_facts by (auto simp: v2_sel activatable_def)

lemma c2_init: "linit {pid_mtx} {0x100000} c2"
  unfolding linit_def using k2_facts k2_spaces
  by (intro conjI exI [of _ v2]) (auto simp: c2_def v2_sel STACK_MAGIC_def)

text \<open>The idle thread has taken the mutex of the thread table.\<close>

definition c3 :: lsys where
  "c3 = (goto (Acquired pid_mtx) (enter pid_mtx c2))\<lparr>kern := set_sem_val (mtx_sem pid_mtx) 0 k2\<rparr>"

lemma c3_reach: "lreach {pid_mtx} {0x100000} c3"
proof (rule lreach.step [OF lreach.init [OF c2_init]])
  have "sem_down (mtx_sem pid_mtx) (kern c2) = Inr (set_sem_val (mtx_sem pid_mtx) 0 k2)"
    using sem_down_free [of k2 "mtx_sem pid_mtx"] k2_facts(4) by (simp add: c2_def)
  then show "lstep {pid_mtx} c2 c3"
    unfolding c3_def by (intro lstep.down_ok) (simp_all add: may_lock_def c2_def)
qed

lemma c3_crit: "crit c3 pid_mtx = {idle_t}"
  using k2_facts(2) by (simp add: c3_def enter_def c2_def)

text \<open>The clock ends the slice of the idle thread, and the second thread runs.\<close>

definition c4 :: lsys where
  "c4 = c3\<lparr>kern := outcome (clock_interrupt 0xc009fd00 (kern c3))\<rparr>"

definition v4 :: kview where
  "v4 = requeue idle_t 31 v2"

lemma c3_kern:
  "kinv (kern c3) v2" "RUNNING_THREAD (kern c3) = idle_t" "need_schedule (kern c3)"
  "tcbs (kern c3) = tcbs k2" "phys (kern c3) = phys k2" "cr3 (kern c3) = cr3 k2"
  "sem_val (kern c3) (mtx_sem pid_mtx) = 0" "t \<in> vt v2 \<Longrightarrow> activatable t (kern c3)"
  "prio_of t (kern c3) = prio_of t k2"
proof -
  show "kinv (kern c3) v2" using k2_facts(1) by (subst kinv_cong [of _ k2]) (simp_all add: c3_def frame)
  show "activatable t (kern c3)" if "t \<in> vt v2"
    using k2_activatable [OF that] by (simp add: activatable_def c3_def frame)
qed (use k2_facts in \<open>simp_all add: c3_def frame prio_of_def\<close>)

lemma v4_queues: "vq v4 0 = [work_t, idle_t]" "queued v4 = {work_t, idle_t}" "least_q v4 0"
proof -
  show q: "vq v4 0 = [work_t, idle_t]"
    by (simp add: v4_def requeue_def view_defs v2_def v1_def started_def next_prio_def PRIO_NUM_def)
  have "prio_of idle_t k2 = 31" using k2_facts(12) by (simp add: prio_of_def)
  then show "queued v4 = {work_t, idle_t}"
    using requeue_pinv(2) [OF kinvD(1) [OF k2_facts(1)], of idle_t] k2_facts(2) v2_sel(2)
    by (simp add: v4_def)
  show "least_q v4 0" using q by (simp add: least_q_def PRIO_NUM_def)
qed

lemma c4_facts:
  "clock_interrupt 0xc009fd00 (kern c3) = Inr (kern c4)" "kinv (kern c4) v4"
  "RUNNING_THREAD (kern c4) = work_t" "sem_val (kern c4) (mtx_sem pid_mtx) = 0"
  "crit c4 = crit c3" "pcs c4 = pcs c3"
proof -
  have mg: "tcb_stack_magic (tcbs (kern c3) idle_t) = STACK_MAGIC"
    using k2_facts(5) by (simp add: c3_kern STACK_MAGIC_def)
  have v4: "v4 = (if True then requeue idle_t (prio_of idle_t (kern c3)) v2 else v2)"
    using k2_facts(12) by (simp add: v4_def c3_kern(4) prio_of_def)
  obtain s' where s': "clock_interrupt 0xc009fd00 (kern c3) = Inr s'" "kinv s' v4"
    "sem_val s' = sem_val (kern c3)" "\<exists>p. least_q v4 p \<and> RUNNING_THREAD s' = hd (vq v4 p)"
    by (rule clock_interrupt_kinv [OF c3_kern(1) mg c3_kern(2) [symmetric] c3_kern(8) _ v4, of "0xc009fd00"])
      (use c3_kern(3) in auto)
  moreover have "RUNNING_THREAD s' = work_t"
    using s'(4) least_q_unique [OF v4_queues(3)] v4_queues(1) by fastforce
  ultimately show "clock_interrupt 0xc009fd00 (kern c3) = Inr (kern c4)" "kinv (kern c4) v4"
    "RUNNING_THREAD (kern c4) = work_t" "sem_val (kern c4) (mtx_sem pid_mtx) = 0"
    using c3_kern(7) by (simp_all add: c4_def)
qed (simp_all add: c4_def)

lemma c4_reach: "lreach {pid_mtx} {0x100000} c4"
proof (rule lreach.step [OF c3_reach])
  have "c4 = c3\<lparr>kern := kern c4\<rparr>" by (simp add: c4_def)
  then show "lstep {pid_mtx} c3 c4" using lstep.clock [OF c4_facts(1), of "{pid_mtx}"] by simp
qed

text \<open>The second thread asks for the mutex and waits; the idle thread goes on.\<close>

definition c5 :: lsys where
  "c5 = (goto (Waiting pid_mtx (intr_get_status (kern c4))) c4)
     \<lparr>kern := outcome (sem_down (mtx_sem pid_mtx) (kern c4))\<rparr>"

lemma c5_reach: "lreach {pid_mtx} {0x100000} c5"
proof (rule lreach.step [OF c4_reach])
  obtain v where inv: "linv {pid_mtx} {0x100000} c4 v" using lreach_linv [OF c4_reach] by blast
  have ml: "may_lock c4"
    using c4_facts(3,5,6) by (auto simp: may_lock_def c3_def c2_def enter_def k2_facts(2) idle_t_def work_t_def)
  then have a: "asks {pid_mtx} c4 pid_mtx" by (simp add: may_lock_asks)
  obtain s' where "sem_down (mtx_sem pid_mtx) (kern c4) = Inl (Suspended s')"
    using taken_suspends [OF inv a c4_facts(4)] sem_down_first by metis
  then show "lstep {pid_mtx} c4 c5"
    using lstep.down_wait [OF ml, of pid_mtx "{pid_mtx}" s'] by (simp add: c5_def)
qed

lemma c5_facts: "crit c5 pid_mtx = {idle_t}" "\<exists>i. pcs c5 work_t = Waiting pid_mtx i"
  using c4_facts(3,5) c3_crit by (simp_all add: c5_def)

definition v5 :: kview where
  "v5 = deq work_t 0 (set_w (mtx_sem pid_mtx) [work_t] v4)"

lemma v5_sel: "vw v5 (mtx_sem pid_mtx) = [work_t]" "vs v5 = {mtx_sem pid_mtx}" "vt v5 = {work_t, idle_t}"
  by (auto simp: v5_def view_defs v4_def v2_sel)

lemma c5_kern: "kinv (kern c5) v5" "sem_val (kern c5) (mtx_sem pid_mtx) = 0" "RUNNING_THREAD (kern c5) = idle_t"
proof -
  have vv: "vt v4 = {work_t, idle_t}" "vs v4 = {mtx_sem pid_mtx}" "vw v4 m = []" for m
    by (simp_all add: v4_def v2_sel)
  obtain v where "linv {pid_mtx} {0x100000} c4 v" using lreach_linv [OF c4_reach] by blast
  have mg: "tcb_stack_magic (tcbs (kern c3) idle_t) = STACK_MAGIC"
    using k2_facts(5) by (simp add: c3_kern STACK_MAGIC_def)
  obtain s' where s': "clock_interrupt 0xc009fd00 (kern c3) = Inr s'"
    "if True then switched (kern c3) s' else same_dirs (kern c3) s' \<and> cr3 s' = cr3 (kern c3)"
    by (rule clock_interrupt_kinv [OF c3_kern(1) mg c3_kern(2) [symmetric] c3_kern(8) _ refl, of True "0xc009fd00"])
      (use c3_kern(3) in auto)
  then have d: "same_dirs (kern c3) (kern c4)" using c4_facts(1) by (simp add: switched_def)
  have act: "activatable t (kern c4)" if "t \<in> vt v4" for t
    using that d k2_facts(7,8) by (auto simp: vv activatable_def same_dirs_def c3_kern(4))
  have "prio_of work_t (kern c4) = 0"
    using rq_invD(3) [OF sinv_parts(1) [OF kinvD(1) [OF c4_facts(2)]]] v4_queues(1)
    by (auto simp: prio_ok_def PRIO_NUM_def)
  then have v5: "v5 = deq work_t (prio_of work_t (kern c4))
      (set_w (mtx_sem pid_mtx) (vw v4 (mtx_sem pid_mtx) @ [work_t]) v4)"
    by (simp add: v5_def vv)
  have o: "queued v4 - {work_t} \<noteq> {}" by (simp add: v4_queues(2) idle_t_def work_t_def)
  obtain u p where u: "sem_down_resume (mtx_sem pid_mtx) (intr_get_status (kern c4)) (kern c4) = Inl (Suspended u)"
    "kinv u v5" "sem_val u = sem_val (kern c4)" "RUNNING_THREAD u = hd (vq v5 p)" "least_q v5 p"
    by (rule sem_down_resume_suspends [OF c4_facts(2) _ c4_facts(4) c4_facts(3) [symmetric] o act v5])
      (use vv in auto)
  have "work_t \<noteq> idle_t" by (simp add: idle_t_def work_t_def)
  then have "vq v5 0 = [idle_t]" by (simp add: v5_def view_defs v4_queues(1))
  moreover from this have "least_q v5 0" by (simp add: least_q_def PRIO_NUM_def)
  ultimately have "RUNNING_THREAD u = idle_t" using u(4) least_q_unique [OF u(5)] by fastforce
  with u c4_facts(4) show "kinv (kern c5) v5" "sem_val (kern c5) (mtx_sem pid_mtx) = 0"
    "RUNNING_THREAD (kern c5) = idle_t"
    by (simp_all add: c5_def sem_down_first)
qed

section \<open>A heap with one free page\<close>

lemma heap0_pages: "pages heap0 = {0xc0200000}" "taken heap0 (\<lambda>_. 0) = {}"
proof -
  have "{i :: u32. i < 1} = {0}" by auto
  then show "pages heap0 = {0xc0200000}" by (simp add: pages_def page_at_def heap0_def)
  show "taken heap0 (\<lambda>_. 0) = {}" by (simp add: taken_def bitmap_get_def)
qed

lemma frames0_pages: "pages frames0 = {0x200000}" "taken frames0 (\<lambda>_. 0) = {}"
proof -
  have "{i :: u32. i < 1} = {0}" by auto
  then show "pages frames0 = {0x200000}" by (simp add: pages_def page_at_def frames0_def)
  show "taken frames0 (\<lambda>_. 0) = {}" by (simp add: taken_def bitmap_get_def)
qed

lemma pools0_wf: "wf_pool heap0" "wf_pool frames0" "wf_bitmap mask0"
  "maps_apart (btmp heap0) (btmp frames0)" "maps_apart mask0 (btmp heap0)" "maps_apart mask0 (btmp frames0)"
proof -
  show "maps_apart (btmp heap0) (btmp frames0)"
    by (rule maps_apart_adjacent [where base = "0xc009a000"]) (simp_all add: heap0_def frames0_def)
  have "maps_apart (btmp heap0) mask0" "maps_apart (btmp frames0) mask0"
    by (rule maps_apart_adjacent [where base = "0xc009a000"]; simp add: heap0_def mask0_def)
      (rule maps_apart_adjacent [where base = "0xc009a010"]; simp add: frames0_def mask0_def)
  then show "maps_apart mask0 (btmp heap0)" "maps_apart mask0 (btmp frames0)"
    by (auto simp: maps_apart_def)
qed (simp_all add: wf_pool_def heap0_def frames0_def mask0_def wf_bitmap_def bit_num_2_byte_len_def aligned_def)

lemma phys0_map: "selfmap phys0 0x100000" "mappable phys0 0x100000 0xc0200000"
  by (simp_all add: selfmap_def mappable_def phys0_def frame_of_def pde_slot_def pte_slot_def
    PDE_IDX_def PTE_IDX_def)

lemma k1_heap: "heap_ready k1 v1"
proof -
  have e: "kernel_vir_pool k1 = heap0" "kernel_phy_pool k1 = frames0" "phys k1 = phys0" "cr3 k1 = 0x100000"
    "RQ_MASK_BITMAP k1 = mask0" "\<And>a. \<not> in_map mask0 a \<Longrightarrow> mem k1 a = 0"
    using k1_facts(9) k0_fields by (auto simp: same_heap_def sched0_def)
  have t: "taken heap0 (mem k1) = {}" "taken frames0 (mem k1) = {}"
  proof -
    have "mem k1 a = 0" if "in_map (btmp heap0) a \<or> in_map (btmp frames0) a" for a
      using that pools0_wf(5,6) e(6) by (auto simp: maps_apart_def)
    then show "taken heap0 (mem k1) = {}" "taken frames0 (mem k1) = {}"
      using taken_cong [OF pools0_wf(1), of "mem k1" "\<lambda>_. 0"] taken_cong [OF pools0_wf(2), of "mem k1" "\<lambda>_. 0"]
      by (simp_all add: heap0_pages frames0_pages)
  qed
  have "mem k1 0xc009a000 = 0" by (rule e(6)) (simp add: in_map_def mask0_def)
  then have sc: "bitmap_scan (btmp heap0) 0 1 (mem k1) = 0"
    by (simp add: bitmap_scan_def scan_loop.simps bitmap_get_def heap0_def)
  have "range_ok phys0 0x100000 0xc0200000 1"
    using phys0_map(2) by (simp add: range_ok_def nth_page_def)
  moreover have "run_pages v 1 = {v}" for v using word_less_1 by (auto simp: run_pages_def)
  ultimately have fu: "free_unmapped PF_KERNEL 1 k1"
    by (simp add: free_unmapped_def vir_pool_def e heap0_pages t)
  have "new_page 0xc0200000 v1"
    by (rule new_page_static) (simp_all add: aligned_def static_page_def v1_def idle_t_def)
  then show ?thesis
    unfolding heap_ready_def e using pools0_wf phys0_map(1) sc fu
    by (simp add: t heap0_pages frames0_pages)
qed

lemma raw0_page:
  "\<exists>base s1. kernel_pages_malloc 1 (sched_cleared (put_str cs raw0)) = Inr (base, s1) \<and> base \<noteq> NULL"
proof -
  let ?s = "sched_cleared (put_str cs raw0)"
  have f: "mem ?s = (\<lambda>_. 0)" "phys ?s = phys0" "cr3 ?s = 0x100000" "kernel_vir_pool ?s = heap0"
    "kernel_phy_pool ?s = frames0"
    by (simp_all add: sched_cleared_def frame) (simp_all add: raw0_def)
  have v: "vir_pool PF_KERNEL ?s = heap0" "phy_pool PF_KERNEL ?s = frames0"
    by (simp_all add: vir_pool_def phy_pool_def f)
  have sc: "bitmap_scan (btmp heap0) 0 1 (\<lambda>_. 0) = 0"
    by (simp add: bitmap_scan_def scan_loop.simps bitmap_get_def heap0_def)
  have "range_ok phys0 0x100000 0xc0200000 1"
    using phys0_map(2) by (simp add: range_ok_def nth_page_def)
  moreover have "run_pages x 1 = {x}" for x using word_less_1 by (auto simp: run_pages_def)
  ultimately have fu: "free_unmapped PF_KERNEL 1 ?s"
    unfolding free_unmapped_def v f heap0_pages by simp
  have c: "selfmap (phys ?s) (cr3 ?s)" "bitmap_scan (btmp heap0) 0 1 (mem ?s) \<noteq> minus1"
    "card (taken frames0 (mem ?s)) + unat (1 :: u32) \<le> card (pages frames0)"
    unfolding f using phys0_map(1) sc by (simp_all add: frames0_pages)
  obtain x m ph where "malloc_page PF_KERNEL 1 ?s = Inr (x, ?s\<lparr>mem := m, phys := ph\<rparr>)" "x \<noteq> NULL"
    by (rule malloc_page_ok [of ?s PF_KERNEL 1, unfolded v, OF c(1) pools0_wf(1,2,4) _ _ c(2,3) fu]) simp_all
  then show ?thesis unfolding kernel_pages_malloc_def by blast
qed

end
