(* ===== verification/Props_Memory.thy ===== *)
theory Props_Memory
  imports Scenario
begin

text \<open>
  The properties of address translation, page mapping and page allocation
  (\<^verbatim>\<open>src/kernel/memory.c\<close>), each with an instance on the concrete kernel of \<open>Scenario\<close>.
\<close>

section \<open>Address translation\<close>

text \<open>
  C31. Software translation agrees with the hardware: under a page directory that maps itself in
  its last entry, \<^verbatim>\<open>addr_v2p\<close> of a mapped address is the address the two-level walk of the
  processor finds, and it faults exactly when the directory entry is absent.
\<close>

theorem addr_v2p_agrees_with_walk:
  assumes "selfmap (phys s) (cr3 s)"
  shows "(\<forall>pa. walk (phys s) (cr3 s) x = Some pa \<longrightarrow> addr_v2p x s = Inr pa)
    \<and> ((\<exists>a. addr_v2p x s = Inl (Page_fault a)) \<longleftrightarrow> phys s (pde_slot (cr3 s) x) AND 1 = 0)"
proof -
  have "(\<exists>a. addr_v2p x s = Inl (Page_fault a)) \<longleftrightarrow>
      addr_v2p x s = Inl (Page_fault (pte_vaddr_get x))"
    by (auto simp: addr_v2p_def vload_def split: option.splits)
  then show ?thesis using addr_v2p_walk [OF assms] addr_v2p_fault [OF assms] by simp
qed

theorem addr_v2p_agrees_with_walk_witness:
  "selfmap (phys k2) (cr3 k2) \<and> walk (phys k2) (cr3 k2) 0xfffff123 = Some 0x100123
    \<and> addr_v2p 0xfffff123 k2 = Inr 0x100123 \<and> (\<exists>a. addr_v2p 0x1000 k2 = Inl (Page_fault a))"
proof -
  have s: "selfmap (phys k2) (cr3 k2)" using k2_facts phys0_map by simp
  have w: "walk (phys k2) (cr3 k2) 0xfffff123 = Some 0x100123"
    by (simp add: k2_facts walk_def phys0_def frame_of_def PDE_IDX_def PTE_IDX_def Let_def)
  have z: "phys k2 (pde_slot (cr3 k2) 0x1000) AND 1 = 0"
    by (simp add: k2_facts pde_slot_def phys0_def frame_of_def PDE_IDX_def)
  show ?thesis
    using addr_v2p_agrees_with_walk [OF s, of "0xfffff123"] addr_v2p_agrees_with_walk [OF s, of "0x1000"] s w z
    by blast
qed

section \<open>Mapping\<close>



text \<open>
  \<^verbatim>\<open>v2p_mapping\<close> where the directory entry is absent: a frame of the kernel pool becomes
  a cleared page table, the page is mapped through it, and the translations of all pages whose
  tables are neither the new frame nor the directory are unchanged.
\<close>

theorem v2p_mapping_adds_table:
  assumes self: "selfmap (phys s) (cr3 s)" and x: "phys s (pde_slot (cr3 s) x) AND 1 = 0"
    and pt: "paddr_get (kernel_phy_pool s) (mem s) = (pt, m')" "aligned pt" "pt \<noteq> frame_of (cr3 s)"
    and pa: "aligned pa"
  shows "\<exists>s'. v2p_mapping x pa s = Inr s' \<and> mem s' = m' \<and> cr3 s' = cr3 s
    \<and> walk (phys s') (cr3 s) x = Some (pa + (x AND 0xfff))
    \<and> (\<forall>y. PDE_IDX y \<noteq> PDE_IDX x \<longrightarrow>
        (phys s (pde_slot (cr3 s) y) AND 1 \<noteq> 0 \<longrightarrow>
          frame_of (phys s (pde_slot (cr3 s) y)) \<noteq> pt
          \<and> frame_of (phys s (pde_slot (cr3 s) y)) \<noteq> frame_of (cr3 s)) \<longrightarrow>
        walk (phys s') (cr3 s) y = walk (phys s) (cr3 s) y)"
proof -
  let ?ph = "new_table x pt (cr3 s) (phys s)"
  note m = new_table_mappable [OF pt(2,3), of x "phys s"]
  let ?s' = "s\<lparr>mem := m', phys := map_page x pa (cr3 s) ?ph\<rparr>"
  have "walk (phys ?s') (cr3 s) y = walk (phys s) (cr3 s) y"
    if ne: "PDE_IDX y \<noteq> PDE_IDX x"
      and y: "phys s (pde_slot (cr3 s) y) AND 1 \<noteq> 0 \<longrightarrow> frame_of (phys s (pde_slot (cr3 s) y)) \<noteq> pt
        \<and> frame_of (phys s (pde_slot (cr3 s) y)) \<noteq> frame_of (cr3 s)" for y
  proof (cases "phys s (pde_slot (cr3 s) y) AND 1 = 0")
    case True
    have "?ph (pde_slot (cr3 s) y) = phys s (pde_slot (cr3 s) y)"
      using new_table_read(1) [OF pt(2,3)] ne by simp
    then show ?thesis
      using True map_page_pde [OF m, of pa y] by (simp add: walk_slots)
  next
    case False
    have e: "?ph (pde_slot (cr3 s) y) = phys s (pde_slot (cr3 s) y)"
      "?ph (pde_slot (cr3 s) x) = entry pt"
      using new_table_read(1) [OF pt(2,3)] ne by simp_all
    have "pte_slot ?ph (cr3 s) y \<noteq> pte_slot ?ph (cr3 s) x"
    proof
      assume "pte_slot ?ph (cr3 s) y = pte_slot ?ph (cr3 s) x"
      then have "frame_of (phys s (pde_slot (cr3 s) y)) = frame_of (entry pt)"
        using pte_slot_frame [of ?ph "cr3 s"] e by metis
      then show False using y False entry_frame [OF pt(2)] by simp
    qed
    then have "walk (phys ?s') (cr3 s) y = walk ?ph (cr3 s) y" using map_page_other [OF m] by simp
    also have "\<dots> = walk (phys s) (cr3 s) y"
      using y False by (intro new_table_walk [OF pt(2,3)]) (use x in auto)
    finally show ?thesis .
  qed
  then show ?thesis
    using v2p_mapping_absent [OF self x pt, of pa] map_page_walk [OF m pa]
    by (intro exI [of _ ?s']) simp
qed

theorem v2p_mapping_adds_table_witness:
  "phys k1 (pde_slot (cr3 k1) 0x8048000) AND 1 = 0
    \<and> (\<exists>s'. v2p_mapping 0x8048000 0x7000 k1 = Inr s' \<and> walk (phys s') (cr3 k1) 0x8048000 = Some 0x7000)"
proof -
  note h = k1_heap [unfolded heap_ready_def]
  have e: "phys k1 = phys0" "cr3 k1 = 0x100000" "kernel_phy_pool k1 = frames0"
    using k1_facts(9) k0_fields by (simp_all add: same_heap_def)
  have x: "phys k1 (pde_slot (cr3 k1) 0x8048000) AND 1 = 0"
    by (simp add: e pde_slot_def phys0_def frame_of_def PDE_IDX_def)
  have "taken (kernel_phy_pool k1) (mem k1) \<noteq> pages (kernel_phy_pool k1)" using h by auto
  then obtain pt m' where pt: "paddr_get (kernel_phy_pool k1) (mem k1) = (pt, m')" "pt \<in> pages frames0"
    using paddr_get_some h e(3) by (metis Diff_iff)
  then have "pt = 0x200000" by (simp add: frames0_pages)
  with pt e have p: "aligned pt" "pt \<noteq> frame_of (cr3 k1)" by (simp_all add: aligned_def frame_of_def)
  have "aligned 0x7000" by (simp add: aligned_def)
  from v2p_mapping_adds_table [OF _ x pt(1) p this] h x show ?thesis by auto
qed

section \<open>Allocation\<close>

text \<open>
  Frames: \<^verbatim>\<open>paddr_get\<close> on a pool returns a null pointer and changes nothing iff all its
  frames are taken; otherwise it returns a free frame, marks exactly that one, and writes only the
  pool's bitmap. A series of calls gives pairwise different frames.
\<close>

theorem frames_are_fresh:
  assumes "wf_pool p"
  shows "(fst (paddr_get p m) = NULL \<longleftrightarrow> taken p m = pages p)
    \<and> (taken p m = pages p \<longrightarrow> paddr_get p m = (NULL, m))
    \<and> (taken p m \<noteq> pages p \<longrightarrow> (\<exists>pa m'. paddr_get p m = (pa, m') \<and> pa \<in> pages p - taken p m
        \<and> taken p m' = insert pa (taken p m) \<and> (\<forall>a. \<not> in_map (btmp p) a \<longrightarrow> m' a = m a)))
    \<and> (\<forall>n. card (taken p m) + n \<le> card (pages p) \<longrightarrow>
        distinct (fst (pp.alloc_many n p m)) \<and> length (fst (pp.alloc_many n p m)) = n
        \<and> set (fst (pp.alloc_many n p m)) \<subseteq> pages p - taken p m)"
proof -
  have "\<exists>pa m'. paddr_get p m = (pa, m') \<and> pa \<in> pages p - taken p m
      \<and> taken p m' = insert pa (taken p m) \<and> (\<forall>a. \<not> in_map (btmp p) a \<longrightarrow> m' a = m a)"
    if "taken p m \<noteq> pages p"
    using paddr_get_some [OF assms that] by metis
  then show ?thesis
    using pp.alloc_null_iff [OF assms, of m] paddr_get_none [OF assms, of m] pp.alloc_many_fresh [OF assms, of m]
    by blast
qed

theorem frames_are_fresh_witness:
  "wf_pool frames0 \<and> taken frames0 (\<lambda>_. 0) \<noteq> pages frames0
    \<and> (\<exists>m'. paddr_get frames0 (\<lambda>_. 0) = (0x200000, m') \<and> taken frames0 m' = pages frames0)"
proof -
  have t: "taken frames0 (\<lambda>_. 0) \<noteq> pages frames0" by (simp add: frames0_pages)
  obtain pa m' where "paddr_get frames0 (\<lambda>_. 0) = (pa, m')" "pa \<in> pages frames0"
    "taken frames0 m' = insert pa (taken frames0 (\<lambda>_. 0))"
    using frames_are_fresh [OF pools0_wf(2), of "\<lambda>_. 0"] t by blast
  then show ?thesis using t pools0_wf(2) by (auto simp: frames0_pages)
qed

text \<open>
  C14. \<^verbatim>\<open>malloc_page\<close>: with a run of \<open>n\<close> free virtual pages, enough frames and the run
  unmapped, it returns a run of \<open>n\<close> free pages, each mapped to a frame of its own that was
  free, marks exactly these pages and frames, and leaves all other translations and bytes alone.
  Without such a run it returns a null pointer and changes nothing; a count of zero or of 3840
  and more makes the assertion fail.
\<close>

theorem malloc_page_maps_fresh_pages:
  fixes s :: "'a kstate_scheme"
  assumes vp: "vp = vir_pool pf s" and fp: "fp = phy_pool pf s"
    and self: "selfmap (phys s) (cr3 s)" and wf: "wf_pool vp" "wf_pool fp"
    and apart: "maps_apart (btmp vp) (btmp fp)"
    and frames: "card (taken fp (mem s)) + unat n \<le> card (pages fp)"
    and unmapped: "free_unmapped pf n s"
  shows "(0 < n \<and> n < 3840 \<and> bitmap_scan (btmp vp) 0 n (mem s) \<noteq> minus1 \<longrightarrow>
      (\<exists>v pas m ph. malloc_page pf n s = Inr (v, s\<lparr>mem := m, phys := ph\<rparr>) \<and> v \<noteq> NULL
        \<and> run_pages v n \<subseteq> pages vp - taken vp (mem s)
        \<and> taken vp m = taken vp (mem s) \<union> run_pages v n
        \<and> length pas = unat n \<and> distinct pas \<and> set pas \<subseteq> pages fp - taken fp (mem s)
        \<and> taken fp m = taken fp (mem s) \<union> set pas
        \<and> (\<forall>i<unat n. walk ph (cr3 s) (nth_page v i) = Some (pas ! i))
        \<and> (\<forall>y. (\<forall>i<unat n. pte_slot (phys s) (cr3 s) y \<noteq> pte_slot (phys s) (cr3 s) (nth_page v i)) \<longrightarrow>
            walk ph (cr3 s) y = walk (phys s) (cr3 s) y)
        \<and> (\<forall>a. \<not> in_map (btmp vp) a \<longrightarrow> \<not> in_map (btmp fp) a \<longrightarrow> m a = mem s a)))
    \<and> (0 < n \<and> n < 3840 \<and> bitmap_scan (btmp vp) 0 n (mem s) = minus1 \<longrightarrow>
        malloc_page pf n s = Inr (NULL, s))
    \<and> (\<not> (0 < n \<and> n < 3840) \<longrightarrow> (\<exists>c. malloc_page pf n s = Inl (Panic c)))"
proof (intro conjI impI)
  assume c: "0 < n \<and> n < 3840 \<and> bitmap_scan (btmp vp) 0 n (mem s) \<noteq> minus1"
  show "\<exists>v pas m ph. malloc_page pf n s = Inr (v, s\<lparr>mem := m, phys := ph\<rparr>) \<and> v \<noteq> NULL
        \<and> run_pages v n \<subseteq> pages vp - taken vp (mem s)
        \<and> taken vp m = taken vp (mem s) \<union> run_pages v n
        \<and> length pas = unat n \<and> distinct pas \<and> set pas \<subseteq> pages fp - taken fp (mem s)
        \<and> taken fp m = taken fp (mem s) \<union> set pas
        \<and> (\<forall>i<unat n. walk ph (cr3 s) (nth_page v i) = Some (pas ! i))
        \<and> (\<forall>y. (\<forall>i<unat n. pte_slot (phys s) (cr3 s) y \<noteq> pte_slot (phys s) (cr3 s) (nth_page v i)) \<longrightarrow>
            walk ph (cr3 s) y = walk (phys s) (cr3 s) y)
        \<and> (\<forall>a. \<not> in_map (btmp vp) a \<longrightarrow> \<not> in_map (btmp fp) a \<longrightarrow> m a = mem s a)"
    by (rule malloc_page_ok [of s pf n, folded vp fp, OF self wf apart _ _ _ frames unmapped])
      (use c in \<open>blast+\<close>)
next
  assume "0 < n \<and> n < 3840 \<and> bitmap_scan (btmp vp) 0 n (mem s) = minus1"
  then show "malloc_page pf n s = Inr (NULL, s)" using malloc_page_null [of n pf s] vp by simp
next
  assume "\<not> (0 < n \<and> n < 3840)"
  then show "\<exists>c. malloc_page pf n s = Inl (Panic c)" by (auto simp: malloc_page_def)
qed

theorem malloc_page_maps_fresh_pages_witness:
  "heap_ready k1 v1 \<and> (\<exists>v s'. malloc_page PF_KERNEL 1 k1 = Inr (v, s') \<and> v \<noteq> NULL)"
proof -
  note h = k1_heap [unfolded heap_ready_def]
  have v: "kernel_vir_pool k1 = vir_pool PF_KERNEL k1" "kernel_phy_pool k1 = phy_pool PF_KERNEL k1"
    by (simp_all add: vir_pool_def phy_pool_def)
  have "card (taken (kernel_phy_pool k1) (mem k1)) + unat (1 :: u32) \<le> card (pages (kernel_phy_pool k1))"
    using h by simp
  from malloc_page_maps_fresh_pages [OF v _ _ _ _ this] h
  have "\<exists>v s'. malloc_page PF_KERNEL 1 k1 = Inr (v, s') \<and> v \<noteq> NULL" by fastforce
  then show ?thesis using k1_heap by blast
qed



end
