(* ===== verification/Process.thy ===== *)
theory Process
  imports Keyboard
begin

text \<open>
  User processes (\<^verbatim>\<open>src/user/process.c\<close>), the task state segment and the global descriptor
  table (\<^verbatim>\<open>src/user/tss.c\<close>), system calls (\<^verbatim>\<open>src/user/syscall_init.c\<close>,
  \<^verbatim>\<open>src/lib/user/syscall.c\<close>) and the start of the kernel (\<^verbatim>\<open>src/kernel/init.c\<close>,
  \<^verbatim>\<open>src/kernel/main.c\<close>).
\<close>

section \<open>Address spaces\<close>

definition USER_STACK3_VADDR :: addr where "USER_STACK3_VADDR = 0xc0000000 - 0x1000"
definition USER_VADDR_START :: addr where "USER_VADDR_START = 0x8048000"

text \<open>\<^verbatim>\<open>memcpy\<close> of \<open>n\<close> aligned double words of page-table memory.\<close>

primrec vcopy :: "nat \<Rightarrow> addr \<Rightarrow> addr \<Rightarrow> 'a kstate_scheme \<Rightarrow> 'a kstate_scheme halt + 'a kstate_scheme" where
  "vcopy 0 dst src s = Inr s"
| "vcopy (Suc n) dst src s =
     and_then (vload src s) (\<lambda>w. and_then (vstore dst w s) (\<lambda>s. vcopy n (dst + 4) (src + 4) s))"

definition vmemcpy_words :: "addr \<Rightarrow> addr \<Rightarrow> u32 \<Rightarrow> 'a kstate_scheme \<Rightarrow> 'a kstate_scheme halt + 'a kstate_scheme" where
  "vmemcpy_words dst src sz s =
     (ASSERT (src \<noteq> NULL \<and> dst \<noteq> NULL) ''src != NULL && dst != NULL''
       (vcopy (unat sz div 4) dst src s))"

definition page_dir_create :: "'a kstate_scheme \<Rightarrow> 'a kstate_scheme halt + (addr \<times> 'a kstate_scheme)" where
  "page_dir_create s =
     and_then (kernel_pages_malloc 1 s) (\<lambda>(page_dir_vaddr, s).
       if page_dir_vaddr = NULL then Inr (NULL, s)
       else
         and_then (vmemcpy_words (page_dir_vaddr + 0x300 * 4) (0xfffff000 + 0x300 * 4) 1024 s) (\<lambda>s.
         and_then (addr_v2p page_dir_vaddr s) (\<lambda>page_dir_phy_addr.
         and_then (vstore (page_dir_vaddr + 1023 * 4)
                     (page_dir_phy_addr OR PG_US_U OR PG_RW_W OR PG_P_1) s) (\<lambda>s.
         Inr (page_dir_vaddr, s)))))"

definition user_vaddr_bitmap_create :: "addr \<Rightarrow> 'a kstate_scheme \<Rightarrow> 'a kstate_scheme halt + 'a kstate_scheme" where
  "user_vaddr_bitmap_create task s =
     (let s = upd_tcb task (\<lambda>c. c\<lparr>tcb_user_vaddr_pool :=
                (tcb_user_vaddr_pool c)\<lparr>addr_base := USER_VADDR_START\<rparr>\<rparr>) s;
          user_free_pages_num = (0xc0000000 - USER_VADDR_START) div PG_SIZE;
          bitmap_pages_need = (user_free_pages_num div 8 + 1) div PG_SIZE + 1
      in and_then (kernel_pages_malloc bitmap_pages_need s) (\<lambda>(user_vaddr_bitmap_base, s).
         and_then (bitmap_init user_vaddr_bitmap_base user_free_pages_num (mem s)) (\<lambda>(b, m).
         Inr (upd_tcb task (\<lambda>c. c\<lparr>tcb_user_vaddr_pool := (tcb_user_vaddr_pool c)\<lparr>btmp := b\<rparr>\<rparr>)
                (s\<lparr>mem := m\<rparr>)))))"

definition process_run :: "addr \<Rightarrow> u8 list \<Rightarrow> 'a kernel_scheme \<Rightarrow> 'a kernel_scheme halt + 'a kernel_scheme" where
  "process_run filename name s =
     and_then (kernel_pages_malloc 1 s) (\<lambda>(task, s).
     and_then (thread_init task name 31 Process_entry filename s) (\<lambda>s.
     and_then (user_vaddr_bitmap_create task s) (\<lambda>s.
     and_then (page_dir_create s) (\<lambda>(dir, s).
     let s = upd_tcb task (\<lambda>c. c\<lparr>tcb_pg_dir := dir\<rparr>) s;
         (int_save, s) = intr_disable s;
         s = scheduler_rq_join task s;
         s = list_push_back all_list (all_list_tag task) s
     in Inr (snd (intr_set_status int_save s))))))"

section \<open>Entering user mode\<close>

definition SELECTOR_U_CODE :: u32 where "SELECTOR_U_CODE = push_bit 3 5 + push_bit 2 TI_GDT + RPL3"
definition SELECTOR_U_DATA :: u32 where "SELECTOR_U_DATA = push_bit 3 6 + push_bit 2 TI_GDT + RPL3"
definition EFLAGS_MBS :: u32 where "EFLAGS_MBS = push_bit 1 1"
definition EFLAGS_IF_1 :: u32 where "EFLAGS_IF_1 = push_bit 9 1"
definition EFLAGS_IOPL_0 :: u32 where "EFLAGS_IOPL_0 = push_bit 12 0"

text \<open>
  \<^verbatim>\<open>process_entry\<close> up to its jump to the interrupt exit; the result is the address of the
  frame the exit pops. The argument is the user function's address.
\<close>

definition process_entry :: "addr \<Rightarrow> 'a kernel_scheme \<Rightarrow> 'a kernel_scheme halt + (addr \<times> 'a kernel_scheme)" where
  "process_entry func s =
     (let running_thread = RUNNING_THREAD s;
          stack = tcb_stack_top (tcbs s running_thread) + sizeof_thread_stack;
          s = upd_tcb running_thread (\<lambda>c. c\<lparr>tcb_stack_top := stack\<rparr>) s;
          s = s\<lparr>intr_stacks := (intr_stacks s)(stack := (intr_stacks s stack)
                \<lparr>is_save_flag := ALL_SAVE_FLAG, is_edi := 0, is_esi := 0, is_ebp := 0,
                 is_esp_dummy := 0, is_ebx := 0, is_edx := 0, is_ecx := 0, is_eax := 0, is_gs := 0,
                 is_ds := SELECTOR_U_DATA, is_es := SELECTOR_U_DATA, is_fs := SELECTOR_U_DATA,
                 is_eip := func, is_cs := SELECTOR_U_CODE,
                 is_eflags := EFLAGS_IOPL_0 OR EFLAGS_MBS OR EFLAGS_IF_1\<rparr>)\<rparr>
      in and_then (target_vaddr_malloc PF_USER USER_STACK3_VADDR s) (\<lambda>(page, s).
         Inr (stack, s\<lparr>intr_stacks := (intr_stacks s)(stack := (intr_stacks s stack)
                \<lparr>is_esp := page + PG_SIZE, is_ss := SELECTOR_U_DATA\<rparr>)\<rparr>)))"

section \<open>Descriptors\<close>

definition gdt_desc_make :: "gdt_desc \<Rightarrow> addr \<Rightarrow> u32 \<Rightarrow> u8 \<Rightarrow> u8 \<Rightarrow> gdt_desc" where
  "gdt_desc_make desc desc_base limit attr_low attr_high = desc
     \<lparr>limit_low_word := ucast (limit AND 0xffff),
      base_low_word := ucast (desc_base AND 0xffff),
      base_mid_byte := ucast (drop_bit 16 (desc_base AND 0x00ff0000)),
      attr_low_byte := attr_low,
      limit_high_attr_high := ucast (drop_bit 16 (limit AND 0x000f0000) + ucast attr_high),
      base_high_byte := ucast (drop_bit 24 desc_base)\<rparr>"

definition SELECTOR_K_DATA :: u32 where "SELECTOR_K_DATA = push_bit 3 2 + push_bit 2 TI_GDT + RPL0"
definition SELECTOR_K_STACK :: u32 where "SELECTOR_K_STACK = SELECTOR_K_DATA"
definition SELECTOR_TSS :: u16 where "SELECTOR_TSS = push_bit 3 4 + push_bit 2 TI_GDT + RPL0"
definition TSS_ATTR_HIGH :: u8 where 
  "TSS_ATTR_HIGH = push_bit 7 DESC_G_4K + push_bit 6 TSS_DESC_D + push_bit 5 DESC_L + push_bit 4 DESC_AVL + 0"
definition TSS_ATTR_LOW :: u8 where 
  "TSS_ATTR_LOW = push_bit 7 DESC_P + push_bit 5 DESC_DPL_0 + push_bit 4 DESC_S_SYS + DESC_TYPE_TSS"
definition GDT_ATTR_HIGH :: u8 where 
  "GDT_ATTR_HIGH = push_bit 7 DESC_G_4K + push_bit 6 DESC_D_32 + push_bit 5 DESC_L + push_bit 4 DESC_AVL"
definition GDT_CODE_ATTR_LOW_DPL3 :: u8 where
  "GDT_CODE_ATTR_LOW_DPL3 = push_bit 7 DESC_P + push_bit 5 DESC_DPL_3 + push_bit 4 DESC_S_CODE + DESC_TYPE_CODE"
definition GDT_DATA_ATTR_LOW_DPL3 :: u8 where
  "GDT_DATA_ATTR_LOW_DPL3 = push_bit 7 DESC_P + push_bit 5 DESC_DPL_3 + push_bit 4 DESC_S_DATA + DESC_TYPE_DATA"

text \<open>The addresses of \<^verbatim>\<open>tss\<close> (in \<^verbatim>\<open>src/build/kernel.map\<close>) and of the descriptor table;
  \<^verbatim>\<open>sizeof(struct tss)\<close> is 27 double words.\<close>

definition tss_addr :: addr where "tss_addr = 0xc00079c0"
definition gdt_base_addr :: addr where "gdt_base_addr = 0xc0000900"
definition sizeof_tss :: u32 where "sizeof_tss = 108"

definition zero_tss :: tss where
  "zero_tss = \<lparr>seg_backlink = 0, seg_esp0 = 0, seg_ss0 = 0, seg_esp1 = 0, seg_ss1 = 0, seg_esp2 = 0,
     seg_ss2 = 0, seg_cr3 = 0, seg_eip = 0, seg_eflags = 0, seg_eax = 0, seg_ecx = 0, seg_edx = 0,
     seg_ebx = 0, seg_esp = 0, seg_ebp = 0, seg_esi = 0, seg_edi = 0, seg_es = 0, seg_cs = 0,
     seg_ss = 0, seg_ds = 0, seg_fs = 0, seg_gs = 0, seg_ldt = 0, seg_trace = 0, seg_io_base = 0\<rparr>"

definition gdt_set :: "nat \<Rightarrow> addr \<Rightarrow> u32 \<Rightarrow> u8 \<Rightarrow> u8 \<Rightarrow> 'a kernel_scheme \<Rightarrow> 'a kernel_scheme" where
  "gdt_set i base limit attr_low attr_high s =
     s\<lparr>gdt := (gdt s)[i := gdt_desc_make (gdt s ! i) base limit attr_low attr_high]\<rparr>"

definition tss_init :: "'a kernel_scheme \<Rightarrow> 'a kernel_scheme" where
  "tss_init s =
     (let s = put_str (lit ''tss init begin\<newline>'') s;
          tss_size = sizeof_tss;
          s = s\<lparr>tss_seg := zero_tss\<lparr>seg_ss0 := SELECTOR_K_STACK, seg_io_base := tss_size\<rparr>\<rparr>;
          s = gdt_set 4 tss_addr (tss_size - 1) TSS_ATTR_LOW TSS_ATTR_HIGH s;
          s = gdt_set 5 0 0xfffff GDT_CODE_ATTR_LOW_DPL3 GDT_ATTR_HIGH s;
          s = gdt_set 6 0 0xfffff GDT_DATA_ATTR_LOW_DPL3 GDT_ATTR_HIGH s;
          gdt_base_addr_oper = push_bit 16 (ucast gdt_base_addr) :: u64;
          gdt_limit_oper = 55 :: u64;
          s = s\<lparr>gdtr := gdt_base_addr_oper OR gdt_limit_oper\<rparr>;
          s = s\<lparr>tr := SELECTOR_TSS\<rparr>
      in put_str (lit ''tss_init done\<newline>'') s)"

section \<open>System calls\<close>

definition SYSCALL_NUM :: nat where "SYSCALL_NUM = 32"
definition PID_GET :: u32 where "PID_GET = 0"

definition sys_pid_get :: "'a kstate_scheme \<Rightarrow> u32" where
  "sys_pid_get s = ucast (tcb_pid (tcbs s (RUNNING_THREAD s)))"

definition syscall_init :: "'a kernel_scheme \<Rightarrow> 'a kernel_scheme" where
  "syscall_init s =
     (let s = put_str (lit ''syscall_init start\<newline>'') s;
          s = s\<lparr>syscall_table := (syscall_table s)[unat PID_GET := Sys_pid_get]\<rparr>
      in put_str (lit ''syscall_init done\<newline>'') s)"

text \<open>
  \<^verbatim>\<open>int $0x80\<close>: the call through the table (\<^verbatim>\<open>syscall_entry\<close> of \<^verbatim>\<open>kernel.s\<close>) with
  the registers \<^verbatim>\<open>ebx\<close>, \<^verbatim>\<open>ecx\<close> and \<^verbatim>\<open>edx\<close> as arguments, which the only handler there is does
  not read; a slot that was never filled is a call of address zero.
\<close>

definition int80 :: "u32 \<Rightarrow> u32 list \<Rightarrow> 'a kernel_scheme \<Rightarrow> 'a kernel_scheme halt + u32" where
  "int80 num args s =
     (if unat num < length (syscall_table s) then
        case syscall_table s ! unat num of
          Sys_pid_get \<Rightarrow> Inr (sys_pid_get s)
        | _ \<Rightarrow> Inl (Page_fault NULL)
      else Inl Overrun)"

definition syscall0 :: "u32 \<Rightarrow> 'a kernel_scheme \<Rightarrow> 'a kernel_scheme halt + u32" where
  "syscall0 num s = int80 num [] s"

definition syscall1 :: "u32 \<Rightarrow> u32 \<Rightarrow> 'a kernel_scheme \<Rightarrow> 'a kernel_scheme halt + unit" where
  "syscall1 num arg1 s = and_then (int80 num [arg1] s) (\<lambda>ret. Inr ())"

definition syscall2 :: "u32 \<Rightarrow> u32 \<Rightarrow> u32 \<Rightarrow> 'a kernel_scheme \<Rightarrow> 'a kernel_scheme halt + unit" where
  "syscall2 num arg1 arg2 s = and_then (int80 num [arg1, arg2] s) (\<lambda>ret. Inr ())"

definition syscall3 :: "u32 \<Rightarrow> u32 \<Rightarrow> u32 \<Rightarrow> u32 \<Rightarrow> 'a kernel_scheme \<Rightarrow> 'a kernel_scheme halt + unit" where
  "syscall3 num arg1 arg2 arg3 s = and_then (int80 num [arg1, arg2, arg3] s) (\<lambda>ret. Inr ())"

definition pid_get :: "'a kernel_scheme \<Rightarrow> 'a kernel_scheme halt + u32" where
  "pid_get s = syscall0 PID_GET s"

section \<open>Starting the kernel\<close>

definition init_all ::
    "(nat \<Rightarrow> addr) \<Rightarrow> addr \<Rightarrow> addr \<Rightarrow> 'a kernel_scheme \<Rightarrow> 'a kernel_scheme halt + 'a kernel_scheme" where
  "init_all intr_entry_table idt_addr esp s =
     (let s = put_str (lit ''init_all\<newline>'') s;
          s = idt_init intr_entry_table idt_addr s
      in and_then (mem_init s) (\<lambda>s.
         and_then (thread_all_init esp s) (\<lambda>s.
         and_then (timer_init s) (\<lambda>s.
         let s = console_init s
         in and_then (keyboard_init s) (\<lambda>s.
            Inr (syscall_init (tss_init s)))))))"

text \<open>\<^verbatim>\<open>main\<close> up to its endless loop; the functions' addresses are those of
  \<^verbatim>\<open>src/build/kernel.map\<close>.\<close>

definition main_start ::
    "(nat \<Rightarrow> addr) \<Rightarrow> addr \<Rightarrow> addr \<Rightarrow> addr \<Rightarrow> addr \<Rightarrow> 'a kernel_scheme \<Rightarrow> 'a kernel_scheme halt + 'a kernel_scheme" where
  "main_start intr_entry_table idt_addr esp arg1 arg2 s =
     (let s = put_str (lit ''I AM KERNEL\<newline>'') s
      in and_then (init_all intr_entry_table idt_addr esp s) (\<lambda>s.
         and_then (thread_run (lit ''kthread1'') 8 (Func 0xc00015c5) arg1 s) (\<lambda>(t, s).
         and_then (thread_run (lit ''kthread2'') 8 (Func 0xc00015fe) arg2 s) (\<lambda>(t, s).
         and_then (process_run 0xc0001637 (lit ''process1'') s) (\<lambda>s.
         and_then (process_run 0xc000164c (lit ''process2'') s) (\<lambda>s.
         let s = snd (intr_enable s);
             pid = ucast (tcb_pid (tcbs s (RUNNING_THREAD s)));
             s = snd (intr_disable s)
         in and_then (console_put_int pid s) (\<lambda>s. Inr (snd (intr_enable s)))))))))"

text \<open>\<^verbatim>\<open>thread1\<close> and \<^verbatim>\<open>thread2\<close>, the same text, up to their endless loops.\<close>

definition thread_body :: "'a kernel_scheme \<Rightarrow> 'a kernel_scheme halt + 'a kernel_scheme" where
  "thread_body s =
     (let pid = ucast (tcb_pid (tcbs s (RUNNING_THREAD s)));
          s = snd (intr_disable s)
      in and_then (console_put_int pid s) (\<lambda>s. Inr (snd (intr_enable s))))"

end
