(* ===== verification/Process_Inv.thy ===== *)
theory Process_Inv
  imports Process Thread_Inv
begin

text \<open>
  The address space of a new process (\<^verbatim>\<open>page_dir_create\<close> of \<^verbatim>\<open>src/user/process.c\<close>):
  the frame of the new directory is written through its kernel address, so the copy has to leave
  the current directory and the tables alone. The directory shares the kernel's gigabyte and maps
  itself.
\<close>

section \<open>A page whose frame is no part of the page tables\<close>

definition private_frame :: "(u32 \<Rightarrow> u32) \<Rightarrow> u32 \<Rightarrow> addr \<Rightarrow> u32 \<Rightarrow> bool" where
  "private_frame ph dir d f \<longleftrightarrow>
     selfmap ph dir \<and> aligned d \<and> aligned f \<and> walk ph dir d = Some f
     \<and> f \<noteq> frame_of dir \<and> frame_of (ph (pde_slot dir d)) \<noteq> f"

lemma idx_frame: "PDE_IDX (frame_of x) = PDE_IDX x" "PTE_IDX (frame_of x) = PTE_IDX x"
  unfolding PDE_IDX_def PTE_IDX_def frame_of_def mask_dir mask_tab mask_frame
  by (rule bit_word_eqI; auto simp: bit_simps)+

lemma word_slot:
  assumes "aligned f" and "j < 1024"
  shows "frame_of (f + of_nat j * 4) = f" and "(f + of_nat j * 4) AND 0xfff = of_nat j * 4"
proof -
  have "unat (of_nat j * 4 :: u32) < 4096" using assms(2) by (simp add: unat_word_ariths unat_of_nat)
  from aligned_add [OF assms(1) this]
  show "frame_of (f + of_nat j * 4) = f" "(f + of_nat j * 4) AND 0xfff = of_nat j * 4" by blast+
qed

lemma walk_private:
  assumes "private_frame ph dir d f" and "j < 1024"
  shows "walk ph dir (d + of_nat j * 4) = Some (f + of_nat j * 4)"
proof -
  have d: "aligned d" "walk ph dir d = Some f" using assms(1) by (simp_all add: private_frame_def)
  note w = word_slot [OF d(1) assms(2)]
  have i: "PDE_IDX (d + of_nat j * 4) = PDE_IDX d" "PTE_IDX (d + of_nat j * 4) = PTE_IDX d"
    using idx_frame [of "d + of_nat j * 4"] w(1) by simp_all
  have z: "d AND 0xfff = 0" using d(1) by (simp add: aligned_def)
  show ?thesis
    using d(2) unfolding walk_slots pde_slot_def pte_slot_def i w(2) z by (simp split: if_splits)
qed

lemma private_write:
  assumes p: "private_frame ph dir d f" and a: "frame_of a = f"
  shows "private_frame (ph(a := w)) dir d f" and "j < 1024 \<Longrightarrow> (ph(a := w)) (frame_of dir + of_nat j * 4) = ph (frame_of dir + of_nat j * 4)"
proof -
  have ne: "f \<noteq> frame_of dir" "frame_of (ph (pde_slot dir d)) \<noteq> f" using p by (simp_all add: private_frame_def)
  show dir: "(ph(a := w)) (frame_of dir + of_nat j * 4) = ph (frame_of dir + of_nat j * 4)" if "j < 1024" for j
    using word_slot(1) [OF aligned_frame, of j dir] that a ne by auto
  have s: "(ph(a := w)) (pde_slot dir d) = ph (pde_slot dir d)"
    using pde_slot_frame [of dir d] a ne by auto
  then have t: "pte_slot (ph(a := w)) dir d = pte_slot ph dir d" by (simp add: pte_slot_def)
  have "(ph(a := w)) (pte_slot ph dir d) = ph (pte_slot ph dir d)"
    using pte_slot_frame [of ph dir d] a ne by auto
  then have "walk (ph(a := w)) dir d = walk ph dir d" unfolding walk_slots s t by simp
  moreover have "selfmap (ph(a := w)) dir"
    using p dir [of 1023] by (simp add: private_frame_def selfmap_def)
  ultimately show "private_frame (ph(a := w)) dir d f" using p s by (simp add: private_frame_def)
qed

section \<open>Copying directory entries\<close>

lemma walk_directory:
  assumes "selfmap ph dir" and "j < 1024"
  shows "walk ph dir (0xfffff000 + of_nat j * 4) = Some (frame_of dir + of_nat j * 4)"
proof -
  have "unat (of_nat j :: u32) < 1024" using assms(2) by (simp add: unat_of_nat)
  from walk_window [OF assms(1) _ this, of 1023] show ?thesis
    using assms(1) by (simp add: window_def selfmap_def)
qed

lemma slot_eq:
  assumes "i < 1024" and "j < 1024"
  shows "f + of_nat i * 4 = f + of_nat j * (4 :: u32) \<longleftrightarrow> i = j"
proof
  assume "f + of_nat i * 4 = f + of_nat j * (4 :: u32)"
  moreover have "unat (of_nat i :: u32) < 1024" "unat (of_nat j :: u32) < 1024"
    using assms by (simp_all add: unat_of_nat)
  ultimately have "(of_nat i :: u32) = of_nat j" by (metis slot_inj)
  then show "i = j" using assms of_nat_inj_u32 [of i j] by simp
qed simp

lemma vcopy_directory:
  assumes "private_frame (phys s) (cr3 s) d f" and "lo + n \<le> 1024"
  shows "\<exists>ph. vcopy n (d + of_nat lo * 4) (0xfffff000 + of_nat lo * 4) s = Inr (s\<lparr>phys := ph\<rparr>)
    \<and> private_frame ph (cr3 s) d f
    \<and> (\<forall>j<1024. ph (f + of_nat j * 4) = (if lo \<le> j \<and> j < lo + n then phys s (frame_of (cr3 s) + of_nat j * 4)
         else phys s (f + of_nat j * 4)))
    \<and> (\<forall>a. frame_of a \<noteq> f \<longrightarrow> ph a = phys s a)"
  using assms
proof (induction n arbitrary: lo s)
  case 0
  then show ?case by (intro exI [of _ "phys s"]) auto
next
  case (Suc n)
  let ?dir = "cr3 s"
  let ?w = "phys s (frame_of ?dir + of_nat lo * 4)"
  define ph1 where "ph1 = (phys s)(f + of_nat lo * 4 := ?w)"
  note p = Suc.prems(1)
  have lo: "lo < 1024" using Suc.prems(2) by simp
  have al: "aligned f" "selfmap (phys s) ?dir" using p by (simp_all add: private_frame_def)
  note pw = private_write [OF p word_slot(1) [OF al(1) lo], where w = ?w, folded ph1_def]
  have "vload (0xfffff000 + of_nat lo * 4) s = Inr ?w"
    using walk_directory [OF al(2) lo] by (simp add: vload_def)
  moreover have "vstore (d + of_nat lo * 4) ?w s = Inr (s\<lparr>phys := ph1\<rparr>)"
    using walk_private [OF p lo] by (simp add: vstore_def ph1_def)
  ultimately have step: "vcopy (Suc n) (d + of_nat lo * 4) (0xfffff000 + of_nat lo * 4) s =
      vcopy n (d + of_nat (Suc lo) * 4) (0xfffff000 + of_nat (Suc lo) * 4) (s\<lparr>phys := ph1\<rparr>)"
    by (simp add: algebra_simps)
  obtain ph where ph: "vcopy n (d + of_nat (Suc lo) * 4) (0xfffff000 + of_nat (Suc lo) * 4) (s\<lparr>phys := ph1\<rparr>)
      = Inr (s\<lparr>phys := ph\<rparr>)" "private_frame ph ?dir d f"
    "\<forall>j<1024. ph (f + of_nat j * 4) = (if Suc lo \<le> j \<and> j < Suc lo + n then ph1 (frame_of ?dir + of_nat j * 4)
         else ph1 (f + of_nat j * 4))"
    "\<forall>a. frame_of a \<noteq> f \<longrightarrow> ph a = ph1 a"
    using Suc.IH [of "s\<lparr>phys := ph1\<rparr>" "Suc lo"] pw(1) Suc.prems(2) by auto
  have "ph (f + of_nat j * 4) = (if lo \<le> j \<and> j < lo + Suc n then phys s (frame_of ?dir + of_nat j * 4)
      else phys s (f + of_nat j * 4))" if j: "j < 1024" for j
    using ph(3) [rule_format, OF j] pw(2) [OF j] slot_eq [OF j lo, of f] by (cases "j = lo") (auto simp: ph1_def)
  moreover have "ph a = phys s a" if "frame_of a \<noteq> f" for a
    using ph(4) that word_slot(1) [OF al(1) lo] by (auto simp: ph1_def)
  ultimately show ?case using ph(1,2) step by (intro exI [of _ ph]) simp
qed

section \<open>The new directory\<close>

lemma page_dir_create_ok:
  assumes m: "kernel_pages_malloc 1 s = Inr (d, s1)" and d: "d \<noteq> NULL"
    and p: "private_frame (phys s1) (cr3 s1) d f"
  obtains ph where "page_dir_create s = Inr (d, s1\<lparr>phys := ph\<rparr>)" and "private_frame ph (cr3 s1) d f"
    and "\<And>j. 768 \<le> j \<Longrightarrow> j < 1023 \<Longrightarrow> ph (f + of_nat j * 4) = phys s1 (frame_of (cr3 s1) + of_nat j * 4)"
    and "ph (f + 1023 * 4) = entry f"
    and "\<And>j. j < 768 \<Longrightarrow> ph (f + of_nat j * 4) = phys s1 (f + of_nat j * 4)"
    and "\<And>a. frame_of a \<noteq> f \<Longrightarrow> ph a = phys s1 a"
proof -
  obtain ph where ph: "vcopy 256 (d + of_nat 768 * 4) (0xfffff000 + of_nat 768 * 4) s1 = Inr (s1\<lparr>phys := ph\<rparr>)"
    "private_frame ph (cr3 s1) d f"
    "\<forall>j<1024. ph (f + of_nat j * 4) = (if 768 \<le> j \<and> j < 768 + 256 then phys s1 (frame_of (cr3 s1) + of_nat j * 4)
       else phys s1 (f + of_nat j * 4))"
    "\<forall>a. frame_of a \<noteq> f \<longrightarrow> ph a = phys s1 a"
    using vcopy_directory [OF p, of 768 256] by auto
  have al: "aligned d" "aligned f" "selfmap ph (cr3 s1)" "walk ph (cr3 s1) d = Some f"
    using ph(2) by (simp_all add: private_frame_def)
  have "d + 0xc00 \<noteq> NULL" using word_slot(1) [OF al(1), of 768] d by (auto simp: frame_of_def)
  then have c: "vmemcpy_words (d + 0x300 * 4) (0xfffff000 + 0x300 * 4) 1024 s1 = Inr (s1\<lparr>phys := ph\<rparr>)"
    using ph(1) by (simp add: vmemcpy_words_def)
  have v: "addr_v2p d (s1\<lparr>phys := ph\<rparr>) = Inr f" using addr_v2p_walk [of "s1\<lparr>phys := ph\<rparr>" d f] al by simp
  let ?ph = "ph(f + 1023 * 4 := entry f)"
  have w: "vstore (d + 1023 * 4) (f OR PG_US_U OR PG_RW_W OR PG_P_1) (s1\<lparr>phys := ph\<rparr>) = Inr (s1\<lparr>phys := ?ph\<rparr>)"
    using walk_private [OF ph(2), of 1023] by (simp add: vstore_def entry_def)
  have "page_dir_create s = Inr (d, s1\<lparr>phys := ?ph\<rparr>)"
    using m d c v w by (simp add: page_dir_create_def)
  moreover have "frame_of (f + 1023 * 4) = f" using word_slot(1) [OF al(2), of 1023] by simp
  moreover have "?ph (f + of_nat j * 4) = ph (f + of_nat j * 4)" if "j < 1023" for j
    using that slot_eq [of j 1023 f] by simp
  ultimately show thesis
    using ph private_write(1) [OF ph(2), where a = "f + 1023 * 4" and w = "entry f"]
    by (intro that [of ?ph]) auto
qed

text \<open>The kernel's part of the two spaces is the same, and the new directory maps itself.\<close>

lemma shared_kernel:
  assumes "\<And>j. 768 \<le> j \<Longrightarrow> j < 1023 \<Longrightarrow> ph (f + of_nat j * 4) = ph (frame_of dir + of_nat j * 4)"
    and "aligned f" and "0xc0000000 \<le> x" and "x < 0xffc00000"
  shows "walk ph f x = walk ph dir x"
proof -
  have "frame_of f = f" using word_slot(1) [OF assms(2), of 0] by simp
  moreover have "ph (f + PDE_IDX x * 4) = ph (frame_of dir + PDE_IDX x * 4)"
  proof -
    have "768 \<le> unat (PDE_IDX x)" "unat (PDE_IDX x) < 1023"
      using assms(3,4) by (simp_all add: unat_PDE_IDX word_le_nat_alt word_less_nat_alt div_le_mono
        less_mult_imp_div_less)
    from assms(1) [OF this] show ?thesis by simp
  qed
  ultimately show ?thesis by (simp add: walk_def)
qed

end
