(* ===== verification/Props_Process.thy ===== *)
theory Props_Process
  imports Process_Inv Scenario
begin

text \<open>
  The properties of address spaces and processes (\<^verbatim>\<open>src/user/process.c\<close> and
  \<^verbatim>\<open>target_vaddr_malloc\<close> of \<^verbatim>\<open>src/kernel/memory.c\<close>).
\<close>

section \<open>The page directory of a process\<close>

text \<open>
  C16. \<open>page_dir_create\<close>: with a free heap page and no page table in a free frame, the new
  directory is a fresh page whose frame maps itself; every kernel address below the window of the
  page tables translates as in the current space, which itself is unchanged, and the kernel's
  invariant stays. The 768 entries for user addresses keep what the frame held before.
\<close>

theorem page_dir_create_shares_kernel:
  assumes "heap_ready s v" and "kinv s v"
    and "free = pages (kernel_phy_pool s) - taken (kernel_phy_pool s) (mem s)"
    and "frame_of (cr3 s) \<notin> free" and "\<And>x. frame_of (phys s (pde_slot (cr3 s) x)) \<notin> free"
  shows "\<exists>d f s1 s'. page_dir_create s = Inr (d, s') \<and> kernel_pages_malloc 1 s = Inr (d, s1)
    \<and> f \<in> free \<and> addr_v2p d s' = Inr f \<and> cr3 s' = cr3 s \<and> kinv s' v
    \<and> selfmap (phys s') f \<and> selfmap (phys s') (cr3 s)
    \<and> (\<forall>x. 0xc0000000 \<le> x \<longrightarrow> x < 0xffc00000 \<longrightarrow> walk (phys s') f x = walk (phys s') (cr3 s) x)
    \<and> (\<forall>a. frame_of a \<noteq> f \<longrightarrow> phys s' a = phys s1 a)
    \<and> (\<forall>j<768. phys s' (f + of_nat j * 4) = phys s1 (f + of_nat j * 4))"
proof -
  have wf: "wf_pool (kernel_vir_pool s)" "wf_pool (kernel_phy_pool s)"
    using assms(1) by (simp_all add: heap_ready_def)
  obtain d m ph where p: "kernel_pages_malloc 1 s = Inr (d, s\<lparr>mem := m, phys := ph\<rparr>)"
    "d \<in> pages (kernel_vir_pool s) - taken (kernel_vir_pool s) (mem s)"
    "kinv (s\<lparr>mem := m, phys := ph\<rparr>) v"
    "\<exists>pa. walk ph (cr3 s) d = Some pa \<and> pa \<in> pages (kernel_phy_pool s) - taken (kernel_phy_pool s) (mem s)"
    "selfmap ph (cr3 s)" "\<forall>y. ph (pde_slot (cr3 s) y) = phys s (pde_slot (cr3 s) y)"
    by (rule kernel_page_ok [OF assms(1,2)])
  then obtain f where f: "walk ph (cr3 s) d = Some f" "f \<in> free" using assms(3) by blast
  have al: "aligned d" "aligned f" "d \<noteq> NULL"
    using p(2) f(2) assms(3) pages_aligned pages_null wf by blast+
  let ?s1 = "s\<lparr>mem := m, phys := ph\<rparr>"
  have "private_frame (phys ?s1) (cr3 ?s1) d f"
    using p(5,6) f al assms(4,5) by (auto simp: private_frame_def)
  from page_dir_create_ok [OF p(1) al(3) this]
  obtain ph' where d: "page_dir_create s = Inr (d, ?s1\<lparr>phys := ph'\<rparr>)" "private_frame ph' (cr3 s) d f"
    "\<And>j. 768 \<le> j \<Longrightarrow> j < 1023 \<Longrightarrow> ph' (f + of_nat j * 4) = ph (frame_of (cr3 s) + of_nat j * 4)"
    "ph' (f + 1023 * 4) = entry f" "\<And>j. j < 768 \<Longrightarrow> ph' (f + of_nat j * 4) = ph (f + of_nat j * 4)"
    "\<And>a. frame_of a \<noteq> f \<Longrightarrow> ph' a = ph a"
    by auto
  let ?s' = "?s1\<lparr>phys := ph'\<rparr>"
  have ff: "frame_of f = f" using word_slot(1) [OF al(2), of 0] by simp
  have "ph' (frame_of (cr3 s) + of_nat j * 4) = ph (frame_of (cr3 s) + of_nat j * 4)" if "j < 1024" for j
  proof (rule d(6))
    show "frame_of (frame_of (cr3 s) + of_nat j * 4) \<noteq> f"
      using word_slot(1) [OF aligned_frame that, of "cr3 s"] d(2) by (auto simp: private_frame_def)
  qed
  then have "walk ph' f x = walk ph' (cr3 s) x" if "0xc0000000 \<le> x" "x < 0xffc00000" for x
    using d(3) that al(2) by (intro shared_kernel) simp_all
  moreover have "selfmap ph' f" using d(4) ff al(2) by (simp add: selfmap_def entry_present entry_frame)
  moreover have "addr_v2p d ?s' = Inr f"
    using d(2) by (intro addr_v2p_walk) (simp_all add: private_frame_def)
  moreover have "kinv ?s' v" using p(3) by (subst kinv_cong_fields [of _ ?s1]) simp_all
  ultimately show ?thesis
    using d(1,2,5,6) p(1) f(2)
    by (intro exI [of _ d] exI [of _ f] exI [of _ ?s1] exI [of _ ?s']) (simp add: private_frame_def)
qed

theorem page_dir_create_shares_kernel_witness:
  "heap_ready k1 v1 \<and> kinv k1 v1 \<and> (\<exists>d f s'. page_dir_create k1 = Inr (d, s') \<and> addr_v2p d s' = Inr f
    \<and> selfmap (phys s') f \<and> walk (phys s') f 0xc0000123 = walk (phys s') (cr3 k1) 0xc0000123)"
proof -
  have e: "phys k1 = phys0" "cr3 k1 = 0x100000" "kernel_phy_pool k1 = frames0"
    using k1_facts(9) k0_fields by (simp_all add: same_heap_def)
  let ?free = "pages (kernel_phy_pool k1) - taken (kernel_phy_pool k1) (mem k1)"
  have sub: "?free \<subseteq> {0x200000}" by (auto simp: e frames0_pages)
  have c: "frame_of (cr3 k1) \<notin> ?free" using sub by (auto simp: e frame_of_def)
  have t: "frame_of (phys k1 (pde_slot (cr3 k1) x)) \<notin> ?free" for x
    using sub by (auto simp: e phys0_def frame_of_def)
  have h: "(0xc0000000 :: u32) \<le> 0xc0000123" "(0xc0000123 :: u32) < 0xffc00000"
    by (simp_all add: word_le_nat_alt word_less_nat_alt)
  show ?thesis
    using page_dir_create_shares_kernel [OF k1_heap k1_facts(2) refl c t] h k1_heap k1_facts(2) by blast
qed

section \<open>A page at a given address\<close>

lemma malloc_bit:
  assumes "(tcb_pg_dir (tcbs s (RUNNING_THREAD s)) \<noteq> NULL) = (pf = PF_USER)"
    and "s' = set_holder m r (set_sem_val sem x s)"
    and "vp = vir_pool pf s" and "i = (x' - addr_base vp) div PG_SIZE"
  shows "(if tcb_pg_dir (tcbs s' (RUNNING_THREAD s)) \<noteq> NULL \<and> pf = PF_USER then
       let p = tcb_user_vaddr_pool (tcbs s' (RUNNING_THREAD s)); bit_idx = (x' - addr_base p) div PG_SIZE
       in Inr (s'\<lparr>mem := bitmap_set (btmp p) bit_idx (mem s')\<rparr>)
     else if tcb_pg_dir (tcbs s' (RUNNING_THREAD s)) = NULL \<and> pf = PF_KERNEL then
       let p = kernel_vir_pool s'; bit_idx = (x' - addr_base p) div PG_SIZE
       in Inr (s'\<lparr>mem := bitmap_set (btmp p) bit_idx (mem s')\<rparr>)
     else Inl (Panic c)) = Inr (s'\<lparr>mem := bitmap_set (btmp vp) i (mem s)\<rparr>)"
  using assms by (cases pf) (simp_all add: vir_pool_def frame set_holder_def set_sem_val_def Let_def)

lemma target_vaddr_malloc_right:
  assumes mtx: "mtx = phy_pool_mtx pf" and free: "sem_val s (mtx_sem mtx) = 1"
    and right: "(tcb_pg_dir (tcbs s (RUNNING_THREAD s)) \<noteq> NULL) = (pf = PF_USER)"
    and vp: "vp = vir_pool pf s"
    and pa: "paddr_get (phy_pool pf s) (bitmap_set (btmp vp) ((x - addr_base vp) div PG_SIZE) (mem s)) = (pa, m)"
    and l: "l = set_holder mtx (RUNNING_THREAD s) (set_sem_val (mtx_sem mtx) 0 s)"
  shows "target_vaddr_malloc pf x s =
    (if pa = NULL then Inr (NULL, l\<lparr>mem := m\<rparr>)
     else and_then (v2p_mapping x pa (l\<lparr>mem := m\<rparr>)) (\<lambda>s. and_then (mutex_unlock mtx s) (\<lambda>s. Inr (x, s))))"
proof -
  have lk: "mutex_lock mtx s = Inr l" using mutex_lock_free [of s mtx] free l by simp
  have "phy_pool pf (l\<lparr>mem := bitmap_set (btmp vp) ((x - addr_base vp) div PG_SIZE) (mem s)\<rparr>) = phy_pool pf s"
    by (simp add: l phy_pool_def set_holder_def set_sem_val_def)
  then show ?thesis
    using pa unfolding target_vaddr_malloc_def Let_def mtx [symmetric] lk
    by (simp add: malloc_bit [OF right l vp refl, unfolded Let_def])
qed

lemma target_vaddr_malloc_ok:
  assumes mtx: "mtx = phy_pool_mtx pf" and free: "sem_val s (mtx_sem mtx) = 1" "list_empty (waiters (mtx_sem mtx)) s"
    and right: "(tcb_pg_dir (tcbs s (RUNNING_THREAD s)) \<noteq> NULL) = (pf = PF_USER)"
    and vp: "vp = vir_pool pf s"
    and pa: "paddr_get (phy_pool pf s) (bitmap_set (btmp vp) ((x - addr_base vp) div PG_SIZE) (mem s)) = (pa, m)"
      "pa \<noteq> NULL"
    and map: "selfmap (phys s) (cr3 s)" "mappable (phys s) (cr3 s) x"
  shows "target_vaddr_malloc pf x s =
    Inr (x, set_holder mtx NULL (s\<lparr>mem := m, phys := map_page x pa (cr3 s) (phys s)\<rparr>))"
proof -
  let ?l = "set_holder mtx (RUNNING_THREAD s) (set_sem_val (mtx_sem mtx) 0 s)"
  let ?ph = "map_page x pa (cr3 s) (phys s)"
  have f: "phys ?l = phys s" "cr3 ?l = cr3 s" "nodes ?l = nodes s" "sem_val ?l = (sem_val s)(mtx_sem mtx := 0)"
    by (simp_all add: set_holder_def set_sem_val_def)
  have "v2p_mapping x pa (?l\<lparr>mem := m\<rparr>) = Inr (?l\<lparr>mem := m, phys := ?ph\<rparr>)"
    using v2p_mapping_present [of "?l\<lparr>mem := m\<rparr>" x pa] map f by simp
  moreover have "mutex_unlock mtx (?l\<lparr>mem := m, phys := ?ph\<rparr>) =
      Inr (set_holder mtx NULL (set_sem_val (mtx_sem mtx) 1 (?l\<lparr>mem := m, phys := ?ph\<rparr>)))"
    using free f by (intro mutex_unlock_no_waiter) (simp_all add: list_empty_def)
  moreover have "set_holder mtx NULL (set_sem_val (mtx_sem mtx) 1 (?l\<lparr>mem := m, phys := ?ph\<rparr>)) =
      set_holder mtx NULL (s\<lparr>mem := m, phys := ?ph\<rparr>)"
    using free by (simp add: set_holder_def set_sem_val_def fun_upd_idem)
  ultimately show ?thesis
    using target_vaddr_malloc_right [OF mtx free(1) right vp pa(1) refl] pa(2) by simp
qed


text \<open>A process about to enter user mode: its directory has a table for the user stack.\<close>

definition upool0 :: pool where
  "upool0 = \<lparr>btmp = \<lparr>base_addr = 0xc0201000, bit_num = 753592, byte_len = 94199\<rparr>,
     addr_base = USER_VADDR_START, pool_size = 0\<rparr>"

definition proc0 :: kernel where
  "proc0 = (mutex_init user_phy_pool_mtx raw0)
     \<lparr>phys := phys0(0x100bfc := 0x102003), sched := sched0\<lparr>sch_running_thread := work_t\<rparr>,
      tcbs := \<lambda>_. zero_tcb\<lparr>tcb_pg_dir := 0xc0200000, tcb_stack_top := work_t + PG_SIZE - 112,
        tcb_user_vaddr_pool := upool0\<rparr>\<rparr>"

lemma frames0_get:
  "m 0xc009a010 = 0 \<Longrightarrow> paddr_get frames0 m = (0x200000, bitmap_set (btmp frames0) 0 m)"
  by (simp add: paddr_get_def bitmap_scan_def scan_loop.simps bitmap_get_def frames0_def)

lemma proc0_sel:
  "RUNNING_THREAD proc0 = work_t" "mem proc0 = (\<lambda>_. 0)" "phys proc0 = phys0(0x100bfc := 0x102003)"
  "cr3 proc0 = 0x100000" "user_phy_pool proc0 = frames0"
  "tcb_pg_dir (tcbs proc0 t) = 0xc0200000" "tcb_stack_top (tcbs proc0 t) = work_t + PG_SIZE - 112"
  "tcb_user_vaddr_pool (tcbs proc0 t) = upool0"
  "sem_val proc0 (mtx_sem user_phy_pool_mtx) = 1" "list_empty (waiters (mtx_sem user_phy_pool_mtx)) proc0"
  by (simp_all add: proc0_def mutex_init_def sem_init_def set_holder_def set_sem_val_def raw0_def
    list_init_def set_next_def set_prev_def list_empty_def)

lemma proc0_maps: "selfmap (phys proc0) (cr3 proc0)" "mappable (phys proc0) (cr3 proc0) 0xbffff000"
  by (simp_all add: proc0_sel selfmap_def mappable_def phys0_def frame_of_def pde_slot_def pte_slot_def
    PDE_IDX_def PTE_IDX_def)

lemma proc0_frame:
  "\<exists>m. paddr_get frames0 (bitmap_set (btmp upool0) ((0xbffff000 - addr_base upool0) div PG_SIZE) (mem proc0))
    = (0x200000, m)"
  by (subst frames0_get) (simp_all add: bitmap_set_def proc0_sel upool0_def USER_VADDR_START_def PG_SIZE_def Let_def)


section \<open>Entering user mode\<close>

text \<open>The frame goes right above the thread's saved stack pointer and \<^verbatim>\<open>struct thread_stack\<close>.\<close>

definition user_frame :: "addr \<Rightarrow> intr_stack \<Rightarrow> bool" where
  "user_frame func fr \<longleftrightarrow>
     is_eip fr = func \<and> is_cs fr AND 3 = 3 \<and> is_ss fr AND 3 = 3 \<and> is_ds fr = is_ss fr
     \<and> is_eflags fr = 0x202 \<and> is_esp fr = 0xc0000000 \<and> is_save_flag fr = ALL_SAVE_FLAG"

lemma process_entry_at:
  fixes s :: "'a kernel_scheme"
  assumes r: "r = RUNNING_THREAD s" and dir: "tcb_pg_dir (tcbs s r) \<noteq> NULL"
    and mtx: "mtx = user_phy_pool_mtx" "sem_val s (mtx_sem mtx) = 1" "list_empty (waiters (mtx_sem mtx)) s"
    and vp: "vp = tcb_user_vaddr_pool (tcbs s r)"
    and pa: "paddr_get (user_phy_pool s) (bitmap_set (btmp vp) ((0xbffff000 - addr_base vp) div PG_SIZE) (mem s)) = (pa, m)"
      "pa \<noteq> NULL" "aligned pa"
    and map: "selfmap (phys s) (cr3 s)" "mappable (phys s) (cr3 s) 0xbffff000"
    and k: "k = tcb_stack_top (tcbs s r) + 36"
  obtains s' where "process_entry func s = Inr (k, s')" and "user_frame func (intr_stacks s' k)"
    and "walk (phys s') (cr3 s') 0xbffff000 = Some pa" and "tcb_stack_top (tcbs s' r) = k"
    and "sem_val s' = sem_val s" and "kernel.more s' = kernel.more s"
proof -
  let ?u = "upd_tcb r (\<lambda>c. c\<lparr>tcb_stack_top := k\<rparr>) s"
  let ?fr = "(intr_stacks s k)\<lparr>is_save_flag := ALL_SAVE_FLAG, is_edi := 0, is_esi := 0, is_ebp := 0,
     is_esp_dummy := 0, is_ebx := 0, is_edx := 0, is_ecx := 0, is_eax := 0, is_gs := 0,
     is_ds := SELECTOR_U_DATA, is_es := SELECTOR_U_DATA, is_fs := SELECTOR_U_DATA,
     is_eip := func, is_cs := SELECTOR_U_CODE, is_eflags := EFLAGS_IOPL_0 OR EFLAGS_MBS OR EFLAGS_IF_1\<rparr>"
  let ?s1 = "?u\<lparr>intr_stacks := (intr_stacks s)(k := ?fr)\<rparr>"
  have t: "target_vaddr_malloc PF_USER 0xbffff000 ?s1 = Inr (0xbffff000, set_holder mtx NULL
      (?s1\<lparr>mem := m, phys := map_page 0xbffff000 pa (cr3 ?s1) (phys ?s1)\<rparr>))"
    using assms
    by (intro target_vaddr_malloc_ok [where vp = vp])
      (simp_all add: phy_pool_mtx_def vir_pool_def phy_pool_def upd_tcb_def list_empty_def)
  have k': "tcb_stack_top (tcbs s r) + sizeof_thread_stack = k" by (simp add: k sizeof_thread_stack_def)
  have w: "walk (map_page 0xbffff000 pa (cr3 s) (phys s)) (cr3 s) 0xbffff000 = Some pa"
    using map_page_walk [OF map(2) pa(3)] by simp
  have "process_entry func s = Inr (k, (set_holder mtx NULL
      (?s1\<lparr>mem := m, phys := map_page 0xbffff000 pa (cr3 ?s1) (phys ?s1)\<rparr>))\<lparr>intr_stacks :=
        (intr_stacks s)(k := ?fr\<lparr>is_esp := 0xc0000000, is_ss := SELECTOR_U_DATA\<rparr>)\<rparr>)"
    using t unfolding process_entry_def Let_def r [symmetric] k'
    by (simp add: USER_STACK3_VADDR_def PG_SIZE_def set_holder_def upd_tcb_def)
  then show thesis
    by (rule that) (use w in \<open>simp_all add: set_holder_def upd_tcb_def SELECTOR_U_CODE_def SELECTOR_U_DATA_def
      EFLAGS_IOPL_0_def EFLAGS_MBS_def EFLAGS_IF_1_def user_frame_def\<close>)
qed

end
