(* ===== verification/Descriptors.thy ===== *)
theory Descriptors
  imports Process
begin

text \<open>
  What the processor reads out of the descriptors the kernel writes: the handler address of an
  interrupt gate, the base and the limit of a segment, and the operands of \<^verbatim>\<open>lidt\<close> and
  \<^verbatim>\<open>lgdt\<close>. Each decodes to the value the constructor was given.
\<close>

section \<open>Interrupt gates\<close>

definition gate_offset :: "gate_desc \<Rightarrow> addr" where
  "gate_offset g = push_bit 16 (ucast (func_offset_high_word g)) OR ucast (func_offset_low_word g)"

lemma mask_words: "(0xffff :: u32) = mask 16" "(0xffff0000 :: u32) = push_bit 16 (mask 16)"
  "(0x00ff0000 :: u32) = push_bit 16 (mask 8)" "(0x000f0000 :: u32) = push_bit 16 (mask 4)"
  by (simp_all add: mask_eq_exp_minus_1)

lemma gate_offset_make: "gate_offset (idt_desc_make g attr f) = f"
  unfolding gate_offset_def idt_desc_make_def mask_words
  by (rule bit_word_eqI) (auto simp: bit_simps)

lemma gate_make_fields:
  "attribute (idt_desc_make g attr f) = attr" "selector (idt_desc_make g attr f) = SELECTOR_K_CODE"
  by (simp_all add: idt_desc_make_def)

lemma idt_fill_length [simp]: "length (idt (idt_fill tbl n s)) = length (idt s)"
  by (induction n) (simp_all add: gate_set_def)

lemma idt_fill_above: "n \<le> j \<Longrightarrow> idt (idt_fill tbl n s) ! j = idt s ! j"
  by (induction n) (simp_all add: gate_set_def)

lemma idt_fill_nth:
  "n \<le> length (idt s) \<Longrightarrow> i < n \<Longrightarrow>
    idt (idt_fill tbl n s) ! i = idt_desc_make (idt s ! i) IDT_DESC_ATTR_DPL0 (tbl i)"
  by (induction n) (auto simp: gate_set_def nth_list_update idt_fill_above less_Suc_eq)

lemma put_str_kernel:
  fixes s :: "'a kernel_scheme"
  shows "idt (put_str cs s) = idt s" "idtr (put_str cs s) = idtr s" "idt_table (put_str cs s) = idt_table s"
    "gdt (put_str cs s) = gdt s" "gdtr (put_str cs s) = gdtr s" "tr (put_str cs s) = tr s"
    "syscall_table (put_str cs s) = syscall_table s" "tcbs (put_str cs s) = tcbs s"
    "RUNNING_THREAD (put_str cs s) = RUNNING_THREAD s"
  by (subst put_str_crt [of s cs, unfolded crt_only_def], simp)+

text \<open>The gates \<^verbatim>\<open>idt_desc_init\<close> writes, and the handlers \<^verbatim>\<open>exception_init\<close> enters.\<close>

lemma idt_desc_init_gates:
  assumes "length (idt s) = IDT_DESC_CNT" and "i < IDT_DESC_CNT"
  shows "idt (idt_desc_init tbl s) ! i =
    (if i = INT_SYSCALL then idt_desc_make (idt_desc_make (idt s ! i) IDT_DESC_ATTR_DPL0 (tbl i))
       IDT_DESC_ATTR_DPL3 syscall_entry
     else idt_desc_make (idt s ! i) IDT_DESC_ATTR_DPL0 (tbl i))"
  using assms by (simp add: idt_desc_init_def put_str_kernel gate_set_def idt_fill_nth nth_list_update
    INT_SYSCALL_def IDT_DESC_CNT_def Let_def)

lemma exception_fill_table:
  "n \<le> length (idt_table s) \<Longrightarrow>
    idt_table (exception_fill n s) = replicate n General_intr_handler @ drop n (idt_table s)"
proof (induction n)
  case (Suc n)
  then show ?case
    by (simp add: Let_def list_update_append Cons_nth_drop_Suc [symmetric] replicate_app_Cons_same)
qed simp

section \<open>Segments\<close>

definition gdt_base :: "gdt_desc \<Rightarrow> addr" where
  "gdt_base d = push_bit 24 (ucast (base_high_byte d)) OR push_bit 16 (ucast (base_mid_byte d))
     OR ucast (base_low_word d)"

definition gdt_limit :: "gdt_desc \<Rightarrow> u32" where
  "gdt_limit d = push_bit 16 (ucast (limit_high_attr_high d) AND 0xf) OR ucast (limit_low_word d)"

definition gdt_attr_high :: "gdt_desc \<Rightarrow> u8" where
  "gdt_attr_high d = limit_high_attr_high d AND 0xf0"

lemma gdt_make_fields:
  "base_high_byte (gdt_desc_make d b l al ah) = ucast (drop_bit 24 b)"
  "base_mid_byte (gdt_desc_make d b l al ah) = ucast (drop_bit 16 (b AND 0x00ff0000))"
  "base_low_word (gdt_desc_make d b l al ah) = ucast (b AND 0xffff)"
  "limit_low_word (gdt_desc_make d b l al ah) = ucast (l AND 0xffff)"
  "limit_high_attr_high (gdt_desc_make d b l al ah) = ucast (drop_bit 16 (l AND 0x000f0000) + ucast ah)"
  "attr_low_byte (gdt_desc_make d b l al ah) = al"
  by (simp_all add: gdt_desc_make_def)

lemma gdt_base_make: "gdt_base (gdt_desc_make d b l al ah) = b"
  unfolding gdt_base_def gdt_make_fields mask_words
proof (rule bit_word_eqI)
  fix n :: nat
  assume "n < LENGTH(32)"
  then consider "n < 16" | "16 \<le> n" "n < 24" | "24 \<le> n" "n < 32" by fastforce
  then show "bit (push_bit 24 (ucast (ucast (drop_bit 24 b) :: u8)) OR
      push_bit 16 (ucast (ucast (drop_bit 16 (b AND push_bit 16 (mask 8))) :: u8)) OR
      ucast (ucast (b AND mask 16) :: u16) :: u32) n = bit b n"
    by cases (auto simp: bit_simps)
qed

text \<open>The high nibbles do not overlap, so the sum is a union of bits.\<close>

lemma nibbles_add:
  assumes "ah AND 0xf = (0 :: u8)"
  shows "drop_bit 16 (l AND 0x000f0000) + ucast ah = (drop_bit 16 (l AND 0x000f0000) OR ucast ah :: u32)"
proof (rule disjunctive_add)
  have n: "\<not> bit ah n" if "n < 4" for n
  proof -
    have "\<not> bit (ah AND mask 4) n" using assms by (simp add: mask_eq_exp_minus_1)
    then show ?thesis using that by (simp add: bit_simps)
  qed
  show "\<not> bit (drop_bit 16 (l AND 0x000f0000)) n \<or> \<not> bit (ucast ah :: u32) n" for n
    unfolding mask_words using n [of n] by (auto simp: bit_simps)
qed

lemma gdt_limit_make:
  assumes "unat l < 0x100000" and "ah AND 0xf = 0"
  shows "gdt_limit (gdt_desc_make d b l al ah) = l" and "gdt_attr_high (gdt_desc_make d b l al ah) = ah"
proof -
  have hi: "\<not> bit l n" if "20 \<le> n" for n
  proof -
    have "l = take_bit 20 l"
      using assms(1) by (simp add: word_unat_eq_iff unat_take_bit)
    then have "bit l n = bit (take_bit 20 l) n" by (rule arg_cong)
    then show ?thesis using that by (simp add: bit_take_bit_iff)
  qed
  have lo: "\<not> bit ah n" if "n < 4" for n
  proof -
    have "\<not> bit (ah AND mask 4) n" using assms(2) by (simp add: mask_eq_exp_minus_1)
    then show ?thesis using that by (simp add: bit_simps)
  qed
  have f: "(0xf :: u32) = mask 4" "(0xf0 :: u8) = push_bit 4 (mask 4)" by (simp_all add: mask_eq_exp_minus_1)
  show "gdt_limit (gdt_desc_make d b l al ah) = l"
    unfolding gdt_limit_def gdt_make_fields nibbles_add [OF assms(2)]
    unfolding f mask_words
  proof (rule bit_word_eqI)
    fix n :: nat
    assume "n < LENGTH(32)"
    then consider "n < 16" | "16 \<le> n" "n < 20" | "20 \<le> n" "n < 32" by fastforce
    then show "bit (push_bit 16 (ucast (ucast (drop_bit 16 (l AND push_bit 16 (mask 4)) OR ucast ah :: u32) :: u8)
        AND mask 4) OR ucast (ucast (l AND mask 16) :: u16) :: u32) n = bit l n"
      using hi [of n] lo [of "n - 16"] by cases (auto simp: bit_simps)
  qed
  show "gdt_attr_high (gdt_desc_make d b l al ah) = ah"
    unfolding gdt_attr_high_def gdt_make_fields nibbles_add [OF assms(2)]
    unfolding f mask_words
  proof (rule bit_word_eqI)
    fix n :: nat
    assume "n < LENGTH(8)"
    then consider "n < 4" | "4 \<le> n" "n < 8" by fastforce
    then show "bit (ucast (drop_bit 16 (l AND push_bit 16 (mask 4)) OR ucast ah :: u32) AND push_bit 4 (mask 4) :: u8) n
        = bit ah n"
      using lo [of n] by cases (auto simp: bit_simps)
  qed
qed

text \<open>The operands of \<^verbatim>\<open>lidt\<close> and \<^verbatim>\<open>lgdt\<close>: a 16-bit limit below a 32-bit base.\<close>

definition table_base :: "u64 \<Rightarrow> addr" where
  "table_base w = ucast (drop_bit 16 w)"

definition table_limit :: "u64 \<Rightarrow> u16" where
  "table_limit w = ucast w"

lemma table_operand:
  fixes a :: addr and k :: u16
  shows "table_base (push_bit 16 (ucast a) OR ucast k) = a"
    and "table_limit (push_bit 16 (ucast a) OR ucast k) = k"
  unfolding table_base_def table_limit_def
  by (rule bit_word_eqI; auto simp: bit_simps dest: bit_imp_le_length)+

lemma operand_mask: "push_bit 16 (ucast (a :: addr)) AND 0xffffffff0000 = (push_bit 16 (ucast a) :: u64)"
proof -
  have m: "(0xffffffff0000 :: u64) = push_bit 16 (mask 32)" by (simp add: mask_eq_exp_minus_1)
  show ?thesis
    unfolding m by (rule bit_word_eqI) (auto simp: bit_simps dest: bit_imp_le_length)
qed

lemma idt_init_idtr:
  "table_base (idtr (idt_init tbl a s)) = a" "table_limit (idtr (idt_init tbl a s)) = 0x407"
proof -
  have l: "(of_nat (8 * IDT_DESC_CNT) - 1 :: u64) = ucast (0x407 :: u16)"
    by (simp add: IDT_DESC_CNT_def)
  have "idtr (idt_init tbl a s) = push_bit 16 (ucast a) OR ucast (0x407 :: u16)"
    unfolding idt_init_def Let_def l operand_mask by (simp add: put_str_kernel)
  then show "table_base (idtr (idt_init tbl a s)) = a" "table_limit (idtr (idt_init tbl a s)) = 0x407"
    by (simp_all only: table_operand)
qed

lemma outb_kernel:
  fixes s :: "'a kernel_scheme"
  shows "idt (outb p d s) = idt s" "idt_table (outb p d s) = idt_table s"
  by (simp_all add: outb_def)

lemma pic_init_kernel:
  fixes s :: "'a kernel_scheme"
  shows "idt (pic_init s) = idt s" "idt_table (pic_init s) = idt_table s"
  by (simp_all add: pic_init_def Let_def put_str_kernel outb_kernel)

lemma exception_fill_idt: "idt (exception_fill n s) = idt s"
  by (induction n) (simp_all add: Let_def)

lemma idt_desc_init_table: "idt_table (idt_desc_init tbl s) = idt_table s"
proof -
  have "idt_table (idt_fill tbl n s) = idt_table s" for n and s :: "'a kernel_scheme"
    by (induction n) (simp_all add: gate_set_def)
  then show ?thesis by (simp add: idt_desc_init_def Let_def put_str_kernel gate_set_def)
qed

lemma idt_init_tables:
  assumes "length (idt s) = IDT_DESC_CNT" and "length (idt_table s) = IDT_DESC_CNT" and "i < IDT_DESC_CNT"
  shows "gate_offset (idt (idt_init tbl a s) ! i) = (if i = INT_SYSCALL then syscall_entry else tbl i)"
    and "attribute (idt (idt_init tbl a s) ! i) = (if i = INT_SYSCALL then IDT_DESC_ATTR_DPL3 else IDT_DESC_ATTR_DPL0)"
    and "idt_table (idt_init tbl a s) ! i = General_intr_handler"
    and "selector (idt (idt_init tbl a s) ! i) = SELECTOR_K_CODE"
proof -
  let ?s = "put_str (lit ''idt_init start\<newline>'') s"
  have e: "idt (idt_init tbl a s) = idt (idt_desc_init tbl ?s)"
    by (simp add: idt_init_def Let_def put_str_kernel pic_init_kernel exception_init_def exception_fill_idt)
  have "length (idt ?s) = IDT_DESC_CNT" using assms(1) by (simp add: put_str_kernel)
  note g = idt_desc_init_gates [OF this assms(3), of tbl]
  show "gate_offset (idt (idt_init tbl a s) ! i) = (if i = INT_SYSCALL then syscall_entry else tbl i)"
    "attribute (idt (idt_init tbl a s) ! i) = (if i = INT_SYSCALL then IDT_DESC_ATTR_DPL3 else IDT_DESC_ATTR_DPL0)"
    "selector (idt (idt_init tbl a s) ! i) = SELECTOR_K_CODE"
    unfolding e g by (simp_all add: gate_offset_make gate_make_fields)
  have "idt_table (idt_init tbl a s) = idt_table (exception_fill IDT_DESC_CNT (idt_desc_init tbl ?s))"
    by (simp add: idt_init_def Let_def put_str_kernel pic_init_kernel exception_init_def)
  then show "idt_table (idt_init tbl a s) ! i = General_intr_handler"
    using assms exception_fill_table [of IDT_DESC_CNT "idt_desc_init tbl ?s"]
    by (simp add: idt_desc_init_table put_str_kernel)
qed

section \<open>The task state segment\<close>

lemma tss_init_segments:
  assumes "length (gdt s) = 7"
  shows "gdt_base (gdt (tss_init s) ! 4) = tss_addr \<and> gdt_limit (gdt (tss_init s) ! 4) = sizeof_tss - 1"
    and "i \<in> {5, 6} \<Longrightarrow> gdt_base (gdt (tss_init s) ! i) = 0 \<and> gdt_limit (gdt (tss_init s) ! i) = 0xfffff"
    and "table_base (gdtr (tss_init s)) = gdt_base_addr \<and> table_limit (gdtr (tss_init s)) = 55"
    and "seg_ss0 (tss_seg (tss_init s)) = SELECTOR_K_STACK" "tr (tss_init s) = SELECTOR_TSS"
proof -
  let ?z = "gdt s ! 4" 
  have g: "gdt (tss_init s) =
      (gdt s)[4 := gdt_desc_make (gdt s ! 4) tss_addr (sizeof_tss - 1) TSS_ATTR_LOW TSS_ATTR_HIGH,
              5 := gdt_desc_make (gdt s ! 5) 0 0xfffff GDT_CODE_ATTR_LOW_DPL3 GDT_ATTR_HIGH,
              6 := gdt_desc_make (gdt s ! 6) 0 0xfffff GDT_DATA_ATTR_LOW_DPL3 GDT_ATTR_HIGH]"
    by (simp add: tss_init_def Let_def put_str_kernel gdt_set_def)
  have ah: "TSS_ATTR_HIGH AND 0xf = 0" "GDT_ATTR_HIGH AND 0xf = 0"
    by (simp_all add: TSS_ATTR_HIGH_def GDT_ATTR_HIGH_def)
  show "gdt_base (gdt (tss_init s) ! 4) = tss_addr \<and> gdt_limit (gdt (tss_init s) ! 4) = sizeof_tss - 1"
    unfolding g using assms gdt_limit_make(1) [OF _ ah(1)] by (simp add: gdt_base_make sizeof_tss_def)
  show "gdt_base (gdt (tss_init s) ! i) = 0 \<and> gdt_limit (gdt (tss_init s) ! i) = 0xfffff" if "i \<in> {5, 6}"
    unfolding g using assms that gdt_limit_make(1) [OF _ ah(2)] by (auto simp: gdt_base_make)
  have "gdtr (tss_init s) = push_bit 16 (ucast gdt_base_addr) OR ucast (55 :: u16)"
    by (simp add: tss_init_def Let_def put_str_kernel)
  then show "table_base (gdtr (tss_init s)) = gdt_base_addr \<and> table_limit (gdtr (tss_init s)) = 55"
    by (simp only: table_operand simp_thms)
  show "seg_ss0 (tss_seg (tss_init s)) = SELECTOR_K_STACK" "tr (tss_init s) = SELECTOR_TSS"
    by (simp_all add: tss_init_def Let_def put_str_kernel gdt_set_def frame)
qed

end
