(* ===== verification/Props_Device.thy ===== *)
theory Props_Device
  imports Descriptors Ioqueue_Inv Scenario
begin

text \<open>
  The properties of the devices: the text console, the I/O queue, the keyboard, and the descriptor
  tables the processor reads.
\<close>

section \<open>The console\<close>

text \<open>
  C34. The console implements the abstract screen: with the cursor on the screen, \<open>put_char\<close>
  types the character on it (a new line, a backspace that is not in the top left corner, a
  character, with scrolling at the end), \<open>put_str\<close> types a string up to its end, and
  \<open>put_int\<close> types the hexadecimal digits of the number without leaving its buffer; the
  cursor stays on the screen.
\<close>

theorem console_refines_screen:
  assumes "console_ok s"
  shows "(printable_at c s \<longrightarrow> console (put_char c s) = type_char c (console s) \<and> console_ok (put_char c s))
    \<and> (0 \<notin> set cs \<longrightarrow> 8 \<notin> set cs \<longrightarrow>
        console (put_str (cs @ 0 # rest) s) = fold type_char cs (console s)
        \<and> console_ok (put_str (cs @ 0 # rest) s))
    \<and> (\<exists>s'. put_int num s = (Inr s' :: 's halt + _)
        \<and> console s' = fold type_char (hex_digits num) (console s) \<and> console_ok s' \<and> crt_only s s')"
proof -
  have nul: "put_str (cs @ 0 # rest) s = put_str cs s" if "0 \<notin> set cs" for cs and s :: "'a machine_scheme"
    using that by (induction cs arbitrary: s) auto
  have int: "\<exists>s'. put_int num s = (Inr s' :: 's halt + _)
      \<and> console s' = fold type_char (hex_digits num) (console s) \<and> console_ok s' \<and> crt_only s s'"
    using put_str_console [OF assms, of "hex_digits num"] hex_digits_plain [of num]
      put_str_crt [of s "hex_digits num"] put_int_spec [of num s] by blast
  show ?thesis
    using int assms put_char_console [of s c] put_char_ok [of s c] put_str_console [OF assms, of cs] nul [of cs s]
    by simp
qed

theorem console_refines_screen_witness:
  "console_ok raw0 \<and> console (put_char 0x41 raw0) = type_char 0x41 (console raw0)
    \<and> (\<exists>s'. put_int 0x2a raw0 = (Inr s' :: unit halt + _)
        \<and> console s' = fold type_char (hex_digits 0x2a) (console raw0))"
proof -
  have ok: "console_ok raw0" by (simp add: console_ok_def cursor_def raw0_def)
  moreover have "printable_at 0x41 raw0" by (simp add: printable_at_def)
  ultimately show ?thesis
    using console_refines_screen [OF ok, of "0x41" "[]" "[]" "0x2a", where ?'s = unit] by blast
qed

section \<open>The I/O queue\<close>

primrec ioq_puts :: "addr \<Rightarrow> u8 list \<Rightarrow> 'a kernel_scheme \<Rightarrow> 'a kernel_scheme halt + 'a kernel_scheme" where
  "ioq_puts q [] s = Inr s"
| "ioq_puts q (b # bs) s = and_then (ioq_putchar q b s) (ioq_puts q bs)"

primrec ioq_gets :: "addr \<Rightarrow> nat \<Rightarrow> 'a kernel_scheme \<Rightarrow> 'a kernel_scheme halt + (u8 list \<times> 'a kernel_scheme)" where
  "ioq_gets q 0 s = Inr ([], s)"
| "ioq_gets q (Suc n) s =
     and_then (ioq_getchar q s) (\<lambda>(b, s). and_then (ioq_gets q n s) (\<lambda>(bs, s). Inr (b # bs, s)))"

lemma ring_waiters:
  "consumer (ring_put b c) = consumer c" "producer (ring_put b c) = producer c"
  "consumer (snd (ring_get c)) = consumer c" "producer (snd (ring_get c)) = producer c"
  by (simp_all add: ring_put_def ring_get_def)

lemma fold_ring_waiters:
  "consumer (fold ring_put bs c) = consumer c" "producer (fold ring_put bs c) = producer c"
  by (induction bs arbitrary: c) (simp_all add: ring_waiters)

lemma ioq_puts_ring:
  assumes "ioq_wf (ioqs s q)" and "consumer (ioqs s q) = NULL"
    and "length (ioq_bytes (ioqs s q)) + length bs \<le> 63"
  shows "ioq_puts q bs s = Inr (s\<lparr>ioqs := (ioqs s)(q := fold ring_put bs (ioqs s q))\<rparr>)"
  using assms
proof (induction bs arbitrary: s)
  case Nil
  then show ?case by (simp add: fun_upd_idem)
next
  case (Cons b bs)
  have room: "length (ioq_bytes (ioqs s q)) < 63" using Cons.prems(3) by simp
  let ?s = "s\<lparr>ioqs := (ioqs s)(q := ring_put b (ioqs s q))\<rparr>"
  have "ioq_puts q (b # bs) s = ioq_puts q bs ?s"
    using ioq_putchar_ready [OF Cons.prems(1) room Cons.prems(2)] by simp
  also have "\<dots> = Inr (?s\<lparr>ioqs := (ioqs ?s)(q := fold ring_put bs (ioqs ?s q))\<rparr>)"
    using Cons.prems ring.put_ok [OF Cons.prems(1) room] ring.put_items [OF Cons.prems(1) room]
    by (intro Cons.IH) (simp_all add: ring_waiters)
  finally show ?case by (simp add: fun_upd_def cong: if_cong)
qed

lemma ioq_gets_ring:
  assumes "ioq_wf (ioqs s q)" and "producer (ioqs s q) = NULL" and "n \<le> length (ioq_bytes (ioqs s q))"
  shows "ioq_gets q n s = Inr (fst (ring.get_many n (ioqs s q)),
    s\<lparr>ioqs := (ioqs s)(q := snd (ring.get_many n (ioqs s q)))\<rparr>)"
  using assms
proof (induction n arbitrary: s)
  case 0
  then show ?case by (simp add: fun_upd_idem)
next
  case (Suc n)
  have ne: "ioq_bytes (ioqs s q) \<noteq> []" using Suc.prems(3) by (metis Suc_n_not_le_n le_zero_eq list.size(3) nat.simps(3))
  let ?s = "s\<lparr>ioqs := (ioqs s)(q := snd (ring_get (ioqs s q)))\<rparr>"
  have "length (ioq_bytes (ioqs s q)) = Suc (length (ioq_bytes (snd (ring_get (ioqs s q)))))"
    using ring.get_items [OF Suc.prems(1) ne] by (metis length_Cons)
  then have "ioq_gets q n ?s = Inr (fst (ring.get_many n (ioqs ?s q)),
      ?s\<lparr>ioqs := (ioqs ?s)(q := snd (ring.get_many n (ioqs ?s q)))\<rparr>)"
    using Suc.prems ring.get_ok [OF Suc.prems(1) ne] by (intro Suc.IH) (simp_all add: ring_waiters)
  then show ?case
    using ioq_getchar_ready [OF Suc.prems(1) ne Suc.prems(2)]
    by (simp add: split_beta Let_def fun_upd_def cong: if_cong)
qed

text \<open>
  C29. First in, first out: with room for them and nobody asleep on the queue, bytes put with
  \<open>ioq_putchar\<close> come out of \<open>ioq_getchar\<close> behind those that were there, in order, each
  once; nothing but the queue changes. The queue is empty iff it holds no byte and full iff it
  holds 63.
\<close>

theorem ioqueue_fifo:
  assumes "ioq_wf (ioqs s q)" and "consumer (ioqs s q) = NULL" and "producer (ioqs s q) = NULL"
    and "old = ioq_bytes (ioqs s q)" and "length old + length bs \<le> 63"
  shows "\<exists>s' s''. ioq_puts q bs s = Inr s' \<and> ioq_bytes (ioqs s' q) = old @ bs \<and> ioq_wf (ioqs s' q)
    \<and> ioq_gets q (length (old @ bs)) s' = Inr (old @ bs, s'') \<and> ioq_bytes (ioqs s'' q) = []
    \<and> ioq_wf (ioqs s'' q) \<and> s'' = s\<lparr>ioqs := (ioqs s)(q := ioqs s'' q)\<rparr>
    \<and> (ioq_empty q s \<longleftrightarrow> old = []) \<and> (ioq_full q s \<longleftrightarrow> length old = 63)"
proof -
  let ?c = "fold ring_put bs (ioqs s q)"
  let ?s' = "s\<lparr>ioqs := (ioqs s)(q := ?c)\<rparr>"
  have c: "ioq_wf ?c" "ioq_bytes ?c = old @ bs"
    using ring.put_many [OF assms(1), of bs] assms(4,5) by simp_all
  let ?d = "snd (ring.get_many (length (old @ bs)) ?c)"
  have d: "fst (ring.get_many (length (old @ bs)) ?c) = old @ bs" "ioq_wf ?d" "ioq_bytes ?d = []"
    using ring.get_many_take [OF c(1), of "length (old @ bs)"] c(2) by simp_all
  have "ioq_puts q bs s = Inr ?s'" using assms by (intro ioq_puts_ring) simp_all
  moreover have "ioq_gets q (length (old @ bs)) ?s' = Inr (old @ bs, ?s'\<lparr>ioqs := (ioqs ?s')(q := ?d)\<rparr>)"
    using ioq_gets_ring [of ?s' q "length (old @ bs)"] c d assms(3) by (simp add: fold_ring_waiters)
  ultimately show ?thesis
    using c d ioq_empty_iff [OF assms(1)] ioq_full_iff [OF assms(1)] assms(4)
    by (intro exI [of _ ?s'] exI [of _ "?s'\<lparr>ioqs := (ioqs ?s')(q := ?d)\<rparr>"]) simp
qed

theorem ioqueue_fifo_witness:
  "ioq_wf (ioqs raw0 kbd_buf) \<and> (\<exists>s' s''. ioq_puts kbd_buf [0x61, 0x62] raw0 = Inr s'
    \<and> ioq_gets kbd_buf 2 s' = Inr ([0x61, 0x62], s''))"
proof -
  have q: "ioqs raw0 kbd_buf = ioq0" by (simp add: raw0_def)
  have w: "ioq_wf (ioqs raw0 kbd_buf)" "consumer (ioqs raw0 kbd_buf) = NULL" "producer (ioqs raw0 kbd_buf) = NULL"
    by (simp_all add: q ioq0_def ioq_wf_def BUF_SIZE_def)
  have b: "[] = ioq_bytes (ioqs raw0 kbd_buf)" by (simp add: q ioq0_def ioq_bytes_def ioq_len_def)
  show ?thesis using ioqueue_fifo [OF w b, of "[0x61, 0x62]"] w by (auto simp: numeral_2_eq_2)
qed

text \<open>
  C28. A reader of an empty queue sleeps: \<open>ioq_getchar\<close> takes the queue's mutex, records the
  caller as the consumer and blocks it, and the best other thread runs. When the caller goes on
  and the queue holds a byte, it gives the mutex back and returns the first one.
\<close>

theorem ioq_reader_sleeps:
  fixes s :: "'a kernel_scheme"
  assumes "sinv s v" and "r = RUNNING_THREAD s" and "queued v - {r} \<noteq> {}"
    and "\<And>t. t \<in> vt v \<Longrightarrow> activatable t s" and "ioq_empty q s" and "sem_val s (mtx_sem q) = 1"
    and "v' = deq r (prio_of r s) v"
  shows "(\<exists>s' p. ioq_getchar q s = Inl (Suspended s') \<and> sinv s' v' \<and> least_q v' p
      \<and> RUNNING_THREAD s' = hd (vq v' p) \<and> tcb_status (tcbs s' r) = TASK_BLOCKED
      \<and> ioqs s' = (ioqs s)(q := (ioqs s q)\<lparr>consumer := r\<rparr>) \<and> sem_val s' (mtx_sem q) = 0)
    \<and> (\<forall>(u :: 'a kernel_scheme) w b bs. klists u w \<longrightarrow> mtx_sem q \<in> vs w \<longrightarrow> vw w (mtx_sem q) = [] \<longrightarrow>
        sem_val u (mtx_sem q) = 0 \<longrightarrow> ioq_wf (ioqs u q) \<longrightarrow> ioq_bytes (ioqs u q) = b # bs \<longrightarrow>
        producer (ioqs u q) = NULL \<longrightarrow>
        (\<exists>u'. ioq_getchar_resume q u = Inr (b, u') \<and> ioq_bytes (ioqs u' q) = bs \<and> sem_val u' (mtx_sem q) = 1))"
proof -
  obtain s' p where "ioq_getchar q s = Inl (Suspended s')" "sinv s' v'" "least_q v' p"
    "RUNNING_THREAD s' = hd (vq v' p)" "tcb_status (tcbs s' r) = TASK_BLOCKED"
    "sem_val s' = (sem_val s)(mtx_sem q := 0)" "ioqs s' = (ioqs s)(q := (ioqs s q)\<lparr>consumer := r\<rparr>)"
    by (rule ioq_reader_suspends [OF assms(1-6), folded assms(7)])
  then have a: "\<exists>s' p. ioq_getchar q s = Inl (Suspended s') \<and> sinv s' v' \<and> least_q v' p
      \<and> RUNNING_THREAD s' = hd (vq v' p) \<and> tcb_status (tcbs s' r) = TASK_BLOCKED
      \<and> ioqs s' = (ioqs s)(q := (ioqs s q)\<lparr>consumer := r\<rparr>) \<and> sem_val s' (mtx_sem q) = 0"
    by (intro exI [of _ s'] exI [of _ p]) simp
  have "\<exists>u'. ioq_getchar_resume q u = Inr (b, u') \<and> ioq_bytes (ioqs u' q) = bs \<and> sem_val u' (mtx_sem q) = 1"
    if "klists u w" "mtx_sem q \<in> vs w" "vw w (mtx_sem q) = []" "sem_val u (mtx_sem q) = 0"
      "ioq_wf (ioqs u q)" "ioq_bytes (ioqs u q) = b # bs" "producer (ioqs u q) = NULL"
    for u :: "'a kernel_scheme" and w b bs
    using ioq_reader_resumes [OF that] by auto
  with a show ?thesis by blast
qed

theorem ioq_reader_sleeps_witness:
  "\<exists>s s'. RUNNING_THREAD (s :: kernel) = idle_t \<and> sinv s v2 \<and> ioq_empty kbd_buf s
    \<and> ioq_getchar kbd_buf s = Inl (Suspended s') \<and> consumer (ioqs s' kbd_buf) = idle_t
    \<and> tcb_status (tcbs s' idle_t) = TASK_BLOCKED"
proof -
  let ?s = "k2\<lparr>sem_val := (sem_val k2)(mtx_sem kbd_buf := 1), ioqs := \<lambda>_. ioq0\<rparr>"
  have i: "sinv ?s v2"
    using kinvD(1) [OF k2_facts(1)] by (subst sinv_cong_fields [of _ k2]) simp_all
  have a: "activatable t ?s" if "t \<in> vt v2" for t
    using k2_activatable [OF that] by (subst activatable_cong [of _ _ k2]) simp_all
  have e: "ioq_empty kbd_buf ?s" by (simp add: ioq_empty_def ioq0_def)
  have r: "idle_t = RUNNING_THREAD ?s" using k2_facts(2) by simp
  have o: "queued v2 - {idle_t} \<noteq> {}" by (simp add: v2_sel idle_t_def work_t_def)
  have f: "sem_val ?s (mtx_sem kbd_buf) = 1" by simp
  from ioq_reader_sleeps [OF i r o a e f refl]
  obtain s' where "ioq_getchar kbd_buf ?s = Inl (Suspended s')" "tcb_status (tcbs s' idle_t) = TASK_BLOCKED"
    "ioqs s' = (ioqs ?s)(kbd_buf := (ioqs ?s kbd_buf)\<lparr>consumer := idle_t\<rparr>)"
    by blast
  then show ?thesis using i e r by (intro exI [of _ ?s] exI [of _ s']) simp
qed

text \<open>
  C27. A byte wakes the reader: \<open>ioq_putchar\<close> into a queue on which a blocked thread sleeps
  appends the byte, makes the thread ready at the front of its run queue and clears the
  consumer field; the running thread goes on and the scheduler's invariant holds.
\<close>

theorem ioq_byte_wakes_reader:
  fixes s :: "'a kernel_scheme"
  assumes "sinv s v" and "t \<in> vt v" and "block_status (tcb_status (tcbs s t))"
    and "consumer (ioqs s q) = t" and "t \<noteq> NULL"
    and "ioq_wf (ioqs s q)" and "length (ioq_bytes (ioqs s q)) < 63"
  shows "\<exists>s'. ioq_putchar q b s = Inr s' \<and> sinv s' (enq_front t (prio_of t s) v)
    \<and> tcb_status (tcbs s' t) = TASK_READY \<and> RUNNING_THREAD s' = RUNNING_THREAD s
    \<and> ioq_bytes (ioqs s' q) = ioq_bytes (ioqs s q) @ [b] \<and> ioq_wf (ioqs s' q)
    \<and> consumer (ioqs s' q) = NULL"
proof -
  obtain s' where s': "ioq_putchar q b s = Inr s'" "sinv s' (enq_front t (prio_of t s) v)"
    "tcb_status (tcbs s' t) = TASK_READY" "RUNNING_THREAD s' = RUNNING_THREAD s"
    "ioqs s' = (ioqs s)(q := (ring_put b (ioqs s q))\<lparr>consumer := NULL\<rparr>)"
    by (rule ioq_writer_wakes [OF assms])
  have "ioq_bytes (c\<lparr>consumer := x\<rparr>) = ioq_bytes c" "ioq_wf (c\<lparr>consumer := x\<rparr>) = ioq_wf c" for c x
    by (simp_all add: ioq_bytes_def ioq_len_def ioq_wf_def)
  then show ?thesis
    using s' ring.put_items [OF assms(6,7)] ring.put_ok [OF assms(6,7)] by (intro exI [of _ s']) simp
qed

theorem ioq_byte_wakes_reader_witness:
  "\<exists>s s'. block_status (tcb_status (tcbs (s :: kernel) work_t)) \<and> consumer (ioqs s kbd_buf) = work_t
    \<and> ioq_putchar kbd_buf 0x61 s = Inr s' \<and> tcb_status (tcbs s' work_t) = TASK_READY
    \<and> ioq_bytes (ioqs s' kbd_buf) = [0x61]"
proof -
  let ?s = "(kern c5)\<lparr>ioqs := \<lambda>_. ioq0\<lparr>consumer := work_t\<rparr>\<rparr>"
  have i: "sinv ?s v5"
    using kinvD(1) [OF c5_kern(1)] by (subst sinv_cong_fields [of _ "kern c5"]) simp_all
  have t: "work_t \<in> vt v5" by (simp add: v5_sel)
  have "work_t \<in> waiting v5" by (simp add: waiting_def v5_sel)
  then have b: "block_status (tcb_status (tcbs ?s work_t))"
    using kinvD(2) [OF c5_kern(1)] by (simp add: wait_inv_def block_status_def)
  have q: "consumer (ioqs ?s kbd_buf) = work_t" "work_t \<noteq> NULL" "ioq_wf (ioqs ?s kbd_buf)"
    "length (ioq_bytes (ioqs ?s kbd_buf)) < 63" "ioq_bytes (ioqs ?s kbd_buf) = []"
    by (simp_all add: work_t_def ioq0_def ioq_wf_def BUF_SIZE_def ioq_bytes_def ioq_len_def)
  obtain s' where "ioq_putchar kbd_buf 0x61 ?s = Inr s'" "tcb_status (tcbs s' work_t) = TASK_READY"
    "ioq_bytes (ioqs s' kbd_buf) = ioq_bytes (ioqs ?s kbd_buf) @ [0x61]"
    using ioq_byte_wakes_reader [OF i t b q(1-4), of "0x61"] by blast
  then show ?thesis using b q by (intro exI [of _ ?s] exI [of _ s']) simp
qed

section \<open>The keyboard\<close>

lemma keyboard_ctrl:
  assumes "\<not> ext_scan_code s" and "in_ports s 0x60 = c" and "c \<noteq> 0xe0"
    and "ctrl_key_proc (ucast c) s = (True, s')"
  shows "intr_keyboard_handler s = Inr s'"
proof -
  have "(ucast c :: u16) \<noteq> 0xe0"
  proof
    assume "(ucast c :: u16) = 0xe0"
    then have "unat c = 224" using unat_u8_u16 [of c] by simp
    then have "unat c = unat (0xe0 :: u8)" by simp
    then show False using assms(3) by (simp only: unat_eq_iff)
  qed
  then show ?thesis
    using assms(4) by (simp add: intr_keyboard_handler_def scan_code_get_plain [OF assms(1-3)])
qed



section \<open>Descriptor tables\<close>

text \<open>
  \<open>idt_init\<close>: the gate of every vector leads to its entry stub with kernel privilege, the
  system call gate to \<open>syscall_entry\<close> with user privilege; every vector has the default
  handler; and the operand of \<^verbatim>\<open>lidt\<close> holds the address of the table and its size less one.
\<close>

theorem idt_init_installs:
  assumes "length (idt s) = IDT_DESC_CNT" and "length (idt_table s) = IDT_DESC_CNT" and "s' = idt_init tbl a s"
  shows "(\<forall>i<IDT_DESC_CNT. gate_offset (idt s' ! i) = (if i = INT_SYSCALL then syscall_entry else tbl i)
      \<and> attribute (idt s' ! i) = (if i = INT_SYSCALL then IDT_DESC_ATTR_DPL3 else IDT_DESC_ATTR_DPL0)
      \<and> idt_table s' ! i = General_intr_handler)
    \<and> table_base (idtr s') = a \<and> table_limit (idtr s') = of_nat (8 * IDT_DESC_CNT - 1)"
  using idt_init_tables [OF assms(1,2), of _ tbl a] idt_init_idtr [of tbl a s] assms(3)
  by (simp add: IDT_DESC_CNT_def)

theorem idt_init_installs_witness:
  "length (idt raw0) = IDT_DESC_CNT \<and> length (idt_table raw0) = IDT_DESC_CNT
    \<and> gate_offset (idt (idt_init (\<lambda>i. 0xc0002000) 0xc0008000 raw0) ! 0x21) = 0xc0002000
    \<and> table_base (idtr (idt_init (\<lambda>i. 0xc0002000) 0xc0008000 raw0)) = 0xc0008000"
proof -
  have l: "length (idt raw0) = IDT_DESC_CNT" "length (idt_table raw0) = IDT_DESC_CNT"
    by (simp_all add: raw0_def)
  have i: "(0x21 :: nat) < IDT_DESC_CNT" "(0x21 :: nat) \<noteq> INT_SYSCALL"
    by (simp_all add: IDT_DESC_CNT_def INT_SYSCALL_def)
  show ?thesis
    using idt_init_installs [OF l refl, of "\<lambda>i. 0xc0002000" "0xc0008000"] i l by simp
qed

text \<open>
  \<open>tss_init\<close>: descriptor 4 decodes to the address and limit of the task state segment,
  descriptors 5 and 6 to flat 4 GB segments; the operand of \<^verbatim>\<open>lgdt\<close> holds the address of the
  table and its size less one, the task register selects descriptor 4, and ring 0 gets the kernel
  stack selector.
\<close>

theorem tss_init_descriptors:
  assumes "length (gdt s) = 7" and "s' = tss_init s"
  shows "gdt_base (gdt s' ! 4) = tss_addr \<and> gdt_limit (gdt s' ! 4) = sizeof_tss - 1
    \<and> (\<forall>i\<in>{5, 6}. gdt_base (gdt s' ! i) = 0 \<and> gdt_limit (gdt s' ! i) = 0xfffff)
    \<and> table_base (gdtr s') = gdt_base_addr \<and> table_limit (gdtr s') = 8 * 7 - 1
    \<and> tr s' = SELECTOR_TSS \<and> seg_ss0 (tss_seg s') = SELECTOR_K_STACK"
  using tss_init_segments [OF assms(1)] assms(2) by simp

theorem tss_init_descriptors_witness:
  "gdt_base (gdt (tss_init (raw0\<lparr>gdt := replicate 7 \<lparr>limit_low_word = 0, base_low_word = 0,
      base_mid_byte = 0, attr_low_byte = 0, limit_high_attr_high = 0, base_high_byte = 0\<rparr>\<rparr>)) ! 4) = tss_addr"
  using tss_init_descriptors [OF _ refl, of "raw0\<lparr>gdt := replicate 7 \<lparr>limit_low_word = 0, base_low_word = 0,
      base_mid_byte = 0, attr_low_byte = 0, limit_high_attr_high = 0, base_high_byte = 0\<rparr>\<rparr>"]
  by simp

section \<open>Nothing left to run\<close>

text \<open>
  The scheduler relies on a ready thread: with every run queue empty the scan of the mask
  fails, its $-1$ is used as a priority, and the thread is taken from the memory before the first
  queue.
\<close>

theorem no_ready_thread:
  assumes "rq_inv s v" and "queued v = {}"
  shows "highest_rq_get s = minus1
    \<and> next_thread_pick s = ready_entry (nxt (nodes s (scheduler_addr + 520)))"
  using highest_rq_none [OF assms] by (simp add: next_thread_pick_def list_first_elem_def)

theorem no_ready_thread_witness:
  "rq_inv k0 empty_view \<and> queued empty_view = {} \<and> highest_rq_get k0 = minus1"
proof -
  have "queued empty_view = {}" by (simp add: queued_def)
  then show ?thesis using no_ready_thread [OF k0_inv] k0_inv by blast
qed

end
