(* ===== verification/Switch.thy ===== *)
theory Switch
  imports Descriptors
begin

text \<open>
  The assembly of the kernel: the context switch of \<^verbatim>\<open>src/thread/switch.s\<close> and the
  interrupt and system call entries of \<^verbatim>\<open>src/kernel/kernel.s\<close>, as functions on the
  registers and on the double words of the stacks, added to the kernel's state. The delivery of an
  interrupt and \<^verbatim>\<open>iret\<close> are the documented behaviour of the processor in protected mode.
  C functions called from here do what their models do to the kernel's state; the registers
  and the stack below the stack pointer are the compiler's, and no theorem relies on them.
\<close>

section \<open>Registers and stack\<close>

record regs =
  r_eax :: u32
  r_ebx :: u32
  r_ecx :: u32
  r_edx :: u32
  r_esi :: u32
  r_edi :: u32
  r_ebp :: u32
  r_esp :: addr
  r_eip :: addr
  r_cs :: u32
  r_ss :: u32
  r_ds :: u32
  r_es :: u32
  r_fs :: u32
  r_gs :: u32

record cpu = kernel +
  regs :: regs
  stack :: "addr \<Rightarrow> u32"

definition push :: "u32 \<Rightarrow> 'a cpu_scheme \<Rightarrow> 'a cpu_scheme" where
  "push w s =
     (let sp = r_esp (regs s) - 4
      in s\<lparr>regs := (regs s)\<lparr>r_esp := sp\<rparr>, stack := (stack s)(sp := w)\<rparr>)"

text \<open>\<^verbatim>\<open>pop\<close> into the register whose update function is given.\<close>

definition pop_to :: "((u32 \<Rightarrow> u32) \<Rightarrow> regs \<Rightarrow> regs) \<Rightarrow> 'a cpu_scheme \<Rightarrow> 'a cpu_scheme" where
  "pop_to upd s =
     (let r = regs s
      in s\<lparr>regs := upd (\<lambda>_. stack s (r_esp r)) (r\<lparr>r_esp := r_esp r + 4\<rparr>)\<rparr>)"

definition add_esp :: "u32 \<Rightarrow> 'a cpu_scheme \<Rightarrow> 'a cpu_scheme" where
  "add_esp n s = s\<lparr>regs := (regs s)\<lparr>r_esp := r_esp (regs s) + n\<rparr>\<rparr>"

definition pushad :: "'a cpu_scheme \<Rightarrow> 'a cpu_scheme" where
  "pushad s =
     (let r = regs s;
          s = push (r_eax r) s;
          s = push (r_ecx r) s;
          s = push (r_edx r) s;
          s = push (r_ebx r) s;
          s = push (r_esp r) s;
          s = push (r_ebp r) s;
          s = push (r_esi r) s
      in push (r_edi r) s)"

definition popad :: "'a cpu_scheme \<Rightarrow> 'a cpu_scheme" where
  "popad s =
     (let s = pop_to r_edi_update s;
          s = pop_to r_esi_update s;
          s = pop_to r_ebp_update s;
          s = add_esp 4 s;
          s = pop_to r_ebx_update s;
          s = pop_to r_edx_update s;
          s = pop_to r_ecx_update s
      in pop_to r_eax_update s)"

text \<open>The current privilege level: the low two bits of the code segment selector.\<close>

definition cpl :: "regs \<Rightarrow> u32" where
  "cpl r = r_cs r AND 3"

section \<open>Interrupt delivery and return\<close>

text \<open>
  Through the gate of the vector: from an outer level the processor takes the inner stack from the
  task state segment and pushes the old one, then it pushes flags and return address, the error
  code of the exceptions that have one, masks interrupts (the gates of \<^verbatim>\<open>idt_init\<close> are
  interrupt gates) and goes to the entry stub.
\<close>

definition interrupt :: "nat \<Rightarrow> u32 option \<Rightarrow> 'a cpu_scheme \<Rightarrow> 'a cpu_scheme" where
  "interrupt vec err s =
     (let r = regs s;
          g = idt s ! vec;
          s = (if cpl r = 0 then s
               else push (r_esp r) (push (r_ss r)
                 (s\<lparr>regs := r\<lparr>r_esp := seg_esp0 (tss_seg s), r_ss := seg_ss0 (tss_seg s)\<rparr>\<rparr>)));
          s = push (eflags s) s;
          s = push (r_cs r) s;
          s = push (r_eip r) s;
          s = (case err of None \<Rightarrow> s | Some e \<Rightarrow> push e s);
          s = s\<lparr>regs := (regs s)\<lparr>r_cs := ucast (selector g), r_eip := gate_offset g\<rparr>\<rparr>
      in cli s)"

text \<open>\<^verbatim>\<open>iret\<close>: a return to an outer level also pops the outer stack.\<close>

definition iret :: "'a cpu_scheme \<Rightarrow> 'a cpu_scheme" where
  "iret s =
     (let r = regs s; m = stack s; sp = r_esp r; c = m (sp + 4);
          s = s\<lparr>eflags := m (sp + 8)\<rparr>
      in if c AND 3 = cpl r
         then s\<lparr>regs := r\<lparr>r_eip := m sp, r_cs := c, r_esp := sp + 12\<rparr>\<rparr>
         else s\<lparr>regs := r\<lparr>r_eip := m sp, r_cs := c, r_esp := m (sp + 12), r_ss := m (sp + 16)\<rparr>\<rparr>)"

section \<open>The context switch (\<^verbatim>\<open>src/thread/switch.s\<close>)\<close>

definition ALL_SAVE :: u32 where "ALL_SAVE = 0"
definition FAST_SAVE :: u32 where "FAST_SAVE = 1"

text \<open>\<^verbatim>\<open>task_trap\<close> up to its call of \<^verbatim>\<open>main_schedule\<close>; its argument is the thread.\<close>

definition task_trap :: "addr \<Rightarrow> 'a cpu_scheme \<Rightarrow> 'a cpu_scheme" where
  "task_trap t s =
     (let s = push (r_esi (regs s)) s;
          s = push (r_edi (regs s)) s;
          s = push (r_ebx (regs s)) s;
          s = push (r_ebp (regs s)) s;
          s = push FAST_SAVE s;
          s = s\<lparr>regs := (regs s)\<lparr>r_eax := t\<rparr>\<rparr>
      in upd_tcb t (\<lambda>c. c\<lparr>tcb_stack_top := r_esp (regs s)\<rparr>) s)"

definition fast_load :: "'a cpu_scheme \<Rightarrow> 'a cpu_scheme" where
  "fast_load s =
     (let s = pop_to r_ebp_update s;
          s = pop_to r_ebx_update s;
          s = pop_to r_edi_update s;
          s = pop_to r_esi_update s
      in pop_to r_eip_update s)"

definition all_load :: "'a cpu_scheme \<Rightarrow> 'a cpu_scheme" where
  "all_load s =
     (let s = popad s;
          s = pop_to r_gs_update s;
          s = pop_to r_fs_update s;
          s = pop_to r_es_update s;
          s = pop_to r_ds_update s;
          s = add_esp 4 s
      in iret s)"

definition context_load :: "addr \<Rightarrow> 'a cpu_scheme \<Rightarrow> 'a cpu_scheme" where
  "context_load t s =
     (let s = s\<lparr>regs := (regs s)\<lparr>r_eax := t\<rparr>\<rparr>;
          s = s\<lparr>regs := (regs s)\<lparr>r_esp := tcb_stack_top (tcbs s t)\<rparr>\<rparr>;
          s = pop_to r_eax_update s
      in if r_eax (regs s) = ALL_SAVE then all_load s else fast_load s)"

section \<open>Interrupt entries (\<^verbatim>\<open>src/kernel/kernel.s\<close>)\<close>

text \<open>The second argument of the macro \<^verbatim>\<open>VECTOR\<close>: whether the stub pushes a zero in the place
  of the error code the processor does not push.\<close>

definition ZERO :: "nat \<Rightarrow> bool" where
  "ZERO vec \<longleftrightarrow> vec \<notin> {0x08, 0x0a, 0x0b, 0x0c, 0x0d, 0x0e, 0x11, 0x1e}"

definition save_context :: "'a cpu_scheme \<Rightarrow> 'a cpu_scheme" where
  "save_context s =
     (let s = push (r_ds (regs s)) s;
          s = push (r_es (regs s)) s;
          s = push (r_fs (regs s)) s;
          s = push (r_gs (regs s)) s;
          s = pushad s
      in push ALL_SAVE s)"

text \<open>The stub up to the call of the handler.\<close>

definition intr_entry :: "nat \<Rightarrow> 'a cpu_scheme \<Rightarrow> 'a cpu_scheme" where
  "intr_entry vec s =
     (let s = (if ZERO vec then push 0 s else s);
          s = save_context s;
          s = s\<lparr>regs := (regs s)\<lparr>r_eax := RUNNING_THREAD s\<rparr>\<rparr>;
          s = intr_enter (r_esp (regs s)) s;
          s = s\<lparr>regs := (regs s)\<lparr>r_eax := (r_eax (regs s) AND 0xffffff00) OR 0x20\<rparr>\<rparr>
      in push (of_nat vec) s)"

text \<open>The call through \<^verbatim>\<open>idt_table\<close>; what the default handler reads beside its argument
  (the fault address, the string at address zero) is an argument.\<close>

definition intr_dispatch ::
    "nat \<Rightarrow> u32 \<Rightarrow> u8 list \<Rightarrow> 'a kernel_scheme \<Rightarrow> 'a kernel_scheme halt + 'a kernel_scheme" where
  "intr_dispatch vec cr2 at_null s =
     (case idt_table s ! vec of
        Intr_timer_handler \<Rightarrow> intr_timer_handler s
      | Intr_keyboard_handler \<Rightarrow> intr_keyboard_handler s
      | General_intr_handler \<Rightarrow> general_intr_handler (of_nat vec) cr2 at_null s
      | _ \<Rightarrow> Inl (Page_fault NULL))"

text \<open>A whole interrupt: the scheduler at its end loads the context of the thread it chose.\<close>

definition intr_path ::
    "nat \<Rightarrow> u32 option \<Rightarrow> u32 \<Rightarrow> u8 list \<Rightarrow> 'a cpu_scheme \<Rightarrow> 'a cpu_scheme halt + 'a cpu_scheme" where
  "intr_path vec err cr2 at_null s =
     and_then (intr_dispatch vec cr2 at_null (intr_entry vec (interrupt vec err s))) (\<lambda>s.
     and_then (hwi_tail_handle (add_esp 4 s)) (\<lambda>s.
     Inr (context_load (RUNNING_THREAD s) s)))"

definition hwi_ret :: "'a cpu_scheme \<Rightarrow> 'a cpu_scheme" where
  "hwi_ret s = all_load (add_esp 4 s)"

section \<open>System call entry (\<^verbatim>\<open>src/kernel/kernel.s\<close>)\<close>

definition syscall_stub :: "'a cpu_scheme \<Rightarrow> 'a cpu_scheme" where
  "syscall_stub s =
     (let s = push 0 s;
          s = save_context s;
          s = push 0x80 s;
          s = push (r_edx (regs s)) s;
          s = push (r_ecx (regs s)) s
      in push (r_ebx (regs s)) s)"

text \<open>After the call: the result goes to the saved \<^verbatim>\<open>eax\<close>.\<close>

definition syscall_return :: "u32 \<Rightarrow> 'a cpu_scheme \<Rightarrow> 'a cpu_scheme" where
  "syscall_return ret s =
     (let s = add_esp 12 s;
          s = s\<lparr>stack := (stack s)(r_esp (regs s) + 9 * 4 := ret)\<rparr>;
          s = add_esp 4 s
      in hwi_ret s)"

text \<open>\<^verbatim>\<open>int $0x80\<close> with the numbers in the registers; a software interrupt is let through only
  when the gate's privilege level allows the caller's and is a general protection exception
  otherwise.\<close>

definition gate_dpl :: "gate_desc \<Rightarrow> u32" where
  "gate_dpl g = drop_bit 5 (ucast (attribute g)) AND 3"

definition int_0x80 :: "u32 \<Rightarrow> u8 list \<Rightarrow> 'a cpu_scheme \<Rightarrow> 'a cpu_scheme halt + 'a cpu_scheme" where
  "int_0x80 cr2 at_null s =
     (if cpl (regs s) \<le> gate_dpl (idt s ! 0x80) then
        let r = regs s;
            s = syscall_stub (interrupt 0x80 None s)
        in and_then (int80 (r_eax r) [r_ebx r, r_ecx r, r_edx r] s) (\<lambda>ret.
           Inr (syscall_return ret s))
      else intr_path 0x0d (Some 0x402) cr2 at_null s)"

section \<open>Frames on a stack\<close>

text \<open>The double words from an address upwards.\<close>

primrec frame_at :: "(addr \<Rightarrow> u32) \<Rightarrow> addr \<Rightarrow> u32 list \<Rightarrow> bool" where
  "frame_at m a [] \<longleftrightarrow> True"
| "frame_at m a (w # ws) \<longleftrightarrow> m a = w \<and> frame_at m (a + 4) ws"

text \<open>Two memories agree on \<open>n\<close> double words from \<open>a\<close> on.\<close>

primrec same_words :: "nat \<Rightarrow> addr \<Rightarrow> (addr \<Rightarrow> u32) \<Rightarrow> (addr \<Rightarrow> u32) \<Rightarrow> bool" where
  "same_words 0 a m m' \<longleftrightarrow> True"
| "same_words (Suc n) a m m' \<longleftrightarrow> m' a = m a \<and> same_words n (a + 4) m m'"

lemma frame_kept: "frame_at m a ws \<Longrightarrow> same_words (length ws) a m m' \<Longrightarrow> frame_at m' a ws"
  by (induction ws arbitrary: a) simp_all

lemma same_words_le: "same_words n a m m' \<Longrightarrow> k \<le> n \<Longrightarrow> same_words k a m m'"
proof (induction k arbitrary: n a)
  case (Suc k)
  then show ?case by (cases n) auto
qed simp

lemma frame_below:
  assumes "x \<noteq> 0" and "unat x + 4 * length ws \<le> 2 ^ 32"
  shows "frame_at (m(a := w)) (a + x) ws \<longleftrightarrow> frame_at m (a + x) ws"
  using assms
proof (induction ws arbitrary: x)
  case (Cons v ws)
  show ?case
  proof (cases "ws = []")
    case True
    then show ?thesis using Cons.prems(1) by simp
  next
    case False
    then have "4 \<le> 4 * length ws" by (cases ws) simp_all
    with Cons.prems(2) have b: "unat x + 4 < 2 ^ 32" by simp
    then have u: "unat (x + 4) = unat x + 4" by (subst unat_add_lem [THEN iffD1]) simp_all
    then have "x + 4 \<noteq> 0" by (metis add_is_0 unat_0 zero_neq_numeral)
    then have "frame_at (m(a := w)) (a + (x + 4)) ws \<longleftrightarrow> frame_at m (a + (x + 4)) ws"
      using Cons.prems(2) u by (intro Cons.IH) simp_all
    then show ?thesis using Cons.prems(1) by (simp add: add.assoc fun_upd_def)
  qed
qed simp

text \<open>The frame at the stack pointer; a push puts one more word before it.\<close>

definition on_stack :: "u32 list \<Rightarrow> 'a cpu_scheme \<Rightarrow> bool" where
  "on_stack ws s \<longleftrightarrow> frame_at (stack s) (r_esp (regs s)) ws"

lemma on_stack_push:
  assumes "on_stack ws s" and "length ws < 100"
  shows "on_stack (w # ws) (push w s)"
  using frame_below [of 4 ws "stack s" "r_esp (regs s) - 4" w] assms
  by (simp add: push_def Let_def on_stack_def)

lemma on_stack_empty [simp]: "on_stack [] s"
  by (simp add: on_stack_def)

lemma on_stack_cong:
  "stack s = stack s' \<Longrightarrow> r_esp (regs s) = r_esp (regs s') \<Longrightarrow> on_stack ws s \<longleftrightarrow> on_stack ws s'"
  by (simp add: on_stack_def)

lemma push_esp: "r_esp (regs (push w s)) = r_esp (regs s) - 4"
  by (simp add: push_def Let_def)

lemma push_regs:
  "regs (push w s) = (regs s)\<lparr>r_esp := r_esp (regs s) - 4\<rparr>"
  by (simp add: push_def Let_def)

text \<open>What the entry stubs save, from the save flag up to \<^verbatim>\<open>ds\<close>.\<close>

definition context_words :: "addr \<Rightarrow> regs \<Rightarrow> u32 list" where
  "context_words dummy r =
     [ALL_SAVE, r_edi r, r_esi r, r_ebp r, dummy, r_ebx r, r_edx r, r_ecx r, r_eax r,
      r_gs r, r_fs r, r_es r, r_ds r]"

lemma save_context_regs: "regs (save_context s) = (regs s)\<lparr>r_esp := r_esp (regs s) - 52\<rparr>"
  by (simp add: save_context_def pushad_def push_regs Let_def)

lemma save_context_frame:
  assumes "on_stack ws s" and "length ws < 50"
  shows "on_stack (context_words (r_esp (regs s) - 16) (regs s) @ ws) (save_context s)"
  unfolding save_context_def pushad_def Let_def context_words_def append_Cons append_Nil
  using assms by (simp add: push_regs on_stack_push)

text \<open>The words the processor pushes, above the error code.\<close>

definition return_words :: "'a cpu_scheme \<Rightarrow> u32 list" where
  "return_words s =
     (let r = regs s
      in [r_eip r, r_cs r, eflags s] @ (if cpl r = 0 then [] else [r_esp r, r_ss r]))"

definition kernel_sp :: "'a cpu_scheme \<Rightarrow> addr" where
  "kernel_sp s = (if cpl (regs s) = 0 then r_esp (regs s) else seg_esp0 (tss_seg s) - 8)"

lemma length_return_words: "length (return_words s) \<le> 5"
  by (simp add: return_words_def Let_def)

lemma cli_frame: "regs (cli s) = regs s" "stack (cli s) = stack s"
  by (simp_all add: cli_def)

lemma interrupt_frame:
  "on_stack ((case err of None \<Rightarrow> [] | Some e \<Rightarrow> [e]) @ return_words s) (interrupt vec err s)"
proof -
  let ?r = "regs s"
  define u where "u = (if cpl ?r = 0 then s else push (r_esp ?r) (push (r_ss ?r)
    (s\<lparr>regs := ?r\<lparr>r_esp := seg_esp0 (tss_seg s), r_ss := seg_ss0 (tss_seg s)\<rparr>\<rparr>)))"
  have e: "eflags u = eflags s" by (simp add: u_def push_def Let_def)
  have "on_stack (if cpl ?r = 0 then [] else [r_esp ?r, r_ss ?r]) u"
    by (simp add: u_def on_stack_push)
  then have "on_stack (return_words s) (push (r_eip ?r) (push (r_cs ?r) (push (eflags u) u)))"
    unfolding return_words_def Let_def append_Cons append_Nil by (simp add: on_stack_push e)
  then have "on_stack ((case err of None \<Rightarrow> [] | Some e \<Rightarrow> [e]) @ return_words s)
     (case err of None \<Rightarrow> push (r_eip ?r) (push (r_cs ?r) (push (eflags u) u))
      | Some e \<Rightarrow> push e (push (r_eip ?r) (push (r_cs ?r) (push (eflags u) u))))"
    using length_return_words [of s] by (auto intro!: on_stack_push split: option.split)
  then show ?thesis
    unfolding interrupt_def Let_def u_def [symmetric] by (auto simp: on_stack_def cli_frame)
qed

text \<open>Delivery and the stubs change the flags, the registers and the stack only.\<close>

definition only_cpu :: "'a cpu_scheme \<Rightarrow> 'a cpu_scheme \<Rightarrow> bool" where
  "only_cpu s u \<longleftrightarrow> (\<exists>f r m. u = s\<lparr>eflags := f, regs := r, stack := m\<rparr>)"

lemma only_cpu_refl [simp]: "only_cpu s s"
  unfolding only_cpu_def
  by (intro exI [where x = "eflags s"] exI [where x = "regs s"] exI [where x = "stack s"]) simp

lemma only_cpu_upd:
  assumes "only_cpu s u" and "v = u\<lparr>eflags := f, regs := r, stack := m\<rparr>"
  shows "only_cpu s v"
  proof -
  from assms(1) obtain f' r' m' where u: "u = s\<lparr>eflags := f', regs := r', stack := m'\<rparr>"
    unfolding only_cpu_def by blast
  have "v = s\<lparr>eflags := f, regs := r, stack := m\<rparr>" unfolding assms(2) u by simp
  then show ?thesis unfolding only_cpu_def by blast
qed

lemma only_cpu_frame:
  assumes "only_cpu s u"
  shows "tcbs u = tcbs s" "sched u = sched s" "nodes u = nodes s" "mem u = mem s" "phys u = phys s"
    "cr3 u = cr3 s" "sem_val u = sem_val s" "mtx_holder u = mtx_holder s" "tss_seg u = tss_seg s"
    "idt u = idt s" "idt_table u = idt_table s" "syscall_table u = syscall_table s"
    "thread_stacks u = thread_stacks s" "intr_stacks u = intr_stacks s" "ticks u = ticks s"
    "gdt u = gdt s" "video u = video s" "crt_regs u = crt_regs s" "kernel_phy_pool u = kernel_phy_pool s"
    "user_phy_pool u = user_phy_pool s" "kernel_vir_pool u = kernel_vir_pool s"
  using assms unfolding only_cpu_def by auto

lemma only_cpu_push: "only_cpu s u \<Longrightarrow> only_cpu s (push w u)"
  by (erule only_cpu_upd [where f = "eflags u"]) (simp add: push_def Let_def)

lemma only_cpu_regs: "only_cpu s u \<Longrightarrow> only_cpu s (u\<lparr>regs := r\<rparr>)"
  by (erule only_cpu_upd [where f = "eflags u" and m = "stack u"]) simp

lemma only_cpu_cli: "only_cpu s u \<Longrightarrow> only_cpu s (cli u)"
  by (erule only_cpu_upd [where r = "regs u" and m = "stack u"]) (simp add: cli_def)

lemma interrupt_only: "only_cpu s (interrupt vec err s)"
  unfolding interrupt_def Let_def
  by (cases err) (simp_all add: only_cpu_push only_cpu_regs only_cpu_cli)

lemma interrupt_regs:
  "regs (interrupt vec err s) = (regs s)\<lparr>
     r_esp := kernel_sp s - (case err of None \<Rightarrow> 12 | Some e \<Rightarrow> 16),
     r_ss := (if cpl (regs s) = 0 then r_ss (regs s) else seg_ss0 (tss_seg s)),
     r_cs := ucast (selector (idt s ! vec)), r_eip := gate_offset (idt s ! vec)\<rparr>"
  by (cases err) (simp_all add: interrupt_def Let_def push_regs cli_frame kernel_sp_def)

lemma save_context_only: "only_cpu s u \<Longrightarrow> only_cpu s (save_context u)"
  unfolding save_context_def pushad_def Let_def by (simp add: only_cpu_push)

section \<open>Interrupts save the context\<close>

text \<open>\<open>d\<close> is the stack pointer that \<^verbatim>\<open>pushad\<close> saves and \<^verbatim>\<open>popad\<close> skips,
  \<open>e\<close> the error code.\<close>

definition intr_frame :: "addr \<Rightarrow> u32 \<Rightarrow> 'a cpu_scheme \<Rightarrow> u32 list" where
  "intr_frame d e s = context_words d (regs s) @ e # return_words s"

lemma length_intr_frame: "length (intr_frame d e s) \<le> 19"
  using length_return_words [of s] by (simp add: intr_frame_def context_words_def)

lemma saved_context:
  assumes z: "ZERO vec \<longleftrightarrow> err = None"
    and u: "u = save_context (if ZERO vec then push 0 (interrupt vec err s) else interrupt vec err s)"
  shows "\<exists>d e. on_stack (intr_frame d e s) u" and "r_esp (regs u) = kernel_sp s - 68"
    and "only_cpu s u"
proof -
  define w where "w = (if ZERO vec then push 0 (interrupt vec err s) else interrupt vec err s)"
  have l: "length (return_words s) < 49" using length_return_words [of s] by simp
  obtain e where e: "on_stack (e # return_words s) w" "r_esp (regs w) = kernel_sp s - 16"
  proof (cases err)
    case None
    then have "on_stack (0 # return_words s) w"
      using z interrupt_frame [of err s vec] l by (simp add: w_def on_stack_push)
    with None show ?thesis using that [of 0] z by (simp add: w_def push_regs interrupt_regs)
  next
    case (Some e)
    then show ?thesis
      using that [of e] z interrupt_frame [of err s vec] by (simp add: w_def interrupt_regs)
  qed
  have c: "context_words d (regs w) = context_words d (regs s)" for d
    by (simp add: w_def context_words_def push_regs interrupt_regs)
  show "\<exists>d e. on_stack (intr_frame d e s) u"
    using save_context_frame [OF e(1)] l unfolding u w_def [symmetric] intr_frame_def c by force
  show "r_esp (regs u) = kernel_sp s - 68"
    using e(2) unfolding u w_def [symmetric] by (simp add: save_context_regs)
  show "only_cpu s u"
    unfolding u by (intro save_context_only) (simp add: interrupt_only only_cpu_push)
qed

lemma intr_enter_cpu:
  "regs (intr_enter a s) = regs s" "stack (intr_enter a s) = stack s"
  "intr_enter a (s\<lparr>eflags := f, regs := r, stack := m\<rparr>) = (intr_enter a s)\<lparr>eflags := f, regs := r, stack := m\<rparr>"
  by (simp_all add: intr_enter_def upd_tcb_def outb_def Let_def)

lemma intr_enter_only:
  assumes "only_cpu s w" shows "only_cpu (intr_enter a s) (intr_enter a w)"
proof -
  from assms obtain f r m where "w = s\<lparr>eflags := f, regs := r, stack := m\<rparr>" unfolding only_cpu_def by blast
  then show ?thesis unfolding only_cpu_def by (auto simp only: intr_enter_cpu)
qed

text \<open>
  When the handler is called the context is on the kernel stack of the interrupted thread, its
  address is in the control block, and the rest of the kernel's state is as \<open>intr_enter\<close> leaves it.
\<close>

lemma interrupted_frame:
  assumes z: "ZERO vec \<longleftrightarrow> err = None" and u: "u = intr_entry vec (interrupt vec err s)"
    and fp: "fp = kernel_sp s - 68"
  shows "\<exists>d e. frame_at (stack u) fp (intr_frame d e s)"
    and "only_cpu (intr_enter fp s) u" and "r_esp (regs u) = fp - 4"
    and "r_cs (regs u) = ucast (selector (idt s ! vec))"
    and "r_ss (regs u) = (if cpl (regs s) = 0 then r_ss (regs s) else seg_ss0 (tss_seg s))"
proof -
  define w where "w = save_context (if ZERO vec then push 0 (interrupt vec err s) else interrupt vec err s)"
  note w = saved_context [OF z w_def]
  define x where "x = intr_enter fp (w\<lparr>regs := (regs w)\<lparr>r_eax := RUNNING_THREAD w\<rparr>\<rparr>)"
  obtain y where u': "u = push (of_nat vec) (x\<lparr>regs := (regs x)\<lparr>r_eax := y\<rparr>\<rparr>)"
    using w(2) unfolding u intr_entry_def Let_def w_def [symmetric] x_def fp by simp
  have x: "regs x = (regs w)\<lparr>r_eax := RUNNING_THREAD w\<rparr>" "stack x = stack w"
    by (simp_all add: x_def intr_enter_cpu)
  obtain d e where de: "on_stack (intr_frame d e s) w" using w(1) by blast
  then have "on_stack (intr_frame d e s) (x\<lparr>regs := (regs x)\<lparr>r_eax := y\<rparr>\<rparr>)"
    by (simp add: on_stack_def x)
  moreover have "length (intr_frame d e s) < 100" using length_intr_frame [of d e s] by simp
  ultimately have "on_stack (of_nat vec # intr_frame d e s) u" unfolding u' by (rule on_stack_push)
  then show "\<exists>d e. frame_at (stack u) fp (intr_frame d e s)"
    using w(2) by (auto simp: on_stack_def u' push_regs x fp)
  show "only_cpu (intr_enter fp s) u"
    unfolding u' x_def by (intro only_cpu_push only_cpu_regs intr_enter_only w(3))
  show "r_esp (regs u) = fp - 4" using w(2) by (simp add: u' push_regs x fp)
  have "r_cs (regs w) = r_cs (regs (interrupt vec err s))"
    "r_ss (regs w) = r_ss (regs (interrupt vec err s))" by (simp_all add: w_def push_regs save_context_regs)
  then show "r_cs (regs u) = ucast (selector (idt s ! vec))"
    "r_ss (regs u) = (if cpl (regs s) = 0 then r_ss (regs s) else seg_ss0 (tss_seg s))"
    by (simp_all add: u' push_regs x interrupt_regs)
qed

section \<open>Loading a context restores it\<close>

text \<open>Symbolic execution of pops: the registers are kept as a value.\<close>

lemma pop_to_at:
  "pop_to upd (u\<lparr>regs := r\<rparr>) = u\<lparr>regs := upd (\<lambda>_. stack u (r_esp r)) (r\<lparr>r_esp := r_esp r + 4\<rparr>)\<rparr>"
  by (simp add: pop_to_def Let_def)

lemma add_esp_at: "add_esp n (u\<lparr>regs := r\<rparr>) = u\<lparr>regs := r\<lparr>r_esp := r_esp r + n\<rparr>\<rparr>"
  by (simp add: add_esp_def)

lemma iret_at:
  "iret (u\<lparr>regs := r\<rparr>) = u\<lparr>eflags := stack u (r_esp r + 8),
     regs := (if stack u (r_esp r + 4) AND 3 = cpl r
       then r\<lparr>r_eip := stack u (r_esp r), r_cs := stack u (r_esp r + 4), r_esp := r_esp r + 12\<rparr>
       else r\<lparr>r_eip := stack u (r_esp r), r_cs := stack u (r_esp r + 4), r_esp := stack u (r_esp r + 12),
         r_ss := stack u (r_esp r + 16)\<rparr>)\<rparr>"
  by (simp add: iret_def Let_def)

lemmas load_at = pop_to_at add_esp_at iret_at

text \<open>The words of \<^verbatim>\<open>struct intr_stack\<close> above the save flag go to their registers.\<close>

lemma all_load_at:
  "all_load (u\<lparr>regs := r\<rparr>) =
     (let m = stack u; sp = r_esp r;
          r' = r\<lparr>r_edi := m sp, r_esi := m (sp + 4), r_ebp := m (sp + 8), r_ebx := m (sp + 16),
            r_edx := m (sp + 20), r_ecx := m (sp + 24), r_eax := m (sp + 28), r_gs := m (sp + 32),
            r_fs := m (sp + 36), r_es := m (sp + 40), r_ds := m (sp + 44), r_esp := sp + 52\<rparr>
      in iret (u\<lparr>regs := r'\<rparr>))"
  unfolding all_load_def popad_def Let_def by (simp add: pop_to_at add_esp_at add.commute [of "r_esp r"])

lemma context_load_at:
  assumes "stack u (tcb_stack_top (tcbs u t)) = ALL_SAVE"
  shows "context_load t u = all_load (u\<lparr>regs := (regs u)\<lparr>
    r_esp := tcb_stack_top (tcbs u t) + 4, r_eax := ALL_SAVE\<rparr>\<rparr>)"
  using assms unfolding context_load_def Let_def by (simp add: pop_to_at)

lemma all_load_frame:
  assumes f: "frame_at (stack u) sp (tl (intr_frame d e s))" and sp: "r_esp r = sp"
    and k: "cpl r = 0"
  shows "all_load (u\<lparr>regs := r\<rparr>) = u\<lparr>eflags := eflags s, regs := (if cpl (regs s) = 0
      then (regs s)\<lparr>r_esp := sp + 64, r_ss := r_ss r\<rparr> else regs s)\<rparr>"
proof -
  have w: "stack u sp = r_edi (regs s)" "stack u (sp + 4) = r_esi (regs s)"
    "stack u (sp + 8) = r_ebp (regs s)" "stack u (sp + 16) = r_ebx (regs s)"
    "stack u (sp + 20) = r_edx (regs s)" "stack u (sp + 24) = r_ecx (regs s)"
    "stack u (sp + 28) = r_eax (regs s)" "stack u (sp + 32) = r_gs (regs s)"
    "stack u (sp + 36) = r_fs (regs s)" "stack u (sp + 40) = r_es (regs s)"
    "stack u (sp + 44) = r_ds (regs s)" "stack u (sp + 52) = r_eip (regs s)"
    "stack u (sp + 56) = r_cs (regs s)" "stack u (sp + 60) = eflags s"
    "cpl (regs s) \<noteq> 0 \<Longrightarrow> stack u (sp + 64) = r_esp (regs s) \<and> stack u (sp + 68) = r_ss (regs s)"
    using f by (simp_all add: intr_frame_def context_words_def return_words_def Let_def
        add.commute [of sp])
  have k': "stack u (sp + 56) AND 3 = cpl (regs s)" "r_cs r AND 3 = 0"
    using w(13) k by (simp_all add: cpl_def)
  show ?thesis
    using w k' by (simp add: all_load_at iret_at Let_def cpl_def add.assoc sp)
qed

lemma context_load_all:
  assumes f: "frame_at (stack u) fp (intr_frame d e s)" and fp: "tcb_stack_top (tcbs u t) = fp"
    and k: "cpl (regs u) = 0"
  shows "context_load t u = u\<lparr>eflags := eflags s, regs := (if cpl (regs s) = 0
      then (regs s)\<lparr>r_esp := fp + 68, r_ss := r_ss (regs u)\<rparr> else regs s)\<rparr>"
proof -
  have "stack u fp = ALL_SAVE" and t: "frame_at (stack u) (fp + 4) (tl (intr_frame d e s))"
    using f by (simp_all add: intr_frame_def context_words_def)
  then have "context_load t u = all_load (u\<lparr>regs := (regs u)\<lparr>r_esp := fp + 4, r_eax := ALL_SAVE\<rparr>\<rparr>)"
    by (simp add: context_load_at fp)
  also have "\<dots> = u\<lparr>eflags := eflags s, regs := (if cpl (regs s) = 0
      then (regs s)\<lparr>r_esp := fp + 68, r_ss := r_ss (regs u)\<rparr> else regs s)\<rparr>"
    by (subst all_load_frame [OF t]) (use k in \<open>simp_all add: cpl_def\<close>)
  finally show ?thesis .
qed

text \<open>The same through the exit \<^verbatim>\<open>hwi_ret\<close>.\<close>

lemma hwi_ret_frame:
  assumes f: "frame_at (stack u) (r_esp (regs u)) (intr_frame d e s)" and k: "cpl (regs u) = 0"
  shows "hwi_ret u = u\<lparr>eflags := eflags s, regs := (if cpl (regs s) = 0
      then (regs s)\<lparr>r_esp := r_esp (regs u) + 68, r_ss := r_ss (regs u)\<rparr> else regs s)\<rparr>"
proof -
  have t: "frame_at (stack u) (r_esp (regs u) + 4) (tl (intr_frame d e s))"
    using f by (simp add: intr_frame_def context_words_def)
  show ?thesis
    unfolding hwi_ret_def add_esp_def
    by (subst all_load_frame [OF t]) (use k in \<open>simp_all add: cpl_def\<close>)
qed

text \<open>
  \<^verbatim>\<open>task_trap\<close> is called as a C function: the word at the stack pointer is the return
  address. Loading the context returns there with the registers a C function must keep.
\<close>

lemma task_trap_frame:
  assumes ret: "stack s (r_esp (regs s)) = ret" and u: "u = task_trap t s"
  shows "frame_at (stack u) (r_esp (regs s) - 20)
      [FAST_SAVE, r_ebp (regs s), r_ebx (regs s), r_edi (regs s), r_esi (regs s), ret]"
    and "tcb_stack_top (tcbs u t) = r_esp (regs s) - 20"
proof -
  have "on_stack [ret] s" using ret by (simp add: on_stack_def)
  then have "on_stack [FAST_SAVE, r_ebp (regs s), r_ebx (regs s), r_edi (regs s), r_esi (regs s), ret]
    (push FAST_SAVE (push (r_ebp (regs s)) (push (r_ebx (regs s)) (push (r_edi (regs s))
      (push (r_esi (regs s)) s)))))"
    by (intro on_stack_push) simp_all
  then show "frame_at (stack u) (r_esp (regs s) - 20)
      [FAST_SAVE, r_ebp (regs s), r_ebx (regs s), r_edi (regs s), r_esi (regs s), ret]"
    unfolding u task_trap_def Let_def on_stack_def by (simp add: push_regs upd_tcb_def)
  show "tcb_stack_top (tcbs u t) = r_esp (regs s) - 20"
    unfolding u task_trap_def Let_def by (simp add: push_regs upd_tcb_def)
qed

lemma context_load_fast:
  assumes f: "frame_at (stack u) fp [FAST_SAVE, ebp, ebx, edi, esi, ret]"
    and fp: "tcb_stack_top (tcbs u t) = fp"
  shows "context_load t u = u\<lparr>regs := (regs u)\<lparr>r_eax := FAST_SAVE, r_ebp := ebp, r_ebx := ebx,
    r_edi := edi, r_esi := esi, r_eip := ret, r_esp := fp + 24\<rparr>\<rparr>"
proof -
  have w: "stack u fp = FAST_SAVE" "stack u (4 + fp) = ebp" "stack u (8 + fp) = ebx"
    "stack u (12 + fp) = edi" "stack u (16 + fp) = esi" "stack u (20 + fp) = ret"
    using f by (simp_all add: add.commute [of fp])
  have ne: "FAST_SAVE \<noteq> ALL_SAVE" by (simp add: FAST_SAVE_def ALL_SAVE_def)
  have "context_load t u = fast_load (u\<lparr>regs := (regs u)\<lparr>r_esp := 4 + fp, r_eax := FAST_SAVE\<rparr>\<rparr>)"
    unfolding context_load_def Let_def using w(1) ne by (simp add: pop_to_at fp add.commute [of fp])
  then show ?thesis
    unfolding fast_load_def Let_def using w by (simp add: pop_to_at add.commute [of fp])
qed

section \<open>System calls return to their caller\<close>

lemma syscall_stub_frame:
  assumes u: "u = syscall_stub (interrupt 0x80 None s)" and r: "r = regs s"
  shows "\<exists>d. on_stack ([r_ebx r, r_ecx r, r_edx r, 0x80] @ intr_frame d 0 s) u"
    and "only_cpu s u" and "r_esp (regs u) = kernel_sp s - 84"
    and "cpl (regs u) = ucast (selector (idt s ! 0x80)) AND 3"
    and "r_ss (regs u) = (if cpl r = 0 then r_ss r else seg_ss0 (tss_seg s))"
proof -
  define w where "w = save_context (push 0 (interrupt 0x80 None s))"
  have z: "ZERO 0x80 \<longleftrightarrow> (None :: u32 option) = None" by (simp add: ZERO_def)
  have "w = save_context (if ZERO 0x80 then push 0 (interrupt 0x80 None s) else interrupt 0x80 None s)"
    by (simp add: w_def ZERO_def)
  note sc = saved_context [OF z this]
  have l: "length (return_words s) < 40" using length_return_words [of s] by simp
  have "on_stack (return_words s) (interrupt 0x80 None s)" using interrupt_frame [of None] by simp
  then have "on_stack (0 # return_words s) (push 0 (interrupt 0x80 None s))" using l by (simp add: on_stack_push)
  then have "on_stack (context_words (r_esp (regs (push 0 (interrupt 0x80 None s))) - 16)
      (regs (push 0 (interrupt 0x80 None s))) @ 0 # return_words s) w"
    unfolding w_def using l by (intro save_context_frame) simp_all
  then obtain d where d: "on_stack (intr_frame d 0 s) w"
    by (simp add: intr_frame_def context_words_def push_regs interrupt_regs)
  have rw: "regs w = (regs (interrupt 0x80 None s))\<lparr>r_esp := kernel_sp s - 68\<rparr>"
    using sc(2) by (simp add: w_def save_context_regs push_regs interrupt_regs)
  have u': "u = push (r_ebx r) (push (r_ecx r) (push (r_edx r) (push 0x80 w)))"
    unfolding u syscall_stub_def Let_def w_def [symmetric] r
    by (simp add: push_regs rw interrupt_regs)
  have "length (intr_frame d 0 s) < 90" using length_intr_frame [of d 0 s] by simp
  then show "\<exists>d. on_stack ([r_ebx r, r_ecx r, r_edx r, 0x80] @ intr_frame d 0 s) u"
    unfolding u' using d by (intro exI [of _ d]) (simp add: on_stack_push)
  show "only_cpu s u" unfolding u' by (intro only_cpu_push sc(3))
  show "r_esp (regs u) = kernel_sp s - 84" "cpl (regs u) = ucast (selector (idt s ! 0x80)) AND 3"
    "r_ss (regs u) = (if cpl r = 0 then r_ss r else seg_ss0 (tss_seg s))"
    by (simp_all add: u' push_regs rw interrupt_regs cpl_def r)
qed

lemma syscall_return_frame:
  assumes on: "on_stack ([a, b, c, n] @ intr_frame d e s) u" and k: "cpl (regs u) = 0"
  shows "syscall_return ret u = u\<lparr>eflags := eflags s,
      regs := (if cpl (regs s) = 0
        then (regs s)\<lparr>r_eax := ret, r_esp := r_esp (regs u) + 84, r_ss := r_ss (regs u)\<rparr>
        else (regs s)\<lparr>r_eax := ret\<rparr>),
      stack := (stack u)(r_esp (regs u) + 48 := ret)\<rparr>"
proof -
  let ?sp = "r_esp (regs u) + 16" and ?s = "s\<lparr>regs := (regs s)\<lparr>r_eax := ret\<rparr>\<rparr>"
  define w where "w = u\<lparr>stack := (stack u)(?sp + 32 := ret), regs := (regs u)\<lparr>r_esp := ?sp\<rparr>\<rparr>"
  have "frame_at (stack u) ?sp (intr_frame d e s)"
    using on by (simp add: on_stack_def add.commute [of "r_esp (regs u)"])
  then have "frame_at (stack w) (r_esp (regs w)) (intr_frame d e ?s)"
    by (cases "r_cs (regs s) AND 3 = 0")
      (simp_all add: w_def intr_frame_def context_words_def return_words_def Let_def cpl_def
        add.commute [of "r_esp (regs u)"])
  moreover have "cpl (regs w) = 0" using k by (simp add: w_def cpl_def)
  ultimately have "hwi_ret w = w\<lparr>eflags := eflags ?s, regs := (if cpl (regs ?s) = 0
      then (regs ?s)\<lparr>r_esp := r_esp (regs w) + 68, r_ss := r_ss (regs w)\<rparr> else regs ?s)\<rparr>"
    by (rule hwi_ret_frame)
  moreover have "syscall_return ret u = hwi_ret w"
    by (simp add: syscall_return_def add_esp_def Let_def w_def add.assoc)
  ultimately show ?thesis by (simp add: w_def cpl_def add.assoc)
qed

end
