(* ===== verification/Switch_Inv.thy ===== *)
theory Switch_Inv
  imports Switch Ioqueue_Inv
begin

text \<open>
  The assembly and the C code together: what the scheduler leaves of the saved contexts, the whole
  path of a clock interrupt, and the frames that thread and process creation prepare.
\<close>

section \<open>The scheduler keeps the saved contexts\<close>

lemma main_schedule_stack_top:
  assumes "main_schedule s = Inr s'"
  shows "tcb_stack_top (tcbs s' x) = tcb_stack_top (tcbs s x)"
proof (cases "need_schedule s")
  case True
  then obtain u t where u: "process_activate t u = Inr s'"
    and t: "\<And>x. tcb_stack_top (tcbs u x) = tcb_stack_top (tcbs s x)"
    using assms
    by (auto simp: main_schedule_def Let_def requeue_running_def thread_prio_change_def frame
        set_running_thread_def split: if_splits)
  then show ?thesis using process_activate_frame(3) [OF u] by simp
next
  case False
  then show ?thesis using assms by (simp add: main_schedule_noop)
qed

lemma cpu_more:
  fixes s s' :: "'a cpu_scheme"
  assumes "kstate.more s' = kstate.more s"
  shows "regs s' = regs s" "stack s' = stack s"
  using assms by (cases s; cases s'; simp)+

lemma kernel_more_cpu:
  fixes s s' :: "'a cpu_scheme"
  assumes "kernel.more s' = kernel.more s"
  shows "regs s' = regs s" "stack s' = stack s"
  using assms by (cases s; cases s'; simp)+

lemma clock_interrupt_cpu:
  fixes s s' :: "'a cpu_scheme"
  assumes "clock_interrupt fp s = Inr s'"
    and magic: "tcb_stack_magic (tcbs s (RUNNING_THREAD s)) = STACK_MAGIC"
  shows "regs s' = regs s" "stack s' = stack s"
    "tcb_stack_top (tcbs s' x) = (if x = RUNNING_THREAD s then fp else tcb_stack_top (tcbs s x))"
proof -
  let ?e = "intr_enter fp s"
  have "tcb_stack_magic (tcbs ?e (RUNNING_THREAD s)) = STACK_MAGIC" "RUNNING_THREAD s = RUNNING_THREAD ?e"
    using magic by (simp_all add: frame)
  note t = timer_tick [OF this refl refl]
  obtain u where u: "intr_timer_handler ?e = Inr u" using t by blast
  then have m: "main_schedule u = Inr s'"
    using assms(1) by (simp add: clock_interrupt_def hwi_tail_handle_def)
  have "regs u = regs s" "stack u = stack s"
    "\<And>x. tcb_stack_top (tcbs u x) = (if x = RUNNING_THREAD s then fp else tcb_stack_top (tcbs s x))"
    using t u by (auto simp: frame intr_enter_cpu)
  with cpu_more [OF main_schedule_more [OF m]] main_schedule_stack_top [OF m]
  show "regs s' = regs s" "stack s' = stack s"
    "tcb_stack_top (tcbs s' x) = (if x = RUNNING_THREAD s then fp else tcb_stack_top (tcbs s x))"
    by simp_all
qed

text \<open>A tick inside the slice leaves everything else alone.\<close>

lemma clock_interrupt_tick:
  fixes s :: "'a kernel_scheme"
  assumes magic: "tcb_stack_magic (tcbs s r) = STACK_MAGIC" and r: "r = RUNNING_THREAD s"
    and tk: "tcb_ticks (tcbs s r) \<noteq> 0" and nd: "\<not> need_schedule s"
  obtains s' where "clock_interrupt fp s = Inr s'" and "RUNNING_THREAD s' = r"
    and "mem s' = mem s" and "phys s' = phys s" and "cr3 s' = cr3 s" and "sem_val s' = sem_val s"
    and "nodes s' = nodes s" and "user_phy_pool s' = user_phy_pool s"
    and "tcb_pg_dir (tcbs s' r) = tcb_pg_dir (tcbs s r)"
    and "tcb_user_vaddr_pool (tcbs s' r) = tcb_user_vaddr_pool (tcbs s r)"
proof -
  let ?e = "intr_enter fp s"
  have "tcb_stack_magic (tcbs ?e r) = STACK_MAGIC" "r = RUNNING_THREAD ?e"
    using magic r by (simp_all add: frame)
  note t = timer_tick [OF this refl refl]
  obtain u where u: "intr_timer_handler ?e = Inr u" using t by blast
  then have f: "\<not> need_schedule u" "RUNNING_THREAD u = r" "mem u = mem s" "phys u = phys s" "cr3 u = cr3 s"
    "sem_val u = sem_val s" "nodes u = nodes s" "user_phy_pool u = user_phy_pool ?e"
    "tcb_pg_dir (tcbs u r) = tcb_pg_dir (tcbs s r)"
    "tcb_user_vaddr_pool (tcbs u r) = tcb_user_vaddr_pool (tcbs s r)"
    using t r tk nd by (auto simp: frame need_schedule_def)
  have "clock_interrupt fp s = Inr u"
    using u main_schedule_noop [OF f(1)] by (simp add: clock_interrupt_def hwi_tail_handle_def)
  moreover have "user_phy_pool ?e = user_phy_pool s"
    by (simp add: intr_enter_def upd_tcb_def outb_def Let_def)
  ultimately show thesis using f by (intro that [of u]) simp_all
qed

section \<open>The path of a clock interrupt\<close>

lemma timer_cpu:
  assumes "intr_timer_handler s = Inr u"
  shows "intr_timer_handler (s\<lparr>regs := r\<rparr>) = Inr (u\<lparr>regs := r\<rparr>)"
  using assms
  by (auto simp: intr_timer_handler_def upd_tcb_def set_need_schedule_def Let_def split: if_splits)

text \<open>
  The interrupt is \<open>clock_interrupt\<close> on the state with the context pushed, and then the load
  of the chosen thread's context.
\<close>

lemma clock_path:
  assumes magic: "tcb_stack_magic (tcbs s (RUNNING_THREAD s)) = STACK_MAGIC"
    and reg: "idt_table s ! 0x20 = Intr_timer_handler" and fp: "fp = kernel_sp s - 68"
  obtains s1 where "only_cpu s s1"
    and "\<exists>d e. frame_at (stack s1) fp (intr_frame d e s)"
    and "r_cs (regs s1) = ucast (selector (idt s ! 0x20))"
    and "r_ss (regs s1) = (if cpl (regs s) = 0 then r_ss (regs s) else seg_ss0 (tss_seg s))"
    and "intr_path 0x20 None cr2 at_null s = and_then (clock_interrupt fp s1) (\<lambda>s.
      Inr (context_load (RUNNING_THREAD s) s))"
proof -
  define u where "u = intr_entry 0x20 (interrupt 0x20 None s)"
  have "ZERO 0x20 \<longleftrightarrow> (None :: u32 option) = None" by (simp add: ZERO_def)
  note f = interrupted_frame [OF this u_def fp]
  obtain fl r m where u: "u = (intr_enter fp s)\<lparr>eflags := fl, regs := r, stack := m\<rparr>"
    using f(2) unfolding only_cpu_def by blast
  define s1 where "s1 = s\<lparr>eflags := fl, regs := r\<lparr>r_esp := r_esp r + 4\<rparr>, stack := m\<rparr>"
  have s1: "only_cpu s s1" unfolding only_cpu_def s1_def by blast
  have e: "intr_enter fp s1 = add_esp 4 u"
    unfolding s1_def intr_enter_cpu by (simp add: u add_esp_def)
  have mu: "tcb_stack_magic (tcbs u (RUNNING_THREAD u)) = STACK_MAGIC"
    using magic by (simp add: u frame)
  obtain w where w: "intr_timer_handler u = Inr w" using timer_tick [OF mu refl refl refl] by blast
  have wr: "regs w = regs u" using timer_tick [OF mu refl refl refl] w by auto
  have "intr_timer_handler (add_esp 4 u) = Inr (add_esp 4 w)"
    using timer_cpu [OF w] by (simp add: add_esp_def wr)
  then have c: "clock_interrupt fp s1 = hwi_tail_handle (add_esp 4 w)"
    by (simp add: clock_interrupt_def e)
  have "idt_table u ! 0x20 = Intr_timer_handler"
    using reg by (simp add: u intr_enter_def upd_tcb_def outb_def Let_def)
  then have "intr_dispatch 0x20 cr2 at_null u = Inr w" using w by (simp add: intr_dispatch_def)
  then have "intr_path 0x20 None cr2 at_null s = and_then (clock_interrupt fp s1) (\<lambda>s.
      Inr (context_load (RUNNING_THREAD s) s))"
    by (simp add: intr_path_def u_def [symmetric] c)
  then show thesis using that [of s1] s1 f by (simp add: s1_def u)
qed

text \<open>
  The context of \<open>s\<close> is saved for thread \<open>t\<close> in \<open>u\<close>: in any later state that has the
  saved words and the thread's stack pointer as they are in \<open>u\<close>, loading the thread gives back all
  registers and flags.
\<close>

definition context_saved :: "addr \<Rightarrow> 'a cpu_scheme \<Rightarrow> 'a cpu_scheme \<Rightarrow> bool" where
  "context_saved t s u \<longleftrightarrow>
     (\<forall>w :: 'a cpu_scheme. tcb_stack_top (tcbs w t) = tcb_stack_top (tcbs u t)
        \<and> same_words (if cpl (regs s) = 0 then 17 else 19) (tcb_stack_top (tcbs u t)) (stack u) (stack w)
        \<and> cpl (regs w) = 0 \<and> (cpl (regs s) = 0 \<longrightarrow> r_ss (regs w) = r_ss (regs s))
        \<longrightarrow> regs (context_load t w) = regs s \<and> eflags (context_load t w) = eflags s)"

lemma context_savedI:
  assumes f: "frame_at (stack u) fp (intr_frame d e s)" and fp: "tcb_stack_top (tcbs u t) = fp"
    and sp: "fp = kernel_sp s - 68"
  shows "context_saved t s u"
  unfolding context_saved_def
proof (intro allI impI, elim conjE)
  fix w :: "'a cpu_scheme"
  assume a: "tcb_stack_top (tcbs w t) = tcb_stack_top (tcbs u t)"
    "same_words (if cpl (regs s) = 0 then 17 else 19) (tcb_stack_top (tcbs u t)) (stack u) (stack w)"
    "cpl (regs w) = 0" "cpl (regs s) = 0 \<longrightarrow> r_ss (regs w) = r_ss (regs s)"
  have l: "length (intr_frame d e s) = (if cpl (regs s) = 0 then 17 else 19)"
    by (simp add: intr_frame_def context_words_def return_words_def Let_def)
  have "frame_at (stack w) fp (intr_frame d e s)"
    by (rule frame_kept [OF f]) (use a(2) fp l in simp)
  then have "context_load t w = w\<lparr>eflags := eflags s, regs := (if cpl (regs s) = 0
      then (regs s)\<lparr>r_esp := fp + 68, r_ss := r_ss (regs w)\<rparr> else regs s)\<rparr>"
    by (rule context_load_all) (use a fp in simp_all)
  moreover have "cpl (regs s) = 0 \<Longrightarrow> fp + 68 = r_esp (regs s)" using sp by (simp add: kernel_sp_def)
  ultimately show "regs (context_load t w) = regs s \<and> eflags (context_load t w) = eflags s"
    using a(4) by simp
qed

lemma same_words_refl: "same_words n a m m"
  by (induction n arbitrary: a) simp_all

text \<open>Loading touches only the processor.\<close>

lemma only_cpu_pop: "only_cpu s u \<Longrightarrow> only_cpu s (pop_to f u)"
  unfolding pop_to_def Let_def by (rule only_cpu_regs)

lemma only_cpu_esp: "only_cpu s u \<Longrightarrow> only_cpu s (add_esp n u)"
  unfolding add_esp_def by (rule only_cpu_regs)

lemma only_cpu_iret: "only_cpu s u \<Longrightarrow> only_cpu s (iret u)"
  unfolding iret_def Let_def by (auto intro: only_cpu_upd [where m = "stack u"])

lemma context_load_only: "only_cpu s (context_load t s)"
  unfolding context_load_def all_load_def fast_load_def popad_def Let_def
  by (auto intro!: only_cpu_iret only_cpu_esp only_cpu_pop only_cpu_regs)

lemma load_stack: "stack (pop_to f s) = stack s" "stack (add_esp n s) = stack s" "stack (iret s) = stack s"
  by (simp_all add: pop_to_def add_esp_def iret_def Let_def)

lemma context_load_stack: "stack (context_load t s) = stack s"
  by (simp add: context_load_def all_load_def fast_load_def popad_def Let_def load_stack)

lemma context_load_frame:
  "tcbs (context_load t s) = tcbs s \<and> sched (context_load t s) = sched s
   \<and> nodes (context_load t s) = nodes s \<and> mem (context_load t s) = mem s
   \<and> stack (context_load t s) = stack s"
  using only_cpu_frame [OF context_load_only [of s t]] context_load_stack [of t s] by simp

section \<open>Frames of new threads and processes\<close>

text \<open>The double words of \<^verbatim>\<open>struct thread_stack\<close> and \<^verbatim>\<open>struct intr_stack\<close>, in the order of
  their fields; \<open>ca\<close> gives the addresses of functions.\<close>

definition flag_word :: "save_flag \<Rightarrow> u32" where
  "flag_word f = (case f of ALL_SAVE_FLAG \<Rightarrow> ALL_SAVE | FAST_SAVE_FLAG \<Rightarrow> FAST_SAVE)"

definition thread_stack_words :: "(code \<Rightarrow> addr) \<Rightarrow> thread_stack \<Rightarrow> u32 list" where
  "thread_stack_words ca f =
     [flag_word (ts_save_flag f), ts_ebp f, ts_ebx f, ts_edi f, ts_esi f, ca (ts_eip f),
      ts_unused_ret_addr f, ca (ts_func f), ts_func_arg f]"

definition intr_stack_words :: "intr_stack \<Rightarrow> u32 list" where
  "intr_stack_words f =
     [flag_word (is_save_flag f), is_edi f, is_esi f, is_ebp f, is_esp_dummy f, is_ebx f, is_edx f,
      is_ecx f, is_eax f, is_gs f, is_fs f, is_es f, is_ds f, is_err_code f, is_eip f, is_cs f,
      is_eflags f, is_esp f, is_ss f]"

primrec write_words :: "addr \<Rightarrow> u32 list \<Rightarrow> (addr \<Rightarrow> u32) \<Rightarrow> addr \<Rightarrow> u32" where
  "write_words a [] m = m"
| "write_words a (w # ws) m = (write_words (a + 4) ws m)(a := w)"

lemma write_words_frame: "length ws < 100 \<Longrightarrow> frame_at (write_words a ws m) a ws"
proof (induction ws arbitrary: a)
  case (Cons w ws)
  then show ?case using frame_below [of 4 ws "write_words (a + 4) ws m" a w]
    by (simp add: fun_upd_def)
qed simp

text \<open>The frame record at \<open>k\<close> as it lies in memory.\<close>

definition lay_thread_stack :: "(code \<Rightarrow> addr) \<Rightarrow> addr \<Rightarrow> 'a cpu_scheme \<Rightarrow> 'a cpu_scheme" where
  "lay_thread_stack ca k s =
     s\<lparr>stack := write_words k (thread_stack_words ca (thread_stacks s k)) (stack s)\<rparr>"

definition lay_intr_stack :: "addr \<Rightarrow> 'a cpu_scheme \<Rightarrow> 'a cpu_scheme" where
  "lay_intr_stack k s = s\<lparr>stack := write_words k (intr_stack_words (intr_stacks s k)) (stack s)\<rparr>"

text \<open>The end of \<^verbatim>\<open>process_entry\<close>: the stack pointer is set to the frame and the interrupt
  exit pops it.\<close>

definition process_start :: "addr \<Rightarrow> 'a cpu_scheme \<Rightarrow> 'a cpu_scheme halt + 'a cpu_scheme" where
  "process_start func s =
     and_then (process_entry func s) (\<lambda>(proc_stack, s).
       Inr (hwi_ret ((lay_intr_stack proc_stack s)\<lparr>regs := (regs s)\<lparr>r_esp := proc_stack\<rparr>\<rparr>)))"

lemma fast_frame_entered:
  assumes "frame_at (stack u) k (thread_stack_words ca f)" and "ts_save_flag f = FAST_SAVE_FLAG"
    and "tcb_stack_top (tcbs u t) = k"
  shows "context_load t u = u\<lparr>regs := (regs u)\<lparr>r_eax := FAST_SAVE, r_ebp := ts_ebp f, r_ebx := ts_ebx f,
      r_edi := ts_edi f, r_esi := ts_esi f, r_eip := ca (ts_eip f), r_esp := k + 24\<rparr>\<rparr>"
    and "frame_at (stack u) (k + 24) [ts_unused_ret_addr f, ca (ts_func f), ts_func_arg f]"
proof -
  have "frame_at (stack u) k [FAST_SAVE, ts_ebp f, ts_ebx f, ts_edi f, ts_esi f, ca (ts_eip f)]"
    using assms(1,2) by (simp add: thread_stack_words_def flag_word_def)
  then show "context_load t u = u\<lparr>regs := (regs u)\<lparr>r_eax := FAST_SAVE, r_ebp := ts_ebp f, r_ebx := ts_ebx f,
      r_edi := ts_edi f, r_esi := ts_esi f, r_eip := ca (ts_eip f), r_esp := k + 24\<rparr>\<rparr>"
    using context_load_fast [OF _ assms(3)] by blast
  show "frame_at (stack u) (k + 24) [ts_unused_ret_addr f, ca (ts_func f), ts_func_arg f]"
    using assms(1) by (simp add: thread_stack_words_def add.commute [of k])
qed

lemma intr_stack_entered:
  assumes f: "f = intr_stacks s k" and flag: "is_save_flag f = ALL_SAVE_FLAG"
    and user: "is_cs f AND 3 \<noteq> 0" and k: "cpl (regs s) = 0"
    and u: "u = hwi_ret ((lay_intr_stack k s)\<lparr>regs := (regs s)\<lparr>r_esp := k\<rparr>\<rparr>)"
  shows "regs u = \<lparr>r_eax = is_eax f, r_ebx = is_ebx f, r_ecx = is_ecx f, r_edx = is_edx f,
      r_esi = is_esi f, r_edi = is_edi f, r_ebp = is_ebp f, r_esp = is_esp f, r_eip = is_eip f,
      r_cs = is_cs f, r_ss = is_ss f, r_ds = is_ds f, r_es = is_es f, r_fs = is_fs f, r_gs = is_gs f\<rparr>"
    and "eflags u = is_eflags f"
proof -
  define r where "r = \<lparr>r_eax = is_eax f, r_ebx = is_ebx f, r_ecx = is_ecx f, r_edx = is_edx f,
      r_esi = is_esi f, r_edi = is_edi f, r_ebp = is_ebp f, r_esp = is_esp f, r_eip = is_eip f,
      r_cs = is_cs f, r_ss = is_ss f, r_ds = is_ds f, r_es = is_es f, r_fs = is_fs f, r_gs = is_gs f\<rparr>"
  define w where "w = (lay_intr_stack k s)\<lparr>regs := (regs s)\<lparr>r_esp := k\<rparr>\<rparr>"
  let ?s = "s\<lparr>eflags := is_eflags f, regs := r\<rparr>"
  have "intr_stack_words f = intr_frame (is_esp_dummy f) (is_err_code f) ?s"
    using flag user by (simp add: intr_stack_words_def intr_frame_def context_words_def return_words_def
        flag_word_def cpl_def r_def Let_def)
  moreover have "length (intr_stack_words f) < 100" by (simp add: intr_stack_words_def)
  ultimately have "frame_at (stack w) (r_esp (regs w)) (intr_frame (is_esp_dummy f) (is_err_code f) ?s)"
    using write_words_frame by (simp add: w_def lay_intr_stack_def f [symmetric])
  then have "hwi_ret w = w\<lparr>eflags := eflags ?s, regs := (if cpl (regs ?s) = 0
      then (regs ?s)\<lparr>r_esp := r_esp (regs w) + 68, r_ss := r_ss (regs w)\<rparr> else regs ?s)\<rparr>"
    by (rule hwi_ret_frame) (use k in \<open>simp add: w_def cpl_def\<close>)
  then have "regs u = r" "eflags u = is_eflags f"
    using user by (simp_all add: u w_def [symmetric] cpl_def r_def)
  then show "regs u = \<lparr>r_eax = is_eax f, r_ebx = is_ebx f, r_ecx = is_ecx f, r_edx = is_edx f,
      r_esi = is_esi f, r_edi = is_edi f, r_ebp = is_ebp f, r_esp = is_esp f, r_eip = is_eip f,
      r_cs = is_cs f, r_ss = is_ss f, r_ds = is_ds f, r_es = is_es f, r_fs = is_fs f, r_gs = is_gs f\<rparr>"
    "eflags u = is_eflags f" by (simp_all add: r_def)
qed

end
