(* ===== verification/User_Mode.thy ===== *)
theory User_Mode
  imports Switch_Inv
begin

text \<open>
  Code that runs at the outer privilege level: the processor's check of port accesses against
  the flags and the I/O permission map of the task state segment, the bodies of the user
  processes of \<^verbatim>\<open>src/kernel/main.c\<close>, and the printing loops of its kernel threads.
\<close>

section \<open>Port accesses at an outer level\<close>

text \<open>\<^verbatim>\<open>struct tss\<close> of \<^verbatim>\<open>src/user/tss.c\<close> as it lies in memory.\<close>

definition tss_words :: "tss \<Rightarrow> u32 list" where
  "tss_words t =
     [seg_backlink t, seg_esp0 t, seg_ss0 t, seg_esp1 t, seg_ss1 t, seg_esp2 t, seg_ss2 t, seg_cr3 t,
      seg_eip t, seg_eflags t, seg_eax t, seg_ecx t, seg_edx t, seg_ebx t, seg_esp t, seg_ebp t,
      seg_esi t, seg_edi t, seg_es t, seg_cs t, seg_ss t, seg_ds t, seg_fs t, seg_gs t, seg_ldt t,
      seg_trace t, seg_io_base t]"

text \<open>The byte at an offset of the segment; \<open>behind\<close> is the memory after the structure.\<close>

definition tss_byte :: "(nat \<Rightarrow> u8) \<Rightarrow> tss \<Rightarrow> nat \<Rightarrow> u8" where
  "tss_byte behind t i =
     (if i < 108 then ucast (drop_bit (8 * (i mod 4)) (tss_words t ! (i div 4))) else behind i)"

text \<open>
  The processor (80386 and later): a port access with less privilege than the I/O privilege level
  of the flags is allowed when the bit of the port is clear in the map whose 16-bit offset is at
  offset 102 of the segment, and both bytes it reads there are within the segment's limit.
\<close>

definition io_map_base :: "tss \<Rightarrow> nat" where
  "io_map_base t = unat (drop_bit 16 (tss_words t ! 25))"

definition segment_limit :: "gdt_desc \<Rightarrow> nat" where
  "segment_limit d =
     (if bit (limit_high_attr_high d) 7 then unat (gdt_limit d) * 4096 + 4095 else unat (gdt_limit d))"

definition iopl :: "u32 \<Rightarrow> u32" where
  "iopl f = drop_bit 12 f AND 3"

definition io_permitted :: "(nat \<Rightarrow> u8) \<Rightarrow> u16 \<Rightarrow> 'a cpu_scheme \<Rightarrow> bool" where
  "io_permitted behind port s \<longleftrightarrow>
     cpl (regs s) \<le> iopl (eflags s)
     \<or> (let i = io_map_base (tss_seg s) + unat port div 8
        in i + 1 \<le> segment_limit (gdt s ! 4) \<and> \<not> bit (tss_byte behind (tss_seg s) i) (unat port mod 8))"

section \<open>The user processes (\<^verbatim>\<open>src/kernel/main.c\<close>)\<close>

text \<open>
  \<^verbatim>\<open>put_int\<close> at an outer level. It prints at least one character, and its first port accesses
  are those of \<^verbatim>\<open>get_cursor\<close>; a refused one is a general protection exception.
\<close>

definition user_put_int ::
    "(nat \<Rightarrow> u8) \<Rightarrow> u32 \<Rightarrow> u8 list \<Rightarrow> u32 \<Rightarrow> 'a cpu_scheme \<Rightarrow> 'a cpu_scheme halt + 'a cpu_scheme" where
  "user_put_int behind cr2 at_null num s =
     (if io_permitted behind CRT_ADDR_REG s then
        if io_permitted behind CRT_DATA_REG s then put_int num s
        else intr_path 0x0d (Some 0) cr2 at_null (outb CRT_ADDR_REG CUR_POS_HIGH_INDEX s)
      else intr_path 0x0d (Some 0) cr2 at_null s)"

text \<open>\<^verbatim>\<open>process1\<close> and \<^verbatim>\<open>process2\<close>, up to their endless empty loops. The system
  call is made with its number in \<^verbatim>\<open>eax\<close>, where the result comes back.\<close>

definition process1 ::
    "(nat \<Rightarrow> u8) \<Rightarrow> u32 \<Rightarrow> u8 list \<Rightarrow> 'a cpu_scheme \<Rightarrow> 'a cpu_scheme halt + 'a cpu_scheme" where
  "process1 behind cr2 at_null s =
     and_then (int_0x80 cr2 at_null (s\<lparr>regs := (regs s)\<lparr>r_eax := PID_GET\<rparr>\<rparr>)) (\<lambda>s.
       user_put_int behind cr2 at_null (r_eax (regs s)) s)"

definition process2 ::
    "(nat \<Rightarrow> u8) \<Rightarrow> u32 \<Rightarrow> u8 list \<Rightarrow> 'a cpu_scheme \<Rightarrow> 'a cpu_scheme halt + 'a cpu_scheme" where
  "process2 behind cr2 at_null s =
     and_then (int_0x80 cr2 at_null (s\<lparr>regs := (regs s)\<lparr>r_eax := PID_GET\<rparr>\<rparr>)) (\<lambda>s.
       user_put_int behind cr2 at_null (r_eax (regs s)) s)"

section \<open>The loops of the kernel threads (\<^verbatim>\<open>src/kernel/main.c\<close>)\<close>

text \<open>\<open>n\<close> iterations of \<^verbatim>\<open>while (1) console_put_int(pid)\<close>.\<close>

primrec print_loop :: "nat \<Rightarrow> u32 \<Rightarrow> 'a kstate_scheme \<Rightarrow> 'a kstate_scheme halt + 'a kstate_scheme" where
  "print_loop 0 pid s = Inr s"
| "print_loop (Suc n) pid s = and_then (console_put_int pid s) (print_loop n pid)"

definition thread_run_loop :: "nat \<Rightarrow> 'a kernel_scheme \<Rightarrow> 'a kernel_scheme halt + 'a kernel_scheme" where
  "thread_run_loop n s =
     (let pid = ucast (tcb_pid (tcbs s (RUNNING_THREAD s)))
      in and_then (thread_body s) (print_loop n pid))"

section \<open>The permission map after \<^verbatim>\<open>tss_init\<close>\<close>

lemma tss_limit:
  assumes "length (gdt s) = 7"
  shows "segment_limit (gdt (tss_init s) ! 4) = 107 * 4096 + 4095"
proof -
  have "limit_high_attr_high (gdt (tss_init s) ! 4) = 0x80"
    using assms by (simp add: tss_init_def Let_def put_str_kernel gdt_set_def gdt_desc_make_def
        sizeof_tss_def TSS_ATTR_HIGH_def)
  moreover have "gdt_limit (gdt (tss_init s) ! 4) = 107"
    using tss_init_segments(1) [OF assms] by (simp add: sizeof_tss_def)
  ultimately show ?thesis by (simp add: segment_limit_def)
qed

lemma tss_init_words:
  "tss_words ((tss_seg (tss_init s))\<lparr>seg_esp0 := e\<rparr>) =
     [0, e, 0x10] @ replicate 23 0 @ [108]"
  by (simp add: tss_words_def tss_init_def Let_def gdt_set_def frame put_str_kernel zero_tss_def
      SELECTOR_K_STACK_def SELECTOR_K_DATA_def sizeof_tss_def eval_nat_numeral)

lemma bit_10: "bit (0x10 :: u32) n \<longleftrightarrow> n = 4"
proof -
  have "(0x10 :: u32) = push_bit 4 1" by simp
  then show ?thesis by (simp only: bit_push_bit_one) simp
qed

lemma bit_108: "bit (108 :: u32) n \<longleftrightarrow> n \<in> {2, 3, 5, 6}"
proof -
  have "(108 :: u32) = push_bit 2 1 OR push_bit 3 1 OR push_bit 5 1 OR push_bit 6 1" by simp
  then show ?thesis by (simp only: bit_or_iff bit_push_bit_one) auto
qed

lemma word_bit_index: "c < 32 \<Longrightarrow> n div 32 = a \<and> n mod 32 = c \<longleftrightarrow> n = 32 * a + (c :: nat)"
  using mult_div_mod_eq [of 32 n] by auto

lemma tss_byte_bit:
  assumes "n < 864"
  shows "bit (tss_byte behind t (n div 8)) (n mod 8) \<longleftrightarrow> bit (tss_words t ! (n div 32)) (n mod 32)"
proof -
  have d: "n div 8 div 4 = n div 32" "8 * (n div 8 mod 4) + n mod 8 = n mod 32"
    using div_mult2_eq [of n 8 4] mod_mult2_eq [of n 8 4] by simp_all
  have "n div 8 < 108" using assms by simp
  then show ?thesis
    by (simp add: tss_byte_def bit_ucast_iff bit_drop_bit_eq d)
qed

text \<open>
  The structure keeps its \<^verbatim>\<open>io_base\<close> at offset 104, behind a 32-bit \<^verbatim>\<open>trace\<close>; the
  processor reads the offset 0 and takes the segment itself for the map. A port is refused only
  where the segment happens to have a bit set: in the stack pointer, in the stack selector and in
  \<^verbatim>\<open>io_base\<close>.
\<close>

lemma user_ports:
  assumes t: "tss_seg s = (tss_seg (tss_init s0))\<lparr>seg_esp0 := e\<rparr>" and g: "gdt s = gdt (tss_init s1)"
    and l: "length (gdt s1) = 7" and u: "cpl (regs s) = 3" "iopl (eflags s) = 0" and n: "n = unat port"
  shows "n < 864 \<Longrightarrow> io_permitted behind port s \<longleftrightarrow>
      \<not> (32 \<le> n \<and> n < 64 \<and> bit e (n - 32)) \<and> n \<notin> {68, 834, 835, 837, 838}"
    and "864 \<le> n \<Longrightarrow> io_permitted behind port s \<longleftrightarrow> \<not> bit (behind (n div 8)) (n mod 8)"
proof -
  have b: "io_map_base (tss_seg s) = 0"
    unfolding io_map_base_def t tss_init_words by (simp add: nth_append)
  have "n < 65536" using unsigned_less [of port] n by simp
  then have "n div 8 + 1 \<le> segment_limit (gdt s ! 4)" using tss_limit [OF l] g by simp
  then have p: "io_permitted behind port s \<longleftrightarrow> \<not> bit (tss_byte behind (tss_seg s) (n div 8)) (n mod 8)"
    using u b n by (simp add: io_permitted_def Let_def)
  show "io_permitted behind port s \<longleftrightarrow> \<not> bit (behind (n div 8)) (n mod 8)" if "864 \<le> n"
  proof -
    have "\<not> n div 8 < 108" using that by simp
    then show ?thesis by (simp add: p tss_byte_def)
  qed
  show "io_permitted behind port s \<longleftrightarrow>
      \<not> (32 \<le> n \<and> n < 64 \<and> bit e (n - 32)) \<and> n \<notin> {68, 834, 835, 837, 838}" if m: "n < 864"
  proof -
    define k where "k = n div 32"
    define j where "j = n mod 32"
    have nk: "n = 32 * k + j" "j < 32" "k < 27" using m by (simp_all add: k_def j_def)
    have "tss_words (tss_seg s) ! k = (if k = 1 then e else if k = 2 then 0x10 else if k = 26 then 108 else 0)"
      unfolding t tss_init_words using nk(3) by (auto simp: nth_append nth_Cons split: nat.splits)
    then have "bit (tss_words (tss_seg s) ! k) j \<longleftrightarrow> (if k = 1 then bit e j else if k = 2
        then bit (0x10 :: u32) j else if k = 26 then bit (108 :: u32) j else False)" by simp
    then have "bit (tss_byte behind (tss_seg s) (n div 8)) (n mod 8) \<longleftrightarrow>
        k = 1 \<and> bit e j \<or> k = 2 \<and> j = 4 \<or> k = 26 \<and> j \<in> {2, 3, 5, 6}"
      unfolding tss_byte_bit [OF m] k_def [symmetric] j_def [symmetric] bit_10 bit_108 by auto
    moreover have "k = 1 \<and> bit e j \<longleftrightarrow> 32 \<le> n \<and> n < 64 \<and> bit e (n - 32)"
      using nk by (cases "k = 1") auto
    moreover have "k = 2 \<and> j = 4 \<longleftrightarrow> n = 68" using word_bit_index [of 4 n 2] by (simp add: k_def j_def)
    moreover have "k = 26 \<and> j \<in> {2, 3, 5, 6} \<longleftrightarrow> n \<in> {834, 835, 837, 838}"
      using word_bit_index [of 2 n 26] word_bit_index [of 3 n 26] word_bit_index [of 5 n 26]
        word_bit_index [of 6 n 26] by (auto simp: k_def j_def)
    ultimately show ?thesis unfolding p by auto
  qed
qed

section \<open>System calls\<close>

lemma cpl_le: "cpl r \<le> 3"
  unfolding cpl_def by (rule word_and_le1)

text \<open>The system call that is there, from any level: only \<^verbatim>\<open>eax\<close> has changed on return.\<close>

lemma int_0x80_returns:
  assumes g: "selector (idt s ! 0x80) = SELECTOR_K_CODE" "attribute (idt s ! 0x80) = IDT_DESC_ATTR_DPL3"
    and num: "r_eax (regs s) = PID_GET"
    and tab: "0 < length (syscall_table s)" "syscall_table s ! 0 = Sys_pid_get"
  obtains s' where "int_0x80 cr2 at_null s = Inr s'" and "only_cpu s s'"
    and "regs s' = (regs s)\<lparr>r_eax := sys_pid_get s\<rparr>" and "eflags s' = eflags s"
proof -
  define u where "u = syscall_stub (interrupt 0x80 None s)"
  note f = syscall_stub_frame [OF u_def refl]
  obtain d where d: "on_stack ([r_ebx (regs s), r_ecx (regs s), r_edx (regs s), 0x80] @ intr_frame d 0 s) u"
    using f(1) by blast
  have k: "cpl (regs u) = 0" using f(4) g(1) by (simp add: SELECTOR_K_CODE_def)
  have "gate_dpl (idt s ! 0x80) = 3" by (simp add: gate_dpl_def g(2) IDT_DESC_ATTR_DPL3_def)
  moreover have "int80 PID_GET args u = Inr (sys_pid_get s)" for args
    using tab only_cpu_frame [OF f(2)] by (simp add: int80_def PID_GET_def sys_pid_get_def)
  ultimately have i: "int_0x80 cr2 at_null s = Inr (syscall_return (sys_pid_get s) u)"
    unfolding int_0x80_def Let_def u_def [symmetric] using cpl_le [of "regs s"] num by simp
  have r: "syscall_return (sys_pid_get s) u = u\<lparr>eflags := eflags s, regs := (if cpl (regs s) = 0
      then (regs s)\<lparr>r_eax := sys_pid_get s, r_esp := r_esp (regs u) + 84, r_ss := r_ss (regs u)\<rparr>
      else (regs s)\<lparr>r_eax := sys_pid_get s\<rparr>), stack := (stack u)(r_esp (regs u) + 48 := sys_pid_get s)\<rparr>"
    by (rule syscall_return_frame [OF d k])
  have "only_cpu s (syscall_return (sys_pid_get s) u)" by (rule only_cpu_upd [OF f(2) r])
  moreover have "regs (syscall_return (sys_pid_get s) u) = (regs s)\<lparr>r_eax := sys_pid_get s\<rparr>"
    unfolding r using f(3,5) by (simp add: kernel_sp_def)
  moreover have "eflags (syscall_return (sys_pid_get s) u) = eflags s" unfolding r by simp
  ultimately show thesis using i that by blast
qed

section \<open>Printing\<close>

text \<open>With the console's mutex free and nobody waiting, a number is printed and the mutex is free
  again.\<close>

definition console_free :: "'a kstate_scheme \<Rightarrow> bool" where
  "console_free s \<longleftrightarrow> sem_val s (mtx_sem console_mutex) = 1
     \<and> list_empty (waiters (mtx_sem console_mutex)) s"

lemma put_int_kernel:
  fixes s :: "'a kstate_scheme"
  assumes "put_int num s = (Inr s' :: 's halt + _)"
  shows "crt_only s s'" "sem_val s' = sem_val s" "nodes s' = nodes s" "sched s' = sched s"
    "tcbs s' = tcbs s" "mtx_holder s' = mtx_holder s"
proof -
  have "s' = put_str (hex_digits num) s" using assms by (simp add: put_int_spec)
  then show c: "crt_only s s'" by (simp add: put_str_crt)
  show "sem_val s' = sem_val s" "nodes s' = nodes s" "sched s' = sched s"
    "tcbs s' = tcbs s" "mtx_holder s' = mtx_holder s"
    by (subst c [unfolded crt_only_def], simp)+
qed

lemma console_put_int_eq:
  fixes s :: "'a kstate_scheme"
  assumes "console_free s"
    and l: "l = set_holder console_mutex (RUNNING_THREAD s) (set_sem_val (mtx_sem console_mutex) 0 s)"
  shows "console_put_int num s =
    Inr (set_holder console_mutex NULL (set_sem_val (mtx_sem console_mutex) 1 (put_str (hex_digits num) l)))"
proof -
  have a: "console_acquire s = Inr l"
    using assms by (simp add: console_acquire_def mutex_lock_free console_free_def)
  have pi: "put_int num l = (Inr (put_str (hex_digits num) l) :: 'a kstate_scheme halt + _)"
    by (simp add: put_int_spec)
  note k = put_int_kernel [OF pi]
  have "console_release (put_str (hex_digits num) l) =
      Inr (set_holder console_mutex NULL (set_sem_val (mtx_sem console_mutex) 1 (put_str (hex_digits num) l)))"
    unfolding console_release_def
    using assms k by (intro mutex_unlock_no_waiter)
      (simp_all add: console_free_def list_empty_def set_holder_def set_sem_val_def)
  then show ?thesis by (simp add: console_put_int_def a pi)
qed

lemma console_put_int_free:
  fixes s :: "'a kstate_scheme"
  assumes "console_free s" and "console_ok s"
  obtains s' where "console_put_int num s = Inr s'" and "console_free s'" and "console_ok s'"
    and "console s' = fold type_char (hex_digits num) (console s)"
    and "sched s' = sched s" and "tcbs s' = tcbs s"
    and "nodes s' = nodes s" and "sem_val s' = sem_val s"
proof -
  let ?l = "set_holder console_mutex (RUNNING_THREAD s) (set_sem_val (mtx_sem console_mutex) 0 s)"
  define u where "u = put_str (hex_digits num) ?l"
  let ?s' = "set_holder console_mutex NULL (set_sem_val (mtx_sem console_mutex) 1 u)"
  have m: "video ?l = video s" "crt_regs ?l = crt_regs s" "video ?s' = video u" "crt_regs ?s' = crt_regs u"
    by (simp_all add: set_holder_def set_sem_val_def)
  have c: "console ?l = console s" "console_ok ?l"
    using assms(2) m by (simp_all add: console_def console_ok_def cursor_def)
  have "put_int num ?l = (Inr u :: 'a kstate_scheme halt + _)" by (simp add: put_int_spec u_def)
  note k = put_int_kernel [OF this]
  have pc: "console u = fold type_char (hex_digits num) (console ?l)" "console_ok u"
    using put_str_console [OF c(2), of "hex_digits num"] hex_digits_plain [of num] by (simp_all add: u_def)
  show thesis
  proof (rule that [of ?s'])
    show "console_put_int num s = Inr ?s'" using console_put_int_eq [OF assms(1) refl] by (simp add: u_def)
    show "console_free ?s'"
      using assms(1) k by (simp add: console_free_def list_empty_def set_holder_def set_sem_val_def)
    show "console_ok ?s'" "console ?s' = fold type_char (hex_digits num) (console s)"
      using pc m c by (simp_all add: console_def console_ok_def cursor_def)
    show "sched ?s' = sched s" "tcbs ?s' = tcbs s" "nodes ?s' = nodes s"
      using k by (simp_all add: set_holder_def set_sem_val_def)
    show "sem_val ?s' = sem_val s"
      using k assms(1) by (auto simp: set_holder_def set_sem_val_def console_free_def)
  qed
qed

lemma print_loop_free:
  assumes "console_free s" and "console_ok s"
  shows "\<exists>s'. print_loop n pid s = Inr s' \<and> console_free s' \<and> console_ok s'
    \<and> console s' = fold type_char (concat (replicate n (hex_digits pid))) (console s)
    \<and> sched s' = sched s \<and> tcbs s' = tcbs s"
  using assms
proof (induction n arbitrary: s)
  case (Suc n)
  obtain u where u: "console_put_int pid s = Inr u" "console_free u" "console_ok u"
    "console u = fold type_char (hex_digits pid) (console s)" "sched u = sched s" "tcbs u = tcbs s"
    by (rule console_put_int_free [OF Suc.prems])
  then show ?case using Suc.IH [OF u(2,3)] by auto
qed simp

end
