(* ===== verification/Props_Switch.thy ===== *)
theory Props_Switch
  imports User_Mode Props_Process
begin

text \<open>
  The properties of the context switch, the interrupt and system call entries, and of code that
  runs in user mode.
\<close>

section \<open>A concrete processor\<close>

definition cpu_of :: "kernel \<Rightarrow> regs \<Rightarrow> cpu" where
  "cpu_of k r = kernel.extend k (cpu.fields r (\<lambda>_. 0))"

lemma cpu_of_sel:
  "regs (cpu_of k r) = r" "stack (cpu_of k r) = (\<lambda>_. 0)" "nodes (cpu_of k r) = nodes k" "mem (cpu_of k r) = mem k"
  "tcbs (cpu_of k r) = tcbs k" "sched (cpu_of k r) = sched k" "phys (cpu_of k r) = phys k"
  "cr3 (cpu_of k r) = cr3 k" "idt (cpu_of k r) = idt k" "idt_table (cpu_of k r) = idt_table k"
  "tss_seg (cpu_of k r) = tss_seg k" "eflags (cpu_of k r) = eflags k" "gdt (cpu_of k r) = gdt k"
  "syscall_table (cpu_of k r) = syscall_table k" "video (cpu_of k r) = video k"
  "crt_regs (cpu_of k r) = crt_regs k" "sem_val (cpu_of k r) = sem_val k"
  "user_phy_pool (cpu_of k r) = user_phy_pool k"
  by (cases k; simp add: cpu_of_def kernel.defs cpu.defs)+

lemma cpu_of_kinv: "kinv (cpu_of k r) v \<longleftrightarrow> kinv k v"
  by (rule kinv_cong) (simp_all add: cpu_of_sel)

definition regs0 :: regs where
  "regs0 = \<lparr>r_eax = 1, r_ebx = 2, r_ecx = 3, r_edx = 4, r_esi = 5, r_edi = 6, r_ebp = 7,
     r_esp = 0xc009fd00, r_eip = 0xc0001500, r_cs = 8, r_ss = 16, r_ds = 16, r_es = 16, r_fs = 16, r_gs = 24\<rparr>"

definition user_regs0 :: regs where
  "user_regs0 = regs0\<lparr>r_esp := 0xbfffff00, r_cs := 0x2b, r_ss := 0x33\<rparr>"

section \<open>Interrupts\<close>

text \<open>
  C7. A clock interrupt is transparent: whatever the interrupted thread was doing, in kernel or
  user mode, the path through the entry stub, the timer's handler and the scheduler succeeds and
  keeps the invariant; if the thread goes on at once it finds all registers and flags as they were, and if it
  does not, its context is saved: whenever it is loaded again, with its frame intact, it goes on
  with the registers and flags it had.
\<close>

theorem clock_interrupt_transparent:
  fixes s :: "'a cpu_scheme"
  assumes "kinv s v" and "r = RUNNING_THREAD s" and "tcb_stack_magic (tcbs s r) = STACK_MAGIC"
    and "\<And>t. t \<in> vt v \<Longrightarrow> activatable t s"
    and "idt_table s ! 0x20 = Intr_timer_handler" and "selector (idt s ! 0x20) = SELECTOR_K_CODE"
    and "fin \<longleftrightarrow> tcb_ticks (tcbs s r) = 0 \<or> need_schedule s"
  shows "\<exists>s'. intr_path 0x20 None cr2 at_null s = Inr s' \<and> context_saved r s s'
    \<and> kinv s' (if fin then requeue r (prio_of r s) v else v)
    \<and> (\<not> fin \<longrightarrow> RUNNING_THREAD s' = r)
    \<and> (RUNNING_THREAD s' = r \<longrightarrow> regs s' = regs s \<and> eflags s' = eflags s)"
proof -
  define fp where "fp = kernel_sp s - 68"
  let ?v = "if fin then requeue r (prio_of r s) v else v"
  obtain s1 d e where s1: "only_cpu s s1" "frame_at (stack s1) fp (intr_frame d e s)"
    "r_cs (regs s1) = 8" "r_ss (regs s1) = (if cpl (regs s) = 0 then r_ss (regs s) else seg_ss0 (tss_seg s))"
    "intr_path 0x20 None cr2 at_null s = and_then (clock_interrupt fp s1) (\<lambda>s. Inr (context_load (RUNNING_THREAD s) s))"
    by (rule clock_path [OF assms(3) [unfolded assms(2)] assms(5) fp_def]) (use assms(6) in \<open>auto simp: SELECTOR_K_CODE_def\<close>)
  note f = only_cpu_frame [OF s1(1)]
  have k: "kinv s1 v" using assms(1) f by (subst kinv_cong) simp_all
  have mg: "tcb_stack_magic (tcbs s1 r) = STACK_MAGIC" "r = RUNNING_THREAD s1" using assms(2,3) f by simp_all
  have act: "activatable t s1" if "t \<in> vt v" for t
    using assms(4) [OF that] f by (subst activatable_cong [of _ _ s]) simp_all
  have fin: "fin \<longleftrightarrow> tcb_ticks (tcbs s1 r) = 0 \<or> need_schedule s1" using assms(7) f by (simp add: need_schedule_def)
  obtain w where w: "clock_interrupt fp s1 = Inr w" "kinv w ?v" "\<not> fin \<Longrightarrow> RUNNING_THREAD w = r"
    by (rule clock_interrupt_kinv [OF k mg act fin, of ?v fp]) (use f in \<open>auto simp: prio_of_def\<close>)
  have c: "regs w = regs s1" "stack w = stack s1" "tcb_stack_top (tcbs w r) = fp"
    using clock_interrupt_cpu [OF w(1)] mg by simp_all
  define s' where "s' = context_load (RUNNING_THREAD w) w"
  have p: "intr_path 0x20 None cr2 at_null s = Inr s'" using s1(5) w(1) by (simp add: s'_def)
  have l: "tcbs s' = tcbs w \<and> sched s' = sched w \<and> nodes s' = nodes w \<and> mem s' = mem w \<and> stack s' = stack w"
    unfolding s'_def by (rule context_load_frame)
  have "context_saved r s s'" using l c s1(2) by (intro context_savedI [OF _ _ fp_def]) simp_all
  moreover have "kinv s' ?v" using w(2) l by (subst kinv_cong [of _ w]) simp_all
  moreover have "regs s' = regs s \<and> eflags s' = eflags s" if "RUNNING_THREAD s' = r"
  proof -
    have "context_saved r s w" using c s1(2) by (intro context_savedI [OF _ _ fp_def]) simp_all
    moreover have "cpl (regs w) = 0" using c s1(3) by (simp add: cpl_def)
    ultimately have "regs (context_load r w) = regs s \<and> eflags (context_load r w) = eflags s"
      unfolding context_saved_def using c s1(4) by (auto simp: same_words_refl)
    then show ?thesis using that l by (simp add: s'_def)
  qed
  ultimately show ?thesis using p w(3) l by auto
qed

text \<open>The idle thread of the example, interrupted in kernel mode.\<close>

definition gates0 :: "gate_desc list" where
  "gates0 = replicate IDT_DESC_CNT (idt_desc_make gate0 IDT_DESC_ATTR_DPL0 0xc0001800)"

definition cpu1 :: cpu where
  "cpu1 = cpu_of (k1\<lparr>idt := gates0, idt_table := replicate IDT_DESC_CNT Intr_timer_handler\<rparr>) regs0"

theorem clock_interrupt_transparent_witness:
  "kinv cpu1 v1 \<and> idt_table cpu1 ! 0x20 = Intr_timer_handler
    \<and> (\<exists>s'. intr_path 0x20 None 0 [] cpu1 = Inr s' \<and> context_saved idle_t cpu1 s')"
proof -
  have k: "kinv cpu1 v1"
    unfolding cpu1_def cpu_of_kinv using k1_facts(2) by (subst kinv_cong [of _ k1]) simp_all
  have r: "idle_t = RUNNING_THREAD cpu1" "tcb_stack_magic (tcbs cpu1 idle_t) = STACK_MAGIC"
    using k1_facts(3,5) by (simp_all add: cpu1_def cpu_of_sel STACK_MAGIC_def)
  have a: "activatable t cpu1" if "t \<in> vt v1" for t
    using that k1_facts(6) by (simp add: v1_def activatable_def cpu1_def cpu_of_sel)
  have i: "idt_table cpu1 ! 0x20 = Intr_timer_handler" "selector (idt cpu1 ! 0x20) = SELECTOR_K_CODE"
    by (simp_all add: cpu1_def cpu_of_sel gates0_def IDT_DESC_CNT_def gate_make_fields)
  show ?thesis
    using clock_interrupt_transparent [OF k r a i refl, of 0 "[]"] k i(1) by blast
qed

section \<open>Calls of the scheduler and new threads\<close>

text \<open>
  C8. A call of \<open>task_trap\<close> returns like a C function: whenever the thread is loaded again, with
  the six words of its frame and its stack pointer as the call left them, it goes on behind the
  call with the registers a called function must keep, and nothing else of the state changes. A thread whose
  frame \<open>thread_stack_init\<close> prepared enters \<open>kernel_thread_entry\<close> instead, with the
  thread's function and its argument where the calling convention has the parameters.
\<close>

theorem task_trap_returns:
  fixes s w :: "'a cpu_scheme"
  assumes "u = task_trap t s" and "tcb_stack_top (tcbs w t) = tcb_stack_top (tcbs u t)"
    and "same_words 6 (tcb_stack_top (tcbs u t)) (stack u) (stack w)"
    and "n = thread_stack_init t func arg s" and "k = tcb_stack_top (tcbs s t) - 112"
    and "e = context_load t (lay_thread_stack ca k n)"
  shows "context_load t w = w\<lparr>regs := (regs w)\<lparr>r_eax := FAST_SAVE, r_ebp := r_ebp (regs s),
      r_ebx := r_ebx (regs s), r_edi := r_edi (regs s), r_esi := r_esi (regs s),
      r_eip := stack s (r_esp (regs s)), r_esp := r_esp (regs s) + 4\<rparr>\<rparr>
    \<and> r_eip (regs e) = ca Kernel_thread_entry \<and> stack e (r_esp (regs e) + 4) = ca func
    \<and> stack e (r_esp (regs e) + 8) = arg \<and> r_ebp (regs e) = 0"
proof -
  note f = task_trap_frame [OF refl assms(1)]
  have fw: "frame_at (stack w) (r_esp (regs s) - 20) [FAST_SAVE, r_ebp (regs s), r_ebx (regs s),
      r_edi (regs s), r_esi (regs s), stack s (r_esp (regs s))]"
    by (rule frame_kept [OF f(1)]) (use assms(3) f(2) in \<open>simp add: eval_nat_numeral\<close>)
  have tw: "tcb_stack_top (tcbs w t) = r_esp (regs s) - 20" using assms(2) f(2) by simp
  note w = context_load_fast [OF fw tw]
  let ?f = "thread_stacks n k" and ?l = "lay_thread_stack ca k n"
  have n: "tcb_stack_top (tcbs n t) = k" "ts_save_flag ?f = FAST_SAVE_FLAG" "ts_eip ?f = Kernel_thread_entry"
    "ts_func ?f = func" "ts_func_arg ?f = arg" "ts_ebp ?f = 0"
    by (simp_all add: assms(4,5) thread_stack_init_def Let_def upd_tcb_def sizeof_intr_stack_def
        sizeof_thread_stack_def)
  have "frame_at (stack ?l) k (thread_stack_words ca ?f)"
    by (simp add: lay_thread_stack_def) (rule write_words_frame, simp add: thread_stack_words_def)
  note e = fast_frame_entered [OF this n(2), of t]
  have "tcb_stack_top (tcbs ?l t) = k" using n(1) by (simp add: lay_thread_stack_def)
  note e' = e(1) [OF this] e(2) [OF this]
  have "stack e (k + 28) = ca func" "stack e (k + 32) = arg"
    using e'(2) n by (simp_all add: assms(6) context_load_stack add.commute [of k])
  then show ?thesis using w e'(1) n by (simp add: assms(6) add.assoc)
qed

theorem task_trap_returns_witness:
  "r_eip (regs (context_load idle_t (task_trap idle_t cpu1))) = 0
    \<and> r_esi (regs (context_load idle_t (task_trap idle_t cpu1))) = 5"
proof -
  note h = task_trap_returns [OF refl refl same_words_refl refl refl refl, of idle_t cpu1]
  show ?thesis using h by (simp add: cpu1_def cpu_of_sel regs0_def)
qed

section \<open>System calls\<close>

lemma system_call_at:
  fixes s :: "'a cpu_scheme"
  assumes "idt s = idt (idt_init tbl a s0)" and "length (idt s0) = IDT_DESC_CNT"
    and "length (idt_table s0) = IDT_DESC_CNT"
    and "syscall_table s = syscall_table (syscall_init s1)" and "length (syscall_table s1) = SYSCALL_NUM"
    and "r_eax (regs s) = PID_GET" and "r = RUNNING_THREAD s"
  shows "\<exists>s'. int_0x80 cr2 at_null s = Inr s' \<and> only_cpu s s' \<and> eflags s' = eflags s
    \<and> regs s' = (regs s)\<lparr>r_eax := ucast (tcb_pid (tcbs s r))\<rparr>"
proof -
  have i: "INT_SYSCALL < IDT_DESC_CNT" by (simp add: INT_SYSCALL_def IDT_DESC_CNT_def)
  note g = idt_init_tables [OF assms(2,3) i, of tbl a]
  have g': "selector (idt s ! 0x80) = SELECTOR_K_CODE" "attribute (idt s ! 0x80) = IDT_DESC_ATTR_DPL3"
    using g(2,4) by (simp_all add: assms(1) INT_SYSCALL_def)
  have t: "0 < length (syscall_table s)" "syscall_table s ! 0 = Sys_pid_get"
    using assms(4,5) by (simp_all add: syscall_init_def put_str_kernel Let_def PID_GET_def SYSCALL_NUM_def)
  show ?thesis
    by (rule int_0x80_returns [OF g' assms(6) t, of cr2 at_null])
      (use assms(7) in \<open>auto simp: sys_pid_get_def\<close>)
qed


text \<open>A user process of the example: ring 3, the tables as the kernel's start leaves them.\<close>

definition user_k0 :: kernel where
  "user_k0 = raw0\<lparr>idt := idt (idt_init (\<lambda>_. 0xc0001800) 0xc0007400 raw0),
     syscall_table := syscall_table (syscall_init raw0), sched := sched0\<lparr>sch_running_thread := work_t\<rparr>,
     tcbs := \<lambda>_. zero_tcb\<lparr>tcb_pid := 3\<rparr>,
     gdt := gdt (tss_init (raw0\<lparr>gdt := replicate 7 (gdt_desc_make \<lparr>limit_low_word = 0, base_low_word = 0,
       base_mid_byte = 0, attr_low_byte = 0, limit_high_attr_high = 0, base_high_byte = 0\<rparr> 0 0 0 0)\<rparr>)),
     tss_seg := (tss_seg (tss_init raw0))\<lparr>seg_esp0 := work_t + PG_SIZE\<rparr>\<rparr>"

definition user_cpu0 :: cpu where
  "user_cpu0 = cpu_of user_k0 (user_regs0\<lparr>r_eax := PID_GET\<rparr>)"

lemma raw0_lengths:
  "length (idt raw0) = IDT_DESC_CNT" "length (idt_table raw0) = IDT_DESC_CNT"
  "length (syscall_table raw0) = SYSCALL_NUM"
  by (simp_all add: raw0_def SYSCALL_NUM_def)

lemma user_cpu0_sel:
  "idt user_cpu0 = idt (idt_init (\<lambda>_. 0xc0001800) 0xc0007400 raw0)"
  "syscall_table user_cpu0 = syscall_table (syscall_init raw0)" "r_eax (regs user_cpu0) = PID_GET"
  "cpl (regs user_cpu0) = 3" "RUNNING_THREAD user_cpu0 = work_t" "tcb_pid (tcbs user_cpu0 t) = 3"
  by (simp_all add: user_cpu0_def user_k0_def cpu_of_sel user_regs0_def cpl_def)


section \<open>Ports in user mode\<close>

lemma aligned_next: "aligned t \<Longrightarrow> aligned (t + PG_SIZE)"
proof -
  assume "aligned t"
  then have "unat t mod 4096 = 0" using unat_off [of t] by (simp add: aligned_def)
  then have "unat ((t + PG_SIZE) AND 0xfff) = 0"
    unfolding unat_off by (simp add: unat_word_ariths PG_SIZE_def mod_mod_cancel)
  then show ?thesis by (simp add: aligned_def unat_eq_0)
qed

text \<open>
  C22. What user mode may do with ports. \<open>tss_init\<close> sets \<^verbatim>\<open>io_base\<close> to the size of the
  structure, so that there be no permission map, but the field is not where the processor reads
  the map's offset: at level 3 and I/O privilege 0 a port below 864 is refused only where the segment itself has a bit
  set, and a port from 864 on by the memory behind it. In particular the ports of both
  interrupt controllers, of the timer and of the keyboard are open to every process.
\<close>

theorem user_port_access:
  fixes s :: "'a cpu_scheme"
  assumes "tss_seg s = (tss_seg (tss_init s0))\<lparr>seg_esp0 := t + PG_SIZE\<rparr>" and "gdt s = gdt (tss_init s1)"
    and "length (gdt s1) = 7" and "cpl (regs s) = 3" and "iopl (eflags s) = 0" and "aligned t"
  shows "(io_permitted behind port s \<longleftrightarrow>
      (if unat port < 864
       then \<not> (32 \<le> unat port \<and> unat port < 64 \<and> bit (t + PG_SIZE) (unat port - 32))
         \<and> unat port \<notin> {68, 834, 835, 837, 838}
       else \<not> bit (behind (unat port div 8)) (unat port mod 8)))
    \<and> (\<forall>p \<in> {0x20, 0x21, 0xa0, 0xa1, 0x40, 0x43, 0x60}. io_permitted behind p s)"
proof -
  note u = user_ports [OF assms(1-5) refl]
  have b: "\<not> bit (t + PG_SIZE) 0" "\<not> bit (t + PG_SIZE) 1" 
    using aligned_bits [OF aligned_next [OF assms(6)]] by simp_all
  have "io_permitted behind p s" if "p \<in> {0x20, 0x21, 0xa0, 0xa1, 0x40, 0x43, 0x60}" for p
    using that b by (auto simp: u(1))
  then show ?thesis using u(1) [of port behind] u(2) [of port behind] by auto
qed

lemma user_cpu0_ports:
  "tss_seg user_cpu0 = (tss_seg (tss_init raw0))\<lparr>seg_esp0 := work_t + PG_SIZE\<rparr>"
  "\<exists>s1 :: kernel. gdt user_cpu0 = gdt (tss_init s1) \<and> length (gdt s1) = 7"
  "iopl (eflags user_cpu0) = 0" "aligned work_t" "console_ok user_cpu0"
proof -
  show "\<exists>s1 :: kernel. gdt user_cpu0 = gdt (tss_init s1) \<and> length (gdt s1) = 7"
    unfolding user_cpu0_def cpu_of_sel user_k0_def
    by (rule exI [of _ "raw0\<lparr>gdt := replicate 7 (gdt_desc_make \<lparr>limit_low_word = 0, base_low_word = 0,
       base_mid_byte = 0, attr_low_byte = 0, limit_high_attr_high = 0, base_high_byte = 0\<rparr> 0 0 0 0)\<rparr>"]) simp
qed (simp_all add: user_cpu0_def cpu_of_sel user_k0_def raw0_def iopl_def aligned_def work_t_def
    console_ok_def cursor_def)

theorem user_port_access_witness:
  "cpl (regs user_cpu0) = 3 \<and> io_permitted (\<lambda>_. 0) 0x21 user_cpu0 \<and> \<not> io_permitted (\<lambda>_. 0) 68 user_cpu0"
proof -
  obtain s1 :: kernel where g: "gdt user_cpu0 = gdt (tss_init s1)" "length (gdt s1) = 7"
    using user_cpu0_ports(2) by blast
  note h = user_port_access [OF user_cpu0_ports(1) g user_cpu0_sel(4) user_cpu0_ports(3,4), of "\<lambda>_. 0"]
  show ?thesis using h [of 68] user_cpu0_sel(4) by simp
qed

section \<open>The programs of \<^verbatim>\<open>main.c\<close>\<close>

text \<open>
  C23. The user process: in ring 3, on tables as the kernel's start leaves them and with zero
  bytes between the task state segment and the next object (as in \<^verbatim>\<open>src/build/kernel.map\<close>),
  \<open>process1\<close> gets its identifier by a system call and prints it, and so does \<open>process2\<close>: the port accesses of the
  console are not refused. Either comes to its endless loop in ring 3 with the kernel's tables as they were.
\<close>

theorem process1_prints_pid:
  fixes s :: "'a cpu_scheme"
  assumes "idt s = idt (idt_init tbl a s0)" and "length (idt s0) = IDT_DESC_CNT"
    and "length (idt_table s0) = IDT_DESC_CNT"
    and "syscall_table s = syscall_table (syscall_init s1)" and "length (syscall_table s1) = SYSCALL_NUM"
    and "tss_seg s = (tss_seg (tss_init s2))\<lparr>seg_esp0 := e\<rparr>" and "gdt s = gdt (tss_init s3)"
    and "length (gdt s3) = 7" and "cpl (regs s) = 3" and "iopl (eflags s) = 0" and "behind 122 = 0"
    and "console_ok s" and "r = RUNNING_THREAD s"
  shows "\<exists>s'. process1 behind cr2 at_null s = Inr s' \<and> process2 behind cr2 at_null s = Inr s' \<and> cpl (regs s') = 3
    \<and> console s' = fold type_char (hex_digits (ucast (tcb_pid (tcbs s r)))) (console s)
    \<and> tcbs s' = tcbs s \<and> sched s' = sched s"
proof -
  let ?c = "s\<lparr>regs := (regs s)\<lparr>r_eax := PID_GET\<rparr>\<rparr>" and ?pid = "ucast (tcb_pid (tcbs s r)) :: u32"
  have "idt ?c = idt (idt_init tbl a s0)" "syscall_table ?c = syscall_table (syscall_init s1)"
    "r_eax (regs ?c) = PID_GET" "r = RUNNING_THREAD ?c" using assms(1,4,13) by simp_all
  from system_call_at [OF this(1) assms(2,3) this(2) assms(5) this(3,4), of cr2 at_null]
  obtain u where u: "int_0x80 cr2 at_null ?c = Inr u" "only_cpu ?c u" "eflags u = eflags s"
    "regs u = (regs ?c)\<lparr>r_eax := ?pid\<rparr>" by auto
  note f = only_cpu_frame [OF u(2)]
  have up: "tss_seg u = (tss_seg (tss_init s2))\<lparr>seg_esp0 := e\<rparr>" "gdt u = gdt (tss_init s3)"
    "cpl (regs u) = 3" "iopl (eflags u) = 0"
    using assms(6,7,9,10) u(3,4) f by (simp_all add: cpl_def)
  note p = user_ports(2) [OF up(1,2) assms(8) up(3,4) refl, of _ behind]
  have "io_permitted behind CRT_ADDR_REG u" "io_permitted behind CRT_DATA_REG u"
    using p [of CRT_ADDR_REG] p [of CRT_DATA_REG] assms(11) by (simp_all add: crt_consts)
  then have pr: "process1 behind cr2 at_null s = put_int ?pid u" "process2 behind cr2 at_null s = put_int ?pid u"
    using u(1,4) by (simp_all add: process1_def process2_def user_put_int_def)
  have c: "console u = console s" "console_ok u"
    using assms(12) f by (simp_all add: console_def console_ok_def cursor_def)
  define w where "w = put_str (hex_digits ?pid) u"
  have w: "(put_int ?pid u :: 'a cpu_scheme halt + _) = Inr w" "crt_only u w" by (simp_all add: w_def put_int_spec put_str_crt)
  have "console w = fold type_char (hex_digits ?pid) (console s)"
    using put_str_console [OF c(2), of "hex_digits ?pid"] hex_digits_plain [of ?pid] c(1) by (simp add: w_def)
  moreover have "regs w = regs u" "tcbs w = tcbs u" "sched w = sched u"
    by (subst w(2) [unfolded crt_only_def], simp)+
  ultimately show ?thesis using pr w(1) up(3) f by simp
qed

theorem process1_prints_pid_witness:
  "cpl (regs user_cpu0) = 3 \<and> (\<exists>s'. process1 (\<lambda>_. 0) 0 [] user_cpu0 = Inr s'
    \<and> console s' = fold type_char (hex_digits 3) (console user_cpu0))"
proof -
  obtain s1 :: kernel where g: "gdt user_cpu0 = gdt (tss_init s1)" "length (gdt s1) = 7"
    using user_cpu0_ports(2) by blast
  have b: "(\<lambda>_. 0 :: u8) (122 :: nat) = 0" by simp
  note h = process1_prints_pid [OF user_cpu0_sel(1) raw0_lengths(1,2) user_cpu0_sel(2) raw0_lengths(3)
      user_cpu0_ports(1) g user_cpu0_sel(4) user_cpu0_ports(3) b user_cpu0_ports(5) refl, of 0 "[]"]
  show ?thesis using h by (auto simp: user_cpu0_sel)
qed

text \<open>
  The kernel threads: with the console's mutex free, \<^verbatim>\<open>thread1\<close> (and \<^verbatim>\<open>thread2\<close>, the
  same text) prints its identifier once with interrupts off and then \<open>n\<close> times in its loop, for
  every \<open>n\<close>; each round leaves the mutex free.
\<close>

theorem kernel_thread_prints:
  fixes s :: "'a kernel_scheme"
  assumes "console_free s" and "console_ok s" and "pid = ucast (tcb_pid (tcbs s (RUNNING_THREAD s)))"
  shows "\<exists>s'. thread_run_loop n s = Inr s' \<and> console_free s' \<and> console_ok s'
    \<and> console s' = fold type_char (concat (replicate (Suc n) (hex_digits pid))) (console s)
    \<and> sched s' = sched s \<and> tcbs s' = tcbs s"
proof -
  let ?d = "snd (intr_disable s)"
  have d: "console_free ?d" "console_ok ?d" "console ?d = console s"
    using assms(1,2) by (simp_all add: console_free_def console_ok_def console_def cursor_def frame
        list_empty_def intr_disable_def cli_def)
  obtain u where u: "console_put_int pid ?d = Inr u" "console_free u" "console_ok u"
    "console u = fold type_char (hex_digits pid) (console ?d)" "sched u = sched ?d" "tcbs u = tcbs ?d"
    by (rule console_put_int_free [OF d(1,2)])
  let ?e = "snd (intr_enable u)"
  have e: "console_free ?e" "console_ok ?e" "console ?e = console u" "sched ?e = sched u" "tcbs ?e = tcbs u"
    using u(2,3) by (simp_all add: console_free_def console_ok_def console_def cursor_def
        list_empty_def intr_enable_def sti_def)
  have "thread_run_loop n s = print_loop n pid ?e"
    using u(1) assms(3) by (simp add: thread_run_loop_def thread_body_def Let_def)
  moreover note print_loop_free [OF e(1,2), of n pid]
  ultimately show ?thesis using e u(4-6) d(3) by (simp add: frame)
qed

theorem kernel_thread_prints_witness:
  "console_free (mutex_init console_mutex raw0)
    \<and> (\<exists>s'. thread_run_loop 5 (mutex_init console_mutex raw0) = Inr s' \<and> console_free s')"
proof -
  have f: "console_free (mutex_init console_mutex raw0)" "console_ok (mutex_init console_mutex raw0)"
    by (simp_all add: console_free_def console_ok_def cursor_def mutex_init_def sem_init_def set_holder_def
        set_sem_val_def raw0_def list_init_def set_next_def set_prev_def list_empty_def)
  then show ?thesis using kernel_thread_prints [OF f refl, of 5] by blast
qed

section \<open>Entering user mode\<close>


text \<open>A process of the example about to enter user mode.\<close>

definition proc_cpu0 :: cpu where
  "proc_cpu0 = cpu_of (proc0\<lparr>tcbs := (\<lambda>t. (tcbs proc0 t)\<lparr>tcb_stack_magic := STACK_MAGIC, tcb_ticks := 5\<rparr>),
     idt := gates0, idt_table := replicate IDT_DESC_CNT Intr_timer_handler\<rparr>) regs0"

lemma proc_cpu0_sel:
  "work_t = RUNNING_THREAD proc_cpu0" "tcb_pg_dir (tcbs proc_cpu0 work_t) \<noteq> NULL"
  "sem_val proc_cpu0 (mtx_sem user_phy_pool_mtx) = 1" "list_empty (waiters (mtx_sem user_phy_pool_mtx)) proc_cpu0"
  "upool0 = tcb_user_vaddr_pool (tcbs proc_cpu0 work_t)"
  "selfmap (phys proc_cpu0) (cr3 proc_cpu0)" "mappable (phys proc_cpu0) (cr3 proc_cpu0) 0xbffff000"
  "tcb_stack_top (tcbs proc_cpu0 work_t) = work_t + PG_SIZE - 112" "cpl (regs proc_cpu0) = 0"
  "tcb_stack_magic (tcbs proc_cpu0 work_t) = STACK_MAGIC" "tcb_ticks (tcbs proc_cpu0 work_t) \<noteq> 0"
  "\<not> need_schedule proc_cpu0" "idt_table proc_cpu0 ! 0x20 = Intr_timer_handler"
  "selector (idt proc_cpu0 ! 0x20) = SELECTOR_K_CODE"
  "mem proc_cpu0 = mem proc0" "user_phy_pool proc_cpu0 = frames0"
  using proc0_sel proc0_maps
  by (simp_all add: proc_cpu0_def cpu_of_sel list_empty_def regs0_def cpl_def gates0_def IDT_DESC_CNT_def
      gate_make_fields need_schedule_def) (simp add: proc0_def sched0_def)


text \<open>
  A race in \<open>process_entry\<close>: \<open>kernel_thread_entry\<close> enables interrupts before
  \<open>process_entry\<close> reads the thread's saved stack pointer. After a clock interrupt in between,
  inside the thread's slice, the registers are as before but the saved stack pointer is that of the interrupt,
  and the frame that \<open>process_entry\<close> fills is not the topmost of the stack: it begins 32 bytes
  below the stack pointer of the interrupted code and so overwrites 44 bytes that are in use.
\<close>

theorem process_entry_race:
  fixes s :: "'a cpu_scheme"
  assumes "r = RUNNING_THREAD s" and "tcb_pg_dir (tcbs s r) \<noteq> NULL"
    and "mtx = user_phy_pool_mtx" and "sem_val s (mtx_sem mtx) = 1" and "list_empty (waiters (mtx_sem mtx)) s"
    and "vp = tcb_user_vaddr_pool (tcbs s r)"
    and "paddr_get (user_phy_pool s) (bitmap_set (btmp vp) ((0xbffff000 - addr_base vp) div PG_SIZE) (mem s)) = (pa, m)"
    and "pa \<noteq> NULL" and "aligned pa"
    and "selfmap (phys s) (cr3 s)" and "mappable (phys s) (cr3 s) 0xbffff000"
    and "cpl (regs s) = 0" and "tcb_stack_magic (tcbs s r) = STACK_MAGIC"
    and "tcb_ticks (tcbs s r) \<noteq> 0" and "\<not> need_schedule s"
    and "idt_table s ! 0x20 = Intr_timer_handler" and "selector (idt s ! 0x20) = SELECTOR_K_CODE"
  shows "\<exists>s1 s2. intr_path 0x20 None cr2 at_null s = Inr s1 \<and> regs s1 = regs s
    \<and> process_entry func s1 = Inr (r_esp (regs s) - 32, s2)
    \<and> user_frame func (intr_stacks s2 (r_esp (regs s) - 32))
    \<and> r_esp (regs s) - (r_esp (regs s) - 32) < sizeof_intr_stack"
proof -
  define fp where "fp = kernel_sp s - 68"
  obtain s1 d e where s1: "only_cpu s s1" "frame_at (stack s1) fp (intr_frame d e s)"
    "r_cs (regs s1) = 8" "r_ss (regs s1) = r_ss (regs s)"
    "intr_path 0x20 None cr2 at_null s = and_then (clock_interrupt fp s1) (\<lambda>s. Inr (context_load (RUNNING_THREAD s) s))"
    by (rule clock_path [OF assms(13) [unfolded assms(1)] assms(16) fp_def])
      (use assms(12,17) in \<open>auto simp: SELECTOR_K_CODE_def\<close>)
  note f = only_cpu_frame [OF s1(1)]
  have mg: "tcb_stack_magic (tcbs s1 r) = STACK_MAGIC" "r = RUNNING_THREAD s1"
    "tcb_ticks (tcbs s1 r) \<noteq> 0" "\<not> need_schedule s1"
    using assms(1,13,14,15) f by (simp_all add: need_schedule_def)
  obtain w where w: "clock_interrupt fp s1 = Inr w" "RUNNING_THREAD w = r" "mem w = mem s1" "phys w = phys s1"
    "cr3 w = cr3 s1" "sem_val w = sem_val s1" "nodes w = nodes s1" "user_phy_pool w = user_phy_pool s1"
    "tcb_pg_dir (tcbs w r) = tcb_pg_dir (tcbs s1 r)"
    "tcb_user_vaddr_pool (tcbs w r) = tcb_user_vaddr_pool (tcbs s1 r)"
    by (rule clock_interrupt_tick [OF mg])
  have c: "regs w = regs s1" "stack w = stack s1" "tcb_stack_top (tcbs w r) = fp"
    using clock_interrupt_cpu [OF w(1)] mg by simp_all
  define s' where "s' = context_load r w"
  have "context_saved r s w" using c s1(2) by (intro context_savedI [OF _ _ fp_def]) simp_all
  then have rg: "regs s' = regs s"
    unfolding context_saved_def s'_def using c s1(3,4) by (simp add: same_words_refl cpl_def)
  note g = only_cpu_frame [OF context_load_only [of w r], folded s'_def]
  have k: "r_esp (regs s) - 32 = tcb_stack_top (tcbs s' r) + 36"
    using g(1) c(3) assms(12) by (simp add: fp_def kernel_sp_def)
  obtain s2 where "process_entry func s' = Inr (r_esp (regs s) - 32, s2)"
    "user_frame func (intr_stacks s2 (r_esp (regs s) - 32))"
    by (rule process_entry_at [OF _ _ assms(3) _ _ _ _ assms(8,9) _ _ k, of vp m])
      (use assms(1,2,4-7,10,11) f g w in \<open>simp_all add: list_empty_def\<close>)
  moreover have "intr_path 0x20 None cr2 at_null s = Inr s'" using s1(5) w(1,2) by (simp add: s'_def)
  ultimately show ?thesis using rg by (auto simp: sizeof_intr_stack_def)
qed

theorem process_entry_race_witness:
  "tcb_pg_dir (tcbs proc_cpu0 work_t) \<noteq> NULL \<and> r_esp (regs proc_cpu0) = 0xc009fd00
    \<and> (\<exists>s1 s2. intr_path 0x20 None 0 [] proc_cpu0 = Inr s1 \<and> process_entry 0xc0001637 s1 = Inr (0xc009fce0, s2))"
proof -
  obtain m where pa: "paddr_get (user_phy_pool proc_cpu0)
      (bitmap_set (btmp upool0) ((0xbffff000 - addr_base upool0) div PG_SIZE) (mem proc_cpu0)) = (0x200000, m)"
    using proc0_frame by (auto simp: proc_cpu0_sel)
  have a: "(0x200000 :: u32) \<noteq> NULL" "aligned 0x200000" by (simp_all add: aligned_def)
  have e: "r_esp (regs proc_cpu0) = 0xc009fd00" by (simp add: proc_cpu0_def cpu_of_sel regs0_def)
  note h = process_entry_race [OF proc_cpu0_sel(1,2) refl proc_cpu0_sel(3-5) pa a
      proc_cpu0_sel(6,7,9-14), of 0 "[]" "0xc0001637"]
  show ?thesis using h proc_cpu0_sel(2) unfolding e by auto
qed

end
