(* ===== verification/Heap.thy ===== *)
theory Heap
  imports Process_Inv
begin

text \<open>
  The kernel's heap over many allocations. Nothing is ever given back, so after \<open>j\<close> pages the first
  \<open>j\<close> bits of the map are set and the others are clear; the page tables of the heap are not
  among the frames handed out. \<open>heap_shape\<close> states this, every allocation keeps it, and with it
  \<open>thread_run\<close>, \<open>process_run\<close> and the start of the kernel can be composed.
\<close>

section \<open>The shape of the heap\<close>

text \<open>Every heap page has a table, which is neither the directory nor a frame of the pool, and pages
  have slots of their own.\<close>

definition tables_ok :: "pool \<Rightarrow> pool \<Rightarrow> u32 \<Rightarrow> (u32 \<Rightarrow> u32) \<Rightarrow> bool" where
  "tables_ok vp fp dir ph \<longleftrightarrow>
     selfmap ph dir \<and> frame_of dir \<notin> pages fp
     \<and> (\<forall>x\<in>pages vp. ph (pde_slot dir x) AND 1 \<noteq> 0 \<and> frame_of (ph (pde_slot dir x)) \<noteq> frame_of dir
          \<and> frame_of (ph (pde_slot dir x)) \<notin> pages fp)
     \<and> inj_on (pte_slot ph dir) (pages vp)"

definition heap_shape :: "nat \<Rightarrow> 'a kstate_scheme \<Rightarrow> bool" where
  "heap_shape j s \<longleftrightarrow>
     (let vp = kernel_vir_pool s; fp = kernel_phy_pool s
      in wf_pool vp \<and> wf_pool fp \<and> maps_apart (btmp vp) (btmp fp) \<and> bit_num (btmp fp) = bit_num (btmp vp)
        \<and> (\<forall>i<bit_num (btmp vp). bitmap_get (btmp vp) i (mem s) = (if unat i < j then 1 else 0))
        \<and> card (taken fp (mem s)) \<le> j
        \<and> tables_ok vp fp (cr3 s) (phys s)
        \<and> (\<forall>x\<in>pages vp - taken vp (mem s). phys s (pte_slot (phys s) (cr3 s) x) AND 1 = 0)
        \<and> (\<forall>a. in_map (btmp vp) a \<or> in_map (btmp fp) a \<longrightarrow> frame_of a \<notin> pages vp))"

lemma heap_shapeD:
  assumes "heap_shape j s" and "vp = kernel_vir_pool s" and "fp = kernel_phy_pool s"
  shows "wf_pool vp" "wf_pool fp" "maps_apart (btmp vp) (btmp fp)" "bit_num (btmp fp) = bit_num (btmp vp)"
    "i < bit_num (btmp vp) \<Longrightarrow> bitmap_get (btmp vp) i (mem s) = (if unat i < j then 1 else 0)"
    "card (taken fp (mem s)) \<le> j" "tables_ok vp fp (cr3 s) (phys s)"
    "x \<in> pages vp - taken vp (mem s) \<Longrightarrow> phys s (pte_slot (phys s) (cr3 s) x) AND 1 = 0"
    "in_map (btmp vp) a \<or> in_map (btmp fp) a \<Longrightarrow> frame_of a \<notin> pages vp"
  using assms by (auto simp: heap_shape_def Let_def)

text \<open>The run-queue mask is on a page of the heap that is in use.\<close>

definition mask_shape :: "'a kstate_scheme \<Rightarrow> bool" where
  "mask_shape s \<longleftrightarrow> wf_bitmap (RQ_MASK_BITMAP s)
     \<and> (\<forall>a. in_map (RQ_MASK_BITMAP s) a \<longrightarrow> frame_of a \<in> taken (kernel_vir_pool s) (mem s))"

section \<open>The next run of pages\<close>

lemma scan_prefix:
  assumes bits: "\<And>i. i < bit_num b \<Longrightarrow> bitmap_get b i m = (if unat i < j then 1 else 0)"
    and n: "0 < n" and room: "j + unat n \<le> unat (bit_num b)"
  shows "bitmap_scan b 0 n m = of_nat j" and "bitmap_scan b 0 n m \<noteq> minus1" and "unat (of_nat j :: u32) = j"
proof -
  have nn: "0 < unat n" using n by (simp add: word_less_nat_alt)
  have jb: "j < 2 ^ 32" using room unat_lt_2p32 [of "bit_num b"] nn by simp
  then show uj: "unat (of_nat j :: u32) = j" by (simp add: unat_of_nat)
  have idx: "unat (of_nat i :: u32) = i \<and> (of_nat i :: u32) < bit_num b" if "i < unat (bit_num b)" for i
    using that unat_lt_2p32 [of "bit_num b"] by (simp add: unat_of_nat word_less_nat_alt)
  let ?p = "\<lambda>i. bitmap_get b i m = 0" and ?r = "bitmap_scan b 0 n m"
  have run: "run_of ?p j (unat n)"
    using bits room by (auto simp: run_of_def word_less_nat_alt)
  have none: "\<not> run_of ?p l (unat n)" if "l < j" for l
  proof -
    have "unat (of_nat l :: u32) = l" "bitmap_get b (of_nat l) m = 1"
      using bits idx [of l] that room nn by simp_all
    then show ?thesis using nn unfolding run_of_def by (metis le_add1 less_add_same_cancel1 order_refl zero_neq_one)
  qed
  note f = bitmap_scan_first_run [OF n, of b m 0]
  show r: "?r \<noteq> minus1" using f run room by (auto simp: first_run_def)
  then have "run_of ?p (unat ?r) (unat n)" "\<forall>l<unat ?r. \<not> run_of ?p l (unat n)"
    using f by (auto simp: first_run_def)
  then have "unat ?r = j" using none run by (metis linorder_neqE_nat)
  then show "?r = of_nat j" using uj by (metis unat_eq_iff)
qed

lemma card_pages:
  assumes "wf_pool p" shows "card (pages p) = unat (bit_num (btmp p))"
proof -
  have "inj_on (page_at p) {i. i < bit_num (btmp p)}" using page_at_inj [OF assms] by (auto simp: inj_on_def)
  moreover have "{i. i < bit_num (btmp p)} = {..<bit_num (btmp p)}" by auto
  moreover have "card {..<w} = unat w" for w :: u32
  proof -
    have "{..<w} = of_nat ` {..<unat w}"
    proof (auto simp: word_less_nat_alt)
      fix x assume "unat x < unat w"
      then have "x = of_nat (unat x)" "unat x \<in> {..<unat w}" by simp_all
      then show "x \<in> of_nat ` {..<unat w}" by blast
    qed (use unat_lt_2p32 [of w] in \<open>simp add: unat_of_nat\<close>)
    moreover have "inj_on (of_nat :: nat \<Rightarrow> u32) {..<unat w}"
      using unat_lt_2p32 [of w] by (auto simp: inj_on_def of_nat_inj_u32)
    ultimately show ?thesis by (simp add: card_image)
  qed
  ultimately show ?thesis by (simp add: pages_def card_image)
qed

lemma heap_taken:
  assumes "heap_shape j s" and "vp = kernel_vir_pool s"
  shows "taken vp (mem s) = page_at vp ` {i. i < bit_num (btmp vp) \<and> unat i < j}"
proof -
  have "{i. i < bit_num (btmp vp) \<and> bitmap_get (btmp vp) i (mem s) = 1} =
      {i. i < bit_num (btmp vp) \<and> unat i < j}"
    using heap_shapeD(5) [OF assms refl] by (auto split: if_splits)
  then show ?thesis by (simp add: taken_def)
qed

lemma tables_mappable:
  assumes "tables_ok vp fp dir ph" and "x \<in> pages vp" and "ph (pte_slot ph dir x) AND 1 = 0"
  shows "mappable ph dir x"
  using assms by (simp add: tables_ok_def mappable_def)

lemma heap_unmapped:
  assumes h: "heap_shape j s" and n: "n < 3840"
  shows "free_unmapped PF_KERNEL n s"
  unfolding free_unmapped_def
proof (intro allI impI)
  let ?vp = "kernel_vir_pool s"
  fix v assume "run_pages v n \<subseteq> pages (vir_pool PF_KERNEL s) - taken (vir_pool PF_KERNEL s) (mem s)"
  then have sub: "run_pages v n \<subseteq> pages ?vp - taken ?vp (mem s)" by (simp add: vir_pool_def)
  note d = heap_shapeD [OF h refl refl]
  have pg: "nth_page v i \<in> pages ?vp - taken ?vp (mem s)" if "i < unat n" for i
    using nth_page_run [OF that] sub by blast
  have "mappable (phys s) (cr3 s) (nth_page v i)" if "i < unat n" for i
    using tables_mappable [OF d(7)] pg [OF that] d(8) by blast
  moreover have "i = k" if "i < unat n" "k < unat n"
    "pte_slot (phys s) (cr3 s) (nth_page v i) = pte_slot (phys s) (cr3 s) (nth_page v k)" for i k
  proof -
    have "nth_page v i = nth_page v k"
      using d(7) pg [OF that(1)] pg [OF that(2)] that(3) by (auto simp: tables_ok_def inj_on_def)
    then have e: "(of_nat i :: u32) * PG_SIZE = of_nat k * PG_SIZE" by (simp add: nth_page_def)
    have "i < 3840" "k < 3840" using that(1,2) n by (simp_all add: word_less_nat_alt)
    then have "unat ((of_nat i :: u32) * PG_SIZE) = i * 4096" "unat ((of_nat k :: u32) * PG_SIZE) = k * 4096"
      by (simp_all add: unat_word_ariths unat_of_nat PG_SIZE_def)
    then have "i * 4096 = k * 4096" using e by metis
    then show ?thesis by simp
  qed
  ultimately show "range_ok (phys s) (cr3 s) v (unat n)" unfolding range_ok_def by blast
qed

section \<open>Allocation keeps the shape\<close>

text \<open>The directory is untouched, so the tables stay where they are.\<close>

lemma tables_ok_cong:
  assumes t: "tables_ok vp fp dir ph" and e: "\<forall>y. ph' (pde_slot dir y) = ph (pde_slot dir y)"
  shows "tables_ok vp fp dir ph'" and "pte_slot ph' dir y = pte_slot ph dir y"
proof -
  have s: "pte_slot ph' dir y = pte_slot ph dir y" for y using e by (simp add: pte_slot_def)
  then show "pte_slot ph' dir y = pte_slot ph dir y" .
  have "pte_slot ph' dir = pte_slot ph dir" using s by blast
  moreover have "pde_slot dir 0xffc00000 = frame_of dir + 1023 * 4" by (simp add: pde_slot_def PDE_IDX_def)
  then have "ph' (frame_of dir + 1023 * 4) = ph (frame_of dir + 1023 * 4)" using e by metis
  ultimately show "tables_ok vp fp dir ph'" using t e by (simp add: tables_ok_def selfmap_def)
qed

lemma heap_bits_after:
  assumes wf: "wf_pool p" and old: "\<And>i. i < bit_num (btmp p) \<Longrightarrow> bitmap_get (btmp p) i m = (if unat i < j then 1 else 0)"
    and tk: "taken p m' = taken p m \<union> run_pages x n" and x: "x = page_at p (of_nat j)"
    and room: "j + unat n \<le> unat (bit_num (btmp p))" and n: "0 < n"
  shows "\<forall>i<bit_num (btmp p). bitmap_get (btmp p) i m' = (if unat i < j + unat n then 1 else 0)"
proof (intro allI impI)
  fix i assume i: "i < bit_num (btmp p)"
  have uj: "unat (of_nat j :: u32) = j"
    using room n unat_lt_2p32 [of "bit_num (btmp p)"] by (simp add: unat_of_nat)
  note idx = run_idx [of "of_nat j" n "btmp p", unfolded uj, OF room]
  have "run_pages x n = page_at p ` {k. \<exists>l<n. k = of_nat j + l}"
  proof -
    have "{k. \<exists>l<n. k = of_nat j + l} = (\<lambda>l. of_nat j + l) ` {l. l < n}" by auto
    moreover have "x + l * PG_SIZE = page_at p (of_nat j + l)" for l by (simp add: x page_at_def algebra_simps)
    ultimately show ?thesis by (simp only: run_pages_def image_image)
  qed
  then have "page_at p i \<in> run_pages x n \<longleftrightarrow> (\<exists>l<n. i = of_nat j + l)"
    using page_at_inj [OF wf i] idx(1) by auto
  also have "\<dots> \<longleftrightarrow> j \<le> unat i \<and> unat i < j + unat n"
  proof
    assume "\<exists>l<n. i = of_nat j + l"
    then show "j \<le> unat i \<and> unat i < j + unat n" using idx(2) by (auto simp: word_less_nat_alt)
  next
    assume a: "j \<le> unat i \<and> unat i < j + unat n"
    then have "unat (i - of_nat j) = unat i - j" using uj by (simp add: unat_sub word_le_nat_alt)
    with a show "\<exists>l<n. i = of_nat j + l"
      by (intro exI [of _ "i - of_nat j"]) (simp add: word_less_nat_alt less_diff_conv2)
  qed
  finally have "page_at p i \<in> taken p m' \<longleftrightarrow> unat i < j + unat n"
    using tk old [OF i] taken_iff [OF wf i, of m] by (auto split: if_splits)
  then show "bitmap_get (btmp p) i m' = (if unat i < j + unat n then 1 else 0)"
    using taken_iff [OF wf i, of m'] bitmap_get_01 [of "btmp p" i m'] by auto
qed

text \<open>What is in use stays in use: pages, frames with their contents, the directory, translations.\<close>

definition heap_grows :: "'a kstate_scheme \<Rightarrow> 'a kstate_scheme \<Rightarrow> bool" where
  "heap_grows s s' \<longleftrightarrow>
     kernel_vir_pool s' = kernel_vir_pool s \<and> kernel_phy_pool s' = kernel_phy_pool s \<and> cr3 s' = cr3 s
     \<and> taken (kernel_vir_pool s) (mem s) \<subseteq> taken (kernel_vir_pool s) (mem s')
     \<and> taken (kernel_phy_pool s) (mem s) \<subseteq> taken (kernel_phy_pool s) (mem s')
     \<and> (\<forall>a. frame_of a \<in> taken (kernel_phy_pool s) (mem s) \<longrightarrow> phys s' a = phys s a)
     \<and> (\<forall>y. phys s' (pde_slot (cr3 s) y) = phys s (pde_slot (cr3 s) y))
     \<and> (\<forall>x\<in>taken (kernel_vir_pool s) (mem s). walk (phys s') (cr3 s) x = walk (phys s) (cr3 s) x)"

lemma heap_growsD:
  assumes "heap_grows s s'"
  shows "kernel_vir_pool s' = kernel_vir_pool s" "kernel_phy_pool s' = kernel_phy_pool s" "cr3 s' = cr3 s"
    "taken (kernel_vir_pool s) (mem s) \<subseteq> taken (kernel_vir_pool s) (mem s')"
    "taken (kernel_phy_pool s) (mem s) \<subseteq> taken (kernel_phy_pool s) (mem s')"
    "frame_of a \<in> taken (kernel_phy_pool s) (mem s) \<Longrightarrow> phys s' a = phys s a"
    "phys s' (pde_slot (cr3 s) y) = phys s (pde_slot (cr3 s) y)"
    "x \<in> taken (kernel_vir_pool s) (mem s) \<Longrightarrow> walk (phys s') (cr3 s) x = walk (phys s) (cr3 s) x"
  using assms by (simp_all add: heap_grows_def)

lemma heap_grows_trans:
  assumes "heap_grows s t" and "heap_grows t u"
  shows "heap_grows s u"
proof -
  note a = heap_growsD [OF assms(1)] and b = heap_growsD [OF assms(2), unfolded a(1-3)]
  have "phys u x = phys s x" if "frame_of x \<in> taken (kernel_phy_pool s) (mem s)" for x
    using a(5) a(6) [OF that] b(6) [of x] that by auto
  moreover have "walk (phys u) (cr3 s) x = walk (phys s) (cr3 s) x" if "x \<in> taken (kernel_vir_pool s) (mem s)" for x
    using a(4) a(8) [OF that] b(8) [of x] that by auto
  ultimately show ?thesis
    unfolding heap_grows_def b(1-3) using a(4,5,7) b(4,5,7) by auto
qed

lemma heap_grows_cong:
  assumes "heap_grows s t"
    and "kernel_vir_pool t' = kernel_vir_pool t" "kernel_phy_pool t' = kernel_phy_pool t" "cr3 t' = cr3 t"
      "mem t' = mem t" "phys t' = phys t"
  shows "heap_grows s t'"
  using assms by (simp add: heap_grows_def)

lemma heap_malloc:
  fixes s :: "'a kstate_scheme"
  assumes h: "heap_shape j s" and n: "0 < n" "n < 3840"
    and vp: "vp = kernel_vir_pool s" and fp: "fp = kernel_phy_pool s"
    and room: "j + unat n \<le> unat (bit_num (btmp vp))"
  obtains v m ph f where "kernel_pages_malloc n s = Inr (v, s\<lparr>mem := m, phys := ph\<rparr>)"
    and "v = page_at vp (of_nat j)" and "v \<noteq> NULL" and "aligned v"
    and "heap_shape (j + unat n) (s\<lparr>mem := m, phys := ph\<rparr>)"
    and "run_pages v n \<subseteq> pages vp - taken vp (mem s)" and "taken vp m = taken vp (mem s) \<union> run_pages v n"
    and "\<forall>a. \<not> in_map (btmp vp) a \<longrightarrow> \<not> in_map (btmp fp) a \<longrightarrow> m a = mem s a"
    and "walk ph (cr3 s) v = Some f" and "f \<in> pages fp - taken fp (mem s)"
    and "\<forall>y. ph (pde_slot (cr3 s) y) = phys s (pde_slot (cr3 s) y)"
    and "heap_grows s (s\<lparr>mem := m, phys := ph\<rparr>)" and "f \<in> taken fp m"
proof -
  note d = heap_shapeD [OF h vp fp]
  note sc = scan_prefix [OF d(5) n(1) room]
  have v: "vir_pool PF_KERNEL s = vp" "phy_pool PF_KERNEL s = fp"
    by (simp_all add: vir_pool_def phy_pool_def vp fp)
  have un: "0 < unat n" using n(1) by (simp add: word_less_nat_alt)
  obtain x pas m ph where p: "malloc_page PF_KERNEL n s = Inr (x, s\<lparr>mem := m, phys := ph\<rparr>)" "x \<noteq> NULL"
    "run_pages x n \<subseteq> pages vp - taken vp (mem s)" "taken vp m = taken vp (mem s) \<union> run_pages x n"
    "length pas = unat n" "distinct pas" "set pas \<subseteq> pages fp - taken fp (mem s)" "taken fp m = taken fp (mem s) \<union> set pas"
    "\<forall>i<unat n. walk ph (cr3 s) (nth_page x i) = Some (pas ! i)"
    "\<forall>y. (\<forall>i<unat n. pte_slot (phys s) (cr3 s) y \<noteq> pte_slot (phys s) (cr3 s) (nth_page x i)) \<longrightarrow>
      walk ph (cr3 s) y = walk (phys s) (cr3 s) y"
    "\<forall>a. \<not> in_map (btmp vp) a \<longrightarrow> \<not> in_map (btmp fp) a \<longrightarrow> m a = mem s a"
    "selfmap ph (cr3 s)" "\<forall>y. ph (pde_slot (cr3 s) y) = phys s (pde_slot (cr3 s) y)"
    "x = page_at vp (bitmap_scan (btmp vp) 0 n (mem s))"
    "\<forall>a. (\<forall>i<unat n. a \<noteq> pte_slot (phys s) (cr3 s) (nth_page x i)) \<longrightarrow> ph a = phys s a"
  proof (rule malloc_page_ok [of s PF_KERNEL n, unfolded v, OF _ d(1-3) n sc(2) _ heap_unmapped [OF h n(2)]])
    show "selfmap (phys s) (cr3 s)" using d(7) by (simp add: tables_ok_def)
    show "card (taken fp (mem s)) + unat n \<le> card (pages fp)"
      using d(4,6) card_pages [OF d(2)] room by simp
  qed
  let ?s' = "s\<lparr>mem := m, phys := ph\<rparr>"
  have x: "x = page_at vp (of_nat j)" using p(14) sc(1) by simp
  have "finite (pages fp)" by (simp add: pages_def)
  then have "finite (taken fp (mem s))" using taken_subset finite_subset by blast
  then have cd: "card (taken fp m) \<le> j + unat n"
    using p(5,6,8) d(6) card_Un_le [of "taken fp (mem s)" "set pas"] distinct_card [of pas] by simp
  note tc = tables_ok_cong [OF d(7) p(13)]
  have keep: "walk ph (cr3 s) y = walk (phys s) (cr3 s) y" if y: "y \<in> pages vp" "y \<notin> run_pages x n" for y
  proof -
    have "pte_slot (phys s) (cr3 s) y \<noteq> pte_slot (phys s) (cr3 s) (nth_page x i)" if "i < unat n" for i
    proof
      assume "pte_slot (phys s) (cr3 s) y = pte_slot (phys s) (cr3 s) (nth_page x i)"
      moreover have "nth_page x i \<in> run_pages x n" by (rule nth_page_run [OF that])
      ultimately show False using d(7) y p(3) by (auto simp: tables_ok_def inj_on_def)
    qed
    then show ?thesis using p(10) by blast
  qed
  have "ph a = phys s a" if a: "frame_of a \<in> pages fp" for a
  proof -
    have "a \<noteq> pte_slot (phys s) (cr3 s) (nth_page x i)" if "i < unat n" for i
    proof -
      have "nth_page x i \<in> pages vp" using nth_page_run [OF that, of x] p(3) by blast
      then show ?thesis
        using d(7) a pte_slot_frame [of "phys s" "cr3 s" "nth_page x i"] by (auto simp: tables_ok_def)
    qed
    then show ?thesis using p(15) by blast
  qed
  moreover have "taken fp (mem s) \<subseteq> pages fp" "taken vp (mem s) \<subseteq> pages vp" by (rule taken_subset)+
  ultimately have "\<forall>a. frame_of a \<in> taken fp (mem s) \<longrightarrow> ph a = phys s a"
    "\<forall>y\<in>taken vp (mem s). walk ph (cr3 s) y = walk (phys s) (cr3 s) y"
    using keep p(3) by blast+
  then have grows: "heap_grows s ?s'"
    using p(4,8,13) by (simp add: heap_grows_def vp [symmetric] fp [symmetric])
  have ab: "ph (pte_slot ph (cr3 s) y) AND 1 = 0" if y: "y \<in> pages vp - taken vp m" for y
  proof -
    have y': "y \<in> pages vp - taken vp (mem s)" "y \<notin> run_pages x n" using y p(4) by auto
    then have "walk ph (cr3 s) y = walk (phys s) (cr3 s) y" using keep by blast
    moreover have "walk (phys s) (cr3 s) y = None" using d(8) [OF y'(1)] by (simp add: walk_slots)
    moreover have "ph (pde_slot (cr3 s) y) AND 1 \<noteq> 0" using tc(1) y by (simp add: tables_ok_def)
    ultimately show ?thesis by (auto simp: walk_slots split: if_splits)
  qed
  have "heap_shape (j + unat n) ?s'"
    unfolding heap_shape_def Let_def
    using d(1-4,9) heap_bits_after [OF d(1) d(5) p(4) x room n(1)] cd tc(1) ab
    by (simp add: vp [symmetric] fp [symmetric])
  moreover have "walk ph (cr3 s) x = Some (pas ! 0)" using p(9) [rule_format, OF un] by (simp add: nth_page_def)
  moreover have "pas ! 0 \<in> set pas" using p(5) un by simp
  then have "pas ! 0 \<in> pages fp - taken fp (mem s)" "pas ! 0 \<in> taken fp m" using p(7,8) by blast+
  moreover have "aligned x"
    using p(3) nth_page_run [OF un, of x] pages_aligned [OF d(1)] by (auto simp: nth_page_def)
  moreover have "kernel_pages_malloc n s = Inr (x, ?s')" using p(1) by (simp add: kernel_pages_malloc_def)
  ultimately show thesis using x p(2,3,4,11,13) grows by (intro that [of x ph m "pas ! 0"]) auto
qed

section \<open>Other writes keep the shape\<close>

text \<open>Bytes outside the two maps.\<close>

lemma heap_shape_mem:
  assumes h: "heap_shape j s"
    and m: "\<And>a. in_map (btmp (kernel_vir_pool s)) a \<or> in_map (btmp (kernel_phy_pool s)) a \<Longrightarrow> m a = mem s a"
  shows "heap_shape j (s\<lparr>mem := m\<rparr>)" and "taken (kernel_vir_pool s) m = taken (kernel_vir_pool s) (mem s)"
proof -
  let ?vp = "kernel_vir_pool s" and ?fp = "kernel_phy_pool s"
  note d = heap_shapeD [OF h refl refl]
  show t: "taken ?vp m = taken ?vp (mem s)" using m by (intro taken_cong [OF d(1)]) simp
  have t': "taken ?fp m = taken ?fp (mem s)" using m by (intro taken_cong [OF d(2)]) simp
  have b: "bitmap_get (btmp ?vp) i m = bitmap_get (btmp ?vp) i (mem s)" if "i < bit_num (btmp ?vp)" for i
    using d(1) that m by (intro bitmap_get_cong) (simp_all add: wf_pool_def)
  show "heap_shape j (s\<lparr>mem := m\<rparr>)"
    using h b by (simp add: heap_shape_def Let_def t t')
qed

text \<open>Double words of frames that the heap's tables are not in.\<close>

lemma heap_shape_phys:
  assumes h: "heap_shape j s" and f: "f \<in> pages (kernel_phy_pool s)"
    and p: "\<And>a. frame_of a \<noteq> f \<Longrightarrow> ph a = phys s a"
  shows "heap_shape j (s\<lparr>phys := ph\<rparr>)"
proof -
  let ?vp = "kernel_vir_pool s"
  note d = heap_shapeD [OF h refl refl]
  have "frame_of (cr3 s) \<noteq> f" using d(7) f by (auto simp: tables_ok_def)
  then have e: "\<forall>y. ph (pde_slot (cr3 s) y) = phys s (pde_slot (cr3 s) y)"
    using p pde_slot_frame by auto
  note tc = tables_ok_cong [OF d(7) e]
  have "ph (pte_slot ph (cr3 s) x) AND 1 = 0" if x: "x \<in> pages ?vp - taken ?vp (mem s)" for x
  proof -
    have "frame_of (pte_slot (phys s) (cr3 s) x) \<noteq> f"
      using d(7) x f pte_slot_frame [of "phys s" "cr3 s" x] by (auto simp: tables_ok_def)
    then show ?thesis using d(8) [OF x] p tc(2) by simp
  qed
  then show ?thesis using h tc(1) by (simp add: heap_shape_def Let_def)
qed

text \<open>Operations that leave the heap alone but for the run-queue mask.\<close>

lemma same_heap_shape:
  assumes h: "heap_shape j s" and m: "mask_shape s" and sm: "same_heap s s'"
  shows "heap_shape j s'" and "mask_shape s'" and "taken (kernel_vir_pool s') (mem s') = taken (kernel_vir_pool s) (mem s)"
proof -
  let ?vp = "kernel_vir_pool s" and ?fp = "kernel_phy_pool s"
  note d = heap_shapeD [OF h refl refl]
  have e: "mem s' a = mem s a" if "in_map (btmp ?vp) a \<or> in_map (btmp ?fp) a" for a
  proof -
    have "frame_of a \<notin> taken ?vp (mem s)" using d(9) [OF that] taken_subset by auto
    then show ?thesis using sm m by (auto simp: same_heap_def mask_shape_def)
  qed
  note hs = heap_shape_mem [OF h e]
  have f: "kernel_vir_pool s' = ?vp" "kernel_phy_pool s' = ?fp" "phys s' = phys s" "cr3 s' = cr3 s"
    "RQ_MASK_BITMAP s' = RQ_MASK_BITMAP s" using sm by (simp_all add: same_heap_def)
  show "heap_shape j s'" using hs(1) by (simp add: heap_shape_def f)
  show "taken (kernel_vir_pool s') (mem s') = taken ?vp (mem s)" using hs(2) by (simp add: f)
  then show "mask_shape s'" using m f by (simp add: mask_shape_def)
qed

lemma same_heap_grows:
  assumes h: "heap_shape j s" and m: "mask_shape s" and sm: "same_heap s s'"
  shows "heap_grows s s'"
proof -
  let ?vp = "kernel_vir_pool s" and ?fp = "kernel_phy_pool s"
  note d = heap_shapeD [OF h refl refl]
  have "mem s' a = mem s a" if "in_map (btmp ?fp) a" for a
  proof -
    have "frame_of a \<notin> taken ?vp (mem s)" using d(9) that taken_subset by blast
    then show ?thesis using sm m by (auto simp: same_heap_def mask_shape_def)
  qed
  then have "taken ?fp (mem s') = taken ?fp (mem s)" by (intro taken_cong [OF d(2)])
  then show ?thesis using same_heap_shape(3) [OF h m sm] sm by (simp add: heap_grows_def same_heap_def)
qed

text \<open>Bytes outside the maps, and a frame that is not in use.\<close>

lemma heap_grows_mem:
  assumes h: "heap_shape j s"
    and m: "\<And>a. in_map (btmp (kernel_vir_pool s)) a \<or> in_map (btmp (kernel_phy_pool s)) a \<Longrightarrow> m a = mem s a"
  shows "heap_grows s (s\<lparr>mem := m\<rparr>)"
proof -
  note d = heap_shapeD [OF h refl refl]
  have "taken (kernel_phy_pool s) m = taken (kernel_phy_pool s) (mem s)" using m by (intro taken_cong [OF d(2)]) simp
  then show ?thesis using heap_shape_mem(2) [OF h m] by (simp add: heap_grows_def)
qed

lemma heap_grows_phys:
  assumes h: "heap_shape j s" and f: "f \<in> pages (kernel_phy_pool s)" "u \<subseteq> taken (kernel_phy_pool s) (mem s)" "f \<notin> u"
    and p: "\<And>a. frame_of a \<noteq> f \<Longrightarrow> ph a = phys s a"
  shows "\<forall>a. frame_of a \<in> u \<longrightarrow> ph a = phys s a"
    and "\<forall>y. ph (pde_slot (cr3 s) y) = phys s (pde_slot (cr3 s) y)"
    and "x \<in> pages (kernel_vir_pool s) \<Longrightarrow> walk ph (cr3 s) x = walk (phys s) (cr3 s) x"
proof -
  note d = heap_shapeD [OF h refl refl]
  show "\<forall>a. frame_of a \<in> u \<longrightarrow> ph a = phys s a" by (intro allI impI p) (use f(3) in auto)
  have "frame_of (cr3 s) \<noteq> f" using d(7) f(1) by (auto simp: tables_ok_def)
  then show e: "\<forall>y. ph (pde_slot (cr3 s) y) = phys s (pde_slot (cr3 s) y)" using p pde_slot_frame by auto
  assume x: "x \<in> pages (kernel_vir_pool s)"
  have s: "pte_slot ph (cr3 s) x = pte_slot (phys s) (cr3 s) x" using e by (simp add: pte_slot_def)
  have "frame_of (pte_slot (phys s) (cr3 s) x) \<noteq> f"
    using d(7) x f(1) pte_slot_frame [of "phys s" "cr3 s" x] by (auto simp: tables_ok_def)
  then show "walk ph (cr3 s) x = walk (phys s) (cr3 s) x" using e s p by (simp add: walk_slots)
qed

text \<open>A bitmap on freshly allocated pages.\<close>

lemma bytes_in_run:
  assumes al: "aligned v" and "unat len \<le> unat n * 4096" and "unat n < 3840" and a: "a - v < len"
  shows "frame_of a \<in> run_pages v n"
proof -
  define q where "q = (a - v) div PG_SIZE"
  define r where "r = (a - v) mod PG_SIZE"
  have q: "unat q = unat (a - v) div 4096" and r: "unat r < 4096"
    by (simp_all add: q_def r_def unat_div unat_mod PG_SIZE_def)
  have "unat (a - v) < unat n * 4096" using a assms(2) by (simp add: word_less_nat_alt)
  then have qn: "unat q < unat n" by (simp add: q less_mult_imp_div_less)
  have av: "a = v + q * PG_SIZE + r"
    using div_mult_mod_eq [of "a - v" PG_SIZE] by (simp add: q_def r_def algebra_simps)
  have "unat (q * PG_SIZE) = unat q * 4096"
    using qn assms(3) by (simp add: unat_word_ariths PG_SIZE_def)
  moreover have "unat v mod 4096 = 0" using al unat_off [of v] by (simp add: aligned_def)
  moreover have "unat (v + y) mod 4096 = (unat v + unat y) mod 4096" for y
    by (simp add: unat_word_ariths mod_mod_cancel)
  ultimately have "unat ((v + q * PG_SIZE) AND 0xfff) = 0"
    unfolding unat_off by (metis add.commute mod_mult_self3 mult.commute)
  then have "aligned (v + q * PG_SIZE)" by (simp add: aligned_def unat_eq_0)
  from aligned_add(2) [OF this r] have "frame_of a = v + q * PG_SIZE" by (simp add: av)
  then show ?thesis using qn by (auto simp: run_pages_def word_less_nat_alt)
qed

end
