(* ===== verification/Process_Run.thy ===== *)
theory Process_Run
  imports Heap
begin

text \<open>
  Creating a process, \<^verbatim>\<open>process_run\<close> of \<^verbatim>\<open>src/user/process.c\<close>: a page for the control
  block, pages for the bitmap of the process's addresses, and a page directory, with the kernel's invariant
  and the shape of the heap kept. The same for \<^verbatim>\<open>thread_run\<close>.
\<close>

section \<open>The kernel with its heap\<close>

definition kheap :: "nat \<Rightarrow> 'a kstate_scheme \<Rightarrow> kview \<Rightarrow> bool" where
  "kheap j s v \<longleftrightarrow>
     kinv s v \<and> heap_shape j s \<and> mask_shape s
     \<and> (\<forall>t\<in>pages (kernel_vir_pool s) - taken (kernel_vir_pool s) (mem s). new_page t v)
     \<and> mtx_sem pid_mtx \<in> vs v \<and> vw v (mtx_sem pid_mtx) = [] \<and> sem_val s (mtx_sem pid_mtx) = 1
     \<and> sch_idle_thread (sched s) \<in> vt v"

lemma kheapD:
  assumes "kheap j s v"
  shows "kinv s v" "heap_shape j s" "mask_shape s"
    "t \<in> pages (kernel_vir_pool s) - taken (kernel_vir_pool s) (mem s) \<Longrightarrow> new_page t v"
    "mtx_sem pid_mtx \<in> vs v" "vw v (mtx_sem pid_mtx) = []" "sem_val s (mtx_sem pid_mtx) = 1"
    "sch_idle_thread (sched s) \<in> vt v"
  using assms by (auto simp: kheap_def)

definition heap_room :: "nat \<Rightarrow> 'a kstate_scheme \<Rightarrow> bool" where
  "heap_room n s \<longleftrightarrow> n \<le> unat (bit_num (btmp (kernel_vir_pool s)))"

text \<open>The mask keeps its bytes and its page over an allocation.\<close>

lemma mask_shape_malloc:
  assumes h: "heap_shape j s" and m: "mask_shape s" and s': "s' = s\<lparr>mem := m', phys := ph\<rparr>"
    and tk: "taken (kernel_vir_pool s) m' = taken (kernel_vir_pool s) (mem s) \<union> r"
    and out: "\<forall>a. \<not> in_map (btmp (kernel_vir_pool s)) a \<longrightarrow> \<not> in_map (btmp (kernel_phy_pool s)) a \<longrightarrow> m' a = mem s a"
  shows "mask_shape s'" and "in_map (RQ_MASK_BITMAP s) a \<Longrightarrow> m' a = mem s a"
proof -
  show "mask_shape s'" using m tk by (simp add: mask_shape_def s')
  assume "in_map (RQ_MASK_BITMAP s) a"
  then have "frame_of a \<in> pages (kernel_vir_pool s)" using m taken_subset by (auto simp: mask_shape_def)
  then show "m' a = mem s a" using heap_shapeD(9) [OF h refl refl, of a] out by blast
qed

section \<open>The address bitmap of a process\<close>

definition user_pages_num :: u32 where "user_pages_num = 753592"

definition user_map :: "addr \<Rightarrow> bitmap" where
  "user_map x = \<lparr>base_addr = x, bit_num = user_pages_num, byte_len = 94199\<rparr>"

definition clear_map :: "bitmap \<Rightarrow> (addr \<Rightarrow> u8) \<Rightarrow> bool" where
  "clear_map b m \<longleftrightarrow> wf_bitmap b \<and> (\<forall>i<bit_num b. bitmap_get b i m = 0)"

lemma clear_map_cong:
  "clear_map b m \<Longrightarrow> (\<And>a. in_map b a \<Longrightarrow> m' a = m a) \<Longrightarrow> clear_map b m'"
  using bitmap_get_cong [of b _ m' m] by (simp add: clear_map_def)

lemma user_bitmap_ok:
  fixes s :: "'a kstate_scheme"
  assumes h: "heap_shape j s" and m: "mask_shape s" and room: "heap_room (j + 23) s"
  obtains x mm ph where "user_vaddr_bitmap_create t s = Inr (s\<lparr>mem := mm, phys := ph,
      tcbs := (tcbs s)(t := (tcbs s t)\<lparr>tcb_user_vaddr_pool := (tcb_user_vaddr_pool (tcbs s t))
        \<lparr>addr_base := USER_VADDR_START, btmp := user_map x\<rparr>\<rparr>)\<rparr>)"
    and "heap_shape (j + 23) (s\<lparr>mem := mm, phys := ph\<rparr>)" and "mask_shape (s\<lparr>mem := mm, phys := ph\<rparr>)"
    and "\<forall>a. in_map (RQ_MASK_BITMAP s) a \<longrightarrow> mm a = mem s a"
    and "taken (kernel_vir_pool s) (mem s) \<subseteq> taken (kernel_vir_pool s) mm"
    and "clear_map (user_map x) mm" and "heap_grows s (s\<lparr>mem := mm, phys := ph\<rparr>)"
    and "\<forall>a. in_map (user_map x) a \<longrightarrow> frame_of a \<in> pages (kernel_vir_pool s) - taken (kernel_vir_pool s) (mem s)"
proof -
  let ?vp = "kernel_vir_pool s" and ?fp = "kernel_phy_pool s"
  define u where "u = upd_tcb t (\<lambda>c. c\<lparr>tcb_user_vaddr_pool := (tcb_user_vaddr_pool c)\<lparr>addr_base := USER_VADDR_START\<rparr>\<rparr>) s"
  have fu: "kernel_vir_pool u = ?vp" "kernel_phy_pool u = ?fp" "mem u = mem s" "phys u = phys s" "cr3 u = cr3 s"
    by (simp_all add: u_def upd_tcb_def)
  have hu: "heap_shape j u" using h by (simp add: heap_shape_def fu)
  have n: "(0 :: u32) < 23" "(23 :: u32) < 3840" "j + unat (23 :: u32) \<le> unat (bit_num (btmp ?vp))"
    using room by (simp_all add: heap_room_def)
  obtain x m1 ph where a: "kernel_pages_malloc 23 u = Inr (x, u\<lparr>mem := m1, phys := ph\<rparr>)" "x \<noteq> NULL" "aligned x"
    "heap_shape (j + unat (23 :: u32)) (u\<lparr>mem := m1, phys := ph\<rparr>)"
    "run_pages x 23 \<subseteq> pages ?vp - taken ?vp (mem u)" "taken ?vp m1 = taken ?vp (mem u) \<union> run_pages x 23"
    "\<forall>a. \<not> in_map (btmp ?vp) a \<longrightarrow> \<not> in_map (btmp ?fp) a \<longrightarrow> m1 a = mem u a"
    "heap_grows u (u\<lparr>mem := m1, phys := ph\<rparr>)"
    by (rule heap_malloc [OF hu n(1,2) fu(1,2) [symmetric] n(3)])
  have bl: "bit_num_2_byte_len user_pages_num = 94199"
    by (simp add: bit_num_2_byte_len_def user_pages_num_def)
  let ?b = "user_map x"
  obtain mm where b: "bitmap_init x user_pages_num m1 = (Inr (?b, mm) :: 'a kstate_scheme halt + _)"
    "\<And>i. i < user_pages_num \<Longrightarrow> bitmap_get ?b i mm = 0" "\<And>a. \<not> a - x < 94199 \<Longrightarrow> mm a = m1 a"
    by (rule bitmap_init_ok [of x user_pages_num m1, unfolded bl, folded user_map_def]) (use a(2) in blast)+
  have keep: "mm a = m1 a" if "frame_of a \<notin> run_pages x 23" for a
    using bytes_in_run [OF a(3), of 94199 23 a] b(3) [of a] that by auto
  let ?s1 = "s\<lparr>mem := m1, phys := ph\<rparr>"
  have h1: "heap_shape (j + 23) ?s1" using a(4) by (simp add: heap_shape_def fu Let_def)
  note ms = mask_shape_malloc [OF h m refl, where m' = m1 and r = "run_pages x 23"]
  have m1: "mask_shape ?s1" "\<And>a. in_map (RQ_MASK_BITMAP s) a \<Longrightarrow> m1 a = mem s a"
    using ms a(6,7) by (simp_all add: fu(3))
  have eq: "mm a = m1 a" if "in_map (btmp ?vp) a \<or> in_map (btmp ?fp) a" for a
    using heap_shapeD(9) [OF h refl refl that] a(5) by (intro keep) auto
  note hm = heap_shape_mem [OF h1, of mm, simplified, OF eq]
  have "heap_grows s ?s1" using a(8) by (simp add: heap_grows_def fu)
  moreover have "heap_grows ?s1 (?s1\<lparr>mem := mm\<rparr>)" using eq by (intro heap_grows_mem [OF h1]) simp
  ultimately have "heap_grows s (?s1\<lparr>mem := mm\<rparr>)" by (rule heap_grows_trans)
  then have grows: "heap_grows s (s\<lparr>mem := mm, phys := ph\<rparr>)" by (rule heap_grows_cong) simp_all
  have mk: "mm a = mem s a" if "in_map (RQ_MASK_BITMAP s) a" for a
    using m1(2) [OF that] keep [of a] a(5) m that by (auto simp: mask_shape_def fu(3))
  have "user_vaddr_bitmap_create t s = Inr (s\<lparr>mem := mm, phys := ph,
      tcbs := (tcbs s)(t := (tcbs s t)\<lparr>tcb_user_vaddr_pool := (tcb_user_vaddr_pool (tcbs s t))
        \<lparr>addr_base := USER_VADDR_START, btmp := ?b\<rparr>\<rparr>)\<rparr>)"
    using a(1) b(1) unfolding user_vaddr_bitmap_create_def Let_def u_def [symmetric]
    by (simp add: USER_VADDR_START_def PG_SIZE_def user_pages_num_def)
      (simp add: u_def upd_tcb_def USER_VADDR_START_def)
  moreover have "mask_shape (s\<lparr>mem := mm, phys := ph\<rparr>)"
    using m1(1) hm(2) by (simp add: mask_shape_def)
  moreover have "taken ?vp (mem s) \<subseteq> taken ?vp mm" using hm(2) a(6) fu(3) by auto
  moreover have "heap_shape (j + 23) (s\<lparr>mem := mm, phys := ph\<rparr>)" using hm(1) by (simp add: heap_shape_def)
  moreover have "clear_map ?b mm" using b(2) bl by (simp add: clear_map_def wf_bitmap_def user_map_def)
  moreover have "frame_of a \<in> pages ?vp - taken ?vp (mem s)" if "in_map ?b a" for a
    using bytes_in_run [OF a(3), of 94199 23 a] that a(5) fu(3) by (auto simp: in_map_def user_map_def)
  ultimately show thesis using mk grows by (intro that [of x ph mm]) auto
qed

section \<open>The page directory of a process\<close>

text \<open>The directory \<open>f\<close> maps itself and has the kernel's part of the current one.\<close>

definition kernel_dir :: "u32 \<Rightarrow> 'a kstate_scheme \<Rightarrow> bool" where
  "kernel_dir f s \<longleftrightarrow> selfmap (phys s) f
     \<and> (\<forall>x. 0xc0000000 \<le> x \<longrightarrow> x < 0xffc00000 \<longrightarrow>
          phys s (pde_slot f x) = phys s (pde_slot (cr3 s) x) \<and> walk (phys s) f x = walk (phys s) (cr3 s) x)"

lemma walk_same_pde: "ph (pde_slot f x) = ph (pde_slot dir x) \<Longrightarrow> walk ph f x = walk ph dir x"
  by (simp add: walk_slots pte_slot_def)

lemma kernel_dir_grows:
  assumes h: "heap_shape j s" and k: "kernel_dir f s" and f: "f \<in> taken (kernel_phy_pool s) (mem s)" and g: "heap_grows s s'"
  shows "kernel_dir f s'"
proof -
  note g = heap_growsD [OF g]
  have al: "aligned f"
    using pages_aligned [OF heap_shapeD(2) [OF h refl refl]] f taken_subset by blast
  have ff: "frame_of f = f" using word_slot(1) [OF al, of 0] by simp
  have "phys s' (f + 1023 * 4) = phys s (f + 1023 * 4)"
    using word_slot(1) [OF al, of 1023] f by (intro g(6)) simp
  then have "selfmap (phys s') f" using k ff by (simp add: kernel_dir_def selfmap_def)
  moreover have p: "phys s' (pde_slot f x) = phys s' (pde_slot (cr3 s) x)"
    if "0xc0000000 \<le> x" "x < 0xffc00000" for x
    using k that g(7) g(6) [of "pde_slot f x"] pde_slot_frame [of f x] f ff by (simp add: kernel_dir_def)
  moreover have "walk (phys s') f x = walk (phys s') (cr3 s) x" if "0xc0000000 \<le> x" "x < 0xffc00000" for x
    using p [OF that] by (rule walk_same_pde)
  ultimately show ?thesis by (simp add: kernel_dir_def g(3))
qed

lemma page_dir_ok:
  fixes s :: "'a kstate_scheme"
  assumes h: "heap_shape j s" and m: "mask_shape s" and room: "heap_room (j + 1) s"
  obtains d f mm ph where "page_dir_create s = Inr (d, s\<lparr>mem := mm, phys := ph\<rparr>)"
    and "d \<noteq> NULL" and "f \<in> pages (kernel_phy_pool s) - taken (kernel_phy_pool s) (mem s)"
    and "heap_shape (j + 1) (s\<lparr>mem := mm, phys := ph\<rparr>)" and "mask_shape (s\<lparr>mem := mm, phys := ph\<rparr>)"
    and "\<forall>a. frame_of a \<in> pages (kernel_vir_pool s) \<longrightarrow> mm a = mem s a"
    and "taken (kernel_vir_pool s) (mem s) \<subseteq> taken (kernel_vir_pool s) mm"
    and "walk ph (cr3 s) d = Some f" and "kernel_dir f (s\<lparr>mem := mm, phys := ph\<rparr>)"
    and "heap_grows s (s\<lparr>mem := mm, phys := ph\<rparr>)" and "d \<in> taken (kernel_vir_pool s) mm"
    and "f \<in> taken (kernel_phy_pool s) mm"
proof -
  let ?vp = "kernel_vir_pool s" and ?fp = "kernel_phy_pool s"
  have n: "(0 :: u32) < 1" "(1 :: u32) < 3840" "j + unat (1 :: u32) \<le> unat (bit_num (btmp ?vp))"
    using room by (simp_all add: heap_room_def)
  obtain d m1 ph1 f where a: "kernel_pages_malloc 1 s = Inr (d, s\<lparr>mem := m1, phys := ph1\<rparr>)" "d \<noteq> NULL" "aligned d"
    "heap_shape (j + unat (1 :: u32)) (s\<lparr>mem := m1, phys := ph1\<rparr>)"
    "run_pages d 1 \<subseteq> pages ?vp - taken ?vp (mem s)" "taken ?vp m1 = taken ?vp (mem s) \<union> run_pages d 1"
    "\<forall>a. \<not> in_map (btmp ?vp) a \<longrightarrow> \<not> in_map (btmp ?fp) a \<longrightarrow> m1 a = mem s a"
    "walk ph1 (cr3 s) d = Some f" "f \<in> pages ?fp - taken ?fp (mem s)"
    "heap_grows s (s\<lparr>mem := m1, phys := ph1\<rparr>)" "f \<in> taken ?fp m1"
    by (rule heap_malloc [OF h n(1,2) refl refl n(3)])
  let ?s1 = "s\<lparr>mem := m1, phys := ph1\<rparr>"
  note d1 = heap_shapeD [OF a(4) refl refl]
  have dp: "d \<in> pages ?vp" using a(5) nth_page_run [of 0 1 d] by (auto simp: nth_page_def)
  have al: "aligned f" using pages_aligned [OF heap_shapeD(2) [OF h refl refl]] a(9) by blast
  have ff: "frame_of f = f" using word_slot(1) [OF al, of 0] by simp
  have pf: "private_frame (phys ?s1) (cr3 ?s1) d f"
    using d1(7) a(3,8,9) al dp by (auto simp: private_frame_def tables_ok_def)
  from page_dir_create_ok [OF a(1,2) pf]
  obtain ph where c: "page_dir_create s = Inr (d, ?s1\<lparr>phys := ph\<rparr>)" "private_frame ph (cr3 s) d f"
    "\<And>k. 768 \<le> k \<Longrightarrow> k < 1023 \<Longrightarrow> ph (f + of_nat k * 4) = ph1 (frame_of (cr3 s) + of_nat k * 4)"
    "ph (f + 1023 * 4) = entry f" "\<And>k. k < 768 \<Longrightarrow> ph (f + of_nat k * 4) = ph1 (f + of_nat k * 4)"
    "\<And>a. frame_of a \<noteq> f \<Longrightarrow> ph a = ph1 a"
    by auto
  let ?s' = "s\<lparr>mem := m1, phys := ph\<rparr>"
  have h': "heap_shape (j + 1) ?s'"
    using heap_shape_phys [OF a(4), of f ph] a(9) c(6) by simp
  note ms = mask_shape_malloc [OF h m refl a(6,7)]
  have dir: "ph (frame_of (cr3 s) + of_nat k * 4) = ph1 (frame_of (cr3 s) + of_nat k * 4)" if "k < 1024" for k
    using word_slot(1) [OF aligned_frame that, of "cr3 s"] c(2) by (intro c(6)) (auto simp: private_frame_def)
  note ga = heap_growsD [OF a(10), simplified]
  note gp = heap_grows_phys [OF a(4), of f "taken ?fp (mem s)" ph, simplified]
  have gp': "\<forall>a. frame_of a \<in> taken ?fp (mem s) \<longrightarrow> ph a = ph1 a"
    "\<forall>y. ph (pde_slot (cr3 s) y) = ph1 (pde_slot (cr3 s) y)"
    "x \<in> pages ?vp \<Longrightarrow> walk ph (cr3 s) x = walk ph1 (cr3 s) x" for x
    using gp a(9) ga(5) c(6) by simp_all
  have grows: "heap_grows s ?s'"
    using ga gp' taken_subset [of ?vp "mem s"] by (simp add: heap_grows_def subset_iff)
  have pde: "ph (pde_slot f x) = ph (pde_slot (cr3 s) x)" if x: "0xc0000000 \<le> x" "x < 0xffc00000" for x
  proof -
    have "768 \<le> unat (PDE_IDX x)" "unat (PDE_IDX x) < 1023"
      using x by (simp_all add: unat_PDE_IDX word_le_nat_alt word_less_nat_alt)
    moreover have "PDE_IDX x = of_nat (unat (PDE_IDX x))" by simp
    ultimately show ?thesis using c(3) [of "unat (PDE_IDX x)"] dir [of "unat (PDE_IDX x)"] ff
      by (simp add: pde_slot_def)
  qed
  have "walk ph f x = walk ph (cr3 s) x" if "0xc0000000 \<le> x" "x < 0xffc00000" for x
    using pde [OF that] by (rule walk_same_pde)
  moreover have "selfmap ph f" using c(4) ff al by (simp add: selfmap_def entry_present entry_frame)
  ultimately have "kernel_dir f ?s'" using pde by (simp add: kernel_dir_def)
  moreover have "walk ph (cr3 s) d = Some f" using c(2) by (simp add: private_frame_def)
  moreover have "taken ?vp (mem s) \<subseteq> taken ?vp m1" using a(6) by auto
  moreover have "d \<in> taken ?vp m1" using a(6) nth_page_run [of 0 1 d] by (simp add: nth_page_def)
  moreover have "m1 a = mem s a" if "frame_of a \<in> pages ?vp" for a
    using heap_shapeD(9) [OF h refl refl, of a] a(7) that by blast
  ultimately show thesis using c(1) a(2,9,11) h' ms(1) grows by (intro that [of d ph m1 f]) auto
qed

section \<open>\<^verbatim>\<open>thread_init\<close> on a fresh page\<close>

lemma kheap_malloc:
  fixes s :: "'a kstate_scheme"
  assumes k: "kheap j s v" and room: "heap_room (j + 1) s"
  obtains t m ph where "kernel_pages_malloc 1 s = Inr (t, s\<lparr>mem := m, phys := ph\<rparr>)"
    and "kheap (j + 1) (s\<lparr>mem := m, phys := ph\<rparr>) v" and "new_page t v"
    and "t \<in> pages (kernel_vir_pool s) - taken (kernel_vir_pool s) (mem s)"
    and "t \<in> taken (kernel_vir_pool s) m" and "heap_grows s (s\<lparr>mem := m, phys := ph\<rparr>)"
proof -
  let ?vp = "kernel_vir_pool s" and ?fp = "kernel_phy_pool s"
  note d = kheapD [OF k]
  have n: "(0 :: u32) < 1" "(1 :: u32) < 3840" "j + unat (1 :: u32) \<le> unat (bit_num (btmp ?vp))"
    using room by (simp_all add: heap_room_def)
  obtain t m ph where a: "kernel_pages_malloc 1 s = Inr (t, s\<lparr>mem := m, phys := ph\<rparr>)"
    "heap_shape (j + unat (1 :: u32)) (s\<lparr>mem := m, phys := ph\<rparr>)"
    "run_pages t 1 \<subseteq> pages ?vp - taken ?vp (mem s)" "taken ?vp m = taken ?vp (mem s) \<union> run_pages t 1"
    "\<forall>a. \<not> in_map (btmp ?vp) a \<longrightarrow> \<not> in_map (btmp ?fp) a \<longrightarrow> m a = mem s a"
    "heap_grows s (s\<lparr>mem := m, phys := ph\<rparr>)"
    by (rule heap_malloc [OF d(2) n(1,2) refl refl n(3)])
  have r: "t \<in> run_pages t 1" using nth_page_run [of 0 1 t] by (simp add: nth_page_def)
  note ms = mask_shape_malloc [OF d(2,3) refl a(4,5)]
  have "kinv (s\<lparr>mem := m, phys := ph\<rparr>) v"
    using d(3) ms(2) by (intro kinv_mem [OF d(1)]) (simp_all add: mask_shape_def)
  then have "kheap (j + 1) (s\<lparr>mem := m, phys := ph\<rparr>) v"
    using d a(2,4) ms(1) by (auto simp: kheap_def)
  then show thesis using a r d(4) by (intro that [of t ph m]) auto
qed

text \<open>What \<^verbatim>\<open>thread_init\<close> makes of the page, with everything else as it was.\<close>

definition fresh_thread :: "addr \<Rightarrow> u8 \<Rightarrow> code \<Rightarrow> addr \<Rightarrow> 'a kernel_scheme \<Rightarrow> 'a kernel_scheme \<Rightarrow> bool" where
  "fresh_thread t prio func arg s u \<longleftrightarrow>
     tcb_status (tcbs u t) = TASK_READY \<and> tcb_priority (tcbs u t) = prio
     \<and> tcb_ticks (tcbs u t) = ticks_get (ucast prio) \<and> tcb_stack_magic (tcbs u t) = 0x19980820
     \<and> tcb_stack_top (tcbs u t) = t + PG_SIZE - 112
     \<and> entry_frame func arg (thread_stacks u (t + PG_SIZE - 112))
     \<and> (\<forall>i. first_free (sch_thread_table (sched s)) 0 = Some i \<longrightarrow> tcb_pid (tcbs u t) = of_nat i)
     \<and> (\<forall>x. x \<noteq> t \<longrightarrow> tcbs u x = tcbs s x)"

text \<open>What is left alone by all of this, and the entry in the table of threads.\<close>

definition table_add :: "addr \<Rightarrow> addr list \<Rightarrow> addr list" where
  "table_add t tbl = (case first_free tbl 0 of None \<Rightarrow> tbl | Some i \<Rightarrow> tbl[i := t])"

definition sys_kept :: "addr \<Rightarrow> 'a kernel_scheme \<Rightarrow> 'a kernel_scheme \<Rightarrow> bool" where
  "sys_kept t s u \<longleftrightarrow>
     (\<forall>x. frame_of x \<noteq> t \<longrightarrow> sem_val u x = sem_val s x)
     \<and> idt_table u = idt_table s \<and> idt u = idt s \<and> gdt u = gdt s \<and> tr u = tr s \<and> syscall_table u = syscall_table s
     \<and> ioqs u = ioqs s
     \<and> sch_thread_table (sched u) = table_add t (sch_thread_table (sched s))"

lemma more_fields:
  fixes s u :: "'a kernel_scheme"
  assumes "kstate.more u = kstate.more s"
  shows "idt_table u = idt_table s" "idt u = idt s" "gdt u = gdt s" "tr u = tr s" "syscall_table u = syscall_table s"
    "ioqs u = ioqs s"
  using assms by (cases s; cases u; simp)+

lemma thread_init_ok:
  fixes s :: "'a kernel_scheme"
  assumes k: "kheap j s v" and t: "new_page t v" and name: "length name \<le> 16"
  obtains u where "thread_init t name prio func arg s = Inr u" and "klists u (add_thread t v)"
    and "same_heap s u" and "fresh_thread t prio func arg s u" and "tcb_pg_dir (tcbs u t) = NULL"
    and "sem_val u (mtx_sem pid_mtx) = 1" and "RUNNING_THREAD u = RUNNING_THREAD s"
    and "sched u = (sched s)\<lparr>sch_thread_table := sch_thread_table (sched u)\<rparr>" and "need_schedule u = need_schedule s"
    and "mem u = mem s" and "phys u = phys s" and "eflags u = eflags s" and "sys_kept t s u"
proof -
  note d = kheapD [OF k]
  have ni: "t \<noteq> sch_idle_thread (sched s)" using t d(8) by (auto simp: new_page_def)
  obtain w where w: "thread_tcb_init t name prio s = Inr w" "klists w (add_thread t v)"
    "tcb_status (tcbs w t) = TASK_READY" "tcb_priority (tcbs w t) = prio"
    "tcb_ticks (tcbs w t) = ticks_get (ucast prio)" "tcb_pg_dir (tcbs w t) = NULL"
    "tcb_stack_top (tcbs w t) = t + PG_SIZE" "tcb_stack_magic (tcbs w t) = 0x19980820"
    "\<forall>i. first_free (sch_thread_table (sched s)) 0 = Some i \<longrightarrow> tcb_pid (tcbs w t) = of_nat i"
    "\<forall>x. x \<noteq> t \<longrightarrow> tcbs w x = tcbs s x"
    "sched w = (sched s)\<lparr>sch_thread_table :=
      (case first_free (sch_thread_table (sched s)) 0 of None \<Rightarrow> sch_thread_table (sched s)
      | Some i \<Rightarrow> (sch_thread_table (sched s))[i := t])\<rparr>"
    "mem w = mem s" "phys w = phys s" "\<forall>x. frame_of x \<noteq> t \<longrightarrow> sem_val w x = sem_val s x" "same_heap s w" "eflags w = eflags s"
    "kstate.more w = kstate.more s"
    by (rule thread_tcb_init_ok [OF kinv_klists [OF d(1)] t name d(5-7) refl, where prio = prio and st = TASK_READY])
      (use ni in simp_all)
  let ?u = "thread_stack_init t func arg w"
  have kl: "klists ?u (add_thread t v)" using w(2) by (subst klists_cong [of _ w]) (simp_all add: frame)
  have sp: "frame_of (mtx_sem pid_mtx) \<noteq> t" using new_page_not_static [OF t d(5)] pid_sem_static by simp
  have ef: "eflags ?u = eflags w" by (simp add: thread_stack_init_def Let_def upd_tcb_def)
  have "same_heap w ?u" by (simp add: same_heap_def thread_stack_init_def Let_def upd_tcb_def)
  with w(15) have sh: "same_heap s ?u" by (rule same_heap_trans)
  have "entry_frame func arg (thread_stacks ?u (t + PG_SIZE - 112))"
    using thread_stack_init_frame(8) [of func arg t w] w(7) by simp
  then have "fresh_thread t prio func arg s ?u" using w by (simp add: fresh_thread_def frame)
  moreover have "sys_kept t s ?u"
    using w(11,14) more_fields [OF w(17)]
    by (simp add: sys_kept_def table_add_def frame) (simp add: thread_stack_init_def Let_def upd_tcb_def)
  ultimately show thesis
    using w sp d(7) kl sh ef
    by (intro that [of ?u]) (simp_all add: thread_init_def frame need_schedule_def)
qed

section \<open>Threads and processes join the kernel\<close>

lemma new_page_started:
  "new_page x v \<Longrightarrow> x \<noteq> t \<Longrightarrow> new_page x (started t p (add_thread t v))"
  by (simp add: new_page_def kidx_def)

text \<open>
  The common end: the control block is complete in \<open>u\<close>, which otherwise differs from \<open>s\<close> in
  the heap and in the thread table, and the thread joins the queues.
\<close>

lemma start_kheap:
  fixes s u :: "'a kernel_scheme"
  assumes k: "kheap j s v" and t: "new_page t v" "t \<in> taken (kernel_vir_pool s) (mem s)"
    and kl: "klists u (add_thread t v)" and fr: "fresh_thread t prio func arg s u" and pr: "prio < 32"
    and h: "heap_shape i u" "mask_shape u" and e: "kernel_vir_pool u = kernel_vir_pool s"
      "RQ_MASK_BITMAP u = RQ_MASK_BITMAP s" "RUNNING_THREAD u = RUNNING_THREAD s"
      "sch_idle_thread (sched u) = sch_idle_thread (sched s)" "sem_val u (mtx_sem pid_mtx) = 1"
    and mk: "\<forall>a. in_map (RQ_MASK_BITMAP s) a \<longrightarrow> mem u a = mem s a"
    and tk: "taken (kernel_vir_pool s) (mem s) \<subseteq> taken (kernel_vir_pool s) (mem u)"
  shows "kheap i (start t u) (started t (ucast prio) (add_thread t v))"
proof -
  note d = kheapD [OF k]
  let ?b = "s\<lparr>mem := mem u, phys := phys u\<rparr>"
  have pl: "(ucast prio :: u32) < PRIO_NUM"
    using pr by (simp add: PRIO_NUM_def word_less_nat_alt unsigned_ucast_eq take_bit_nat_eq_self)
  have po: "prio_of t u = ucast prio" using fr by (simp add: fresh_thread_def prio_of_def)
  have kb: "kinv ?b v" using d(3) mk by (intro kinv_mem [OF d(1)]) (simp_all add: mask_shape_def)
  have ki: "kinv (start t u) (started t (ucast prio) (add_thread t v))"
    using start_kinv [OF kb t(1) kl] fr pl e unfolding po by (simp add: fresh_thread_def)
  have "bit_num (RQ_MASK_BITMAP u) = PRIO_NUM"
    using rq_invD(2) [OF sinv_parts(1) [OF kinvD(1) [OF d(1)]]] e(2) by (simp add: mask_ok_def)
  then have "same_heap u (start t u)"
    using h(2) pl po by (intro start_same_heap) (simp_all add: mask_shape_def)
  note sh = same_heap_shape [OF h this]
  have "new_page x (started t (ucast prio) (add_thread t v))"
    if "x \<in> pages (kernel_vir_pool (start t u)) - taken (kernel_vir_pool (start t u)) (mem (start t u))" for x
  proof -
    have "x \<in> pages (kernel_vir_pool s) - taken (kernel_vir_pool s) (mem u)"
      using that sh(3) e(1) \<open>same_heap u (start t u)\<close> by (simp add: same_heap_def)
    then show ?thesis using t(2) tk d(4) by (intro new_page_started) auto
  qed
  moreover have "sch_idle_thread (sched (start t u)) = sch_idle_thread (sched u)"
    by (simp add: start_def scheduler_rq_join_def scheduler_rq_join_only_def Let_def frame set_need_schedule_def)
  ultimately show ?thesis using ki sh d e(4,5) by (simp add: kheap_def frame)
qed

lemma start_eflags [frame]: "eflags (start t s) = eflags s"
  by (simp add: start_def scheduler_rq_join_def Let_def frame)

lemma start_table [frame]: "sch_thread_table (sched (start t s)) = sch_thread_table (sched s)"
  by (simp add: start_def scheduler_rq_join_def scheduler_rq_join_only_def Let_def frame set_need_schedule_def)

lemma thread_run_kheap:
  fixes s :: "'a kernel_scheme"
  assumes k: "kheap j s v" and room: "heap_room (j + 1) s" and name: "length name \<le> 16" and pr: "prio < 32"
  obtains t s' where "thread_run name prio func arg s = Inr (t, s')"
    and "kheap (j + 1) s' (started t (ucast prio) (add_thread t v))"
    and "fresh_thread t prio func arg s s'" and "new_page t v" and "tcb_pg_dir (tcbs s' t) = NULL"
    and "sys_kept t s s'" and "eflags s' = eflags s"
    and "RUNNING_THREAD s' = RUNNING_THREAD s" and "kernel_vir_pool s' = kernel_vir_pool s"
    and "heap_grows s s'"
proof -
  obtain t m ph where a: "kernel_pages_malloc 1 s = Inr (t, s\<lparr>mem := m, phys := ph\<rparr>)"
    "kheap (j + 1) (s\<lparr>mem := m, phys := ph\<rparr>) v" "new_page t v" "t \<in> taken (kernel_vir_pool s) m"
    "heap_grows s (s\<lparr>mem := m, phys := ph\<rparr>)"
    by (rule kheap_malloc [OF k room])
  let ?s1 = "s\<lparr>mem := m, phys := ph\<rparr>"
  obtain u where u: "thread_init t name prio func arg ?s1 = Inr u" "klists u (add_thread t v)" "same_heap ?s1 u"
    "fresh_thread t prio func arg ?s1 u" "tcb_pg_dir (tcbs u t) = NULL" "sem_val u (mtx_sem pid_mtx) = 1"
    "sched u = (sched ?s1)\<lparr>sch_thread_table := sch_thread_table (sched u)\<rparr>" "mem u = mem ?s1"
    "eflags u = eflags ?s1" "sys_kept t ?s1 u"
    by (rule thread_init_ok [OF a(2,3) name])
  have su: "RUNNING_THREAD u = RUNNING_THREAD s" "sch_idle_thread (sched u) = sch_idle_thread (sched s)"
    by (subst u(7); simp)+
  note hs = same_heap_shape [OF kheapD(2,3) [OF a(2)] u(3)]
  have kh: "kheap (j + 1) (start t u) (started t (ucast prio) (add_thread t v))"
    by (rule start_kheap [OF a(2,3) _ u(2,4) pr hs(1,2)]) (use a(4) u su in \<open>simp_all add: same_heap_def\<close>)
  have "bit_num (RQ_MASK_BITMAP u) = PRIO_NUM"
    using rq_invD(2) [OF sinv_parts(1) [OF kinvD(1) [OF kheapD(1) [OF k]]]] u(3) by (simp add: mask_ok_def same_heap_def)
  moreover have "prio_of t u < PRIO_NUM"
    using u(4) pr by (simp add: fresh_thread_def prio_of_def PRIO_NUM_def word_less_nat_alt unsigned_ucast_eq
      take_bit_nat_eq_self)
  ultimately have "same_heap u (start t u)"
    using hs(2) by (intro start_same_heap) (simp_all add: mask_shape_def)
  then have grows: "heap_grows s (start t u)"
    by (intro heap_grows_trans [OF a(5)] heap_grows_trans [OF same_heap_grows [OF kheapD(2,3) [OF a(2)] u(3)]]
      same_heap_grows [OF hs(1,2)])
  have r: "thread_run name prio func arg s = Inr (t, start t u)"
    using a(1) u(1) by (simp add: thread_run_def thread_create_def start_def Let_def)
  have f: "fresh_thread t prio func arg s (start t u)" using u(4) by (simp add: fresh_thread_def frame)
  have "sys_kept t s (start t u)"
    using u(10) more_fields [OF start_more [of t u]] by (simp add: sys_kept_def frame start_table)
  moreover have "kernel_vir_pool (start t u) = kernel_vir_pool u"
    by (simp add: start_def scheduler_rq_join_def scheduler_rq_join_only_def Let_def list_push_back_def
        list_insert_before_heap set_need_schedule_def)
  ultimately show thesis using r kh f a(3) u su grows by (intro that [of t "start t u"]) (simp_all add: frame same_heap_def)
qed

section \<open>\<^verbatim>\<open>process_run\<close>\<close>

lemma kheap_eflags: "kheap j (s\<lparr>eflags := e\<rparr>) v = kheap j s v"
proof -
  have "kinv (s\<lparr>eflags := e\<rparr>) v = kinv s v" by (rule kinv_cong) simp_all
  then show ?thesis by (simp add: kheap_def heap_shape_def mask_shape_def)
qed

text \<open>The memory of a thread that \<^verbatim>\<open>process_run\<close> has made.\<close>

definition space_at :: "addr \<Rightarrow> u32 \<Rightarrow> 'a kstate_scheme \<Rightarrow> bool" where
  "space_at t f s \<longleftrightarrow>
     tcb_pg_dir (tcbs s t) \<noteq> NULL \<and> walk (phys s) (cr3 s) (tcb_pg_dir (tcbs s t)) = Some f \<and> kernel_dir f s
     \<and> tcb_pg_dir (tcbs s t) \<in> taken (kernel_vir_pool s) (mem s) \<and> f \<in> taken (kernel_phy_pool s) (mem s)"

definition fresh_space :: "addr \<Rightarrow> 'a kstate_scheme \<Rightarrow> bool" where
  "fresh_space t s \<longleftrightarrow>
     (\<exists>f. space_at t f s)
     \<and> addr_base (tcb_user_vaddr_pool (tcbs s t)) = USER_VADDR_START
     \<and> bit_num (btmp (tcb_user_vaddr_pool (tcbs s t))) = user_pages_num
     \<and> clear_map (btmp (tcb_user_vaddr_pool (tcbs s t))) (mem s)"

text \<open>A directory in use stays one, whatever else is allocated.\<close>

lemma space_at_grows:
  assumes h: "heap_shape j s" and sp: "space_at t f s" and g: "heap_grows s s'"
    and d: "tcb_pg_dir (tcbs s' t) = tcb_pg_dir (tcbs s t)"
  shows "space_at t f s'"
  using sp kernel_dir_grows [OF h _ _ g] heap_growsD [OF g] by (auto simp: space_at_def d)

text \<open>Its bitmap shares no byte with the run-queue mask, so joining the queues keeps it clear.\<close>

definition space_apart :: "addr \<Rightarrow> 'a kstate_scheme \<Rightarrow> bool" where
  "space_apart t s \<longleftrightarrow>
     (\<forall>a. in_map (btmp (tcb_user_vaddr_pool (tcbs s t))) a \<longrightarrow> \<not> in_map (RQ_MASK_BITMAP s) a)"

lemma fresh_space_same:
  assumes "fresh_space t s" and "space_apart t s" and "same_heap s s'" and "tcbs s' = tcbs s"
    and h: "heap_shape j s" "mask_shape s"
  shows "fresh_space t s'"
proof -
  note g = same_heap_grows [OF h assms(3)]
  have "clear_map (btmp (tcb_user_vaddr_pool (tcbs s t))) (mem s')"
    by (rule clear_map_cong [of _ "mem s"]) (use assms in \<open>auto simp: fresh_space_def space_apart_def same_heap_def\<close>)
  then show ?thesis using assms(1,4) space_at_grows [OF h(1) _ g] by (auto simp: fresh_space_def)
qed

text \<open>The end of \<^verbatim>\<open>process_run\<close>, under masked interrupts.\<close>

definition join_masked :: "addr \<Rightarrow> 'a kstate_scheme \<Rightarrow> 'a kstate_scheme" where
  "join_masked t s = snd (intr_set_status (fst (intr_disable s)) (start t (snd (intr_disable s))))"

lemma join_masked_eq:
  "join_masked t s = (start t (snd (intr_disable s)))\<lparr>eflags := eflags s\<rparr>"
  unfolding join_masked_def by (rule intr_bracket_eq) (simp add: frame)

lemma intr_disable_fields [frame]:
  fixes s :: "'a kernel_scheme"
  shows "kernel_vir_pool (snd (intr_disable s)) = kernel_vir_pool s"
    "kernel_phy_pool (snd (intr_disable s)) = kernel_phy_pool s"
    "thread_stacks (snd (intr_disable s)) = thread_stacks s"
  by (simp_all add: intr_disable_def cli_def)

text \<open>The steps before it: a control block, the address bitmap, the directory.\<close>

lemma process_made:
  fixes s :: "'a kernel_scheme"
  assumes k: "kheap j s v" and room: "heap_room (j + 25) s" and name: "length name \<le> 16"
  obtains t ph m z where "process_run filename name s = Inr (join_masked t z)" and "new_page t v"
    and "kheap (j + 1) (s\<lparr>mem := m, phys := ph\<rparr>) v" and "t \<in> taken (kernel_vir_pool s) m"
    and "klists z (add_thread t v)" and "fresh_thread t 31 Process_entry filename s z"
    and "heap_shape (j + 25) z" and "mask_shape z" and "kernel_vir_pool z = kernel_vir_pool s"
    and "sched z = (sched s)\<lparr>sch_thread_table := sch_thread_table (sched z)\<rparr>"
    and "sem_val z (mtx_sem pid_mtx) = 1" and "\<forall>a. in_map (RQ_MASK_BITMAP s) a \<longrightarrow> mem z a = m a"
    and "taken (kernel_vir_pool s) m \<subseteq> taken (kernel_vir_pool s) (mem z)" and "fresh_space t z"
    and "space_apart t z" and "eflags z = eflags s" and "sys_kept t s z" and "heap_grows s z"
proof -
  have rm: "heap_room (j + 1) s" using room by (simp add: heap_room_def)
  obtain t m ph where a: "kernel_pages_malloc 1 s = Inr (t, s\<lparr>mem := m, phys := ph\<rparr>)"
    "kheap (j + 1) (s\<lparr>mem := m, phys := ph\<rparr>) v" "new_page t v" "t \<in> taken (kernel_vir_pool s) m"
    "heap_grows s (s\<lparr>mem := m, phys := ph\<rparr>)"
    by (rule kheap_malloc [OF k rm])
  let ?s1 = "s\<lparr>mem := m, phys := ph\<rparr>"
  obtain u where u: "thread_init t name 31 Process_entry filename ?s1 = Inr u" "klists u (add_thread t v)" "same_heap ?s1 u"
    "fresh_thread t 31 Process_entry filename ?s1 u" "sem_val u (mtx_sem pid_mtx) = 1"
    "sched u = (sched ?s1)\<lparr>sch_thread_table := sch_thread_table (sched u)\<rparr>"
    "mem u = mem ?s1" "eflags u = eflags ?s1" "sys_kept t ?s1 u"
    by (rule thread_init_ok [OF a(2,3) name])
  note hs = same_heap_shape [OF kheapD(2,3) [OF a(2)] u(3)]
  have eu: "kernel_vir_pool u = kernel_vir_pool s" "RQ_MASK_BITMAP u = RQ_MASK_BITMAP s"
    using u(3) by (simp_all add: same_heap_def)
  have rm1: "heap_room (j + 1 + 23) u" using room eu by (simp add: heap_room_def)
  obtain x mm ph1 where b: "user_vaddr_bitmap_create t u = Inr (u\<lparr>mem := mm, phys := ph1,
      tcbs := (tcbs u)(t := (tcbs u t)\<lparr>tcb_user_vaddr_pool := (tcb_user_vaddr_pool (tcbs u t))
        \<lparr>addr_base := USER_VADDR_START, btmp := user_map x\<rparr>\<rparr>)\<rparr>)"
    "heap_shape (j + 1 + 23) (u\<lparr>mem := mm, phys := ph1\<rparr>)" "mask_shape (u\<lparr>mem := mm, phys := ph1\<rparr>)"
    "\<forall>a. in_map (RQ_MASK_BITMAP u) a \<longrightarrow> mm a = mem u a"
    "taken (kernel_vir_pool u) (mem u) \<subseteq> taken (kernel_vir_pool u) mm" "clear_map (user_map x) mm"
    "heap_grows u (u\<lparr>mem := mm, phys := ph1\<rparr>)" "\<forall>a. in_map (user_map x) a \<longrightarrow> frame_of a \<in> pages (kernel_vir_pool u) - taken (kernel_vir_pool u) (mem u)"
    by (rule user_bitmap_ok [OF hs(1,2) rm1])
  let ?u1 = "u\<lparr>mem := mm, phys := ph1, tcbs := (tcbs u)(t := (tcbs u t)\<lparr>tcb_user_vaddr_pool :=
    (tcb_user_vaddr_pool (tcbs u t))\<lparr>addr_base := USER_VADDR_START, btmp := user_map x\<rparr>\<rparr>)\<rparr>"
  have h1: "heap_shape (j + 24) ?u1" "mask_shape ?u1" and rm2: "heap_room (j + 24 + 1) ?u1"
    using b(2,3) room eu by (simp_all add: heap_shape_def mask_shape_def Let_def heap_room_def)
  obtain d f m2 ph2 where c: "page_dir_create ?u1 = Inr (d, ?u1\<lparr>mem := m2, phys := ph2\<rparr>)" "d \<noteq> NULL"
    "heap_shape (j + 24 + 1) (?u1\<lparr>mem := m2, phys := ph2\<rparr>)" "mask_shape (?u1\<lparr>mem := m2, phys := ph2\<rparr>)"
    "\<forall>a. frame_of a \<in> pages (kernel_vir_pool ?u1) \<longrightarrow> m2 a = mem ?u1 a"
    "taken (kernel_vir_pool ?u1) (mem ?u1) \<subseteq> taken (kernel_vir_pool ?u1) m2"
    "walk ph2 (cr3 ?u1) d = Some f" "kernel_dir f (?u1\<lparr>mem := m2, phys := ph2\<rparr>)"
    "heap_grows ?u1 (?u1\<lparr>mem := m2, phys := ph2\<rparr>)" "d \<in> taken (kernel_vir_pool ?u1) m2"
    "f \<in> taken (kernel_phy_pool ?u1) m2"
    by (rule page_dir_ok [OF h1 rm2])
  let ?z = "upd_tcb t (\<lambda>c. c\<lparr>tcb_pg_dir := d\<rparr>) (?u1\<lparr>mem := m2, phys := ph2\<rparr>)"
  have "process_run filename name s = Inr (join_masked t ?z)"
    unfolding process_run_def a(1) and_then.simps prod.case u(1) b(1) c(1)
    by (simp add: join_masked_def start_def split_beta Let_def)
  moreover have "klists ?z (add_thread t v)" using u(2) by (subst klists_cong [of _ u]) (simp_all add: frame)
  moreover have "fresh_thread t 31 Process_entry filename s ?z" using u(4) by (simp add: fresh_thread_def upd_tcb_def)
  moreover have "heap_shape (j + 25) ?z" "mask_shape ?z"
    using c(3,4) by (simp_all add: heap_shape_def mask_shape_def Let_def upd_tcb_def)
  moreover have nm: "mem ?z a = mm a" if "frame_of a \<in> pages (kernel_vir_pool u)" for a
    using c(5) that by (simp add: frame)
  moreover have mp: "frame_of a \<in> taken (kernel_vir_pool u) (mem u)" if "in_map (RQ_MASK_BITMAP u) a" for a
    using hs(2) that by (simp add: mask_shape_def)
  then have "mem ?z a = m a" if "in_map (RQ_MASK_BITMAP s) a" for a
    using nm [of a] b(4) that taken_subset u(7) eu(2) by fastforce
  moreover have "space_apart t ?z" using mp b(8) eu by (auto simp: space_apart_def upd_tcb_def)
  moreover have "fresh_space t ?z"
    using c(2,7,8,10,11) clear_map_cong [OF b(6), of m2] c(5) b(8)
    by (auto simp: fresh_space_def space_at_def upd_tcb_def kernel_dir_def user_map_def)
  moreover have "heap_grows s ?z"
  proof -
    have "heap_grows u ?u1" by (rule heap_grows_cong [OF b(7)]) simp_all
    then have "heap_grows s (?u1\<lparr>mem := m2, phys := ph2\<rparr>)"
      by (intro heap_grows_trans [OF a(5)] heap_grows_trans [OF same_heap_grows [OF kheapD(2,3) [OF a(2)] u(3)]]
        heap_grows_trans [OF _ c(9)])
    then show ?thesis by (rule heap_grows_cong) (simp_all add: upd_tcb_def)
  qed
  moreover have "sys_kept t s ?z" using u(9) by (simp add: sys_kept_def upd_tcb_def)
  ultimately show thesis
    using a u eu b(5) c(6) by (intro that [of t ?z ph m]) (simp_all add: frame upd_tcb_def)
qed

lemma process_run_kheap:
  fixes s :: "'a kernel_scheme"
  assumes k: "kheap j s v" and room: "heap_room (j + 25) s" and name: "length name \<le> 16"
  obtains t s' where "process_run filename name s = Inr s'"
    and "kheap (j + 25) s' (started t 31 (add_thread t v))"
    and "fresh_thread t 31 Process_entry filename s s'" and "new_page t v" and "fresh_space t s'"
    and "RUNNING_THREAD s' = RUNNING_THREAD s" and "eflags s' = eflags s" and "kernel_vir_pool s' = kernel_vir_pool s"
    and "sys_kept t s s'" and "heap_grows s s'"
proof -
  obtain t z m ph where z: "process_run filename name s = Inr (join_masked t z)" "new_page t v"
    "kheap (j + 1) (s\<lparr>mem := m, phys := ph\<rparr>) v" "t \<in> taken (kernel_vir_pool s) m"
    "klists z (add_thread t v)" "fresh_thread t 31 Process_entry filename s z"
    "heap_shape (j + 25) z" "mask_shape z" "kernel_vir_pool z = kernel_vir_pool s"
    "sched z = (sched s)\<lparr>sch_thread_table := sch_thread_table (sched z)\<rparr>"
    "sem_val z (mtx_sem pid_mtx) = 1" "\<forall>a. in_map (RQ_MASK_BITMAP s) a \<longrightarrow> mem z a = m a"
    "taken (kernel_vir_pool s) m \<subseteq> taken (kernel_vir_pool s) (mem z)" "fresh_space t z"
    "space_apart t z" "eflags z = eflags s" "sys_kept t s z" "heap_grows s z"
    by (rule process_made [OF k room name])
  have sz: "RQ_MASK_BITMAP z = RQ_MASK_BITMAP s" "RUNNING_THREAD z = RUNNING_THREAD s"
    "sch_idle_thread (sched z) = sch_idle_thread (sched s)" by (subst z(10); simp)+
  define y where "y = snd (intr_disable z)"
  have yz: "same_heap z y" "nodes y = nodes z" "tcbs y = tcbs z" "thread_stacks y = thread_stacks z" "sched y = sched z"
    "sem_val y = sem_val z" "mem y = mem z" "heap_shape (j + 25) y" "mask_shape y" "kernel_vir_pool y = kernel_vir_pool s"
    "kstate.more y = kstate.more z"
    using z(7,8,9) by (simp_all add: y_def intr_disable_def cli_def same_heap_def heap_shape_def mask_shape_def Let_def)
  have kl: "klists y (add_thread t v)" using z(5) yz(2) by (subst klists_cong [of _ z]) simp_all
  have fr: "fresh_thread t 31 Process_entry filename (s\<lparr>mem := m, phys := ph\<rparr>) y"
    using z(6) by (simp add: fresh_thread_def yz)
  have kh: "kheap (j + 25) (start t y) (started t (ucast (31 :: u8)) (add_thread t v))"
    by (rule start_kheap [OF z(3,2) _ kl fr _ yz(8,9)]) (use z sz in \<open>simp_all add: yz\<close>)
  have "bit_num (RQ_MASK_BITMAP y) = PRIO_NUM" "prio_of t y < PRIO_NUM"
    using rq_invD(2) [OF sinv_parts(1) [OF kinvD(1) [OF kheapD(1) [OF k]]]] sz(1) fr
    by (simp_all add: yz mask_ok_def fresh_thread_def prio_of_def PRIO_NUM_def)
  then have sm: "same_heap y (start t y)" using yz(9) by (intro start_same_heap) (simp_all add: mask_shape_def)
  have "fresh_space t (start t y)"
    using same_heap_trans [OF yz(1) sm] by (intro fresh_space_same [OF z(14,15) _ _ z(7,8)]) (simp_all add: frame yz)
  then have "fresh_space t (join_masked t z)"
    by (simp add: join_masked_eq y_def [symmetric] fresh_space_def space_at_def kernel_dir_def)
  moreover have "heap_grows s (start t y)"
    using same_heap_trans [OF yz(1) sm] by (intro heap_grows_trans [OF z(18)] same_heap_grows [OF z(7,8)])
  then have "heap_grows s (join_masked t z)"
    by (rule heap_grows_cong) (simp_all add: join_masked_eq y_def [symmetric])
  moreover have "fresh_thread t 31 Process_entry filename s (join_masked t z)"
    using fr by (simp add: join_masked_eq y_def [symmetric] fresh_thread_def frame)
  moreover have "kheap (j + 25) (join_masked t z) (started t 31 (add_thread t v))"
    using kh by (simp add: join_masked_eq y_def [symmetric] kheap_eflags)
  moreover have "sys_kept t s (join_masked t z)"
    using z(17) more_fields [OF start_more [of t y]] more_fields [of y z] yz(11)
    by (simp add: join_masked_eq y_def [symmetric] sys_kept_def frame yz)
  ultimately show thesis
    using z(1,2,16) sz sm yz
    by (intro that [of "join_masked t z" t]) (simp_all add: join_masked_eq y_def [symmetric] frame same_heap_def)
qed

end
