(* ===== verification/Loader.thy ===== *)
theory Loader
  imports Process_Run
begin

text \<open>
  The page tables the kernel starts with, \<^verbatim>\<open>setup_page\<close> of
  \<^verbatim>\<open>src/mbr_and_loader/loader.s\<close>, and the heap over them after \<^verbatim>\<open>mem_init\<close>.
\<close>

section \<open>\<^verbatim>\<open>setup_page\<close>\<close>

text \<open>A \<^verbatim>\<open>loop\<close> that stores the double word \<open>val i\<close> at \<open>at i\<close> in its round \<open>i\<close>.\<close>

primrec fill :: "(nat \<Rightarrow> u32) \<Rightarrow> (nat \<Rightarrow> u32) \<Rightarrow> nat \<Rightarrow> (u32 \<Rightarrow> u32) \<Rightarrow> u32 \<Rightarrow> u32" where
  "fill at val 0 ph = ph"
| "fill at val (Suc n) ph = (fill at val n ph)(at n := val n)"

definition PAGE_DIR_TABLE_POS :: u32 where "PAGE_DIR_TABLE_POS = 0x100000"

text \<open>
  The directory is cleared (its 4096 bytes, four at a time), entries 0 and 768 name the first table,
  entry 1023 the directory; the first table maps the lowest megabyte; entries 769 to 1022 name the
  tables behind it. Nothing clears those tables or the rest of the first one.
\<close>

definition setup_page :: "(u32 \<Rightarrow> u32) \<Rightarrow> u32 \<Rightarrow> u32" where
  "setup_page ph =
     (let ph = fill (\<lambda>i. PAGE_DIR_TABLE_POS + of_nat i * 4) (\<lambda>i. 0) 1024 ph;
          ebx = PAGE_DIR_TABLE_POS + 0x1000;
          eax = ebx OR (PG_US_U OR PG_RW_W OR PG_P_1);
          ph = ph(PAGE_DIR_TABLE_POS := eax);
          ph = ph(PAGE_DIR_TABLE_POS + 0xc00 := eax);
          eax = eax - 0x1000;
          ph = ph(PAGE_DIR_TABLE_POS + 4092 := eax);
          edx = PG_US_U OR PG_RW_W OR PG_P_1;
          ph = fill (\<lambda>i. ebx + of_nat i * 4) (\<lambda>i. edx + of_nat i * 4096) 256 ph;
          eax = (PAGE_DIR_TABLE_POS + 0x2000) OR (PG_US_U OR PG_RW_W OR PG_P_1)
      in fill (\<lambda>i. PAGE_DIR_TABLE_POS + of_nat (769 + i) * 4) (\<lambda>i. eax + of_nat i * 0x1000) 254 ph)"

lemma fill_other: "(\<And>i. i < n \<Longrightarrow> at i \<noteq> a) \<Longrightarrow> fill at val n ph a = ph a"
  by (induction n) auto

lemma fill_at:
  "i < n \<Longrightarrow> (\<And>k. i < k \<Longrightarrow> k < n \<Longrightarrow> at k \<noteq> at i) \<Longrightarrow> fill at val n ph (at i) = val i"
proof (induction n)
  case (Suc n)
  show ?case
  proof (cases "i = n")
    case False
    then have "i < n" using Suc.prems(1) by simp
    moreover from this have "at i \<noteq> at n" using Suc.prems(2) [of n] by auto
    ultimately show ?thesis using Suc by simp
  qed simp
qed simp

lemma unat_word_at:
  assumes "unat b + i * 4 < 4294967296"
  shows "unat (b + of_nat i * 4 :: u32) = unat b + i * 4"
  using assms by (simp add: unat_word_ariths unat_of_nat)

lemma setup_page_eq:
  "setup_page ph = fill (\<lambda>i. 0x100c04 + of_nat i * 4) (\<lambda>i. 0x102007 + of_nat i * 0x1000) 254
     (fill (\<lambda>i. 0x101000 + of_nat i * 4) (\<lambda>i. 7 + of_nat i * 4096) 256
     ((fill (\<lambda>i. 0x100000 + of_nat i * 4) (\<lambda>i. 0) 1024 ph)
       (0x100000 := 0x101007, 0x100c00 := 0x101007, 0x100ffc := 0x100007)))"
proof -
  have "(0x100000 :: u32) + of_nat (769 + i) * 4 = 0x100c04 + of_nat i * 4" for i
    by (simp add: algebra_simps)
  then show ?thesis
    by (simp add: setup_page_def PAGE_DIR_TABLE_POS_def PG_US_U_def PG_RW_W_def PG_P_1_def Let_def)
qed

lemma setup_page_entries:
  shows "setup_page ph 0x100000 = 0x101007" and "setup_page ph 0x100ffc = 0x100007"
    and "k < 255 \<Longrightarrow> setup_page ph (0x100c00 + of_nat k * 4) = 0x101007 + of_nat k * 0x1000"
    and "setup_page ph 0x101000 = 7"
    and "1053696 \<le> unat a \<or> unat a < 1048576 \<Longrightarrow> setup_page ph a = ph a"
proof -
  let ?p = "\<lambda>i. 0x100c04 + of_nat i * 4 :: u32" and ?t = "\<lambda>i. 0x101000 + of_nat i * 4 :: u32"
    and ?d = "\<lambda>i. 0x100000 + of_nat i * 4 :: u32"
  have u: "i < 1024 \<Longrightarrow> unat (?p i) = 1051652 + i * 4" "i < 1024 \<Longrightarrow> unat (?t i) = 1052672 + i * 4"
    "i < 1024 \<Longrightarrow> unat (?d i) = 1048576 + i * 4" for i
    by (simp_all add: unat_word_at)
  have skip_p: "fill ?p f 254 q a = q a" if "unat a \<le> 1051648 \<or> 1052668 \<le> unat a" for f q and a :: u32
  proof (rule fill_other)
    show "?p i \<noteq> a" if "i < 254" for i using u(1) [of i] that \<open>_ \<or> _\<close> by auto
  qed
  have skip_t: "fill ?t f 256 q a = q a" if "unat a < 1052672 \<or> 1053696 \<le> unat a" for f q and a :: u32
  proof (rule fill_other)
    show "?t i \<noteq> a" if "i < 256" for i using u(2) [of i] that \<open>_ \<or> _\<close> by auto
  qed
  have skip_d: "fill ?d f 1024 q a = q a" if "unat a < 1048576 \<or> 1052672 \<le> unat a" for f q and a :: u32
  proof (rule fill_other)
    show "?d i \<noteq> a" if "i < 1024" for i using u(3) [of i] that \<open>_ \<or> _\<close> by auto
  qed
  show "setup_page ph 0x100000 = 0x101007" "setup_page ph 0x100ffc = 0x100007"
    by (simp_all add: setup_page_eq skip_p skip_t)
  show "setup_page ph (0x100c00 + of_nat k * 4) = 0x101007 + of_nat k * 0x1000" if k: "k < 255"
  proof (cases k)
    case 0
    then show ?thesis by (simp add: setup_page_eq skip_p skip_t)
  next
    case (Suc j)
    then have a: "(0x100c00 + of_nat k * 4 :: u32) = ?p j" by simp
    have "fill ?p f 254 q (?p j) = f j" for f q
    proof (rule fill_at)
      show "?p i \<noteq> ?p j" if "j < i" "i < 254" for i
        using u(1) [of i] u(1) [of j] that Suc k by auto
    qed (use Suc k in simp)
    then show ?thesis unfolding setup_page_eq a by (simp add: Suc)
  qed
  have "fill ?t f 256 q (?t 0) = f 0" for f q
  proof (rule fill_at)
    show "?t k \<noteq> ?t 0" if "0 < k" "k < 256" for k using u(2) [of k] that by auto
  qed simp
  then show "setup_page ph 0x101000 = 7" by (simp add: setup_page_eq skip_p)
  show "setup_page ph a = ph a" if a: "1053696 \<le> unat a \<or> unat a < 1048576"
  proof -
    have "unat a \<noteq> 1048576" "unat a \<noteq> 1051648" "unat a \<noteq> 1052668" using a by auto
    then have "a \<noteq> 0x100000" "a \<noteq> 0x100c00" "a \<noteq> 0x100ffc" by auto
    moreover have "unat a \<le> 1051648 \<or> 1052668 \<le> unat a" "unat a < 1052672 \<or> 1053696 \<le> unat a"
      "unat a < 1048576 \<or> 1052672 \<le> unat a" using a by auto
    ultimately show ?thesis by (simp add: setup_page_eq skip_p skip_t skip_d)
  qed
qed

text \<open>The first megabyte, low and at \<open>0xc0000000\<close>.\<close>

lemma unat_add_high: "unat x < 0x100000 \<Longrightarrow> unat (0xc0000000 + x :: u32) = 0xc0000000 + unat x"
  by (simp add: unat_word_ariths)

lemma setup_page_first_table:
  assumes "i < 256"
  shows "setup_page ph (0x101000 + of_nat i * 4) = of_nat i * 4096 + 7"
proof -
  let ?p = "\<lambda>i. 0x100c04 + of_nat i * 4 :: u32" and ?t = "\<lambda>i. 0x101000 + of_nat i * 4 :: u32"
  have u: "k < 256 \<Longrightarrow> unat (?p k) = 1051652 + k * 4" "k < 256 \<Longrightarrow> unat (?t k) = 1052672 + k * 4" for k
    by (simp_all add: unat_word_at)
  have "fill ?p f 254 q (?t i) = q (?t i)" for f q
  proof (rule fill_other)
    show "?p k \<noteq> ?t i" if "k < 254" for k using u(1) [of k] u(2) [OF assms] that by auto
  qed
  moreover have "fill ?t f 256 q (?t i) = f i" for f q
  proof (rule fill_at [OF assms])
    show "?t k \<noteq> ?t i" if "i < k" "k < 256" for k using u(2) [of k] u(2) [OF assms] that by auto
  qed
  ultimately show ?thesis by (simp add: setup_page_eq)
qed

lemma setup_page_walk:
  assumes x: "unat y = unat x \<or> unat y = 0xc0000000 + unat x" "unat x < 0x100000"
  shows "walk (setup_page ph) 0x100000 y = Some (frame_of x + (y AND 0xfff))"
proof -
  define i where "i = unat x div 4096"
  have i: "i < 256" using x(2) by (simp add: i_def)
  have "unat (PDE_IDX y) = 0 \<or> unat (PDE_IDX y) = 768" using x by (auto simp: unat_PDE_IDX)
  then have "PDE_IDX y = 0 \<or> PDE_IDX y = 768" by (simp add: unat_eq_iff [symmetric])
  then have d: "setup_page ph (0x100000 + PDE_IDX y * 4) = 0x101007"
    using setup_page_entries(1) [of ph] setup_page_entries(3) [of 0 ph] by auto
  have "(3221225472 + unat x) div 4096 = i + 768 * 1024" by (simp add: i_def)
  moreover have "(i + 768 * 1024) mod 1024 = i" using i by (simp only: mod_mult_self1 mod_less)
  moreover have "unat x div 4096 mod 1024 = i" using i by (simp add: i_def)
  ultimately have "unat y div 4096 mod 1024 = i" using x(1) by (elim disjE) simp_all
  then have "unat (PTE_IDX y) = i" by (simp add: unat_PTE_IDX)
  then have "PTE_IDX y = of_nat i" by (metis of_nat_unat ucast_id)
  then have t: "setup_page ph (0x101000 + PTE_IDX y * 4) = of_nat i * 4096 + 7"
    using setup_page_first_table [OF i] by simp
  have u: "unat (of_nat i * 4096 :: u32) = i * 4096" using i by (simp add: unat_word_ariths unat_of_nat)
  have al: "aligned (of_nat i * 4096)" unfolding aligned_def unat_eq_0 [symmetric] unat_off u by simp
  have "frame_of x + (x AND 0xfff) = x" "aligned (frame_of x)" by (rule frame_and_off aligned_frame)+
  moreover have o: "unat (x AND 0xfff) = unat x mod 4096" by (simp add: unat_off)
  ultimately have "unat x = unat (frame_of x) + unat x mod 4096"
    using unat_aligned_add [of "frame_of x" "x AND 0xfff"] by simp
  then have "unat (frame_of x) = i * 4096" unfolding i_def by (metis add_right_cancel div_mult_mod_eq)
  then have "frame_of x = of_nat i * 4096" using u by (simp only: unat_eq_iff [symmetric])
  moreover have "frame_of (of_nat i * 4096 + 7) = of_nat i * 4096" using aligned_add(2) [OF al, of 7] by simp
  moreover have w: "(of_nat i * 4096 + 7) AND 0xfff = (7 :: u32)" using aligned_add(1) [OF al, of 7] by simp
  have "(w AND 0xfff) AND 1 = w AND 1" for w :: u32 by (simp add: and.assoc)
  from this [of "of_nat i * 4096 + 7"] have "(of_nat i * 4096 + 7) AND 1 = (7 AND 1 :: u32)" unfolding w by (rule sym)
  then have "(of_nat i * 4096 + 7) AND 1 \<noteq> (0 :: u32)" by simp
  ultimately show ?thesis
    using d t by (simp add: walk_def frame_of_def [of "0x100000"] frame_of_def [of "0x101007"])
qed

lemma setup_page_low:
  assumes "unat x < 0x100000"
  shows "walk (setup_page ph) 0x100000 x = Some x" and "walk (setup_page ph) 0x100000 (0xc0000000 + x) = Some x"
proof -
  have "(0xc0000000 + n) mod 4096 = n mod 4096" for n :: nat
    by (subst mod_add_left_eq [symmetric]) simp
  then have "unat ((0xc0000000 + x) AND 0xfff) = unat (x AND 0xfff)"
    by (simp add: unat_off unat_add_high [OF assms])
  then have "(0xc0000000 + x) AND 0xfff = x AND 0xfff" by (simp only: unat_eq_iff)
  moreover have "frame_of x + (x AND 0xfff) = x" by (rule frame_and_off)
  ultimately show "walk (setup_page ph) 0x100000 x = Some x" "walk (setup_page ph) 0x100000 (0xc0000000 + x) = Some x"
    using setup_page_walk [of x x ph] setup_page_walk [of "0xc0000000 + x" x ph] unat_add_high [OF assms] assms
    by simp_all
qed

section \<open>The tables of the heap\<close>

lemma heap_slot:
  assumes x: "0xc0100000 \<le> unat x" "unat x < 0xfb000000" and k: "k = unat x div 4194304 - 768"
  shows "pde_slot 0x100000 x = 0x100c00 + of_nat k * 4" and "k < 236"
    and "k = 0 \<Longrightarrow> 256 \<le> unat x div 4096 mod 1024"
proof -
  have d: "768 \<le> unat x div 4194304" "unat x div 4194304 < 1004" using x by linarith+
  then show k': "k < 236" using k by linarith
  have i: "unat (PDE_IDX x) = 768 + k" using d k by (simp add: unat_PDE_IDX)
  then have "PDE_IDX x = of_nat (768 + k)" by (metis of_nat_unat ucast_id)
  then show s: "pde_slot 0x100000 x = 0x100c00 + of_nat k * 4"
    by (simp add: pde_slot_def frame_of_def algebra_simps)
  assume "k = 0"
  then have "unat x div 4194304 = 768" using k d by linarith
  then have "unat x < 3225419776" by linarith
  then have n: "786688 \<le> unat x div 4096" "unat x div 4096 < 787456" using x(1) by linarith+
  define r where "r = unat x div 4096 - 786432"
  have "unat x div 4096 = r + 768 * 1024" "256 \<le> r" "r < 1024" using n by (simp_all add: r_def)
  then show "256 \<le> unat x div 4096 mod 1024" by (simp only: mod_mult_self1 mod_less)
qed

lemma setup_page_slots:
  assumes x: "0xc0100000 \<le> unat x" "unat x < 0xfb000000" and k: "k = unat x div 4194304 - 768"
  shows "frame_of (setup_page ph (pde_slot 0x100000 x)) = 0x101000 + of_nat k * 0x1000"
    and "setup_page ph (pde_slot 0x100000 x) AND 1 = 1"
    and "unat (pte_slot (setup_page ph) 0x100000 x) = 1052672 + k * 4096 + (unat x div 4096 mod 1024) * 4"
    and "1053696 \<le> unat (pte_slot (setup_page ph) 0x100000 x)"
proof -
  note s = heap_slot(1) [OF assms] and k' = heap_slot(2) [OF assms]
  have e: "setup_page ph (pde_slot 0x100000 x) = (0x101000 + of_nat k * 0x1000) + 7"
    unfolding s using setup_page_entries(3) [of k ph] k' by simp
  have ua: "unat (0x101000 + of_nat k * 0x1000 :: u32) = 1052672 + k * 4096"
    using k' by (simp add: unat_word_ariths unat_of_nat)
  have "(1052672 + k * 4096) mod 4096 = 0" by presburger
  then have al: "aligned (0x101000 + of_nat k * 0x1000)"
    unfolding aligned_def unat_eq_0 [symmetric] unat_off ua .
  show f: "frame_of (setup_page ph (pde_slot 0x100000 x)) = 0x101000 + of_nat k * 0x1000"
    unfolding e by (rule aligned_add(2) [OF al]) simp
  have "(setup_page ph (pde_slot 0x100000 x)) AND 0xfff = 7"
    unfolding e by (rule aligned_add(1) [OF al]) simp
  then have "(setup_page ph (pde_slot 0x100000 x) AND 0xfff) AND 1 = 1" by simp
  moreover have "(w AND 0xfff) AND 1 = w AND 1" for w :: u32 by (simp add: and.assoc)
  ultimately show "setup_page ph (pde_slot 0x100000 x) AND 1 = 1" by simp
  have "PTE_IDX x = of_nat (unat x div 4096 mod 1024)" by (metis unat_PTE_IDX of_nat_unat ucast_id)
  then show p: "unat (pte_slot (setup_page ph) 0x100000 x) = 1052672 + k * 4096 + (unat x div 4096 mod 1024) * 4"
    unfolding pte_slot_def f using ua k' by (simp add: unat_word_ariths unat_of_nat)
  show "1053696 \<le> unat (pte_slot (setup_page ph) 0x100000 x)"
    unfolding p using heap_slot(3) [OF assms] by (cases "k = 0") auto
qed

lemma setup_page_tables:
  assumes all: "0x200000 \<le> all_mem" "all_mem \<le> 0x70000000"
    and clear: "\<And>a. 1053696 \<le> unat a \<Longrightarrow> unat a < 2097152 \<Longrightarrow> ph a AND 1 = 0"
  shows "tables_ok (the_heap_pool all_mem) (the_kernel_pool all_mem) 0x100000 (setup_page ph)"
    and "x \<in> pages (the_heap_pool all_mem) \<Longrightarrow>
      setup_page ph (pte_slot (setup_page ph) 0x100000 x) AND 1 = 0"
proof -
  let ?P = "setup_page ph" and ?vp = "the_heap_pool all_mem" and ?fp = "the_kernel_pool all_mem"
  note wf = pools_wf [OF all]
  have "unat all_mem \<le> 1879048192" using all(2) by (simp add: word_le_nat_alt)
  then have n: "unat (kernel_pages all_mem) \<le> 229120" using page_counts(1) [OF all(1)] by linarith
  have vx: "0xc0100000 \<le> unat x" "unat x < 0xfb000000" "unat x mod 4096 = 0" if "x \<in> pages ?vp" for x
    using pages_range [OF wf(3) that] n unat_off [of x] pages_aligned [OF wf(3) that]
    by (simp_all add: the_heap_pool_def new_pool_def K_HEAP_START_def aligned_def)
  have fx: "2097152 \<le> unat f" if "f \<in> pages ?fp" for f
    using pages_range(1) [OF wf(1) that] by (simp add: the_kernel_pool_def new_pool_def)
  have fr: "frame_of 0x100000 = 0x100000" by (simp add: frame_of_def)
  have small: "unat (0x101000 + of_nat k * 0x1000 :: u32) = 1052672 + k * 4096" if "k < 236" for k
    using that by (simp add: unat_word_ariths unat_of_nat)
  have "selfmap ?P 0x100000" by (simp add: selfmap_def fr setup_page_entries(2) frame_of_def)
  moreover have "0x100000 \<notin> pages ?fp" using fx [of "0x100000"] by auto
  moreover have "?P (pde_slot 0x100000 x) AND 1 \<noteq> 0 \<and> frame_of (?P (pde_slot 0x100000 x)) \<noteq> 0x100000
      \<and> frame_of (?P (pde_slot 0x100000 x)) \<notin> pages ?fp" if "x \<in> pages ?vp" for x
  proof -
    note s = setup_page_slots [OF vx(1,2) [OF that] refl, where ph = ph] and kx = heap_slot(2) [OF vx(1,2) [OF that] refl]
    have "unat (frame_of (?P (pde_slot 0x100000 x))) < 2097152 \<and> unat (frame_of (?P (pde_slot 0x100000 x))) \<noteq> 1048576"
      unfolding s(1) small [OF kx] using kx by linarith
    then show ?thesis using s(2) fx by fastforce
  qed
  moreover have "inj_on (pte_slot ?P 0x100000) (pages ?vp)"
  proof (rule inj_onI)
    fix x y assume xy: "x \<in> pages ?vp" "y \<in> pages ?vp" "pte_slot ?P 0x100000 x = pte_slot ?P 0x100000 y"
    note sx = setup_page_slots [OF vx(1,2) [OF xy(1)] refl, where ph = ph]
      and sy = setup_page_slots [OF vx(1,2) [OF xy(2)] refl, where ph = ph]
    define i where "i = unat x div 4194304 - 768"
    define j where "j = unat y div 4194304 - 768"
    have e: "i * 4096 + (unat x div 4096 mod 1024) * 4 = j * 4096 + (unat y div 4096 mod 1024) * 4"
      using sx(3) sy(3) xy(3) by (simp add: i_def j_def)
    have "unat x div 4096 mod 1024 < 1024" "unat y div 4096 mod 1024 < 1024" by simp_all
    then have ij: "i = j" using e by linarith
    with e have "unat x div 4096 mod 1024 = unat y div 4096 mod 1024" by simp
    moreover have "unat x div 4194304 = unat y div 4194304"
      using ij vx(1) [OF xy(1)] vx(1) [OF xy(2)] unfolding i_def j_def by linarith
    then have "unat x div 4096 div 1024 = unat y div 4096 div 1024" by (simp add: div_mult2_eq [symmetric])
    ultimately have "unat x div 4096 = unat y div 4096" by (metis div_mult_mod_eq)
    then have "unat x = unat y" using vx(3) [OF xy(1)] vx(3) [OF xy(2)] by (metis div_mult_mod_eq)
    then show "x = y" by (simp only: unat_eq_iff)
  qed
  ultimately show "tables_ok ?vp ?fp 0x100000 ?P" by (simp add: tables_ok_def fr)
  show "?P (pte_slot ?P 0x100000 x) AND 1 = 0" if "x \<in> pages ?vp"
  proof -
    note s = setup_page_slots [OF vx(1,2) [OF that] refl, where ph = ph] and kx = heap_slot(2) [OF vx(1,2) [OF that] refl]
    have "unat x div 4096 mod 1024 < 1024" by simp
    then have "unat (pte_slot ?P 0x100000 x) < 2097152" unfolding s(3) using kx by linarith
    then show ?thesis using setup_page_entries(5) [of "pte_slot ?P 0x100000 x" ph] clear s(4) by simp
  qed
qed

end
