(* ===== verification/Fairness.thy ===== *)
theory Fairness
  imports System
begin

text \<open>
  No thread starves under the clock. A thread that runs through its slice goes to the tail of the next
  queue, and from the last queue to the first one; the head of the first non-empty queue runs. \<open>turns\<close>
  counts how often another thread can still run before a given one; every slice lowers one of these
  numbers by one and leaves the others.
\<close>

section \<open>Turns\<close>

definition turns :: "'a kstate_scheme \<Rightarrow> kview \<Rightarrow> addr \<Rightarrow> addr \<Rightarrow> nat" where
  "turns s v t u =
     (if prio_of u s < prio_of t s then unat (prio_of t s) - unat (prio_of u s)
      else if prio_of u s = prio_of t s \<and> u \<in> set (takeWhile (\<lambda>x. x \<noteq> t) (vq v (prio_of t s)))
      then (if prio_of t s = 31 then 32 else 1)
      else 0)"

text \<open>All turns of other threads before the one of \<open>t\<close>.\<close>

definition ahead :: "'a kstate_scheme \<Rightarrow> kview \<Rightarrow> addr \<Rightarrow> nat" where
  "ahead s v t = (\<Sum>u\<in>queued v - {t}. turns s v t u)"

lemma finite_queued [simp]: "finite (queued v)"
  by (simp add: queued_def)

lemma prio_in_queue: "rq_inv s v \<Longrightarrow> p < PRIO_NUM \<Longrightarrow> u \<in> set (vq v p) \<Longrightarrow> prio_of u s = p"
  by (simp add: rq_inv_def prio_ok_def)

lemma unat_next_prio: "p < PRIO_NUM \<Longrightarrow> unat (next_prio p) = (if unat p = 31 then 0 else unat p + 1)"
  by (auto simp: next_prio_def PRIO_NUM_def word_less_nat_alt unat_mod unat_word_ariths)

lemma prio31: "(p :: u32) = 31 \<longleftrightarrow> unat p = 31"
  using unat_eq_iff [of p 31] by simp

lemma vq_requeue:
  assumes "p < PRIO_NUM"
  shows "vq (requeue r p v) x =
    (if x = next_prio p then vq v x @ [r] else if x = p then remove1 r (vq v p) else vq v x)"
proof -
  have "next_prio p \<noteq> p" using unat_next_prio [OF assms] by (auto split: if_splits)
  then show ?thesis by (simp add: requeue_def view_defs)
qed

lemma turns_le:
  assumes "prio_of t s < PRIO_NUM"
  shows "turns s v t u \<le> 32"
  using assms by (auto simp: turns_def PRIO_NUM_def word_less_nat_alt)

lemma ahead_le:
  assumes "rq_inv s v" and "t \<in> queued v"
  shows "ahead s v t \<le> 32 * (card (queued v) - 1)"
proof -
  from assms(2) obtain p where "p < PRIO_NUM" "t \<in> set (vq v p)" by (auto simp: queued_def)
  then have "prio_of t s < PRIO_NUM" using prio_in_queue [OF assms(1)] by simp
  then have "ahead s v t \<le> (\<Sum>u\<in>queued v - {t}. 32)" unfolding ahead_def by (intro sum_mono turns_le)
  then show ?thesis using assms(2) by simp
qed

lemma takeWhile_tl: "xs \<noteq> [] \<Longrightarrow> hd xs \<noteq> t \<Longrightarrow>
    set (takeWhile (\<lambda>x. x \<noteq> t) xs) = insert (hd xs) (set (takeWhile (\<lambda>x. x \<noteq> t) (tl xs)))"
  by (cases xs) auto

lemma turns_requeue:
  assumes rq: "rq_inv s v" "rq_inv s' (requeue r p v)" and r: "least_q v p" "r = hd (vq v p)"
    and t: "t \<in> queued v" "t \<noteq> r" and u: "u \<in> queued v" "u \<noteq> t"
  shows "turns s v t u = turns s' (requeue r p v) t u + (if u = r then 1 else 0)"
proof -
  let ?v' = "requeue r p v"
  have p: "p < PRIO_NUM" "vq v p \<noteq> []" "\<And>x. x < p \<Longrightarrow> vq v x = []" using r(1) by (auto simp: least_q_def)
  note v' = vq_requeue [OF p(1), of r v]
  have tl: "remove1 r (vq v p) = tl (vq v p)" using p(2) r(2) by (cases "vq v p") auto
  have keep: "prio_of x s < PRIO_NUM \<and> x \<in> set (vq v (prio_of x s)) \<and> (x \<noteq> r \<longrightarrow> prio_of x s' = prio_of x s)"
    if "x \<in> queued v" for x
  proof -
    from that obtain q where q: "q < PRIO_NUM" "x \<in> set (vq v q)" by (auto simp: queued_def)
    then have "x \<in> set (vq ?v' q)" if "x \<noteq> r" using that by (auto simp: v' in_set_remove1)
    then show ?thesis using q prio_in_queue [OF rq(1) q] prio_in_queue [OF rq(2) q(1)] by auto
  qed
  note kt = keep [OF t(1)] and ku = keep [OF u(1)]
  let ?q = "prio_of t s"
  have qt: "prio_of t s' = ?q" using kt t(2) by simp
  have le: "p \<le> ?q" using kt p(3) [of ?q] by (metis empty_iff list.set(1) linorder_not_le)
  have ahead: "set (takeWhile (\<lambda>x. x \<noteq> t) (vq v ?q))
      = (if ?q = p then {r} else {}) \<union> set (takeWhile (\<lambda>x. x \<noteq> t) (vq ?v' ?q))"
  proof -
    have "takeWhile (\<lambda>x. x \<noteq> t) (vq v ?q @ [r]) = takeWhile (\<lambda>x. x \<noteq> t) (vq v ?q)"
      using kt by (intro takeWhile_append1 [of t]) auto
    moreover have "next_prio p \<noteq> p" using unat_next_prio [OF p(1)] by (auto split: if_splits)
    ultimately show ?thesis
      using takeWhile_tl [OF p(2), of t, folded r(2)] t(2) by (auto simp: v' tl)
  qed
  show ?thesis
  proof (cases "u = r")
    case False
    then show ?thesis using ku qt ahead by (simp add: turns_def)
  next
    case True
    have pr: "prio_of r s = p" using p r(2) prio_in_queue [OF rq(1) p(1)] by simp
    have "r \<in> set (vq ?v' (next_prio p))" by (simp add: v')
    from prio_in_queue [OF rq(2) next_prio_less this] have pr': "prio_of r s' = next_prio p" .
    have "r \<notin> set (takeWhile (\<lambda>x. x \<noteq> t) (vq ?v' ?q))"
    proof (cases "?q = p")
      case True
      have "distinct (vq v p)" using queue_distinct [OF rq(1) p(1)] .
      then have "r \<notin> set (tl (vq v p))" using p(2) r(2) by (cases "vq v p") auto
      moreover have "next_prio p \<noteq> p" using unat_next_prio [OF p(1)] by (auto split: if_splits)
      ultimately have "r \<notin> set (vq ?v' p)" by (simp add: v' tl)
      then show ?thesis using True set_takeWhileD [of r "\<lambda>x. x \<noteq> t" "vq ?v' p"] by blast
    next
      case False
      then have "r \<notin> set (vq v ?q)" using pr kt prio_in_queue [OF rq(1), of ?q r] by auto
      moreover have "set (takeWhile (\<lambda>x. x \<noteq> t) (vq v ?q)) = set (takeWhile (\<lambda>x. x \<noteq> t) (vq ?v' ?q))"
        using ahead False by simp
      ultimately show ?thesis using set_takeWhileD [of r "\<lambda>x. x \<noteq> t" "vq v ?q"] by blast
    qed
    then have t2: "turns s' ?v' t r = (if next_prio p < ?q then unat ?q - unat (next_prio p) else 0)"
      by (simp add: turns_def pr' qt)
    have "r \<in> set (takeWhile (\<lambda>x. x \<noteq> t) (vq v ?q))" if "?q = p" using ahead that by simp
    then have t1: "turns s v t r = (if p < ?q then unat ?q - unat p else if ?q = 31 then 32 else 1)"
      using le by (auto simp: turns_def pr)
    have q: "unat p \<le> unat ?q" "unat ?q < 32"
      using le kt by (simp_all add: word_le_nat_alt word_less_nat_alt PRIO_NUM_def)
    show ?thesis
      unfolding True t1 t2 word_less_nat_alt prio31 unat_next_prio [OF p(1)] using q by auto
  qed
qed

lemma ahead_requeue:
  assumes rq: "rq_inv s v" "rq_inv s' (requeue r p v)" and r: "least_q v p" "r = hd (vq v p)"
    and t: "t \<in> queued v" "t \<noteq> r" and q: "queued (requeue r p v) = queued v"
  shows "ahead s v t = Suc (ahead s' (requeue r p v) t)"
proof -
  let ?A = "queued v - {t}"
  have "r \<in> ?A" using r t(2) by (auto simp: least_q_def queued_def)
  then have one: "(\<Sum>u\<in>?A. if u = r then 1 else 0) = (1 :: nat)" by simp
  have "ahead s v t = (\<Sum>u\<in>?A. turns s' (requeue r p v) t u + (if u = r then 1 else 0))"
    unfolding ahead_def by (rule sum.cong) (use turns_requeue [OF rq r t] in auto)
  then show ?thesis using one by (simp add: sum.distrib ahead_def q)
qed

section \<open>Slices\<close>

text \<open>What the clock needs and keeps; no thread has more than \<open>K\<close> ticks left.\<close>

definition clocked :: "u32 set \<Rightarrow> nat \<Rightarrow> kernel \<Rightarrow> kview \<Rightarrow> bool" where
  "clocked D K s v \<longleftrightarrow>
     kinv s v \<and> (\<forall>t\<in>vt v. tcb_stack_magic (tcbs s t) = STACK_MAGIC) \<and> spaces_ok D s (vt v)
     \<and> (\<forall>t\<in>vt v. unat (tcb_ticks (tcbs s t)) \<le> K)"

lemma clockedD:
  assumes "clocked D K s v"
  shows "kinv s v" "t \<in> vt v \<Longrightarrow> tcb_stack_magic (tcbs s t) = STACK_MAGIC" "spaces_ok D s (vt v)"
    "t \<in> vt v \<Longrightarrow> unat (tcb_ticks (tcbs s t)) \<le> K" "RUNNING_THREAD s \<in> vt v" "rq_inv s v"
  using assms sinv_parts(1,2) [OF kinvD(1)] by (auto simp: clocked_def)

lemma clock_tick:
  assumes c: "clocked D K s v" and K: "11 \<le> K" and r: "r = RUNNING_THREAD s"
    and fin: "fin \<longleftrightarrow> tcb_ticks (tcbs s r) = 0 \<or> need_schedule s"
    and v': "v' = (if fin then requeue r (prio_of r s) v else v)"
  obtains s' where "clock_interrupt esp s = Inr s'" and "clocked D K s' v'" and "queued v' = queued v"
    and "fin \<Longrightarrow> \<exists>p. least_q v' p \<and> RUNNING_THREAD s' = hd (vq v' p)"
    and "\<not> fin \<Longrightarrow> RUNNING_THREAD s' = r \<and> tcb_ticks (tcbs s' r) = tcb_ticks (tcbs s r) - 1
      \<and> prio_of r s' = prio_of r s"
proof -
  note k = clockedD(1) [OF c] and sp = clockedD(3) [OF c]
  have mg: "tcb_stack_magic (tcbs s r) = STACK_MAGIC" using clockedD(2,5) [OF c] r by simp
  have act: "activatable t s" if "t \<in> vt v" for t using sp that by (rule spaces_activatable)
  obtain s' where s': "clock_interrupt esp s = Inr s'" "kinv s' v'" "sem_val s' = sem_val s" "mtx_holder s' = mtx_holder s"
    "if fin then switched s s' else same_dirs s s' \<and> cr3 s' = cr3 s"
    "\<not> fin \<Longrightarrow> RUNNING_THREAD s' = r \<and> tcb_ticks (tcbs s' r) = tcb_ticks (tcbs s r) - 1
      \<and> \<not> need_schedule s' \<and> prio_of r s' = prio_of r s"
    "fin \<Longrightarrow> prio_of r s' = next_prio (prio_of r s) \<and> (\<exists>p. least_q v' p \<and> RUNNING_THREAD s' = hd (vq v' p))"
    "\<forall>u. u \<noteq> r \<longrightarrow> tcb_ticks (tcbs s' u) = tcb_ticks (tcbs s u)"
    "fin \<Longrightarrow> \<not> need_schedule s' \<and> tcb_ticks (tcbs s' r) = ticks_get (next_prio (prio_of r s))"
    by (rule clock_interrupt_kinv [OF k mg r act fin v', where esp = esp]) (assumption, (rule that; simp))
  have vt: "vt v' = vt v" and q: "queued v' = queued v"
    using requeue_pinv(2) [OF kinvD(1) [OF k] r] by (simp_all add: v')
  have "RUNNING_THREAD s' \<in> vt v" using sinv_parts(2) [OF kinvD(1) [OF s'(2)]] vt by simp
  note d = spaces_interrupt [OF sp this s'(5)]
  have "unat (tcb_ticks (tcbs s' u)) \<le> K" if "u \<in> vt v" for u
  proof (cases "u = r")
    case True
    then show ?thesis
      using s'(6,9) slice_length [of "prio_of r s"] K clockedD(4) [OF c that] fin
      by (cases fin) (auto simp: unat_minus_one)
  next
    case False
    then show ?thesis using s'(8) clockedD(4) [OF c that] by simp
  qed
  then have "clocked D K s' v'" using s'(2) d clockedD(2) [OF c] by (simp add: clocked_def vt same_dirs_def)
  then show thesis using s' q by (intro that [of s']) auto
qed

text \<open>The rest of a slice.\<close>

lemma slice_rest:
  assumes "clocked D K s v" and "11 \<le> K" and "r = RUNNING_THREAD s" and "unat (tcb_ticks (tcbs s r)) = n"
    and "v' = requeue r (prio_of r s) v"
  shows "\<exists>m\<le>n + 1. \<exists>s' p. clock_run m esp s = Inr s' \<and> clocked D K s' v' \<and> queued v' = queued v
    \<and> least_q v' p \<and> RUNNING_THREAD s' = hd (vq v' p)"
  using assms
proof (induction n arbitrary: s)
  case (0 s)
  then have "True \<longleftrightarrow> tcb_ticks (tcbs s r) = 0 \<or> need_schedule s" by (simp add: unat_eq_0)
  then obtain s' where "clock_interrupt esp s = Inr s'" "clocked D K s' v'" "queued v' = queued v"
    "\<exists>p. least_q v' p \<and> RUNNING_THREAD s' = hd (vq v' p)"
    using clock_tick [OF 0(1-3), of True v' esp] 0(5) by auto
  then show ?case by (intro exI [of _ 1]) auto
next
  case (Suc n s)
  define fin where "fin \<longleftrightarrow> tcb_ticks (tcbs s r) = 0 \<or> need_schedule s"
  obtain s1 where s1: "clock_interrupt esp s = Inr s1" "clocked D K s1 (if fin then v' else v)"
    "queued (if fin then v' else v) = queued v"
    "fin \<Longrightarrow> \<exists>p. least_q (if fin then v' else v) p \<and> RUNNING_THREAD s1 = hd (vq (if fin then v' else v) p)"
    "\<not> fin \<Longrightarrow> RUNNING_THREAD s1 = r \<and> tcb_ticks (tcbs s1 r) = tcb_ticks (tcbs s r) - 1 \<and> prio_of r s1 = prio_of r s"
    by (rule clock_tick [OF Suc.prems(1-3) fin_def, of "if fin then v' else v" esp]) (use Suc.prems(5) in auto)
  show ?case
  proof (cases fin)
    case True
    then show ?thesis using s1 by (intro exI [of _ 1]) auto
  next
    case False
    then have "unat (tcb_ticks (tcbs s1 r)) = n" using s1(5) Suc.prems(4) by (simp add: fin_def unat_minus_one)
    then obtain m s' p where "m \<le> n + 1" "clock_run m esp s1 = Inr s'" "clocked D K s' v'" "queued v' = queued v"
      "least_q v' p" "RUNNING_THREAD s' = hd (vq v' p)"
      using Suc.IH [of s1] s1(2,5) False Suc.prems(2,5) by auto
    then show ?thesis using s1(1) by (intro exI [of _ "Suc m"]) auto
  qed
qed

section \<open>Every thread gets its turn\<close>

lemma turn_comes:
  assumes "clocked D K s v" and "11 \<le> K" and "t \<in> queued v" and "least_q v p" and "RUNNING_THREAD s = hd (vq v p)"
    and "ahead s v t = n"
  shows "\<exists>m\<le>(K + 1) * n. \<exists>s'. clock_run m esp s = Inr s' \<and> RUNNING_THREAD s' = t"
  using assms
proof (induction n arbitrary: s v p rule: less_induct)
  case (less n s v p)
  let ?r = "RUNNING_THREAD s"
  note rq = clockedD(6) [OF less.prems(1)]
  show ?case
  proof (cases "?r = t")
    case True
    then show ?thesis by (intro exI [of _ 0]) auto
  next
    case False
    have "p < PRIO_NUM" "?r \<in> set (vq v p)" using less.prems(4,5) by (auto simp: least_q_def)
    then have pr: "prio_of ?r s = p" by (rule prio_in_queue [OF rq])
    let ?v' = "requeue ?r p v"
    obtain m s1 q where m: "m \<le> unat (tcb_ticks (tcbs s ?r)) + 1" "clock_run m esp s = Inr s1" "clocked D K s1 ?v'"
      "queued ?v' = queued v" "least_q ?v' q" "RUNNING_THREAD s1 = hd (vq ?v' q)"
      using slice_rest [OF less.prems(1,2) refl refl refl, where esp = esp] unfolding pr by blast
    have "n = Suc (ahead s1 ?v' t)"
      using ahead_requeue [OF rq clockedD(6) [OF m(3)] less.prems(4,5,3) _ m(4)] False less.prems(6) by simp
    moreover from this obtain k s2 where k: "k \<le> (K + 1) * ahead s1 ?v' t" "clock_run k esp s1 = Inr s2"
      "RUNNING_THREAD s2 = t"
      using less.IH [OF _ m(3) less.prems(2) _ m(5,6) refl] m(4) less.prems(3) by auto
    ultimately have "m + k \<le> (K + 1) * n"
      using m(1) clockedD(4) [OF less.prems(1) clockedD(5) [OF less.prems(1)]] by simp
    moreover have "clock_run (m + k) esp s = Inr s2" using m(2) k(2) by (simp add: clock_run_add)
    ultimately show ?thesis using k(3) by blast
  qed
qed

lemma every_turn_comes:
  assumes c: "clocked D K s v" and K: "11 \<le> K" and t: "t \<in> queued v"
  shows "\<exists>m\<le>(K + 1) * (32 * (card (queued v) - 1) + 1). \<exists>s'. clock_run m esp s = Inr s' \<and> RUNNING_THREAD s' = t"
proof -
  let ?r = "RUNNING_THREAD s" and ?v' = "requeue (RUNNING_THREAD s) (prio_of (RUNNING_THREAD s) s) v"
  obtain m s1 q where m: "m \<le> unat (tcb_ticks (tcbs s ?r)) + 1" "clock_run m esp s = Inr s1" "clocked D K s1 ?v'"
    "queued ?v' = queued v" "least_q ?v' q" "RUNNING_THREAD s1 = hd (vq ?v' q)"
    using slice_rest [OF c K refl refl refl, where esp = esp] by blast
  have t': "t \<in> queued ?v'" using t m(4) by simp
  obtain k s2 where k: "k \<le> (K + 1) * ahead s1 ?v' t" "clock_run k esp s1 = Inr s2" "RUNNING_THREAD s2 = t"
    using turn_comes [OF m(3) K t' m(5,6) refl, where esp = esp] by blast
  have "ahead s1 ?v' t \<le> 32 * (card (queued v) - 1)" using ahead_le [OF clockedD(6) [OF m(3)] t'] m(4) by simp
  then have "(K + 1) * ahead s1 ?v' t \<le> (K + 1) * (32 * (card (queued v) - 1))" by (rule mult_le_mono2)
  then have "m + k \<le> (K + 1) * (32 * (card (queued v) - 1) + 1)"
    using m(1) k(1) clockedD(4) [OF c clockedD(5) [OF c]] by simp
  moreover have "clock_run (m + k) esp s = Inr s2" using m(2) k(2) by (simp add: clock_run_add)
  ultimately show ?thesis using k(3) by blast
qed

end
