(* ===== verification/Boot.thy ===== *)
theory Boot
  imports Loader User_Mode Descriptors Fairness
begin

text \<open>
  The start of the kernel, composed: from the state the loader leaves, through \<^verbatim>\<open>init_all\<close>
  of \<^verbatim>\<open>src/kernel/init.c\<close>, to the threads and processes that \<^verbatim>\<open>main\<close>
  (\<^verbatim>\<open>src/kernel/main.c\<close>) starts.
\<close>

section \<open>The heap after \<^verbatim>\<open>mem_init\<close>\<close>

lemma maps_below_heap:
  assumes all: "0x200000 \<le> all_mem" "all_mem \<le> 0x70000000"
    and a: "in_map (btmp (the_heap_pool all_mem)) a \<or> in_map (btmp (the_kernel_pool all_mem)) a"
  shows "unat a < 0xc0100000"
proof -
  have "unat all_mem \<le> 1879048192" using all(2) by (simp add: word_le_nat_alt)
  then have a': "(unat all_mem - 2097152) div 4096 \<le> 458240" by linarith
  note c = page_counts [OF all(1)] and b = bitmap_bases [OF all(1)]
  let ?k = "unat (bit_num_2_byte_len (kernel_pages all_mem))" and ?u = "unat (bit_num_2_byte_len (user_pages all_mem))"
  have k: "?k \<le> 28641" using c(1) a' unfolding unat_byte_len by linarith
  have u: "?u \<le> 57281" using c(2) a' unfolding unat_byte_len by linarith
  have near: "unat a < unat (base_addr m) + n" if "in_map m a" "unat (byte_len m) \<le> n" for m n
  proof -
    have "unat a \<le> unat (base_addr m) + unat (a - base_addr m)"
      using unat_word_ariths(1) [of "base_addr m" "a - base_addr m"] by simp
    then show ?thesis using that by (simp add: in_map_def word_less_nat_alt)
  qed
  have l: "unat (byte_len (btmp (the_heap_pool all_mem))) \<le> 28641" "unat (byte_len (btmp (the_kernel_pool all_mem))) \<le> 28641"
    using k by (simp_all add: the_pools new_pool_def)
  from a show ?thesis using near [OF _ l(1)] near [OF _ l(2)] b(1,3) k u by fastforce
qed

lemma frame_of_below: "unat (frame_of a) \<le> unat a"
proof -
  have "frame_of a + (a AND 0xfff) = a" by (rule frame_and_off)
  moreover have "aligned (frame_of a)" by (rule aligned_frame)
  moreover have "unat (a AND 0xfff) < 4096" by (simp add: unat_off)
  ultimately show ?thesis using unat_aligned_add [of "frame_of a" "a AND 0xfff"] by simp
qed

lemma heap_pages_high:
  assumes "0x200000 \<le> all_mem" "all_mem \<le> 0x70000000" and "x \<in> pages (the_heap_pool all_mem)"
  shows "0xc0100000 \<le> unat x"
  using pages_range(1) [OF pools_wf(3) [OF assms(1,2)] assms(3)]
  by (simp add: the_heap_pool_def new_pool_def K_HEAP_START_def)

lemma heap_shape_start:
  fixes s :: "'a kstate_scheme"
  assumes all: "0x200000 \<le> all_mem" "all_mem \<le> 0x70000000" and r: "pools_ready all_mem s"
    and ph: "phys s = setup_page ph" "cr3 s = 0x100000"
      "\<And>a. 1053696 \<le> unat a \<Longrightarrow> unat a < 2097152 \<Longrightarrow> ph a AND 1 = 0"
  shows "heap_shape 0 s"
proof -
  let ?vp = "the_heap_pool all_mem" and ?fp = "the_kernel_pool all_mem"
  note wf = pools_wf [OF all] and t = setup_page_tables [OF all ph(3)]
  have p: "kernel_vir_pool s = ?vp" "kernel_phy_pool s = ?fp" "taken ?vp (mem s) = {}" "taken ?fp (mem s) = {}"
    using r by (auto simp: pools_ready_def)
  have "bitmap_get (btmp ?vp) i (mem s) = 0" if "i < bit_num (btmp ?vp)" for i
    using taken_iff [OF wf(3) that, of "mem s"] p(3) bitmap_get_01 [of "btmp ?vp" i "mem s"] by auto
  moreover have "frame_of a \<notin> pages ?vp" if "in_map (btmp ?vp) a \<or> in_map (btmp ?fp) a" for a
    using maps_below_heap [OF all that] frame_of_below [of a] heap_pages_high [OF all, of "frame_of a"] by fastforce
  moreover have "maps_apart (btmp ?vp) (btmp ?fp)" using maps_layout(2) [OF all(1)] maps_apart_sym by blast
  moreover have "bit_num (btmp ?fp) = bit_num (btmp ?vp)" by (simp add: the_pools new_pool_def)
  ultimately show ?thesis using wf t by (simp add: heap_shape_def p ph)
qed

lemma mem_init_heap:
  fixes s :: "'a kstate_scheme"
  assumes all: "0x200000 \<le> all_mem" "all_mem \<le> 0x70000000"
    and ph: "phys s = setup_page ph" "cr3 s = 0x100000" "ph 0xb00 = all_mem"
      "\<And>a. 1053696 \<le> unat a \<Longrightarrow> unat a < 2097152 \<Longrightarrow> ph a AND 1 = 0"
  obtains s' where "mem_init s = Inr s'" and "heap_shape 0 s'" and "kernel_vir_pool s' = the_heap_pool all_mem"
    and "tcbs s' = tcbs s" and "sched s' = sched s" and "cr3 s' = cr3 s" and "kstate.more s' = kstate.more s"
proof -
  let ?s = "put_str (lit ''mem_init start\<newline>'') s"
  have w: "walk (setup_page ph) 0x100000 0xb00 = Some 0xb00"
    by (simp add: walk_def frame_of_def PDE_IDX_def PTE_IDX_def setup_page_entries(1,4))
  have "setup_page ph 0xb00 = all_mem" using setup_page_entries(5) [of "0xb00" ph] ph(3) by simp
  then have ld: "vload 0xb00 ?s = (Inr all_mem :: 'a kstate_scheme halt + _)"
    using w by (simp add: vload_def frame ph(1,2))
  obtain u where u: "mem_pool_init all_mem ?s = Inr u" "pools_ready all_mem u"
    "phys u = phys ?s" "cr3 u = cr3 ?s" "tcbs u = tcbs ?s" "sched u = sched ?s" "eflags u = eflags ?s"
    "kstate.more u = kstate.more ?s"
    by (rule mem_pool_init_ready [OF all])
  have h: "heap_shape 0 u"
    by (rule heap_shape_start [OF all u(2) _ _ ph(4)]) (use u(3,4) ph(1,2) in \<open>simp_all add: frame\<close>)
  let ?s' = "put_str (lit ''mem_init done\<newline>'') u"
  have "mem_init s = Inr ?s'" using ld u(1) by (simp add: mem_init_def)
  moreover have "heap_shape 0 ?s'" using h by (simp add: heap_shape_def frame)
  ultimately show thesis
    using u by (intro that [of ?s']) (simp_all add: frame pools_ready_def)
qed

section \<open>The heap after \<^verbatim>\<open>thread_all_init\<close>\<close>

lemma mask_on_page:
  assumes "aligned base" and "in_map (mask_at base) a"
  shows "frame_of a \<in> run_pages base 1"
  using assms by (intro bytes_in_run [of base 4 1]) (simp_all add: in_map_def mask_at_def bit_num_2_byte_len_def PRIO_NUM_def)

lemma thread_all_init_kheap:
  fixes s :: "'a kstate_scheme"
  assumes h: "heap_shape 0 s" and pool: "kernel_vir_pool s = the_heap_pool all_mem"
    and all: "0x200000 < all_mem" "all_mem \<le> 0x70000000" and room: "heap_room 1 s"
    and t: "running_thread_get esp = t" "unat t < 0xc0100000" "t \<noteq> NULL" "t \<noteq> static_page"
  obtains s' where "thread_all_init esp s = Inr s'"
    and "kheap 1 s' (started t 31 (add_thread t empty_view))"
    and "RUNNING_THREAD s' = t" and "sch_idle_thread (sched s') = t"
    and "tcb_pid (tcbs s' t) = 0" and "sch_thread_table (sched s') = (replicate MAX_THREAD_NUM NULL)[0 := t]"
    and "\<not> need_schedule s'" and "kernel_vir_pool s' = the_heap_pool all_mem" and "kstate.more s' = kstate.more s"
    and "tcb_stack_magic (tcbs s' t) = STACK_MAGIC" and "tcb_pg_dir (tcbs s' t) = NULL" and "cr3 s' = cr3 s"
    and "tcb_ticks (tcbs s' t) = 11"
proof -
  let ?v = "started t 31 (add_thread t empty_view)"
  define s0 where "s0 = sched_cleared (put_str (lit ''thread_all_init begin\<newline>'') s)"
  have h0: "heap_shape 0 s0" using h by (simp add: s0_def sched_cleared_def heap_shape_def frame)
  have p0: "kernel_vir_pool s0 = the_heap_pool all_mem" using pool by (simp add: s0_def sched_cleared_def frame)
  let ?vp = "the_heap_pool all_mem"
  have n: "(0 :: u32) < 1" "(1 :: u32) < 3840" "0 + unat (1 :: u32) \<le> unat (bit_num (btmp ?vp))"
    using room pool by (simp_all add: heap_room_def)
  obtain base m ph where a: "kernel_pages_malloc 1 s0 = Inr (base, s0\<lparr>mem := m, phys := ph\<rparr>)" "base \<noteq> NULL"
    "aligned base" "heap_shape (0 + unat (1 :: u32)) (s0\<lparr>mem := m, phys := ph\<rparr>)"
    "run_pages base 1 \<subseteq> pages ?vp - taken ?vp (mem s0)" "taken ?vp m = taken ?vp (mem s0) \<union> run_pages base 1"
    by (rule heap_malloc [OF h0 n(1,2) p0 [symmetric] refl n(3)])
  let ?s1 = "s0\<lparr>mem := m, phys := ph\<rparr>"
  obtain s' where i: "thread_all_init esp s = Inr s'" "kinv s' ?v" "RUNNING_THREAD s' = t"
    "sch_idle_thread (sched s') = t" "tcb_pid (tcbs s' t) = 0" "sem_val s' (mtx_sem pid_mtx) = 1"
    "\<not> need_schedule s'" "heap_masked base ?s1 s'"
    "sch_thread_table (sched s') = (replicate MAX_THREAD_NUM NULL)[0 := t]" "kstate.more s' = kstate.more s"
    "tcb_stack_magic (tcbs s' t) = 0x19980820" "tcb_pg_dir (tcbs s' t) = NULL" "cr3 s' = cr3 s"
    "tcb_ticks (tcbs s' t) = 11"
    by (rule thread_all_init_ok [OF a(1) [unfolded s0_def] a(2) t(1) [symmetric] t(3,4), folded s0_def])
  have f: "kernel_vir_pool s' = ?vp" "kernel_phy_pool s' = kernel_phy_pool ?s1" "phys s' = phys ?s1" "cr3 s' = cr3 ?s1"
    "RQ_MASK_BITMAP s' = mask_at base" "\<And>a. \<not> in_map (mask_at base) a \<Longrightarrow> mem s' a = mem ?s1 a"
    using i(8) p0 by (simp_all add: heap_masked_def)
  note d = heap_shapeD [OF a(4) refl refl, simplified, unfolded p0]
  have "mem s' x = mem ?s1 x" if "in_map (btmp ?vp) x \<or> in_map (btmp (kernel_phy_pool ?s1)) x" for x
    using d(9) [of x] that mask_on_page [OF a(3), of x] a(5) by (intro f(6)) auto
  note hm = heap_shape_mem [OF a(4), of "mem s'", simplified, unfolded p0, OF this [simplified]]
  have h1: "heap_shape 1 s'" using hm(1) by (simp add: heap_shape_def f p0)
  have m1: "mask_shape s'"
    using mask_on_page [OF a(3)] hm(2) a(6) by (auto simp: mask_shape_def f wf_bitmap_def mask_at_def)
  have "new_page x ?v" if "x \<in> pages ?vp" for x
  proof -
    have hi: "0xc0100000 \<le> unat x" using heap_pages_high [OF _ all(2) that] all(1) by simp
    then have "x \<noteq> t" "x \<noteq> static_page" "x \<noteq> NULL" using t(2) by (auto simp: static_page_def)
    moreover have "frame_of b = static_page" if "i \<in> kidx empty_view" "b \<in> sentinels (klist_addr i)" for i b
      using that static_lists by (auto simp: kidx_def)
    ultimately have "new_page x empty_view"
      using pages_aligned [OF d(1) that] by (fastforce simp: new_page_def)
    then show ?thesis using \<open>x \<noteq> t\<close> by (simp add: new_page_def kidx_def)
  qed
  then have "kheap 1 s' ?v" using i h1 m1 by (simp add: kheap_def f)
  then show thesis using i f(1) by (intro that [of s']) (simp_all add: STACK_MAGIC_def)
qed

section \<open>Mutexes of the devices\<close>

definition add_sem :: "addr \<Rightarrow> kview \<Rightarrow> kview" where
  "add_sem sem v = v\<lparr>vs := insert sem (vs v)\<rparr>"

lemma add_sem_sel [simp]:
  "vq (add_sem m v) = vq v" "vw (add_sem m v) = vw v" "va (add_sem m v) = va v" "vt (add_sem m v) = vt v"
  "vs (add_sem m v) = insert m (vs v)" "queued (add_sem m v) = queued v"
  "kidx (add_sem m v) = insert (WQ m) (kidx v)"
  by (auto simp: add_sem_def queued_def kidx_def)

lemma add_sem_contents: "contents (add_sem m v) = contents v"
proof
  show "contents (add_sem m v) i = contents v i" for i by (cases i) simp_all
qed

lemma waiting_add_sem: "vw v m = [] \<Longrightarrow> waiting (add_sem m v) = waiting v"
  by (auto simp: waiting_def)

text \<open>A list head among the static data that overlaps no other one.\<close>

definition new_sem :: "addr \<Rightarrow> kview \<Rightarrow> bool" where
  "new_sem m v \<longleftrightarrow>
     m \<notin> vs v \<and> vw v m = [] \<and> static_page \<notin> vt v
     \<and> (\<forall>a\<in>sentinels (waiters m). frame_of a = static_page)
     \<and> (\<forall>i\<in>kidx v. sentinels (waiters m) \<inter> sentinels (klist_addr i) = {})"

lemma mutex_init_kinv:
  assumes k: "kinv s v" and n: "new_sem (mtx_sem m) v"
  shows "kinv (mutex_init m s) (add_sem (mtx_sem m) v)"
proof -
  let ?s1 = "set_sem_val (mtx_sem m) 1 (set_holder m NULL s)" and ?x = "mtx_sem m"
  note kl = kinv_klists [OF k]
  have "sentinels (waiters ?x) \<inter> (sentinels (klist_addr i) \<union> set (contents v i)) = {}" if "i \<in> kidx v" for i
    using n contents_frame [OF kl that] that by (fastforce simp: new_sem_def)
  moreover have "dl.family ?s1 klist_addr (kidx v) (contents v)"
    using klists_family [OF kl] by (subst family_state_cong [of _ s]) (simp_all add: frame)
  moreover have "WQ ?x \<notin> kidx v" using n by (auto simp: new_sem_def kidx_def)
  ultimately have "dl.family (list_init (klist_addr (WQ ?x)) ?s1) klist_addr (insert (WQ ?x) (kidx v)) (contents v)"
    using n by (intro family_init) (simp_all add: new_sem_def)
  then have f: "dl.family (mutex_init m s) klist_addr (kidx (add_sem ?x v)) (contents (add_sem ?x v))"
    by (simp add: mutex_init_def sem_init_def add_sem_contents)
  have w: "waiting (add_sem ?x v) = waiting v" using n by (intro waiting_add_sem) (simp add: new_sem_def)
  have "klists (mutex_init m s) (add_sem ?x v)"
    using kl f w n by (auto simp: klists_def new_sem_def)
  then show ?thesis
    using k w by (simp add: kinv_def sinv_def rq_inv_def mask_ok_def prio_ok_def prio_of_def wait_inv_def frame)
qed

lemma mutex_init_kheap:
  fixes s :: "'a kstate_scheme"
  assumes k: "kheap j s v" and n: "new_sem (mtx_sem m) v" and m: "mtx_sem m \<noteq> mtx_sem pid_mtx"
  shows "kheap j (mutex_init m s) (add_sem (mtx_sem m) v)"
proof -
  note d = kheapD [OF k]
  have hi: "frame_of a \<noteq> t" if "new_page t v" "a \<in> sentinels (waiters (mtx_sem m))" for t a
    using new_page_not_static [OF that(1) d(5)] n that(2) by (auto simp: new_sem_def)
  have "new_page t (add_sem (mtx_sem m) v)" if "new_page t v" for t
    using that hi [OF that] by (auto simp: new_page_def)
  moreover have "heap_shape j (mutex_init m s)" "mask_shape (mutex_init m s)"
    using d(2,3) by (simp_all add: heap_shape_def mask_shape_def frame)
  ultimately show ?thesis
    using d mutex_init_kinv [OF d(1) n] m by (simp add: kheap_def frame)
qed

text \<open>Nothing the invariant speaks of changes.\<close>

lemma kheap_cong:
  fixes s s' :: "'a kstate_scheme"
  assumes "nodes s' = nodes s" "mem s' = mem s" "tcbs s' = tcbs s" "sched s' = sched s" "phys s' = phys s"
    "cr3 s' = cr3 s" "sem_val s' = sem_val s" "kernel_vir_pool s' = kernel_vir_pool s"
    "kernel_phy_pool s' = kernel_phy_pool s"
  shows "kheap j s' v = kheap j s v"
proof -
  have "kinv s' v = kinv s v" using assms by (intro kinv_cong) simp_all
  then show ?thesis using assms by (simp add: kheap_def heap_shape_def mask_shape_def)
qed

section \<open>The console and the keyboard queue\<close>

text \<open>The lists of the kernel after the scheduler's start, with the two waiter lists of the devices.\<close>

definition boot_view :: "addr \<Rightarrow> kview" where
  "boot_view t = add_sem (mtx_sem kbd_buf) (add_sem (mtx_sem console_mutex) (started t 31 (add_thread t empty_view)))"

lemma device_waiters:
  "unat (waiters (mtx_sem console_mutex)) = 3221256596" "unat (waiters (mtx_sem kbd_buf)) = 3221258056"
  "unat (waiters (mtx_sem pid_mtx)) = 3221257840"
  by (simp_all add: waiters_def mtx_sem_def console_mutex_def kbd_buf_def pid_mtx_def scheduler_addr_def)

lemma boot_lists_apart:
  assumes "i \<in> kidx empty_view" and "unat l \<in> {3221256596, 3221258056}"
  shows "sentinels l \<inter> sentinels (klist_addr i) = {}"
proof -
  consider p where "i = RQ p" "p < PRIO_NUM" | "i = EVERY" | "i = WQ (mtx_sem pid_mtx)"
    using assms(1) by (auto simp: kidx_def)
  then show ?thesis
  proof cases
    case 1
    then show ?thesis
      using assms(2) sentinels_apart [of l "THIS_RQ p"] sentinels_apart [of "THIS_RQ p" l]
      by (auto simp: unat_THIS_RQ PRIO_NUM_def word_less_nat_alt)
  qed (use assms(2) sentinels_apart [of l "klist_addr i"] sentinels_apart [of "klist_addr i" l] in
      \<open>auto simp: unat_all_list device_waiters\<close>)
qed

lemma boot_sems:
  assumes t: "t \<noteq> static_page" and v: "v = started t 31 (add_thread t empty_view)"
  shows "new_sem (mtx_sem console_mutex) v"
    and "new_sem (mtx_sem kbd_buf) (add_sem (mtx_sem console_mutex) v)"
proof -
  have st: "frame_of a = static_page" if "a \<in> sentinels l" "unat l \<in> {3221256596, 3221258056}" for a l
    using that by (intro static_sentinels [of l]) auto
  have k: "kidx v = kidx empty_view" by (simp add: v kidx_def)
  have ne: "mtx_sem console_mutex \<noteq> mtx_sem pid_mtx" "mtx_sem kbd_buf \<noteq> mtx_sem pid_mtx"
    "mtx_sem kbd_buf \<noteq> mtx_sem console_mutex"
    by (simp_all add: mtx_sem_def console_mutex_def kbd_buf_def pid_mtx_def scheduler_addr_def)
  show "new_sem (mtx_sem console_mutex) v"
    unfolding new_sem_def k
    using t ne boot_lists_apart [of _ "waiters (mtx_sem console_mutex)"] st [of _ "waiters (mtx_sem console_mutex)"]
    by (simp add: v device_waiters)
  show "new_sem (mtx_sem kbd_buf) (add_sem (mtx_sem console_mutex) v)"
    unfolding new_sem_def add_sem_sel k
    using t ne boot_lists_apart [of _ "waiters (mtx_sem kbd_buf)"] st [of _ "waiters (mtx_sem kbd_buf)"]
      sentinels_apart(2) [of "waiters (mtx_sem console_mutex)" "waiters (mtx_sem kbd_buf)"]
    by (simp add: v device_waiters)
qed

section \<open>\<^verbatim>\<open>init_all\<close>\<close>

text \<open>Steps that touch devices and descriptor tables only.\<close>

definition core_same :: "'a kernel_scheme \<Rightarrow> 'a kernel_scheme \<Rightarrow> bool" where
  "core_same s s' \<longleftrightarrow>
     nodes s' = nodes s \<and> mem s' = mem s \<and> tcbs s' = tcbs s \<and> sched s' = sched s \<and> phys s' = phys s
     \<and> cr3 s' = cr3 s \<and> sem_val s' = sem_val s \<and> kernel_vir_pool s' = kernel_vir_pool s
     \<and> kernel_phy_pool s' = kernel_phy_pool s"

lemma core_sameD:
  assumes "core_same s s'"
  shows "nodes s' = nodes s" "mem s' = mem s" "tcbs s' = tcbs s" "sched s' = sched s" "phys s' = phys s"
    "cr3 s' = cr3 s" "sem_val s' = sem_val s" "kernel_vir_pool s' = kernel_vir_pool s"
    "kernel_phy_pool s' = kernel_phy_pool s" "kheap j s' v = kheap j s v"
proof -
  show f: "nodes s' = nodes s" "mem s' = mem s" "tcbs s' = tcbs s" "sched s' = sched s" "phys s' = phys s"
    "cr3 s' = cr3 s" "sem_val s' = sem_val s" "kernel_vir_pool s' = kernel_vir_pool s"
    "kernel_phy_pool s' = kernel_phy_pool s" using assms by (simp_all add: core_same_def)
  show "kheap j s' v = kheap j s v" by (rule kheap_cong) (rule f)+
qed

lemma core_same_trans: "core_same s t \<Longrightarrow> core_same t u \<Longrightarrow> core_same s u"
  by (simp add: core_same_def)

lemma core_outb: "core_same s (outb p d s)" and outb_tables:
  "idt_table (outb p d s) = idt_table s" "idt (outb p d s) = idt s" "gdt (outb p d s) = gdt s" "tr (outb p d s) = tr s"
  "syscall_table (outb p d s) = syscall_table s" "ioqs (outb p d s) = ioqs s"
  for s :: "'a kernel_scheme"
  by (simp_all add: core_same_def outb_def)

lemma core_put_str: "core_same s (put_str cs s)" for s :: "'a kernel_scheme"
  by (simp add: core_same_def frame)

lemma core_idt_init: "core_same s (idt_init tbl a s)"
proof -
  have f: "core_same s (idt_fill tbl n s)" for n and s :: "'a kernel_scheme"
    by (induction n) (simp_all add: core_same_def gate_set_def)
  have g: "core_same s (gate_set i at fn s)" for i at fn and s :: "'a kernel_scheme"
    by (simp add: core_same_def gate_set_def)
  have e: "core_same s (exception_fill n s)" for n and s :: "'a kernel_scheme"
    by (induction n) (simp_all add: core_same_def Let_def)
  have p: "core_same s (pic_init s)" for s :: "'a kernel_scheme"
    unfolding pic_init_def Let_def by (intro core_same_trans [OF _ core_put_str] core_same_trans [OF _ core_outb] core_outb)
  have i: "core_same s (s\<lparr>idtr := x\<rparr>)" for x and s :: "'a kernel_scheme" by (simp add: core_same_def)
  show ?thesis
    unfolding idt_init_def idt_desc_init_def exception_init_def Let_def
    by (intro core_same_trans [OF _ core_put_str] core_same_trans [OF _ i] core_same_trans [OF _ p]
      core_same_trans [OF _ e] core_same_trans [OF _ g] core_same_trans [OF _ f] core_put_str)
qed

lemma idt_init_table_eq:
  assumes "length (idt_table s) = IDT_DESC_CNT"
  shows "idt_table (idt_init tbl a s) = replicate IDT_DESC_CNT General_intr_handler"
proof -
  let ?s = "put_str (lit ''idt_init start\<newline>'') s"
  have "idt_table (idt_init tbl a s) = idt_table (exception_fill IDT_DESC_CNT (idt_desc_init tbl ?s))"
    by (simp add: idt_init_def Let_def put_str_kernel pic_init_kernel exception_init_def)
  then show ?thesis
    using assms exception_fill_table [of IDT_DESC_CNT "idt_desc_init tbl ?s"]
    by (simp add: idt_desc_init_table put_str_kernel)
qed

lemma idt_init_other:
  "gdt (idt_init tbl a s) = gdt s" "syscall_table (idt_init tbl a s) = syscall_table s" "ioqs (idt_init tbl a s) = ioqs s"
proof -
  have "gdt (idt_fill tbl n s) = gdt s \<and> syscall_table (idt_fill tbl n s) = syscall_table s \<and> ioqs (idt_fill tbl n s) = ioqs s"
    for n and s :: "'a kernel_scheme"
    by (induction n) (simp_all add: gate_set_def)
  moreover have "gdt (exception_fill n s) = gdt s \<and> syscall_table (exception_fill n s) = syscall_table s
      \<and> ioqs (exception_fill n s) = ioqs s"
    for n and s :: "'a kernel_scheme"
    by (induction n) (simp_all add: Let_def)
  moreover have "gdt (pic_init s) = gdt s \<and> syscall_table (pic_init s) = syscall_table s \<and> ioqs (pic_init s) = ioqs s"
    for s :: "'a kernel_scheme"
    by (simp add: pic_init_def Let_def outb_tables put_str_kernel put_str_ioqs)
  ultimately show "gdt (idt_init tbl a s) = gdt s" "syscall_table (idt_init tbl a s) = syscall_table s"
    "ioqs (idt_init tbl a s) = ioqs s"
    by (simp_all add: idt_init_def idt_desc_init_def exception_init_def gate_set_def Let_def put_str_kernel put_str_ioqs)
qed

lemma timer_init_ok:
  assumes "0x20 < length (idt_table s)"
  obtains s' where "timer_init s = Inr s'" and "core_same s s'"
    and "idt_table s' = (idt_table s)[0x20 := Intr_timer_handler]" and "idt s' = idt s"
    and "gdt s' = gdt s" and "syscall_table s' = syscall_table s" and "ioqs s' = ioqs s"
proof -
  let ?s = "freq_set 0x40 0 3 2 COUNTER0_VALUE (put_str (lit ''timer_init start\<newline>'') s)"
  have f: "core_same s ?s"
    unfolding freq_set_def Let_def by (intro core_same_trans [OF _ core_outb] core_put_str)
  have t: "idt_table ?s = idt_table s" "idt ?s = idt s" "gdt ?s = gdt s" "syscall_table ?s = syscall_table s"
    "ioqs ?s = ioqs s"
    by (simp_all add: freq_set_def Let_def outb_tables put_str_kernel put_str_ioqs)
  let ?s' = "put_str (lit ''timer_init done\<newline>'') (?s\<lparr>idt_table := (idt_table ?s)[0x20 := Intr_timer_handler]\<rparr>)"
  have "timer_init s = Inr ?s'"
    using assms t unfolding timer_init_def Let_def by (simp add: intr_handler_register_def)
  moreover have "core_same s ?s'"
    by (rule core_same_trans [OF _ core_put_str]) (use f in \<open>simp add: core_same_def\<close>)
  ultimately show thesis using t by (intro that [of ?s']) (simp_all add: put_str_kernel put_str_ioqs)
qed

lemma mutex_init_tables:
  fixes s :: "'a kernel_scheme"
  shows "idt_table (mutex_init m s) = idt_table s" "idt (mutex_init m s) = idt s" "gdt (mutex_init m s) = gdt s"
    "syscall_table (mutex_init m s) = syscall_table s" "tr (mutex_init m s) = tr s" "ioqs (mutex_init m s) = ioqs s"
  by (rule more_fields; simp add: frame)+

lemma keyboard_init_ok:
  assumes "0x21 < length (idt_table s)"
  obtains s' s1 where "keyboard_init s = Inr s'" and "core_same s s1" and "core_same (mutex_init kbd_buf s1) s'"
    and "idt_table s' = (idt_table s)[0x21 := Intr_keyboard_handler]" and "idt s' = idt s"
    and "gdt s' = gdt s" and "syscall_table s' = syscall_table s"
    and "ioqs s' kbd_buf = (ioqs s kbd_buf)\<lparr>producer := NULL, consumer := NULL, head := 0, tail := 0\<rparr>"
proof -
  let ?s1 = "put_str (lit ''keyboard init start\<newline>'') s"
  let ?s2 = "ioqueue_init kbd_buf ?s1"
  have f: "core_same (mutex_init kbd_buf ?s1) ?s2" by (simp add: core_same_def ioqueue_init_def upd_ioq_def Let_def)
  have t: "idt_table ?s2 = idt_table s" "idt ?s2 = idt s" "gdt ?s2 = gdt s" "syscall_table ?s2 = syscall_table s"
    "ioqs ?s2 kbd_buf = (ioqs s kbd_buf)\<lparr>producer := NULL, consumer := NULL, head := 0, tail := 0\<rparr>"
    by (simp_all add: ioqueue_init_def upd_ioq_def Let_def mutex_init_tables put_str_kernel put_str_ioqs)
  let ?s' = "put_str (lit ''keyboard init done\<newline>'') (?s2\<lparr>idt_table := (idt_table ?s2)[0x21 := Intr_keyboard_handler]\<rparr>)"
  have "keyboard_init s = Inr ?s'"
    using assms t unfolding keyboard_init_def Let_def by (simp add: intr_handler_register_def INT_KEYBOARD_def)
  moreover have "core_same (mutex_init kbd_buf ?s1) ?s'"
    by (rule core_same_trans [OF _ core_put_str]) (use f in \<open>simp add: core_same_def\<close>)
  ultimately show thesis using t core_put_str by (intro that [of ?s' ?s1]) (simp_all add: put_str_kernel put_str_ioqs)
qed

lemma tss_syscall_init:
  fixes s :: "'a kernel_scheme"
  shows "core_same s (syscall_init (tss_init s))"
    and "idt_table (syscall_init (tss_init s)) = idt_table s" "idt (syscall_init (tss_init s)) = idt s"
    and "syscall_table (syscall_init (tss_init s)) = (syscall_table s)[0 := Sys_pid_get]"
    and "tr (syscall_init (tss_init s)) = SELECTOR_TSS" "gdt (syscall_init (tss_init s)) = gdt (tss_init s)"
    and "ioqs (syscall_init (tss_init s)) = ioqs s"
  by (simp_all add: core_same_def syscall_init_def tss_init_def gdt_set_def Let_def frame put_str_kernel PID_GET_def)

text \<open>
  What the loader leaves: the page tables of \<^verbatim>\<open>setup_page\<close> over memory whose page tables
  behind the mapped megabyte hold no present entry, the size of the memory at \<^verbatim>\<open>0xb00\<close>,
  and the kernel image with its tables.
\<close>

definition loaded :: "u32 \<Rightarrow> 'a kernel_scheme \<Rightarrow> bool" where
  "loaded all_mem s \<longleftrightarrow>
     (\<exists>ph. phys s = setup_page ph \<and> ph 0xb00 = all_mem
       \<and> (\<forall>a. 1053696 \<le> unat a \<longrightarrow> unat a < 2097152 \<longrightarrow> ph a AND 1 = 0))
     \<and> cr3 s = 0x100000 \<and> length (idt s) = IDT_DESC_CNT \<and> length (idt_table s) = IDT_DESC_CNT
     \<and> length (gdt s) = 7 \<and> length (syscall_table s) = SYSCALL_NUM \<and> length (buf (ioqs s kbd_buf)) = 64"

text \<open>The idle thread has a sound stack mark, a full slice, and runs in the kernel's own space.\<close>

definition idle_ready :: "addr \<Rightarrow> 'a kstate_scheme \<Rightarrow> bool" where
  "idle_ready t s \<longleftrightarrow> tcb_stack_magic (tcbs s t) = STACK_MAGIC \<and> tcb_pg_dir (tcbs s t) = NULL
     \<and> unat (tcb_ticks (tcbs s t)) \<le> 11"

text \<open>The tables after \<^verbatim>\<open>init_all\<close>, and the keyboard's buffer, empty with nobody asleep on it.\<close>

definition tables_set :: "(nat \<Rightarrow> addr) \<Rightarrow> 'a kernel_scheme \<Rightarrow> bool" where
  "tables_set tbl s \<longleftrightarrow>
     idt_table s = (replicate IDT_DESC_CNT General_intr_handler)[0x20 := Intr_timer_handler, 0x21 := Intr_keyboard_handler]
     \<and> (\<forall>i<IDT_DESC_CNT. gate_offset (idt s ! i) = (if i = INT_SYSCALL then syscall_entry else tbl i)
          \<and> attribute (idt s ! i) = (if i = INT_SYSCALL then IDT_DESC_ATTR_DPL3 else IDT_DESC_ATTR_DPL0))
     \<and> syscall_table s ! 0 = Sys_pid_get \<and> tr s = SELECTOR_TSS \<and> gdt_base (gdt s ! 4) = tss_addr
     \<and> kbd_ok s \<and> ioq_bytes (ioqs s kbd_buf) = []"

lemma heap_room_all:
  assumes "0x400000 \<le> all_mem" and "n \<le> 256" and "kernel_vir_pool s = the_heap_pool all_mem"
  shows "heap_room n s"
proof -
  have "4194304 \<le> unat all_mem" "0x200000 \<le> all_mem" using assms(1) by (simp_all add: word_le_nat_alt)
  then have "256 \<le> unat (kernel_pages all_mem)" using page_counts(1) [of all_mem] by linarith
  then show ?thesis using assms(2,3) by (simp add: heap_room_def the_heap_pool_def new_pool_def)
qed

lemma init_all_ok:
  fixes s :: "'a kernel_scheme"
  assumes l: "loaded all_mem s" and all: "0x400000 \<le> all_mem" "all_mem \<le> 0x70000000"
    and t: "running_thread_get esp = t" "unat t < 0xc0100000" "t \<noteq> NULL" "t \<noteq> static_page"
  obtains s' where "init_all tbl a esp s = Inr s'" and "kheap 1 s' (boot_view t)"
    and "kernel_vir_pool s' = the_heap_pool all_mem" and "RUNNING_THREAD s' = t" and "tcb_pid (tcbs s' t) = 0"
    and "sch_thread_table (sched s') = (replicate MAX_THREAD_NUM NULL)[0 := t]"
    and "sem_val s' (mtx_sem console_mutex) = 1" and "tables_set tbl s'"
    and "sem_val s' (mtx_sem kbd_buf) = 1" and "idle_ready t s'" and "cr3 s' = 0x100000"
proof -
  obtain ph where ph: "phys s = setup_page ph" "ph 0xb00 = all_mem"
    "\<And>a. 1053696 \<le> unat a \<Longrightarrow> unat a < 2097152 \<Longrightarrow> ph a AND 1 = 0" "cr3 s = 0x100000"
    "length (idt s) = IDT_DESC_CNT" "length (idt_table s) = IDT_DESC_CNT" "length (gdt s) = 7"
    "length (syscall_table s) = SYSCALL_NUM" "length (buf (ioqs s kbd_buf)) = 64"
    using l by (auto simp: loaded_def)
  have all': "0x200000 \<le> all_mem" "0x200000 < all_mem"
    using all(1) by (simp_all add: word_le_nat_alt word_less_nat_alt)
  let ?s0 = "put_str (lit ''init_all\<newline>'') s"
  let ?s1 = "idt_init tbl a ?s0"
  have "core_same s ?s1" by (rule core_same_trans [OF core_put_str core_idt_init])
  note c1 = core_sameD [OF this]
  have l0: "length (idt ?s0) = IDT_DESC_CNT" "length (idt_table ?s0) = IDT_DESC_CNT"
    using ph by (simp_all add: put_str_kernel)
  obtain s2 where s2: "mem_init ?s1 = Inr s2" "heap_shape 0 s2" "kernel_vir_pool s2 = the_heap_pool all_mem"
    "kstate.more s2 = kstate.more ?s1" "cr3 s2 = cr3 ?s1"
    by (rule mem_init_heap [where s = ?s1 and ph = ph, OF all'(1) all(2) _ _ ph(2,3)]) (use c1(5,6) ph(1,4) in simp_all)
  have rm: "heap_room 1 s2" by (rule heap_room_all [OF all(1) _ s2(3)]) simp
  obtain s3 where s3: "thread_all_init esp s2 = Inr s3" "kheap 1 s3 (started t 31 (add_thread t empty_view))"
    "RUNNING_THREAD s3 = t" "tcb_pid (tcbs s3 t) = 0"
    "sch_thread_table (sched s3) = (replicate MAX_THREAD_NUM NULL)[0 := t]"
    "kernel_vir_pool s3 = the_heap_pool all_mem" "kstate.more s3 = kstate.more s2"
    "tcb_stack_magic (tcbs s3 t) = STACK_MAGIC" "tcb_pg_dir (tcbs s3 t) = NULL" "cr3 s3 = cr3 s2"
    "tcb_ticks (tcbs s3 t) = 11"
    by (rule thread_all_init_kheap [OF s2(2,3) all'(2) all(2) rm t])
  note m3 = more_fields [OF s3(7)] more_fields [OF s2(4)]
  have it: "idt_table s3 = replicate IDT_DESC_CNT General_intr_handler"
    using m3 idt_init_table_eq [OF l0(2)] by simp
  obtain s4 where s4: "timer_init s3 = Inr s4" "core_same s3 s4"
    "idt_table s4 = (idt_table s3)[0x20 := Intr_timer_handler]" "idt s4 = idt s3" "gdt s4 = gdt s3"
    "syscall_table s4 = syscall_table s3" "ioqs s4 = ioqs s3"
    by (rule timer_init_ok [of s3]) (simp add: it IDT_DESC_CNT_def)
  let ?s5 = "console_init s4"
  have k4: "kheap 1 s4 (started t 31 (add_thread t empty_view))" using s3(2) core_sameD(10) [OF s4(2)] by simp
  note n = boot_sems [OF t(4) refl]
  have ne: "mtx_sem console_mutex \<noteq> mtx_sem pid_mtx" "mtx_sem kbd_buf \<noteq> mtx_sem pid_mtx"
    "mtx_sem console_mutex \<noteq> mtx_sem kbd_buf"
    by (simp_all add: mtx_sem_def console_mutex_def kbd_buf_def pid_mtx_def scheduler_addr_def)
  note k5 = mutex_init_kheap [OF k4 n(1) ne(1), folded console_init_def]
  obtain s6 u where s6: "keyboard_init ?s5 = Inr s6" "core_same ?s5 u" "core_same (mutex_init kbd_buf u) s6"
    "idt_table s6 = (idt_table ?s5)[0x21 := Intr_keyboard_handler]" "idt s6 = idt ?s5" "gdt s6 = gdt ?s5"
    "syscall_table s6 = syscall_table ?s5"
    "ioqs s6 kbd_buf = (ioqs ?s5 kbd_buf)\<lparr>producer := NULL, consumer := NULL, head := 0, tail := 0\<rparr>"
    by (rule keyboard_init_ok [of ?s5]) (simp add: s4 it IDT_DESC_CNT_def console_init_def mutex_init_tables)
  have "kheap 1 u (add_sem (mtx_sem console_mutex) (started t 31 (add_thread t empty_view)))"
    using k5 core_sameD(10) [OF s6(2)] by simp
  from mutex_init_kheap [OF this n(2) ne(2)]
  have k6: "kheap 1 s6 (boot_view t)" using core_sameD(10) [OF s6(3)] by (simp add: boot_view_def)
  let ?s' = "syscall_init (tss_init s6)"
  note c7 = tss_syscall_init(1) [of s6]
  have e: "tcbs ?s' = tcbs s3" "sched ?s' = sched s3" "kernel_vir_pool ?s' = kernel_vir_pool s3" "cr3 ?s' = cr3 s3"
    using core_sameD [OF c7] core_sameD [OF s6(2)] core_sameD [OF s6(3)] core_sameD [OF s4(2)]
    by (simp_all add: console_init_def frame)
  have c3: "cr3 ?s' = 0x100000" using e(4) s3(10) s2(5) c1(6) ph(4) by simp
  have sv: "sem_val ?s' (mtx_sem console_mutex) = 1" "sem_val ?s' (mtx_sem kbd_buf) = 1"
    using core_sameD [OF c7] core_sameD [OF s6(2)] core_sameD [OF s6(3)] ne by (simp_all add: console_init_def frame)
  have id: "idt s6 = idt ?s1" "gdt s6 = gdt ?s1" "syscall_table s6 = syscall_table ?s1"
    using s6 s4 m3 by (simp_all add: console_init_def mutex_init_tables)
  have g1: "gdt ?s1 = gdt s" "syscall_table ?s1 = syscall_table s"
    by (simp_all add: idt_init_other put_str_kernel)
  have "ioqs s3 = ioqs s" using m3 by (simp add: idt_init_other put_str_ioqs)
  then have kb: "ioqs s6 kbd_buf = (ioqs s kbd_buf)\<lparr>producer := NULL, consumer := NULL, head := 0, tail := 0\<rparr>"
    using s6(8) s4(7) by (simp add: console_init_def mutex_init_tables)
  have "kbd_ok ?s'" "ioq_bytes (ioqs ?s' kbd_buf) = []"
    using ph(9) kb by (simp_all add: tss_syscall_init kbd_ok_def ioq_wf_def BUF_SIZE_def ioq_bytes_def ioq_len_def)
  then have "tables_set tbl ?s'"
    unfolding tables_set_def
    using tss_syscall_init [of s6] s6(4) s4(3) it id idt_init_tables(1,2) [OF l0, where tbl = tbl and a = a] 
      tss_init_segments(1) [of s6] ph(7,8) g1
    by (simp add: console_init_def mutex_init_tables SYSCALL_NUM_def)
  moreover have "init_all tbl a esp s = Inr ?s'"
    using s2(1) s3(1) s4(1) s6(1) by (simp add: init_all_def Let_def)
  moreover have "kheap 1 ?s' (boot_view t)" using k6 core_sameD(10) [OF c7] by simp
  ultimately show thesis using s3 e sv c3 by (intro that [of ?s']) (simp_all add: idle_ready_def)
qed

section \<open>\<^verbatim>\<open>main\<close>\<close>

definition spawn :: "u32 \<Rightarrow> addr \<Rightarrow> kview \<Rightarrow> kview" where
  "spawn p t v = started t p (add_thread t v)"

lemma spawn_sel [simp]:
  "vq (spawn p t v) = (vq v)(p := vq v p @ [t])" "vw (spawn p t v) = vw v" "va (spawn p t v) = va v @ [t]"
  "vt (spawn p t v) = insert t (vt v)" "vs (spawn p t v) = vs v"
  by (simp_all add: spawn_def started_def enq_back_def set_all_def)

text \<open>A table of threads that is full up to some place and free behind it.\<close>

definition table_of :: "addr list \<Rightarrow> addr list \<Rightarrow> bool" where
  "table_of ts tbl \<longleftrightarrow> NULL \<notin> set ts \<and> length ts < MAX_THREAD_NUM
     \<and> tbl = ts @ replicate (MAX_THREAD_NUM - length ts) NULL"

lemma table_of_free: "table_of ts tbl \<Longrightarrow> first_free tbl 0 = Some (length ts)"
  by (auto simp: table_of_def first_free_Some nth_append) (metis nth_mem)

lemma table_of_add:
  assumes "table_of ts tbl" and "t \<noteq> NULL" and "Suc (length ts) < MAX_THREAD_NUM"
  shows "table_of (ts @ [t]) (table_add t tbl)"
proof -
  obtain n where n: "MAX_THREAD_NUM - length ts = Suc n" using assms(3) by (cases "MAX_THREAD_NUM - length ts") auto
  then have "MAX_THREAD_NUM - length (ts @ [t]) = n" using assms(3) by simp
  then show ?thesis
    using assms n table_of_free [OF assms(1)] by (simp add: table_add_def table_of_def list_update_append)
qed

text \<open>One more thread, as both ways of creating one leave it.\<close>

definition joined :: "addr \<Rightarrow> u8 \<Rightarrow> nat \<Rightarrow> kview \<Rightarrow> 'a kernel_scheme \<Rightarrow> 'a kernel_scheme \<Rightarrow> bool" where
  "joined t prio pid v s s' \<longleftrightarrow>
     new_page t v \<and> sys_kept t s s' \<and> RUNNING_THREAD s' = RUNNING_THREAD s
     \<and> tcb_pid (tcbs s' t) = of_nat pid \<and> tcb_status (tcbs s' t) = TASK_READY
     \<and> tcb_stack_magic (tcbs s' t) = STACK_MAGIC \<and> unat (tcb_ticks (tcbs s' t)) \<le> 11 \<and> heap_grows s s'
     \<and> (\<forall>x. x \<noteq> t \<longrightarrow> tcbs s' x = tcbs s x)"

lemma first_slice: "prio < (32 :: u8) \<Longrightarrow> unat (ticks_get (ucast prio)) \<le> 11"
  by (simp add: ticks_get_def unat_word_ariths unat_div unat_u8_u32 word_less_nat_alt)

lemma fresh_joined:
  assumes "fresh_thread t prio func arg s s'" and "new_page t v" and "sys_kept t s s'"
    and "RUNNING_THREAD s' = RUNNING_THREAD s" and "heap_grows s s'" and "table_of ts (sch_thread_table (sched s))"
    and "prio < 32"
  shows "joined t prio (length ts) v s s'"
  using assms table_of_free [OF assms(6)] first_slice [OF assms(7)] by (simp add: joined_def fresh_thread_def STACK_MAGIC_def)

lemma joined_table:
  assumes "joined t prio (length ts) v s s'" and "table_of ts (sch_thread_table (sched s))"
    and "Suc (length ts) < MAX_THREAD_NUM"
  shows "table_of (ts @ [t]) (sch_thread_table (sched s'))"
  using assms table_of_add [OF assms(2) _ assms(3), of t] by (auto simp: joined_def sys_kept_def new_page_def)

lemma joined_tables:
  assumes "joined t prio n v s s'" and "tables_set tbl s"
  shows "tables_set tbl s'"
  using assms by (simp add: joined_def sys_kept_def tables_set_def kbd_ok_def)

text \<open>A mutex among the static data keeps its value, and an address space in use stays as it is.\<close>

lemma joined_sem:
  assumes j: "joined t prio n v s s'" and v: "mtx_sem pid_mtx \<in> vs v" and m: "frame_of m = static_page"
  shows "sem_val s' m = sem_val s m"
proof -
  have "t \<noteq> static_page" using j new_page_not_static [OF _ v] by (simp add: joined_def)
  then show ?thesis using j m by (auto simp: joined_def sys_kept_def)
qed

lemma joined_cr3: "joined t prio n v s s' \<Longrightarrow> cr3 s' = cr3 s"
  using heap_growsD(3) by (auto simp: joined_def)

lemma joined_space:
  "joined t prio n v s s' \<Longrightarrow> kheap j s w \<Longrightarrow> space_at c f s \<Longrightarrow> c \<noteq> t \<Longrightarrow> space_at c f s'"
  using space_at_grows [OF kheapD(2)] by (metis joined_def)

lemma thread_run_joined:
  fixes s :: "'a kernel_scheme"
  assumes k: "kheap j s v" and "heap_room (j + 1) s" and "length name \<le> 16" and "prio < 32"
    and ts: "table_of ts (sch_thread_table (sched s))"
  obtains t s' where "thread_run name prio func arg s = Inr (t, s')" and "kheap (j + 1) s' (spawn (ucast prio) t v)"
    and "joined t prio (length ts) v s s'" and "tcb_pg_dir (tcbs s' t) = NULL"
    and "kernel_vir_pool s' = kernel_vir_pool s"
proof -
  obtain t s' where r: "thread_run name prio func arg s = Inr (t, s')"
    "kheap (j + 1) s' (started t (ucast prio) (add_thread t v))" "fresh_thread t prio func arg s s'" "new_page t v"
    "tcb_pg_dir (tcbs s' t) = NULL" "RUNNING_THREAD s' = RUNNING_THREAD s" "kernel_vir_pool s' = kernel_vir_pool s"
    "sys_kept t s s'" "heap_grows s s'"
    by (rule thread_run_kheap [OF assms(1-4)])
  then show thesis using fresh_joined [OF r(3,4,8,6,9) ts assms(4)] by (intro that [of t s']) (simp_all add: spawn_def)
qed

lemma process_run_joined:
  fixes s :: "'a kernel_scheme"
  assumes k: "kheap j s v" and "heap_room (j + 25) s" and "length name \<le> 16"
    and ts: "table_of ts (sch_thread_table (sched s))"
  obtains t s' where "process_run filename name s = Inr s'" and "kheap (j + 25) s' (spawn 31 t v)"
    and "joined t 31 (length ts) v s s'" and "\<exists>f. space_at t f s'"
    and "kernel_vir_pool s' = kernel_vir_pool s"
proof -
  obtain t s' where r: "process_run filename name s = Inr s'"
    "kheap (j + 25) s' (started t 31 (add_thread t v))" "fresh_thread t 31 Process_entry filename s s'" "new_page t v"
    "fresh_space t s'" "RUNNING_THREAD s' = RUNNING_THREAD s" "kernel_vir_pool s' = kernel_vir_pool s"
    "sys_kept t s s'" "heap_grows s s'"
    by (rule process_run_kheap [OF assms(1-3)])
  then show thesis
    using fresh_joined [OF r(3,4,8,6,9) ts] by (intro that [of s' t]) (simp_all add: spawn_def fresh_space_def)
qed

lemma console_put_int_core:
  fixes s :: "'a kernel_scheme"
  assumes f: "console_free s"
  obtains s' where "console_put_int num s = Inr s'" and "core_same s s'" and "kstate.more s' = kstate.more s"
    and "eflags s' = eflags s"
proof -
  let ?s' = "set_holder console_mutex NULL (set_sem_val (mtx_sem console_mutex) 1 (put_str (hex_digits num)
    (set_holder console_mutex (RUNNING_THREAD s) (set_sem_val (mtx_sem console_mutex) 0 s))))"
  have "core_same s ?s'"
    using f by (auto simp: core_same_def frame set_holder_def set_sem_val_def console_free_def fun_upd_idem)
  moreover have "kstate.more ?s' = kstate.more s" "eflags ?s' = eflags s"
    by (simp_all add: set_holder_def set_sem_val_def frame)
  ultimately show thesis using console_put_int_eq [OF f refl, of num] by (intro that [of ?s']) simp_all
qed

lemma kheap_console_free:
  assumes k: "kheap j s v" and c: "mtx_sem console_mutex \<in> vs v" "vw v (mtx_sem console_mutex) = []"
    and val: "sem_val s (mtx_sem console_mutex) = 1"
  shows "console_free s"
  using dlist_empty [OF waiters_dlist [OF kinv_klists [OF kheapD(1) [OF k]] c(1)]] c(2) val
  by (simp add: console_free_def)

text \<open>The queues at the end: the idle thread, two kernel threads and two processes.\<close>

definition main_view :: "addr \<Rightarrow> addr \<Rightarrow> addr \<Rightarrow> addr \<Rightarrow> addr \<Rightarrow> kview" where
  "main_view t a b c d = spawn 31 d (spawn 31 c (spawn 8 b (spawn 8 a (boot_view t))))"

lemma boot_view_sel [simp]:
  "vs (boot_view t) = {mtx_sem kbd_buf, mtx_sem console_mutex, mtx_sem pid_mtx}" "vt (boot_view t) = {t}"
  "vw (boot_view t) m = []" "va (boot_view t) = [t]" "vq (boot_view t) = (\<lambda>p. if p = 31 then [t] else [])"
  by (auto simp: boot_view_def started_def set_all_def enq_back_def fun_eq_iff)

lemma main_end:
  fixes s :: "'a kernel_scheme"
  assumes "console_free s"
  obtains s' where "console_put_int n (snd (intr_disable (snd (intr_enable s)))) = Inr s'"
    and "core_same s (snd (intr_enable s'))" and "kstate.more (snd (intr_enable s')) = kstate.more s"
    and "intr_get_status (snd (intr_enable s')) = INTR_ON"
proof -
  let ?u = "snd (intr_disable (snd (intr_enable s)))"
  have c: "core_same s (snd (intr_enable s))" "core_same s (snd (intr_disable s))" for s :: "'a kernel_scheme"
    by (simp_all add: core_same_def intr_enable_def intr_disable_def cli_def sti_def)
  have m: "kstate.more (snd (intr_enable s)) = kstate.more s" "kstate.more (snd (intr_disable s)) = kstate.more s"
    for s :: "'a kernel_scheme"
    by (simp_all add: intr_enable_def intr_disable_def cli_def sti_def)
  have "console_free ?u"
    using assms core_sameD [OF core_same_trans [OF c(1) [of s] c(2)]] by (simp add: console_free_def list_empty_def)
  then obtain s' where r: "console_put_int n ?u = Inr s'" "core_same ?u s'" "kstate.more s' = kstate.more ?u"
    by (rule console_put_int_core)
  have "core_same s (snd (intr_enable s'))"
    by (intro core_same_trans [OF _ c(1)] core_same_trans [OF _ r(2)] core_same_trans [OF _ c(2)] c(1))
  then show thesis using r m by (intro that [of s']) (simp_all add: intr_enable_on)
qed

definition sems_free :: "'a kstate_scheme \<Rightarrow> bool" where
  "sems_free s \<longleftrightarrow> sem_val s (mtx_sem console_mutex) = 1 \<and> sem_val s (mtx_sem kbd_buf) = 1"

definition threads_ready :: "addr \<Rightarrow> addr \<Rightarrow> addr \<Rightarrow> addr \<Rightarrow> addr \<Rightarrow> 'a kstate_scheme \<Rightarrow> bool" where
  "threads_ready t a b c d s \<longleftrightarrow>
     (\<forall>x\<in>{t, a, b, c, d}. tcb_stack_magic (tcbs s x) = STACK_MAGIC \<and> unat (tcb_ticks (tcbs s x)) \<le> 11)
     \<and> (\<forall>x\<in>{t, a, b}. tcb_pg_dir (tcbs s x) = NULL) \<and> (\<forall>x\<in>{c, d}. \<exists>f. space_at x f s)"

lemma device_sems_static:
  "frame_of (mtx_sem console_mutex) = static_page" "frame_of (mtx_sem kbd_buf) = static_page"
  by (rule frame_static; simp add: mtx_sem_def console_mutex_def kbd_buf_def)+

text \<open>The four calls of \<^verbatim>\<open>main\<close> that start threads.\<close>

lemma main_spawns:
  fixes s1 :: "'a kernel_scheme"
  assumes k: "kheap 1 s1 v" and v: "v = boot_view t" and pool: "kernel_vir_pool s1 = the_heap_pool all_mem"
    and all: "0x400000 \<le> all_mem" and T1: "table_of [t] (sch_thread_table (sched s1))"
    and con: "sems_free s1" and idle: "idle_ready t s1" and tbl: "tables_set tbl s1"
    and pid: "tcb_pid (tcbs s1 t) = 0" and run: "RUNNING_THREAD s1 = t"
  obtains a b c d s2 s3 s4 s5 where
    "thread_run (lit ''kthread1'') 8 (Func 0xc00015c5) arg1 s1 = Inr (a, s2)"
    and "thread_run (lit ''kthread2'') 8 (Func 0xc00015fe) arg2 s2 = Inr (b, s3)"
    and "process_run 0xc0001637 (lit ''process1'') s3 = Inr s4"
    and "process_run 0xc000164c (lit ''process2'') s4 = Inr s5"
    and "distinct [t, a, b, c, d]" and "kheap 53 s5 (main_view t a b c d)" and "RUNNING_THREAD s5 = t"
    and "table_of [t, a, b, c, d] (sch_thread_table (sched s5))"
    and "map (\<lambda>x. tcb_pid (tcbs s5 x)) [t, a, b, c, d] = [0, 1, 2, 3, 4]"
    and "map (\<lambda>x. tcb_pg_dir (tcbs s5 x) = NULL) [a, b, c, d] = [True, True, False, False]"
    and "tables_set tbl s5" and "sems_free s5" and "threads_ready t a b c d s5" and "cr3 s5 = cr3 s1"
    and "kernel_vir_pool s5 = the_heap_pool all_mem"
proof -
  have rm: "heap_room n s" if "kernel_vir_pool s = the_heap_pool all_mem" "n \<le> 256" for n and s :: "'a kernel_scheme"
    using heap_room_all [OF all that(2,1)] .
  have mx: "5 < MAX_THREAD_NUM" and p8: "(8 :: u8) < 32" by (simp_all add: MAX_THREAD_NUM_def)
  have nm: "length (lit ''kthread1'') \<le> 16" "length (lit ''kthread2'') \<le> 16"
    "length (lit ''process1'') \<le> 16" "length (lit ''process2'') \<le> 16" by (simp_all add: lit_def)
  have r1: "heap_room (1 + 1) s1" by (rule rm [OF pool]) simp
  obtain a s2 where s2: "thread_run (lit ''kthread1'') 8 (Func 0xc00015c5) arg1 s1 = Inr (a, s2)"
    "kheap (1 + 1) s2 (spawn (ucast (8 :: u8)) a v)" "joined a 8 (length [t]) v s1 s2"
    "tcb_pg_dir (tcbs s2 a) = NULL" "kernel_vir_pool s2 = kernel_vir_pool s1"
    by (rule thread_run_joined [OF k r1 nm(1) p8 T1])
  let ?v2 = "spawn (ucast (8 :: u8)) a v"
  have T2: "table_of ([t] @ [a]) (sch_thread_table (sched s2))" by (rule joined_table [OF s2(3) T1]) (use mx in simp)
  have r2: "heap_room (1 + 1 + 1) s2" by (rule rm) (use pool s2(5) in simp_all)
  obtain b s3 where s3: "thread_run (lit ''kthread2'') 8 (Func 0xc00015fe) arg2 s2 = Inr (b, s3)"
    "kheap (1 + 1 + 1) s3 (spawn (ucast (8 :: u8)) b ?v2)" "joined b 8 (length ([t] @ [a])) ?v2 s2 s3"
    "tcb_pg_dir (tcbs s3 b) = NULL" "kernel_vir_pool s3 = kernel_vir_pool s2"
    by (rule thread_run_joined [OF s2(2) r2 nm(2) p8 T2])
  let ?v3 = "spawn (ucast (8 :: u8)) b ?v2"
  have T3: "table_of (([t] @ [a]) @ [b]) (sch_thread_table (sched s3))"
    by (rule joined_table [OF s3(3) T2]) (use mx in simp)
  have r3: "heap_room (1 + 1 + 1 + 25) s3" by (rule rm) (use pool s2(5) s3(5) in simp_all)
  obtain c s4 where s4: "process_run 0xc0001637 (lit ''process1'') s3 = Inr s4"
    "kheap (1 + 1 + 1 + 25) s4 (spawn 31 c ?v3)" "joined c 31 (length (([t] @ [a]) @ [b])) ?v3 s3 s4"
    "\<exists>f. space_at c f s4" "kernel_vir_pool s4 = kernel_vir_pool s3"
    by (rule process_run_joined [OF s3(2) r3 nm(3) T3])
  have T4: "table_of ((([t] @ [a]) @ [b]) @ [c]) (sch_thread_table (sched s4))"
    by (rule joined_table [OF s4(3) T3]) (use mx in simp)
  have r4: "heap_room (1 + 1 + 1 + 25 + 25) s4" by (rule rm) (use pool s2(5) s3(5) s4(5) in simp_all)
  obtain d s5 where s5: "process_run 0xc000164c (lit ''process2'') s4 = Inr s5"
    "kheap (1 + 1 + 1 + 25 + 25) s5 (spawn 31 d (spawn 31 c ?v3))"
    "joined d 31 (length ((([t] @ [a]) @ [b]) @ [c])) (spawn 31 c ?v3) s4 s5"
    "\<exists>f. space_at d f s5" "kernel_vir_pool s5 = kernel_vir_pool s4"
    by (rule process_run_joined [OF s4(2) r4 nm(4) T4])
  have T5: "table_of (((([t] @ [a]) @ [b]) @ [c]) @ [d]) (sch_thread_table (sched s5))"
    by (rule joined_table [OF s5(3) T4]) (use mx in simp)
  note j = s2(3) s3(3) s4(3) s5(3)
  have n: "a \<noteq> t" "b \<notin> {t, a}" "c \<notin> {t, a, b}" "d \<notin> {t, a, b, c}"
    using j by (auto simp: joined_def new_page_def v)
  then have ne: "t \<noteq> a" "t \<noteq> b" "a \<noteq> b" "t \<noteq> c" "a \<noteq> c" "b \<noteq> c" "t \<noteq> d" "a \<noteq> d" "b \<noteq> d" "c \<noteq> d" by auto
  have tc: "x \<noteq> a \<Longrightarrow> tcbs s2 x = tcbs s1 x" "x \<noteq> b \<Longrightarrow> tcbs s3 x = tcbs s2 x" "x \<noteq> c \<Longrightarrow> tcbs s4 x = tcbs s3 x"
    "x \<noteq> d \<Longrightarrow> tcbs s5 x = tcbs s4 x" for x
    using j by (simp_all add: joined_def)
  have pids: "tcb_pid (tcbs s2 a) = 1" "tcb_pid (tcbs s3 b) = 2" "tcb_pid (tcbs s4 c) = 3" "tcb_pid (tcbs s5 d) = 4"
    and run5: "RUNNING_THREAD s5 = t"
    using j run by (simp_all add: joined_def)
  have "kheap 53 s5 (main_view t a b c d)" using s5(2) by (simp add: main_view_def v)
  moreover have vs: "mtx_sem pid_mtx \<in> vs v" by (simp add: v)
  have "sem_val s5 m = sem_val s1 m" if "frame_of m = static_page" for m
    using joined_sem [OF j(1) vs that] joined_sem [OF j(2) _ that] joined_sem [OF j(3) _ that] joined_sem [OF j(4) _ that] vs
    by simp
  then have "sems_free s5" using con device_sems_static by (simp add: sems_free_def)
  moreover have "space_at c f s5" if "space_at c f s4" for f by (rule joined_space [OF j(4) s4(2) that]) (use n in auto)
  then have sp: "\<exists>f. space_at c f s5" using s4(4) by blast
  have mg: "tcb_stack_magic (tcbs s2 a) = STACK_MAGIC" "tcb_stack_magic (tcbs s3 b) = STACK_MAGIC"
    "tcb_stack_magic (tcbs s4 c) = STACK_MAGIC" "tcb_stack_magic (tcbs s5 d) = STACK_MAGIC"
    and ti: "unat (tcb_ticks (tcbs s2 a)) \<le> 11" "unat (tcb_ticks (tcbs s3 b)) \<le> 11"
      "unat (tcb_ticks (tcbs s4 c)) \<le> 11" "unat (tcb_ticks (tcbs s5 d)) \<le> 11"
    using j by (simp_all add: joined_def)
  have eq: "tcbs s5 t = tcbs s1 t" "tcbs s5 a = tcbs s2 a" "tcbs s5 b = tcbs s3 b" "tcbs s5 c = tcbs s4 c"
    using tc ne by simp_all
  have "threads_ready t a b c d s5"
    using sp s5(4) mg ti s2(4) s3(4) idle by (simp add: threads_ready_def idle_ready_def eq)
  moreover have "cr3 s5 = cr3 s1" by (simp add: joined_cr3 [OF j(1)] joined_cr3 [OF j(2)] joined_cr3 [OF j(3)] joined_cr3 [OF j(4)])
  moreover have "kernel_vir_pool s5 = the_heap_pool all_mem" using pool s2(5) s3(5) s4(5) s5(5) by simp
  moreover have "tables_set tbl s5"
    by (rule joined_tables [OF j(4) joined_tables [OF j(3) joined_tables [OF j(2) joined_tables [OF j(1) tbl]]]])
  moreover have "table_of [t, a, b, c, d] (sch_thread_table (sched s5))" using T5 by simp
  moreover have "map (\<lambda>x. tcb_pid (tcbs s5 x)) [t, a, b, c, d] = [0, 1, 2, 3, 4]" using ne tc pids pid by simp
  moreover have "map (\<lambda>x. tcb_pg_dir (tcbs s5 x) = NULL) [a, b, c, d] = [True, True, False, False]"
    using ne tc s2(4) s3(4) s4(4) s5(4) by (auto simp: space_at_def)
  moreover have "distinct [t, a, b, c, d]" using ne by simp
  ultimately show thesis using s2(1) s3(1) s4(1) s5(1) run5 by (intro that [of a s2 b s3 s4 s5 c d])
qed

lemma main_start_ok:
  fixes s :: "'a kernel_scheme"
  assumes l: "loaded all_mem s" and all: "0x400000 \<le> all_mem" "all_mem \<le> 0x70000000"
    and t: "running_thread_get esp = t" "unat t < 0xc0100000" "t \<noteq> NULL" "t \<noteq> static_page"
  obtains s' a b c d where "main_start tbl idt_a esp arg1 arg2 s = Inr s'" and "distinct [t, a, b, c, d]"
    and "kheap 53 s' (main_view t a b c d)" and "RUNNING_THREAD s' = t"
    and "table_of [t, a, b, c, d] (sch_thread_table (sched s'))"
    and "map (\<lambda>x. tcb_pid (tcbs s' x)) [t, a, b, c, d] = [0, 1, 2, 3, 4]"
    and "map (\<lambda>x. tcb_pg_dir (tcbs s' x) = NULL) [a, b, c, d] = [True, True, False, False]"
    and "tables_set tbl s'" and "intr_get_status s' = INTR_ON"
    and "sems_free s'" and "threads_ready t a b c d s'" and "cr3 s' = 0x100000"
    and "kernel_vir_pool s' = the_heap_pool all_mem"
proof -
  let ?s0 = "put_str (lit ''I AM KERNEL\<newline>'') s"
  have l0: "loaded all_mem ?s0" using l by (simp add: loaded_def put_str_kernel frame)
  obtain s1 where s1: "init_all tbl idt_a esp ?s0 = Inr s1" "kheap 1 s1 (boot_view t)"
    "kernel_vir_pool s1 = the_heap_pool all_mem" "RUNNING_THREAD s1 = t" "tcb_pid (tcbs s1 t) = 0"
    "sch_thread_table (sched s1) = (replicate MAX_THREAD_NUM NULL)[0 := t]"
    "sem_val s1 (mtx_sem console_mutex) = 1" "tables_set tbl s1"
    "sem_val s1 (mtx_sem kbd_buf) = 1" "idle_ready t s1" "cr3 s1 = 0x100000"
    by (rule init_all_ok [OF l0 all t])
  have "MAX_THREAD_NUM = Suc (MAX_THREAD_NUM - 1)" "1 < MAX_THREAD_NUM" by (simp_all add: MAX_THREAD_NUM_def)
  then have T1: "table_of [t] (sch_thread_table (sched s1))"
    using t(3) s1(6) replicate_Suc [of "MAX_THREAD_NUM - 1" NULL] by (simp add: table_of_def)
  obtain a b c d s2 s3 s4 s5 where r: "thread_run (lit ''kthread1'') 8 (Func 0xc00015c5) arg1 s1 = Inr (a, s2)"
    "thread_run (lit ''kthread2'') 8 (Func 0xc00015fe) arg2 s2 = Inr (b, s3)"
    "process_run 0xc0001637 (lit ''process1'') s3 = Inr s4" "process_run 0xc000164c (lit ''process2'') s4 = Inr s5"
    "distinct [t, a, b, c, d]" "kheap 53 s5 (main_view t a b c d)" "RUNNING_THREAD s5 = t"
    "table_of [t, a, b, c, d] (sch_thread_table (sched s5))"
    "map (\<lambda>x. tcb_pid (tcbs s5 x)) [t, a, b, c, d] = [0, 1, 2, 3, 4]"
    "map (\<lambda>x. tcb_pg_dir (tcbs s5 x) = NULL) [a, b, c, d] = [True, True, False, False]"
    "tables_set tbl s5" "sems_free s5" "threads_ready t a b c d s5" "cr3 s5 = cr3 s1"
    "kernel_vir_pool s5 = the_heap_pool all_mem"
    by (rule main_spawns [OF s1(2) refl s1(3) all(1) T1 _ s1(10,8,5,4)]) (use s1(7,9) in \<open>simp add: sems_free_def\<close>)
  have f: "console_free s5" by (rule kheap_console_free [OF r(6)]) (use r(12) in \<open>simp_all add: main_view_def sems_free_def\<close>)
  obtain s6 where s6: "console_put_int (ucast (tcb_pid (tcbs (snd (intr_enable s5)) (RUNNING_THREAD (snd (intr_enable s5))))))
      (snd (intr_disable (snd (intr_enable s5)))) = Inr s6"
    "core_same s5 (snd (intr_enable s6))" "kstate.more (snd (intr_enable s6)) = kstate.more s5"
    "intr_get_status (snd (intr_enable s6)) = INTR_ON"
    by (rule main_end [OF f])
  let ?s' = "snd (intr_enable s6)"
  note e = core_sameD [OF s6(2)] and me = more_fields [OF s6(3)]
  have "main_start tbl idt_a esp arg1 arg2 s = Inr ?s'"
    using s1(1) r(1-4) s6(1) by (simp add: main_start_def Let_def)
  moreover have "tables_set tbl ?s'" using r(11) me by (simp add: tables_set_def kbd_ok_def)
  moreover have "threads_ready t a b c d ?s'"
    using r(13) heap_grows_cong [of s5 s5 ?s'] e
    by (simp add: threads_ready_def space_at_def kernel_dir_def)
  moreover have "sems_free ?s'" using r(12) e by (simp add: sems_free_def)
  ultimately show thesis
    by (intro that [of ?s' a b c d]) (use r s6(4) e s1(11) in simp_all)
qed

section \<open>From the start to the transition system\<close>

text \<open>From every directory that has the kernel's part, the directory of a process is found.\<close>

lemma space_of_found:
  assumes sp: "space_at c f s" and pool: "kernel_vir_pool s = the_heap_pool all_mem"
    and all: "0x200000 \<le> all_mem" "all_mem \<le> 0x70000000"
    and g: "selfmap (phys s) g" "g = cr3 s \<or> kernel_dir g s"
  shows "space_of c (s\<lparr>cr3 := g\<rparr>) = Inr f"
proof -
  let ?d = "tcb_pg_dir (tcbs s c)"
  have d: "?d \<in> pages (the_heap_pool all_mem)" using sp pool taken_subset by (auto simp: space_at_def)
  have "unat all_mem \<le> 1879048192" using all(2) by (simp add: word_le_nat_alt)
  then have "unat (kernel_pages all_mem) \<le> 229120" using page_counts(1) [OF all(1)] by linarith
  then have "unat ?d < 0xffc00000" "0xc0000000 \<le> unat ?d"
    using pages_range [OF pools_wf(3) [OF all] d] by (simp_all add: the_heap_pool_def new_pool_def K_HEAP_START_def)
  then have "0xc0000000 \<le> ?d" "?d < 0xffc00000" by (simp_all add: word_le_nat_alt word_less_nat_alt)
  then have "walk (phys s) g ?d = walk (phys s) (cr3 s) ?d" using g(2) by (auto simp: kernel_dir_def)
  then have "addr_v2p ?d (s\<lparr>cr3 := g\<rparr>) = Inr f"
    using sp g(1) by (intro addr_v2p_walk) (simp_all add: space_at_def)
  then show ?thesis using sp by (simp add: space_of_def space_at_def)
qed

lemma boot_linit:
  fixes s :: kernel
  assumes k: "kheap n s (main_view t a b c d)" and r: "sems_free s" "threads_ready t a b c d s"
    and c3: "cr3 s = 0x100000" and pool: "kernel_vir_pool s = the_heap_pool all_mem"
    and all: "0x200000 \<le> all_mem" "all_mem \<le> 0x70000000" and kb: "kbd_ok s"
  obtains D where "linit {pid_mtx, console_mutex, kbd_buf} D \<lparr>kern = s, crit = \<lambda>_. {}, pcs = \<lambda>_. Run\<rparr>"
    and "clocked D 11 s (main_view t a b c d)" and "queued (main_view t a b c d) = {t, a, b, c, d}"
proof -
  let ?v = "main_view t a b c d"
  note d = kheapD [OF k]
  obtain f g where f: "space_at c f s" and g: "space_at d g s" using r(2) by (auto simp: threads_ready_def)
  let ?D = "{0x100000, f, g}"
  have "selfmap (phys s) (cr3 s)" using heap_shapeD(7) [OF d(2) refl refl] by (simp add: tables_ok_def)
  then have dir: "selfmap (phys s) e \<and> (e = cr3 s \<or> kernel_dir e s)" if "e \<in> ?D" for e
    using that f g c3 by (auto simp: space_at_def kernel_dir_def)
  have p: "space_of c (s\<lparr>cr3 := e\<rparr>) = Inr f" "space_of d (s\<lparr>cr3 := e\<rparr>) = Inr g" if "e \<in> ?D" for e
    using dir [OF that] by (blast intro: space_of_found [OF f pool all] space_of_found [OF g pool all])+
  have z: "space_of x (s\<lparr>cr3 := e\<rparr>) = Inr 0x100000" if "x \<in> {t, a, b}" for x e
    using r(2) that by (auto simp: space_of_def threads_ready_def KERNEL_PAGE_DIR_BASE_ADDR_def)
  have vt: "vt ?v = {t, a, b, c, d}" by (auto simp: main_view_def)
  have sp: "spaces_ok ?D s (vt ?v)"
    unfolding spaces_ok_def vt using p z c3 by auto
  have "clocked ?D 11 s ?v" using d(1) sp r(2) by (simp add: clocked_def vt threads_ready_def)
  moreover have "vs ?v = mtx_sem ` {pid_mtx, console_mutex, kbd_buf}" by (auto simp: main_view_def)
  moreover have "queued ?v = {t, a, b, c, d}"
  proof -
    have "(8 :: u32) < PRIO_NUM" "(31 :: u32) < PRIO_NUM" by (simp_all add: PRIO_NUM_def)
    then show ?thesis by (auto simp: queued_def main_view_def split: if_splits)
  qed
  moreover have "waiting ?v = {}" by (simp add: waiting_def main_view_def)
  moreover have "\<forall>x\<in>vt ?v. tcb_stack_magic (tcbs s x) = STACK_MAGIC" using r(2) vt by (simp add: threads_ready_def)
  moreover have "\<forall>m\<in>{pid_mtx, console_mutex, kbd_buf}. sem_val s (mtx_sem m) = 1"
    using d(7) r(1) by (simp add: sems_free_def)
  ultimately show thesis using d(1) vt kb sp by (intro that [of ?D]) (auto simp: linit_def intro!: exI [of _ ?v])
qed

end
