(* ===== verification/Props_Boot.thy ===== *)
theory Props_Boot
  imports Boot Scenario
begin

text \<open>
  The properties of the kernel's start: the page tables of the loader, the heap over many
  allocations, \<^verbatim>\<open>process_run\<close>, and \<^verbatim>\<open>main\<close> from the loader's state to the last
  of its threads.
\<close>

section \<open>The loader's page tables\<close>

text \<open>
  C24. The page tables \<open>setup_page\<close> builds over any memory: an address below the first megabyte
  and the same address in the kernel's part of the space both translate to themselves, and the
  directory maps itself, so that the kernel's macros reach it.
\<close>

theorem setup_page_maps_low_memory:
  assumes "unat x < 0x100000"
  shows "walk (setup_page ph) PAGE_DIR_TABLE_POS x = Some x
    \<and> walk (setup_page ph) PAGE_DIR_TABLE_POS (0xc0000000 + x) = Some x
    \<and> selfmap (setup_page ph) PAGE_DIR_TABLE_POS"
proof -
  have "selfmap (setup_page ph) 0x100000"
    by (simp add: selfmap_def frame_of_def setup_page_entries(2))
  then show ?thesis using setup_page_low [OF assms] by (simp add: PAGE_DIR_TABLE_POS_def)
qed

theorem setup_page_maps_low_memory_witness:
  "walk (setup_page (\<lambda>_. 0xdead)) PAGE_DIR_TABLE_POS 0xc00b8000 = Some 0xb8000"
  using setup_page_maps_low_memory [of "0xb8000" "\<lambda>_. 0xdead"] by simp

section \<open>The heap over many allocations\<close>

text \<open>
  C12. The kernel's heap stays well formed: after any number of pages, an allocation hands out the next
  pages of the heap in order, each mapped to a frame that was free; the first \<open>j + n\<close> bits of the
  map and no others are set; the page tables keep their places and the pages still free stay
  unmapped.
\<close>

theorem heap_grows_in_order:
  fixes s :: "'a kstate_scheme"
  assumes "heap_shape j s" and "0 < n" and "n < 3840" and "vp = kernel_vir_pool s"
    and "j + unat n \<le> unat (bit_num (btmp vp))"
  shows "\<exists>s' f. kernel_pages_malloc n s = Inr (page_at vp (of_nat j), s') \<and> heap_shape (j + unat n) s'
    \<and> kernel_vir_pool s' = vp \<and> taken vp (mem s') = taken vp (mem s) \<union> run_pages (page_at vp (of_nat j)) n
    \<and> walk (phys s') (cr3 s') (page_at vp (of_nat j)) = Some f
    \<and> f \<in> pages (kernel_phy_pool s) - taken (kernel_phy_pool s) (mem s)"
proof -
  obtain v m ph f where "kernel_pages_malloc n s = Inr (v, s\<lparr>mem := m, phys := ph\<rparr>)"
    "v = page_at vp (of_nat j)" "heap_shape (j + unat n) (s\<lparr>mem := m, phys := ph\<rparr>)"
    "taken vp m = taken vp (mem s) \<union> run_pages v n" "walk ph (cr3 s) v = Some f"
    "f \<in> pages (kernel_phy_pool s) - taken (kernel_phy_pool s) (mem s)"
    by (rule heap_malloc [OF assms(1-4) refl assms(5)])
  then show ?thesis
    using assms(4) by (intro exI [of _ "s\<lparr>mem := m, phys := ph\<rparr>"] exI [of _ f]) simp
qed

text \<open>A machine of 32 megabytes as the loader leaves it, and after \<open>init_all\<close>.\<close>

definition load0 :: kernel where
  "load0 = raw0\<lparr>phys := setup_page ((\<lambda>_. 0)(0xb00 := 0x2000000)), cr3 := 0x100000,
     gdt := replicate 7 (gdt_desc_make \<lparr>limit_low_word = 0, base_low_word = 0, base_mid_byte = 0, attr_low_byte = 0,
       limit_high_attr_high = 0, base_high_byte = 0\<rparr> 0 0 0 0)\<rparr>"

definition boot0 :: kernel where
  "boot0 = (case init_all (\<lambda>_. 0) 0 0xc009ef00 load0 of Inr s \<Rightarrow> s | Inl _ \<Rightarrow> load0)"

lemma load0_loaded: "loaded 0x2000000 load0"
proof -
  have "a \<noteq> 0xb00" if "1053696 \<le> unat a" for a :: u32 using that by auto
  then show ?thesis
    unfolding loaded_def
    by (intro conjI exI [of _ "(\<lambda>_. 0)(0xb00 := 0x2000000)"]) (simp_all add: load0_def raw0_def SYSCALL_NUM_def ioq0_def)
qed

lemma idle_page:
  "running_thread_get 0xc009ef00 = 0xc009e000" "unat (0xc009e000 :: u32) < 0xc0100000" "(0xc009e000 :: u32) \<noteq> NULL"
  "0xc009e000 \<noteq> static_page"
  by (simp_all add: running_thread_get_def static_page_def)

lemma boot0_ready:
  "kheap 1 boot0 (boot_view 0xc009e000)" "kernel_vir_pool boot0 = the_heap_pool 0x2000000"
proof -
  have b: "(0x400000 :: u32) \<le> 0x2000000" "(0x2000000 :: u32) \<le> 0x70000000"
    by (simp_all add: word_le_nat_alt)
  obtain s' where "init_all (\<lambda>_. 0) 0 0xc009ef00 load0 = Inr s'" "kheap 1 s' (boot_view 0xc009e000)"
    "kernel_vir_pool s' = the_heap_pool 0x2000000"
    by (rule init_all_ok [OF load0_loaded b idle_page])
  then show "kheap 1 boot0 (boot_view 0xc009e000)" "kernel_vir_pool boot0 = the_heap_pool 0x2000000"
    by (simp_all add: boot0_def)
qed

lemma boot0_room: "n \<le> 256 \<Longrightarrow> heap_room n boot0"
  by (rule heap_room_all [OF _ _ boot0_ready(2)]) (simp_all add: word_le_nat_alt)

theorem heap_grows_in_order_witness:
  "heap_shape 1 boot0 \<and> (\<exists>s'. kernel_pages_malloc 2 boot0 = Inr (0xc0101000, s') \<and> heap_shape 3 s')"
proof -
  have n: "(0 :: u32) < 2" "(2 :: u32) < 3840" "1 + unat (2 :: u32) \<le> unat (bit_num (btmp (kernel_vir_pool boot0)))"
    using boot0_room [of 3] by (simp_all add: heap_room_def)
  have p: "page_at (kernel_vir_pool boot0) (of_nat 1) = 0xc0101000"
    by (simp add: boot0_ready(2) page_at_def the_heap_pool_def new_pool_def K_HEAP_START_def PG_SIZE_def)
  have e: "1 + unat (2 :: u32) = 3" by simp
  show ?thesis
    using heap_grows_in_order [OF kheapD(2) [OF boot0_ready(1)] n(1,2) refl n(3)] kheapD(2) [OF boot0_ready(1)]
    unfolding p e by auto
qed

section \<open>\<^verbatim>\<open>process_run\<close>\<close>

text \<open>
  C10. \<open>process_run\<close> with room for 25 pages: it returns; the new thread is ready at the end of the
  lowest queue and of the list of all threads with the kernel's invariant kept; its first frame
  enters \<open>process_entry\<close> with the program's address; its page directory maps itself and shares
  the kernel's part of the current one, and its address pool starts at \<open>0x8048000\<close> with every bit clear.
\<close>

theorem process_run_starts:
  fixes s :: "'a kernel_scheme"
  assumes "kheap j s v" and "heap_room (j + 25) s" and "length name \<le> 16"
  shows "\<exists>t s' v'. process_run filename name s = Inr s' \<and> kinv s' v'
    \<and> t \<notin> vt v \<and> va v' = va v @ [t] \<and> vq v' = (vq v)(31 := vq v 31 @ [t]) \<and> vw v' = vw v
    \<and> tcb_status (tcbs s' t) = TASK_READY \<and> RUNNING_THREAD s' = RUNNING_THREAD s \<and> eflags s' = eflags s
    \<and> entry_frame Process_entry filename (thread_stacks s' (tcb_stack_top (tcbs s' t)))
    \<and> fresh_space t s' \<and> (\<forall>x. x \<noteq> t \<longrightarrow> tcbs s' x = tcbs s x) \<and> heap_shape (j + 25) s'"
proof -
  obtain t s' where r: "process_run filename name s = Inr s'" "kheap (j + 25) s' (started t 31 (add_thread t v))"
    "fresh_thread t 31 Process_entry filename s s'" "new_page t v" "fresh_space t s'"
    "RUNNING_THREAD s' = RUNNING_THREAD s" "eflags s' = eflags s"
    by (rule process_run_kheap [OF assms])
  then show ?thesis
    using spawn_sel [of 31 t v] kheapD(1,2) [OF r(2)]
    by (intro exI [of _ t] exI [of _ s'] exI [of _ "spawn 31 t v"])
      (simp add: fresh_thread_def new_page_def spawn_def)
qed

theorem process_run_starts_witness:
  "kheap 1 boot0 (boot_view 0xc009e000) \<and> (\<exists>s'. process_run 0xc0001637 (lit ''process1'') boot0 = Inr s'
    \<and> (\<exists>t v'. kinv s' v' \<and> va v' = [0xc009e000, t] \<and> fresh_space t s'))"
proof -
  have n: "length (lit ''process1'') \<le> 16" by (simp add: lit_def)
  have "va (boot_view 0xc009e000) @ [t] = [0xc009e000, t]" for t by simp
  then show ?thesis
    using process_run_starts [OF boot0_ready(1) boot0_room n, of "0xc0001637"] boot0_ready(1) by fastforce
qed

section \<open>The kernel starts\<close>

text \<open>
  C5. The kernel boots: on a machine with four to 336 megabytes of memory, from the state the loader leaves
  with the stack it sets up, \<open>main\<close> returns from every call before its endless loop. Then the idle thread (main
  itself, pid 0) runs with interrupts on, two kernel threads (pids 1 and 2) are ready at priority 8 and two processes
  (pids 3 and 4, with page directories of their own) behind it at priority 31; the clock, the keyboard
  and the system call have their handlers, the kernel's invariant holds, and with the three mutexes all free this
  is a first state of the transition system of threads, clock and mutexes; and when only the clock interrupts, each
  of the five threads gets the processor within 1548 ticks.
\<close>

theorem kernel_boots:
  fixes s :: kernel
  assumes "loaded all_mem s" and "0x400000 \<le> all_mem" and "all_mem \<le> 0x15000000"
    and "t = 0xc009e000" and "running_thread_get esp = t"
  shows "\<exists>s' v a b c d D. main_start intr_entry_table idt_addr esp arg1 arg2 s = Inr s' \<and> distinct [t, a, b, c, d]
    \<and> kinv s' v \<and> va v = [t, a, b, c, d] \<and> vq v 8 = [a, b] \<and> vq v 31 = [t, c, d]
    \<and> (\<forall>p. p \<noteq> 8 \<longrightarrow> p \<noteq> 31 \<longrightarrow> vq v p = []) \<and> waiting v = {}
    \<and> RUNNING_THREAD s' = t \<and> intr_get_status s' = INTR_ON
    \<and> map (\<lambda>x. tcb_pid (tcbs s' x)) [t, a, b, c, d] = [0, 1, 2, 3, 4]
    \<and> map (\<lambda>x. tcb_pg_dir (tcbs s' x) = NULL) [a, b, c, d] = [True, True, False, False]
    \<and> tables_set intr_entry_table s'
    \<and> lreach {pid_mtx, console_mutex, kbd_buf} D \<lparr>kern = s', crit = \<lambda>_. {}, pcs = \<lambda>_. Run\<rparr>
    \<and> (\<forall>x\<in>{t, a, b, c, d}. \<exists>n\<le>1548. \<exists>s''. clock_run n esp' s' = Inr s'' \<and> RUNNING_THREAD s'' = x)"
proof -
  have le: "all_mem \<le> 0x70000000" "0x200000 \<le> all_mem" using assms(2,3) by (simp_all add: word_le_nat_alt)
  have t: "running_thread_get esp = t" "unat t < 0xc0100000" "t \<noteq> NULL" "t \<noteq> static_page"
    using assms(4,5) idle_page by simp_all
  obtain s' a b c d where r: "main_start intr_entry_table idt_addr esp arg1 arg2 s = Inr s'" "distinct [t, a, b, c, d]"
    "kheap 53 s' (main_view t a b c d)" "RUNNING_THREAD s' = t"
    "map (\<lambda>x. tcb_pid (tcbs s' x)) [t, a, b, c, d] = [0, 1, 2, 3, 4]"
    "map (\<lambda>x. tcb_pg_dir (tcbs s' x) = NULL) [a, b, c, d] = [True, True, False, False]"
    "tables_set intr_entry_table s'" "intr_get_status s' = INTR_ON"
    "sems_free s'" "threads_ready t a b c d s'" "cr3 s' = 0x100000" "kernel_vir_pool s' = the_heap_pool all_mem"
    by (rule main_start_ok [OF assms(1,2) le(1) t])
  let ?v = "main_view t a b c d"
  have "kbd_ok s'" using r(7) by (simp add: tables_set_def)
  then obtain D where D: "linit {pid_mtx, console_mutex, kbd_buf} D \<lparr>kern = s', crit = \<lambda>_. {}, pcs = \<lambda>_. Run\<rparr>"
    "clocked D 11 s' ?v" "queued ?v = {t, a, b, c, d}"
    by (rule boot_linit [OF r(3,9-12) le(2,1)])
  have five: "(11 + 1) * (32 * (card (queued ?v) - 1) + 1) = 1548" using r(2) by (simp add: D(3))
  have turn: "\<exists>n\<le>1548. \<exists>s''. clock_run n esp' s' = Inr s'' \<and> RUNNING_THREAD s'' = x" if "x \<in> {t, a, b, c, d}" for x
    using every_turn_comes [OF D(2) order_refl, of x esp'] that unfolding five unfolding D(3) by (simp only:)
  have "waiting (main_view t a b c d) = {}" by (simp add: main_view_def waiting_def)
  then show ?thesis
    using r(1,2,4-8) kheapD(1) [OF r(3)] lreach.init [OF D(1)] turn
    by (intro exI [of _ s'] exI [of _ "main_view t a b c d"] exI [of _ a] exI [of _ b] exI [of _ c] exI [of _ d] exI [of _ D])
      (simp add: main_view_def)
qed

theorem kernel_boots_witness:
  "loaded 0x2000000 load0 \<and> (\<exists>s' a b c d D. main_start (\<lambda>_. 0) 0 0xc009ef00 0 0 load0 = Inr s'
    \<and> map (\<lambda>x. tcb_pid (tcbs s' x)) [0xc009e000, a, b, c, d] = [0, 1, 2, 3, 4] \<and> intr_get_status s' = INTR_ON
    \<and> lreach {pid_mtx, console_mutex, kbd_buf} D \<lparr>kern = s', crit = \<lambda>_. {}, pcs = \<lambda>_. Run\<rparr>
    \<and> (\<exists>n\<le>1548. \<exists>s''. clock_run n 0xc009ef00 s' = Inr s'' \<and> RUNNING_THREAD s'' = d))"
proof -
  have b: "(0x400000 :: u32) \<le> 0x2000000" "(0x2000000 :: u32) \<le> 0x15000000"
    by (simp_all add: word_le_nat_alt)
  from kernel_boots [OF load0_loaded b refl idle_page(1), of "\<lambda>_. 0" 0 0 0 "0xc009ef00"]
  obtain s' a b c d D where "main_start (\<lambda>_. 0) 0 0xc009ef00 0 0 load0 = Inr s'"
    "map (\<lambda>x. tcb_pid (tcbs s' x)) [0xc009e000, a, b, c, d] = [0, 1, 2, 3, 4]" "intr_get_status s' = INTR_ON"
    "lreach {pid_mtx, console_mutex, kbd_buf} D \<lparr>kern = s', crit = \<lambda>_. {}, pcs = \<lambda>_. Run\<rparr>"
    "\<exists>n\<le>1548. \<exists>s''. clock_run n 0xc009ef00 s' = Inr s'' \<and> RUNNING_THREAD s'' = d"
    by (elim exE conjE) (rule that, assumption+, simp)
  then show ?thesis
    using load0_loaded
    by (intro conjI exI [of _ s'] exI [of _ a] exI [of _ b] exI [of _ c] exI [of _ d] exI [of _ D]) assumption+
qed

section \<open>A key too many\<close>

text \<open>
  C36. Nobody reads the keyboard's buffer, so it fills up: with 63 characters in it, each further key blocks
  the thread that the keyboard interrupted, whichever it is. The first one sleeps with the buffer's mutex in
  its hands and every later one waits for the mutex, out of the run queues; the best other thread runs, with the
  kernel's invariant kept and the buffer still full, so that the next key does the same.
\<close>

theorem full_buffer_blocks:
  fixes s :: "'a kernel_scheme"
  assumes "kinv s v" and "r = RUNNING_THREAD s" and "queued v - {r} \<noteq> {}"
    and "\<And>t. t \<in> vt v \<Longrightarrow> activatable t s"
    and "ioq_full kbd_buf s" and "mtx_sem kbd_buf \<in> vs v" and "sem_val s (mtx_sem kbd_buf) \<in> {0, 1}"
    and "\<not> ext_scan_code s" and "unat c < 59" and "\<not> modifier c"
  shows "\<exists>s' v' p. key_interrupt esp c s = Inl (Suspended s') \<and> kinv s' v' \<and> vt v' = vt v
    \<and> queued v' = queued v - {r} \<and> least_q v' p \<and> RUNNING_THREAD s' = hd (vq v' p)
    \<and> tcb_status (tcbs s' r) = TASK_BLOCKED \<and> ioq_full kbd_buf s' \<and> mtx_sem kbd_buf \<in> vs v'
    \<and> sem_val s' (mtx_sem kbd_buf) = 0"
proof -
  let ?e = "intr_enter esp (s\<lparr>in_ports := (in_ports s)(KBD_BUF_PORT := c)\<rparr>)"
  let ?Q = "\<lambda>s'. \<exists>v' p. kinv s' v' \<and> vt v' = vt v \<and> queued v' = queued v - {r} \<and> least_q v' p
    \<and> RUNNING_THREAD s' = hd (vq v' p) \<and> tcb_status (tcbs s' r) = TASK_BLOCKED \<and> ioq_full kbd_buf s'
    \<and> mtx_sem kbd_buf \<in> vs v' \<and> sem_val s' (mtx_sem kbd_buf) = 0"
  have k: "kinv ?e v" using assms(1) by (subst kinv_cong_fields [of _ s]) (simp_all add: frame)
  have a: "activatable t ?e" if "t \<in> vt v" for t
    using assms(4) [OF that] by (subst activatable_cong [of _ _ s]) (simp_all add: frame)
  have e: "r = RUNNING_THREAD ?e" "ioq_full kbd_buf ?e" "sem_val ?e (mtx_sem kbd_buf) \<in> {0, 1}"
    "\<not> ext_scan_code ?e" "in_ports ?e 0x60 = c"
    using assms(2,5,7,8) by (simp_all add: intr_enter_def upd_tcb_def outb_def Let_def ioq_full_def frame)
  obtain s' v' p where w: "ioq_putchar kbd_buf (key_char c ?e) ?e = Inl (Suspended s')" "kinv s' v'" "vt v' = vt v"
    "vs v' = vs v" "queued v' = queued v - {r}" "least_q v' p" "RUNNING_THREAD s' = hd (vq v' p)"
    "tcb_status (tcbs s' r) = TASK_BLOCKED" "sem_val s' (mtx_sem kbd_buf) = 0" "ioq_full kbd_buf s'"
    by (rule ioq_writer_suspends [OF k e(1) assms(3) a e(2) assms(6) e(3)])
  have "intr_keyboard_handler ?e = Inl (Suspended s')"
    using keyboard_plain [OF e(4,5) assms(9,10)] w(1) by simp
  moreover have "?Q s'" using w assms(6) by (intro exI [of _ v'] exI [of _ p]) simp
  ultimately show ?thesis by (simp add: key_interrupt_def)
qed

theorem full_buffer_blocks_witness:
  "\<exists>s :: kernel. RUNNING_THREAD s = idle_t \<and> length (ioq_bytes (ioqs s kbd_buf)) = 63
    \<and> (\<exists>s'. key_interrupt 0xc009fd00 0x1e s = Inl (Suspended s') \<and> tcb_status (tcbs s' idle_t) = TASK_BLOCKED)"
proof -
  let ?m = "mtx_sem kbd_buf" and ?w = "waiters (mtx_sem kbd_buf)"
  let ?s = "(mutex_init kbd_buf k2)\<lparr>ioqs := \<lambda>_. ioq0\<lparr>head := 63\<rparr>, ext_scan_code := False\<rparr>"
  have w: "unat ?w \<in> {3221256596, 3221258056}" by (simp add: device_waiters)
  have "kidx v2 = kidx empty_view" by (simp add: v2_sel kidx_def)
  moreover have "?m \<noteq> mtx_sem pid_mtx" by (simp add: mtx_sem_def kbd_buf_def pid_mtx_def scheduler_addr_def)
  ultimately have n: "new_sem ?m v2"
    using boot_lists_apart [OF _ w] static_sentinels [of ?w] w
    by (auto simp: new_sem_def v2_sel work_t_def idle_t_def static_page_def)
  have k: "kinv ?s (add_sem ?m v2)"
    using mutex_init_kinv [OF k2_facts(1) n] by (subst kinv_cong_fields [of _ "mutex_init kbd_buf k2"]) simp_all
  have a: "activatable t ?s" if "t \<in> vt (add_sem ?m v2)" for t
    using k2_activatable [of t] that by (subst activatable_cong [of _ _ k2]) (simp_all add: frame)
  have h: "idle_t = RUNNING_THREAD ?s" "queued (add_sem ?m v2) - {idle_t} \<noteq> {}" "ioq_full kbd_buf ?s"
    "?m \<in> vs (add_sem ?m v2)" "sem_val ?s ?m \<in> {0, 1}" "\<not> ext_scan_code ?s" "unat (0x1e :: u8) < 59" "\<not> modifier 0x1e"
    using k2_facts(2)
    by (simp_all add: frame v2_sel idle_t_def work_t_def ioq_full_def ioq0_def next_pos_get_def BUF_SIZE_def modifier_def)
  have "length (ioq_bytes (ioqs ?s kbd_buf)) = 63"
    using ioq_full_iff [of ?s kbd_buf] h(3) by (simp add: ioq_wf_def ioq0_def BUF_SIZE_def)
  then show ?thesis
    using full_buffer_blocks [OF k h(1,2) a h(3-8), of "0xc009fd00"] h(1) by (intro exI [of _ ?s]) auto
qed

section \<open>Large machines\<close>

text \<open>
  On larger machines the bitmaps, which start four pages below the stack's end, reach the page of the idle thread:
  with 384 megabytes the heap's bitmap covers the first byte of its control block.
\<close>

theorem bitmaps_reach_idle_thread:
  "running_thread_get 0xc009ef00 = 0xc009e000 \<and> in_map (btmp (the_heap_pool 0x18000000)) 0xc009e000"
proof -
  have k: "kernel_pages 0x18000000 = 48896" "user_pages 0x18000000 = 48896"
    by (simp_all add: kernel_pages_def user_pages_def PG_SIZE_def)
  have "bit_num_2_byte_len 48896 = 6112" by (simp add: bit_num_2_byte_len_def)
  then show ?thesis
    by (simp add: idle_page(1) in_map_def the_heap_pool_def new_pool_def k MEM_BITMAP_BASE_def word_less_nat_alt)
qed

end
