(* ===== verification/Stdio.thy ===== *)
theory Stdio
  imports Libc "HOL-Library.Signed_Division"
begin

text \<open>
  \<^verbatim>\<open>src/lib/stdio.c\<close>: \<^verbatim>\<open>itoa\<close>. An \<^verbatim>\<open>int\<close> is an integer between $-2^{31}$ and
  $2^{31}-1$; division and remainder truncate towards zero, negation wraps as on the processor.
  The digits are written from the least significant on and then reversed in place.
\<close>

section \<open>The code\<close>

definition wrap32 :: "int \<Rightarrow> int" where
  "wrap32 k = sint (of_int k :: u32)"

definition digit_char :: "int \<Rightarrow> u8" where
  "digit_char rem = (if rem > 9 then of_int (rem - 10 + 97) else of_int (rem + 48))"

text \<open>The digit loop; base zero is the processor's divide error.\<close>

partial_function (option) itoa_loop ::
    "int \<Rightarrow> u8 \<Rightarrow> addr \<Rightarrow> nat \<Rightarrow> memory \<Rightarrow> ('s halt + (nat \<times> memory)) option" where
  "itoa_loop num base str i m =
     (if num \<noteq> 0 then
        if base = 0 then Some (Inl (Panic ''#DE''))
        else itoa_loop (num sdiv uint base) base str (i + 1)
               (m(str + of_nat i := digit_char (num smod uint base)))
      else Some (Inr (i, m)))"

text \<open>\<open>k\<close> remaining swaps of the reversal of \<open>n\<close> bytes, from position \<open>j\<close> on.\<close>

primrec reverse_loop :: "nat \<Rightarrow> nat \<Rightarrow> nat \<Rightarrow> addr \<Rightarrow> memory \<Rightarrow> memory" where
  "reverse_loop 0 j n str m = m"
| "reverse_loop (Suc k) j n str m =
     (let tmp = m (str + of_nat j);
          m = m(str + of_nat j := m (str + of_nat (n - j - 1)));
          m = m(str + of_nat (n - j - 1) := tmp)
      in reverse_loop k (j + 1) n str m)"

definition itoa :: "int \<Rightarrow> addr \<Rightarrow> u8 \<Rightarrow> memory \<Rightarrow> 's halt + memory" where
  "itoa num str base m =
     (if num = 0 then Inr (m(str := 0x30, str + 1 := 0))
      else
        let is_neg = num < 0 \<and> base = 10;
            num = (if is_neg then wrap32 (- num) else num)
        in case itoa_loop num base str 0 m of
             None \<Rightarrow> Inl Spin
           | Some r \<Rightarrow> and_then r (\<lambda>(i, m).
               let (i, m) = (if is_neg then (i + 1, m(str + of_nat i := 0x2d)) else (i, m));
                   m = m(str + of_nat i := 0)
               in Inr (reverse_loop (i div 2) 0 i str m)))"

section \<open>Bytes of memory as a list\<close>

definition bytes :: "memory \<Rightarrow> addr \<Rightarrow> nat \<Rightarrow> u8 list" where
  "bytes m p n = map (\<lambda>k. m (p + of_nat k)) [0..<n]"

lemma length_bytes [simp]: "length (bytes m p n) = n"
  by (simp add: bytes_def)

lemma nth_bytes: "k < n \<Longrightarrow> bytes m p n ! k = m (p + of_nat k)"
  by (simp add: bytes_def)

lemma bytes_upd:
  assumes "n \<le> 4294967296" and "j < n"
  shows "bytes (m(p + of_nat j := x)) p n = (bytes m p n)[j := x]"
proof (rule nth_equalityI)
  fix k assume "k < length (bytes (m(p + of_nat j := x)) p n)"
  then have k: "k < n" by simp
  then have "(of_nat k = (of_nat j :: u32)) = (k = j)" using assms by (intro of_nat_inj_u32) simp_all
  then show "bytes (m(p + of_nat j := x)) p n ! k = (bytes m p n)[j := x] ! k"
    using k by (simp add: nth_bytes nth_list_update)
qed simp

lemma bytes_upd_out:
  assumes "n \<le> j" and "j < 4294967296"
  shows "bytes (m(p + of_nat j := x)) p n = bytes m p n"
proof -
  have "(of_nat k = (of_nat j :: u32)) = (k = j)" if "k < n" for k
    using assms that by (intro of_nat_inj_u32) simp_all
  then show ?thesis using assms by (simp add: bytes_def)
qed

lemma bytes_Suc: "bytes m p (Suc n) = bytes m p n @ [m (p + of_nat n)]"
  by (simp add: bytes_def)

section \<open>The digits\<close>

function digits :: "nat \<Rightarrow> nat \<Rightarrow> nat list" where
  "digits b n = (if b < 2 \<or> n = 0 then [] else digits b (n div b) @ [n mod b])"
  by pat_completeness auto
termination
  by (relation "measure snd") auto

declare digits.simps [simp del]

text \<open>Horner's rule reads a number back from its digits.\<close>

definition value_of :: "nat \<Rightarrow> nat list \<Rightarrow> nat" where
  "value_of b ds = foldl (\<lambda>acc d. acc * b + d) 0 ds"

lemma value_digits: "2 \<le> b \<Longrightarrow> value_of b (digits b n) = n"
proof (induction b n rule: digits.induct)
  case (1 b n)
  then show ?case
    by (subst digits.simps) (auto simp: value_of_def)
qed

lemma digits_less: "2 \<le> b \<Longrightarrow> d \<in> set (digits b n) \<Longrightarrow> d < b"
proof (induction b n rule: digits.induct)
  case (1 b n)
  then show ?case by (subst (asm) (2) digits.simps) (auto split: if_splits)
qed

lemma digits_length:
  assumes "2 \<le> b" and "n < 2 ^ k"
  shows "length (digits b n) \<le> k"
  using assms
proof (induction k arbitrary: n)
  case 0
  then show ?case by (simp add: digits.simps)
next
  case (Suc k)
  have "n div b \<le> n div 2" using Suc.prems(1) by (rule div_le_mono2 [OF _ , rotated]) simp
  then have "n div b < 2 ^ k" using Suc.prems(2) by simp
  from Suc.IH [OF Suc.prems(1) this] show ?case by (subst digits.simps) simp
qed

definition dchar :: "nat \<Rightarrow> u8" where
  "dchar d = digit_char (int d)"

text \<open>The digit loop writes the digits from the least significant on.\<close>

lemma itoa_loop_digits:
  fixes base :: u8 and m :: memory
  assumes "2 \<le> unat base" and "i + length (digits (unat base) n) \<le> 4294967296"
  shows "\<exists>m'. itoa_loop (int n) base str i m = Some (Inr (i + length (digits (unat base) n), m') :: 's halt + _)
    \<and> bytes m' str (i + length (digits (unat base) n))
      = bytes m str i @ map dchar (rev (digits (unat base) n))"
  using assms
proof (induction "unat base" n arbitrary: i m rule: digits.induct)
  case (1 n)
  let ?b = "unat base"
  show ?case
  proof (cases "n = 0")
    case True
    then show ?thesis by (simp add: itoa_loop.simps digits.simps)
  next
    case False
    have ub: "uint base = int ?b" by simp
    have ne: "base \<noteq> 0" using "1.prems"(1) by auto
    have d: "digits ?b n = digits ?b (n div ?b) @ [n mod ?b]"
      using False "1.prems"(1) by (subst digits.simps) simp
    let ?m = "m(str + of_nat i := dchar (n mod ?b))"
    have arith: "int n sdiv uint base = int (n div ?b)" "int n smod uint base = int (n mod ?b)"
      unfolding ub using False "1.prems"(1) ne
      by (simp_all add: signed_divide_int_def signed_modulo_int_def zdiv_int zmod_int
        minus_mult_div_eq_mod)
    have step: "itoa_loop (int n) base str i m = (itoa_loop (int (n div ?b)) base str (i + 1) ?m :: ('s halt + _) option)"
      using False ne by (subst itoa_loop.simps) (simp add: arith dchar_def del: uint_nat)
    have len: "i + 1 + length (digits ?b (n div ?b)) \<le> 4294967296" using "1.prems"(2) d by simp
    obtain m' where m': "itoa_loop (int (n div ?b)) base str (i + 1) ?m =
        Some (Inr (i + 1 + length (digits ?b (n div ?b)), m') :: 's halt + _)"
      "bytes m' str (i + 1 + length (digits ?b (n div ?b)))
        = bytes ?m str (i + 1) @ map dchar (rev (digits ?b (n div ?b)))"
      using "1.hyps" [of "i + 1" ?m] False "1.prems"(1) len by auto
    have "bytes ?m str (i + 1) = bytes m str i @ [dchar (n mod ?b)]"
      using bytes_upd_out [of i i m str "dchar (n mod ?b)"] "1.prems"(2) d by (simp add: bytes_Suc)
    then show ?thesis using m' step d by simp
  qed
qed

section \<open>The reversal\<close>

lemma upd_at:
  assumes "i < 4294967296" and "j < 4294967296"
  shows "(m(p + of_nat j := x)) (p + of_nat i) = (if i = j then x else (m :: memory) (p + of_nat i))"
  using of_nat_inj_u32 [OF assms] by simp

lemma reverse_loop_read:
  assumes "2 * (j + k) \<le> n" and "n \<le> 4294967296" and "i < n"
  shows "reverse_loop k j n p m (p + of_nat i) =
    (if j \<le> i \<and> i < j + k \<or> n - (j + k) \<le> i \<and> i < n - j then m (p + of_nat (n - 1 - i))
     else m (p + of_nat i))"
  using assms(1)
proof (induction k arbitrary: j m)
  case 0
  then show ?case by auto
next
  case (Suc k)
  let ?a = "m (p + of_nat j)" and ?z = "m (p + of_nat (n - j - 1))"
  let ?m = "m(p + of_nat j := ?z, p + of_nat (n - j - 1) := ?a)"
  have lt: "j < n - j - 1 \<or> j = n - j - 1" "j < n" using Suc.prems by auto
  have rd: "?m (p + of_nat h) = (if h = n - j - 1 then ?a else if h = j then ?z else m (p + of_nat h))"
    if "h < n" for h
    using upd_at [of h "n - j - 1" "m(p + of_nat j := ?z)" p ?a] upd_at [of h j m p ?z] that assms(2) lt(2)
    by simp
  have "reverse_loop (Suc k) j n p m (p + of_nat i) = reverse_loop k (j + 1) n p ?m (p + of_nat i)"
    by (simp add: Let_def)
  also have "\<dots> = (if j + 1 \<le> i \<and> i < j + 1 + k \<or> n - (j + 1 + k) \<le> i \<and> i < n - (j + 1)
      then ?m (p + of_nat (n - 1 - i)) else ?m (p + of_nat i))"
    by (rule Suc.IH) (use Suc.prems in simp)
  also have "\<dots> = (if j \<le> i \<and> i < j + Suc k \<or> n - (j + Suc k) \<le> i \<and> i < n - j
      then m (p + of_nat (n - 1 - i)) else m (p + of_nat i))"
  proof -
    have at: "?m (p + of_nat i) = (if i = n - j - 1 then ?a else if i = j then ?z else m (p + of_nat i))"
      by (rule rd [OF assms(3)])
    consider "i = j" | "i \<noteq> j" "i = n - j - 1" | "i \<noteq> j" "i \<noteq> n - j - 1" by blast
    then show ?thesis
    proof cases
      case 1
      then have no: "\<not> (j + 1 \<le> i \<and> i < j + 1 + k \<or> n - (j + 1 + k) \<le> i \<and> i < n - (j + 1))"
        and yes: "j \<le> i \<and> i < j + Suc k \<or> n - (j + Suc k) \<le> i \<and> i < n - j"
        using Suc.prems by auto
      have "n - 1 - j = n - j - 1" by simp
      then have "(if i = n - j - 1 then ?a else if i = j then ?z else m (p + of_nat i)) = m (p + of_nat (n - 1 - i))"
        unfolding 1 by (cases "j = n - j - 1") (simp_all only: if_True if_False refl)
      then show ?thesis unfolding at if_P [OF yes] if_not_P [OF no] .
    next
      case 2
      then have no: "\<not> (j + 1 \<le> i \<and> i < j + 1 + k \<or> n - (j + 1 + k) \<le> i \<and> i < n - (j + 1))"
        and yes: "j \<le> i \<and> i < j + Suc k \<or> n - (j + Suc k) \<le> i \<and> i < n - j"
        and "n - 1 - i = j"
        using Suc.prems lt(2) by auto
      then show ?thesis unfolding at if_P [OF yes] if_not_P [OF no] by (simp only: 2 if_True simp_thms)
    next
      case 3
      then have same: "(j + 1 \<le> i \<and> i < j + 1 + k \<or> n - (j + 1 + k) \<le> i \<and> i < n - (j + 1)) =
          (j \<le> i \<and> i < j + Suc k \<or> n - (j + Suc k) \<le> i \<and> i < n - j)"
        and "n - 1 - i \<noteq> n - j - 1" "n - 1 - i \<noteq> j" "n - 1 - i < n"
        using Suc.prems assms(3) by auto
      then have "?m (p + of_nat (n - 1 - i)) = m (p + of_nat (n - 1 - i))"
        using rd [of "n - 1 - i"] by (simp only: if_False)
      then show ?thesis unfolding at same by (simp only: 3 if_False)
    qed
  qed
  finally show ?case .
qed

lemma reverse_loop_bytes:
  assumes "n \<le> 4294967296"
  shows "bytes (reverse_loop (n div 2) 0 n p m) p n = rev (bytes m p n)"
proof (rule nth_equalityI)
  fix i assume "i < length (bytes (reverse_loop (n div 2) 0 n p m) p n)"
  then have i: "i < n" by simp
  have "reverse_loop (n div 2) 0 n p m (p + of_nat i) = m (p + of_nat (n - 1 - i))"
  proof (cases "i < n div 2 \<or> n - n div 2 \<le> i")
    case True
    then show ?thesis using reverse_loop_read [of 0 "n div 2" n i p m] assms i by auto
  next
    case False
    then have "n - 1 - i = i" by linarith
    then show ?thesis using reverse_loop_read [of 0 "n div 2" n i p m] assms i False by auto
  qed
  then show "bytes (reverse_loop (n div 2) 0 n p m) p n ! i = rev (bytes m p n) ! i"
    using i by (simp add: nth_bytes rev_nth)
qed simp

section \<open>The result\<close>

lemma cstr_bytes:
  assumes "bytes m p n = xs" and "m (p + of_nat n) = 0" and "0 \<notin> set xs"
  shows "cstr m p xs"
  using assms
proof (induction n arbitrary: p xs)
  case 0
  then show ?case by (simp add: bytes_def)
next
  case (Suc n)
  have "bytes m p (Suc n) = m p # bytes m (p + 1) n"
    by (simp add: bytes_def upt_conv_Cons map_Suc_upt [symmetric] add.assoc del: upt_Suc)
  then obtain ys where xs: "xs = m p # ys" "bytes m (p + 1) n = ys" using Suc.prems(1) by auto
  have "cstr m (p + 1) ys"
    by (rule Suc.IH) (use Suc.prems xs in \<open>simp_all add: add.assoc\<close>)
  then show ?case using xs Suc.prems(3) by simp
qed

lemma unat_dchar: "d < 36 \<Longrightarrow> unat (dchar d) = (if 9 < d then d + 87 else d + 48)"
proof -
  assume d: "d < 36"
  have "dchar d = of_nat (if 9 < d then d + 87 else d + 48)"
    by (simp add: dchar_def digit_char_def)
  then show ?thesis using d by (simp only: unat_of_nat) simp
qed

lemma dchar_nonzero: "d < 36 \<Longrightarrow> dchar d \<noteq> 0"
proof -
  assume d: "d < 36"
  have "0 < unat (dchar d)" using unat_dchar [OF d] by simp
  then show ?thesis by auto
qed

definition itoa_text :: "int \<Rightarrow> nat \<Rightarrow> u8 list" where
  "itoa_text num b =
     (if num = 0 then [0x30]
      else (if num < 0 then [0x2d] else []) @ map dchar (digits b (nat \<bar>num\<bar>)))"

lemma wrap32_id: "- 2147483648 \<le> k \<Longrightarrow> k < 2147483648 \<Longrightarrow> wrap32 k = k"
  by (simp add: wrap32_def sint_sbintrunc' signed_take_bit_int_eq_self)

lemma itoa_text_nonzero:
  assumes "2 \<le> b" and "b \<le> 36"
  shows "0 \<notin> set (itoa_text num b)"
proof -
  have "dchar d \<noteq> 0" if "d \<in> set (digits b n)" for d n
    using digits_less [OF assms(1) that] assms(2) by (intro dchar_nonzero) simp
  then show ?thesis by (auto simp: itoa_text_def)
qed

lemma itoa_tail:
  assumes b: "2 \<le> unat base" "unat base \<le> 36" and n: "0 < n" "n < 2147483649"
  shows "\<exists>i m1. itoa_loop (int n) base str 0 m = Some (Inr (i, m1) :: 's halt + _)
    \<and> i \<le> 32 \<and> bytes m1 str i = map dchar (rev (digits (unat base) n))"
proof -
  have "length (digits (unat base) n) \<le> 32" by (rule digits_length [OF b(1)]) (use n in simp)
  then show ?thesis
    using itoa_loop_digits [OF b(1), of 0 n str m] by (auto simp: bytes_def)
qed

lemma itoa_correct:
  assumes b: "2 \<le> unat base" "unat base \<le> 36"
    and num: "- 2147483648 < num" "num < 2147483648" "num < 0 \<Longrightarrow> base = 10"
  shows "\<exists>m'. itoa num str base m = (Inr m' :: 's halt + _) \<and> cstr m' str (itoa_text num (unat base))"
proof (cases "num = 0")
  case True
  have "str \<noteq> str + 1" by simp
  with True show ?thesis by (simp add: itoa_def itoa_text_def)
next
  case False
  let ?n = "nat \<bar>num\<bar>" and ?neg = "num < 0 \<and> base = 10"
  have n: "0 < ?n" "?n < 2147483649" using num False by auto
  obtain i m1 where l: "itoa_loop (int ?n) base str 0 m = Some (Inr (i, m1) :: 's halt + _)"
    "i \<le> 32" "bytes m1 str i = map dchar (rev (digits (unat base) ?n))"
    using itoa_tail [OF b n] by blast
  have e: "(if ?neg then wrap32 (- num) else num) = int ?n"
    using num by (auto simp: wrap32_id)
  define k where "k = (if ?neg then i + 1 else i)"
  define m2 where "m2 = (if ?neg then m1(str + of_nat i := 0x2d) else m1)"
  let ?m3 = "m2(str + of_nat k := 0)"
  have k: "k \<le> 33" using l(2) by (simp add: k_def)
  have b2: "bytes m2 str k = rev (itoa_text num (unat base))"
    using l num(3) False bytes_upd_out [of i i m1 str "0x2d"]
    by (auto simp: m2_def k_def itoa_text_def bytes_Suc rev_map)
  have b3: "bytes ?m3 str k = rev (itoa_text num (unat base))"
    using bytes_upd_out [of k k m2 str 0] k b2 by simp
  let ?r = "reverse_loop (k div 2) 0 k str ?m3"
  have "bytes ?r str k = itoa_text num (unat base)"
    using reverse_loop_bytes [of k str ?m3] k b3 by simp
  moreover have "?r (str + of_nat k) = 0"
  proof -
    have far: "reverse_loop h j k str mm (str + of_nat k) = mm (str + of_nat k)" if "j + h \<le> k" for h j mm
      using that
    proof (induction h arbitrary: j mm)
      case 0
      then show ?case by simp
    next
      case (Suc h)
      have "(mm(str + of_nat j := x, str + of_nat (k - j - 1) := y)) (str + of_nat k) = mm (str + of_nat k)" for x y
      proof -
        have "k \<noteq> k - j - 1" "k \<noteq> j" "k < 4294967296" "j < 4294967296" "k - j - 1 < 4294967296"
          using Suc.prems k by auto
        then show ?thesis by (simp only: upd_at if_False)
      qed
      then show ?case using Suc by (simp add: Let_def)
    qed
    show ?thesis using far [of 0 "k div 2" ?m3] by simp
  qed
  ultimately have "cstr ?r str (itoa_text num (unat base))"
    by (rule cstr_bytes) (rule itoa_text_nonzero [OF b])
  moreover have "itoa num str base m = (Inr ?r :: 's halt + _)"
    unfolding itoa_def Let_def e using False l(1) by (simp add: k_def m2_def)
  ultimately show ?thesis by blast
qed

text \<open>Reading the printed number back.\<close>

definition char_digit :: "u8 \<Rightarrow> nat" where
  "char_digit c = (if unat c < 58 then unat c - 48 else unat c - 87)"

definition parse :: "nat \<Rightarrow> u8 list \<Rightarrow> int" where
  "parse b cs =
     (if cs \<noteq> [] \<and> hd cs = 0x2d then - int (value_of b (map char_digit (tl cs)))
      else int (value_of b (map char_digit cs)))"

lemma char_digit_dchar: "d < 36 \<Longrightarrow> char_digit (dchar d) = d"
  by (simp add: char_digit_def unat_dchar)

lemma parse_itoa_text:
  assumes "2 \<le> b" and "b \<le> 36"
  shows "parse b (itoa_text num b) = num"
proof -
  have v: "value_of b (map char_digit (map dchar (digits b n))) = n" for n
  proof -
    have "map char_digit (map dchar (digits b n)) = digits b n"
      unfolding map_map by (rule map_idI) (use digits_less [OF assms(1)] assms(2) char_digit_dchar in force)
    then show ?thesis using value_digits [OF assms(1)] by simp
  qed
  have nd: "dchar d \<noteq> 0x2d" if "d < 36" for d
  proof
    assume "dchar d = 0x2d"
    then have "unat (dchar d) = 45" by simp
    then show False using unat_dchar [OF that] by (auto split: if_splits)
  qed
  have "hd (map dchar (digits b n)) \<noteq> 0x2d" if "digits b n \<noteq> []" for n
    using nd [of "hd (digits b n)"] digits_less [OF assms(1) hd_in_set [OF that]] assms(2) that
    by (simp add: hd_map)
  then show ?thesis
    using v [of "nat \<bar>num\<bar>"]
    by (auto simp: parse_def itoa_text_def value_of_def char_digit_def)
qed

end
