(* ===== verification/Libc_Spec.thy ===== *)
theory Libc_Spec
  imports Stdio
begin

text \<open>
  What the routines of \<^verbatim>\<open>src/lib/string.c\<close> and \<^verbatim>\<open>itoa\<close> promise on C strings: the
  results of copying, appending and searching as functions of the lists of characters. The last
  section holds the properties.
\<close>

section \<open>Writing a list of bytes\<close>

text \<open>\<open>overlay p xs m\<close> is the memory \<open>m\<close> with the bytes \<open>xs\<close> at \<open>p\<close>.\<close>

definition overlay :: "addr \<Rightarrow> u8 list \<Rightarrow> memory \<Rightarrow> memory" where
  "overlay p xs m = (\<lambda>a. if unat (a - p) < length xs then xs ! unat (a - p) else m a)"

lemma overlay_Nil [simp]: "overlay p [] m = m"
  by (simp add: overlay_def)

lemma overlay_Cons:
  assumes "length xs < 2 ^ 32"
  shows "overlay (p + 1) xs (m(p := x)) = overlay p (x # xs) m"
proof
  fix a
  show "overlay (p + 1) xs (m(p := x)) a = overlay p (x # xs) m a"
  proof (cases "a = p")
    case True
    have "unat (p - (p + 1)) = 2 ^ 32 - 1" by (simp add: unsigned_minus_1_eq_mask mask_eq_exp_minus_1)
    then show ?thesis using True assms by (simp add: overlay_def)
  next
    case False
    then have "a - p \<noteq> 0" by simp
    then have u: "unat (a - (p + 1)) = unat (a - p) - 1" "0 < unat (a - p)"
      using unat_minus_one [of "a - p"] by (simp_all add: unat_gt_0 algebra_simps)
    then show ?thesis using False by (cases "unat (a - p)") (auto simp: overlay_def)
  qed
qed

lemma overlay_read:
  "n < 2 ^ 32 \<Longrightarrow> overlay p xs m (p + of_nat n) = (if n < length xs then xs ! n else m (p + of_nat n))"
  by (simp add: overlay_def unat_of_nat)

text \<open>Two blocks of memory without a common byte.\<close>

definition apart :: "addr \<Rightarrow> nat \<Rightarrow> addr \<Rightarrow> nat \<Rightarrow> bool" where
  "apart p n q k \<longleftrightarrow> (\<forall>i<n. \<forall>j<k. p + of_nat i \<noteq> q + of_nat j)"

lemma apart_sep:
  assumes "unat p + n \<le> unat q \<or> unat q + k \<le> unat p"
    and "unat p + n \<le> 2 ^ 32" and "unat q + k \<le> 2 ^ 32"
  shows "apart p n q k"
proof -
  have "unat (a + of_nat i) = unat a + i" if "unat a + i < 2 ^ 32" for a :: addr and i
    using that by (simp add: unat_word_ariths unat_of_nat)
  then have "unat (p + of_nat i) \<noteq> unat (q + of_nat j)" if "i < n" "j < k" for i j
    using assms that by auto
  then show ?thesis unfolding apart_def by metis
qed

lemma apart_Suc:
  assumes "apart p (Suc n) q (Suc k)"
  shows "apart (p + 1) n (q + 1) k" and "\<And>j. j < Suc k \<Longrightarrow> p \<noteq> q + of_nat j"
proof -
  have "p + of_nat (Suc i) \<noteq> q + of_nat (Suc j)" if "i < n" "j < k" for i j
    using assms that unfolding apart_def by blast
  then show "apart (p + 1) n (q + 1) k" by (simp add: apart_def add.assoc)
  show "p \<noteq> q + of_nat j" if "j < Suc k" for j
    using assms that unfolding apart_def by force
qed

lemma cstr_update:
  "cstr m p xs \<Longrightarrow> (\<And>j. j \<le> length xs \<Longrightarrow> a \<noteq> p + of_nat j) \<Longrightarrow> cstr (m(a := c)) p xs"
proof (induction xs arbitrary: p)
  case Nil
  then show ?case using Nil.prems(2) [of 0] by simp
next
  case (Cons x xs)
  have "cstr (m(a := c)) (p + 1) xs"
  proof (rule Cons.IH)
    fix j assume "j \<le> length xs"
    then show "a \<noteq> p + 1 + of_nat j" using Cons.prems(2) [of "Suc j"] by (simp add: add.assoc)
  qed (use Cons.prems(1) in simp)
  then show ?case using Cons.prems(1) Cons.prems(2) [of 0] by (simp add: fun_upd_def)
qed

section \<open>Copying and appending\<close>

text \<open>\<^verbatim>\<open>strcpy\<close> copies the characters but not the terminating zero.\<close>

lemma strcpy_loop_copies:
  "cstr m src xs \<Longrightarrow> apart dst (length xs) src (Suc (length xs)) \<Longrightarrow>
    strcpy_loop dst src m = Some (overlay dst xs m)"
proof (induction xs arbitrary: src dst m)
  case Nil
  then show ?case by (simp add: strcpy_loop.simps)
next
  case (Cons x xs)
  note a = apart_Suc [OF Cons.prems(2) [unfolded length_Cons]]
  have c: "cstr (m(dst := x)) (src + 1) xs"
    using Cons.prems(1) a(2) [of "Suc _"] by (intro cstr_update) (auto simp: add.assoc)
  have len: "length xs < 2 ^ 32" using cstr_length [OF Cons.prems(1)] by simp
  from Cons.IH [OF c a(1)] have "strcpy_loop (dst + 1) (src + 1) (m(dst := x)) =
      Some (overlay dst (x # xs) m)"
    by (simp only: overlay_Cons [OF len])
  then show ?case using Cons.prems(1) by (subst strcpy_loop.simps) auto
qed

lemma strcat_loop_copies:
  "cstr m src xs \<Longrightarrow> apart dst (Suc (length xs)) src (Suc (length xs)) \<Longrightarrow>
    strcat_loop dst src m = Some (overlay dst (xs @ [0]) m)"
proof (induction xs arbitrary: src dst m)
  case Nil
  then show ?case using overlay_Cons [of "[]" dst m 0] by (simp add: strcat_loop.simps)
next
  case (Cons x xs)
  note a = apart_Suc [OF Cons.prems(2) [unfolded length_Cons]]
  have c: "cstr (m(dst := x)) (src + 1) xs"
    using Cons.prems(1) a(2) [of "Suc _"] by (intro cstr_update) (auto simp: add.assoc)
  have len: "length (xs @ [0]) < 2 ^ 32" using cstr_length [OF Cons.prems(1)] by simp
  from Cons.IH [OF c a(1)] have "strcat_loop (dst + 1) (src + 1) (m(dst := x)) =
      Some (overlay dst ((x # xs) @ [0]) m)"
    by (simp only: overlay_Cons [OF len] append_Cons)
  then show ?case using Cons.prems(1) by (subst strcat_loop.simps) auto
qed

lemma cstr_read:
  assumes "\<And>i. i < length xs \<Longrightarrow> m (p + of_nat i) = xs ! i" and "m (p + of_nat (length xs)) = 0"
    and "0 \<notin> set xs"
  shows "cstr m p xs"
proof -
  have "bytes m p (length xs) = xs" by (rule nth_equalityI) (simp_all add: nth_bytes assms(1))
  then show ?thesis using assms(2,3) by (rule cstr_bytes)
qed

lemma cstr_nonzero: "cstr m p xs \<Longrightarrow> 0 \<notin> set xs"
  by (induction xs arbitrary: p) auto

lemma strcat_appends:
  assumes "dst \<noteq> NULL" and "src \<noteq> NULL" and d: "cstr m dst xs" and s: "cstr m src ys"
    and ap: "apart (dst + of_nat (length xs)) (Suc (length ys)) src (Suc (length ys))"
    and len: "length xs + length ys < 2 ^ 32"
  shows "\<exists>m'. strcat dst src m = Inr (dst, m') \<and> cstr m' dst (xs @ ys)
    \<and> m' = overlay (dst + of_nat (length xs)) (ys @ [0]) m"
proof -
  let ?m = "overlay (dst + of_nat (length xs)) (ys @ [0]) m"
  have rd: "?m (dst + of_nat i) = (if i < length xs then m (dst + of_nat i) else (ys @ [0]) ! (i - length xs))"
    if i: "i \<le> length xs + length ys" for i
  proof (cases "i < length xs")
    case True
    have "(dst + of_nat i) - (dst + of_nat (length xs)) = - (of_nat (length xs - i) :: u32)"
      using True by (simp add: of_nat_diff)
    also have "\<dots> = of_nat (2 ^ 32 - (length xs - i))"
      using len by (simp add: of_nat_diff)
    also have "unat \<dots> = 2 ^ 32 - (length xs - i)"
      using True len by (simp only: unat_of_nat) simp
    finally have "\<not> unat ((dst + of_nat i) - (dst + of_nat (length xs))) < length (ys @ [0])"
      using True len by simp
    then show ?thesis using True by (simp only: overlay_def if_False if_True)
  next
    case False
    then have e: "dst + of_nat i = dst + of_nat (length xs) + of_nat (i - length xs)" by (simp add: of_nat_diff)
    have "i - length xs < length (ys @ [0])" using False i by simp
    then show ?thesis unfolding e by (subst overlay_read) (use False i len in simp_all)
  qed
  have "cstr ?m dst (xs @ ys)"
  proof (rule cstr_read)
    show "?m (dst + of_nat i) = (xs @ ys) ! i" if "i < length (xs @ ys)" for i
      using that rd [of i] cstr_nth [OF d, of i] by (auto simp: nth_append)
    show "?m (dst + of_nat (length (xs @ ys))) = 0" using rd [of "length xs + length ys"] by simp
    show "0 \<notin> set (xs @ ys)" using cstr_nonzero [OF d] cstr_nonzero [OF s] by simp
  qed
  then show ?thesis
    using assms(1,2) strcat_loop_copies [OF s ap] by (simp add: strcat_def after_nul_cstr [OF d])
qed

section \<open>Searching for a character\<close>

text \<open>A \<^verbatim>\<open>char\<close> never equals a byte from 128 on: it is negative there.\<close>

lemma char_eq_u8_iff: "char_eq_u8 c ch \<longleftrightarrow> c = ch \<and> unat ch < 128"
proof -
  have s: "sint c = (if unat c < 128 then int (unat c) else int (unat c) - 256)"
  proof -
    have u: "unat c < 256" using unsigned_less [of c] by simp
    have "bit c 7 \<longleftrightarrow> 128 \<le> unat c"
    proof -
      have "bit c 7 \<longleftrightarrow> odd (unat c div 128)"
        using bit_iff_odd [of "unat c" 7] by (simp add: bit_unsigned_iff)
      also have "unat c div 128 = (if 128 \<le> unat c then 1 else 0)"
        using u by (auto intro: div_nat_eqI)
      finally show ?thesis by simp
    qed
    then have "sint c = (if 128 \<le> unat c then uint c - 256 else uint c)"
      using u by (simp add: sint_uint signed_take_bit_eq_take_bit_minus bit_uint_iff bintr_uint)
    then show ?thesis by simp
  qed
  have "unat c < 256" "unat ch < 256" using unsigned_less [of c] unsigned_less [of ch] by simp_all
  then have "sint c = int (unat ch) \<longleftrightarrow> unat c = unat ch \<and> unat ch < 128"
    unfolding s by (cases "unat c < 128"; simp only: if_True if_False; presburger)
  then show ?thesis unfolding char_eq_u8_def unat_eq_iff uint_nat .
qed

lemma strchr_loop_finds:
  "cstr m p xs \<Longrightarrow> strchr_loop m p ch =
    Some (if ch \<in> set xs \<and> unat ch < 128 then p + of_nat (length (takeWhile (\<lambda>c. c \<noteq> ch) xs)) else NULL)"
proof (induction xs arbitrary: p)
  case Nil
  then show ?case by (simp add: strchr_loop.simps)
next
  case (Cons x xs)
  have "strchr_loop m p ch = (if char_eq_u8 x ch then Some p else strchr_loop m (p + 1) ch)"
    using Cons.prems by (subst strchr_loop.simps) simp
  then show ?case using Cons by (auto simp: char_eq_u8_iff add.assoc)
qed

text \<open>The position of the last occurrence, from the list read backwards.\<close>

definition last_index :: "'c \<Rightarrow> 'c list \<Rightarrow> nat" where
  "last_index x xs = length xs - 1 - length (takeWhile (\<lambda>c. c \<noteq> x) (rev xs))"

lemma last_index_Cons: "x \<in> set ys \<Longrightarrow> last_index x (y # ys) = Suc (last_index x ys)"
proof -
  assume x: "x \<in> set ys"
  have "length (takeWhile (\<lambda>c. c \<noteq> x) (rev ys)) < length (rev ys)"
  proof -
    have "takeWhile (\<lambda>c. c \<noteq> x) (rev ys) \<noteq> rev ys" using x by (auto simp: takeWhile_eq_all_conv)
    then show ?thesis using length_takeWhile_le [of "\<lambda>c. c \<noteq> x" "rev ys"] takeWhile_eq_take
      by (metis le_neq_implies_less take_all_iff le_refl)
  qed
  moreover have "takeWhile (\<lambda>c. c \<noteq> x) (rev ys @ [y]) = takeWhile (\<lambda>c. c \<noteq> x) (rev ys)"
    using x by (intro takeWhile_append1 [of x]) auto
  ultimately show ?thesis by (simp add: last_index_def)
qed

lemma last_index_new: "x \<notin> set ys \<Longrightarrow> last_index x (x # ys) = 0"
proof -
  assume x: "x \<notin> set ys"
  then have "takeWhile (\<lambda>c. c \<noteq> x) (rev ys @ [x]) = rev ys"
    by (subst takeWhile_append2) auto
  then show ?thesis by (simp add: last_index_def)
qed

lemma last_index_nth: "x \<in> set xs \<Longrightarrow> last_index x xs < length xs \<and> xs ! last_index x xs = x
    \<and> (\<forall>j. last_index x xs < j \<longrightarrow> j < length xs \<longrightarrow> xs ! j \<noteq> x)"
proof (induction xs)
  case (Cons y ys)
  show ?case
  proof (cases "x \<in> set ys")
    case True
    then show ?thesis using Cons.IH by (auto simp: last_index_Cons nth_Cons split: nat.split)
  next
    case False
    then have "y = x" using Cons.prems by simp
    then show ?thesis using False by (auto simp: last_index_new nth_Cons split: nat.split)
  qed
qed simp

lemma strrchr_loop_finds:
  "cstr m p xs \<Longrightarrow> strrchr_loop m p ch q =
    Some (if ch \<in> set xs \<and> unat ch < 128 then p + of_nat (last_index ch xs) else q)"
proof (induction xs arbitrary: p q)
  case Nil
  then show ?case by (simp add: strrchr_loop.simps)
next
  case (Cons x xs)
  have "strrchr_loop m p ch q = strrchr_loop m (p + 1) ch (if char_eq_u8 x ch then p else q)"
    using Cons.prems by (subst strrchr_loop.simps) simp
  then show ?case
    using Cons by (auto simp: char_eq_u8_iff add.assoc last_index_Cons last_index_new)
qed

lemma strchrs_loop_counts:
  "cstr m p xs \<Longrightarrow> strchrs_loop m p ch k =
    Some (k + (if unat ch < 128 then of_nat (count_list xs ch) else 0))"
proof (induction xs arbitrary: p k)
  case Nil
  then show ?case by (simp add: strchrs_loop.simps)
next
  case (Cons x xs)
  have "strchrs_loop m p ch k = strchrs_loop m (p + 1) ch (if char_eq_u8 x ch then k + 1 else k)"
    using Cons.prems by (subst strchrs_loop.simps) simp
  then show ?case using Cons by (auto simp: char_eq_u8_iff add.assoc)
qed

lemma no_wrap_back:
  assumes "sz \<le> x" and "sz \<le> - x" and "k < (sz :: u32)"
  shows "\<not> x + k < sz"
proof -
  have "x \<noteq> 0" using assms by auto
  then have "unat (- x) = 2 ^ 32 - unat x"
    using unat_sub_if_size [of 0 x] by (simp add: word_size unat_gt_0)
  then have "unat x + unat k < 2 ^ 32"
    using assms unat_lt_2p32 [of x] by (simp add: word_less_nat_alt word_le_nat_alt)
  then have "unat (x + k) = unat x + unat k" by (simp add: unat_word_ariths)
  then show ?thesis using assms(1) by (simp add: word_less_nat_alt word_le_nat_alt)
qed

section \<open>Properties\<close>

text \<open>
  \<open>memcpy\<close> between blocks that do not overlap copies the block and changes nothing else,
  and \<open>memcmp\<close> then finds them equal; a null pointer is a failed assertion in both.
\<close>

theorem memcpy_memcmp:
  assumes "sz \<le> dst - src" and "sz \<le> src - dst"
  shows "(dst \<noteq> NULL \<longrightarrow> src \<noteq> NULL \<longrightarrow> (\<exists>m'. memcpy dst src sz m = Inr m'
      \<and> (\<forall>a. m' a = (if a - dst < sz then m (src + (a - dst)) else m a))
      \<and> memcmp dst src sz m' = Inr 0))
    \<and> (dst = NULL \<or> src = NULL \<longrightarrow>
        (\<exists>c. memcpy dst src sz m = Inl (Panic c)) \<and> (\<exists>c. memcmp dst src sz m = Inl (Panic c)))"
proof -
  let ?m = "\<lambda>a. if a - dst < sz then m (src + (a - dst)) else m a"
  have "?m (dst + k) = ?m (src + k)" if "k < sz" for k
    using no_wrap_back [of sz "src - dst" k] assms that by (simp add: algebra_simps)
  then have "memcmp_loop dst src sz 0 ?m = 0" by (simp add: memcmp_loop_zero)
  then show ?thesis
    using memcpy_spec [of dst src sz m] assms(1) by (auto simp: memcmp_def memcpy_def)
qed

theorem memcpy_memcmp_witness:
  "(4 :: u32) \<le> 0x2000 - 0x1000 \<and> (4 :: u32) \<le> 0x1000 - 0x2000
    \<and> (\<exists>m'. memcpy 0x2000 0x1000 4 ((\<lambda>_. 0)(0x1001 := 7)) = (Inr m' :: unit halt + _)
        \<and> m' 0x2001 = 7 \<and> memcmp 0x2000 0x1000 4 m' = (Inr 0 :: unit halt + _))"
proof -
  have h: "(4 :: u32) \<le> 0x2000 - 0x1000" "(4 :: u32) \<le> 0x1000 - 0x2000"
    by (simp_all add: word_le_nat_alt)
  show ?thesis
    using memcpy_memcmp [OF h, of "(\<lambda>_. 0)(0x1001 := 7)"] h by auto
qed

text \<open>
  C40. Comparing strings: \<open>strlen\<close> and \<open>strcmp\<close> return on every pair of strings;
  \<open>strlen\<close> is the number of characters, which never wraps, and \<open>strcmp\<close> is zero iff the
  strings are equal and otherwise $1$ or $-1$. A null pointer is a failed assertion.
\<close>

theorem strlen_strcmp:
  assumes "cstr m p xs" and "cstr m q ys"
  shows "(p \<noteq> NULL \<longrightarrow> (\<exists>n. strlen p m = Inr n \<and> unat n = length xs))
    \<and> (p \<noteq> NULL \<longrightarrow> q \<noteq> NULL \<longrightarrow>
        (\<exists>r. strcmp p q m = Inr r \<and> (r = 0 \<longleftrightarrow> xs = ys) \<and> r \<in> {minus1, 0, 1}))
    \<and> (p = NULL \<longrightarrow> (\<exists>c. strlen p m = Inl (Panic c)) \<and> (\<exists>c. strcmp p q m = Inl (Panic c)))"
proof -
  have "unat (of_nat (length xs) :: u32) = length xs"
    using cstr_length [OF assms(1)] by (simp add: unat_of_nat)
  then show ?thesis
    using strlen_spec [OF _ assms(1)] strcmp_spec [OF _ _ assms]
    by (intro conjI impI) (blast, blast, simp_all add: strlen_def strcmp_def)
qed

text \<open>The strings \<^verbatim>\<open>"ab"\<close> at 16 and \<^verbatim>\<open>"b"\<close> at 32.\<close>

definition strings0 :: memory where
  "strings0 = (\<lambda>_. 0)(16 := 0x61, 17 := 0x62, 32 := 0x62)"

lemma strings0_cstr: "cstr strings0 16 [0x61, 0x62]" "cstr strings0 32 [0x62]"
  by (simp_all add: strings0_def)

theorem strlen_strcmp_witness:
  "cstr strings0 16 [0x61, 0x62] \<and> cstr strings0 32 [0x62]
    \<and> (\<exists>n. strlen 16 strings0 = (Inr n :: unit halt + _) \<and> unat n = 2)
    \<and> (\<exists>r. strcmp 16 32 strings0 = (Inr r :: unit halt + _) \<and> r \<noteq> 0)"
  using strlen_strcmp [OF strings0_cstr] strings0_cstr by auto

text \<open>
  \<open>strcat\<close> puts the source behind the destination: the destination becomes the
  concatenation, terminated, only the bytes from the old end on are written, and the destination
  is returned. The source may not overlap the bytes that are written.
\<close>

theorem strcat_concatenates:
  assumes "dst \<noteq> NULL" and "src \<noteq> NULL" and "cstr m dst xs" and "cstr m src ys"
    and "apart (dst + of_nat (length xs)) (Suc (length ys)) src (Suc (length ys))"
    and "length xs + length ys < 2 ^ 32"
  shows "\<exists>m'. strcat dst src m = Inr (dst, m') \<and> cstr m' dst (xs @ ys)
    \<and> (\<forall>a. length ys < unat (a - (dst + of_nat (length xs))) \<longrightarrow> m' a = m a)"
  using strcat_appends [OF assms] by (auto simp: overlay_def)

theorem strcat_concatenates_witness:
  "apart 18 (Suc (Suc 0)) 32 (Suc (Suc 0)) \<and> (\<exists>m'. strcat 16 32 strings0 = (Inr (16, m') :: unit halt + _)
    \<and> cstr m' 16 [0x61, 0x62, 0x62])"
proof -
  have a: "apart 18 (Suc (Suc 0)) 32 (Suc (Suc 0))" by (rule apart_sep) simp_all
  then show ?thesis
    using strcat_concatenates [OF _ _ strings0_cstr, where ?'a = unit] by auto
qed

text \<open>
  \<open>strcpy\<close> copies the characters of the source and nothing more: the byte after the
  copy keeps its value, so the copy is terminated only if a zero was there before.
\<close>

theorem strcpy_drops_terminator:
  assumes "dst \<noteq> NULL" and "src \<noteq> NULL" and "cstr m src xs"
    and "apart dst (length xs) src (Suc (length xs))"
  shows "\<exists>m'. strcpy dst src m = Inr m' \<and> bytes m' dst (length xs) = xs
    \<and> m' (dst + of_nat (length xs)) = m (dst + of_nat (length xs))
    \<and> (cstr m' dst xs \<longleftrightarrow> m (dst + of_nat (length xs)) = 0)"
proof -
  let ?m = "overlay dst xs m"
  have l: "length xs < 2 ^ 32" by (rule cstr_length [OF assms(3)])
  have b: "bytes ?m dst (length xs) = xs"
    by (rule nth_equalityI) (use l in \<open>simp_all add: nth_bytes overlay_read\<close>)
  have e: "?m (dst + of_nat (length xs)) = m (dst + of_nat (length xs))"
    using l by (simp add: overlay_read)
  have "cstr ?m dst xs \<longleftrightarrow> m (dst + of_nat (length xs)) = 0"
    using cstr_bytes [OF b _ cstr_nonzero [OF assms(3)]] cstr_end [of ?m dst xs] e by auto
  then show ?thesis using strcpy_loop_copies [OF assms(3,4)] assms(1,2) b e by (simp add: strcpy_def)
qed

theorem strcpy_drops_terminator_witness:
  "apart 64 (Suc (Suc 0)) 16 (Suc (Suc (Suc 0))) \<and> (\<exists>m'. strcpy 64 16 (strings0(66 := 0x7a)) = (Inr m' :: unit halt + _)
    \<and> m' 66 = 0x7a \<and> \<not> cstr m' 64 [0x61, 0x62])"
proof -
  have c: "cstr (strings0(66 := 0x7a)) 16 [0x61, 0x62]" by (simp add: strings0_def)
  have a: "apart 64 (Suc (Suc 0)) 16 (Suc (Suc (Suc 0)))" by (rule apart_sep) simp_all
  then show ?thesis
    using strcpy_drops_terminator [OF _ _ c, of 64, where ?'a = unit] by auto
qed

text \<open>
  Searching: for a character below 128, \<open>strchr\<close> gives the address of its first
  occurrence, \<open>strrchr\<close> that of its last one and \<open>strchrs\<close> their number; the null pointer
  and zero stand for no occurrence, and are also the answer for every character from 128 on, even
  one that occurs.
\<close>

theorem character_search:
  assumes "p \<noteq> NULL" and "cstr m p xs" and "found \<longleftrightarrow> ch \<in> set xs \<and> unat ch < 128"
  shows "strchr p ch m =
        (Inr (if found then p + of_nat (length (takeWhile (\<lambda>c. c \<noteq> ch) xs)) else NULL) :: 's halt + _)
    \<and> strrchr p ch m = (Inr (if found then p + of_nat (last_index ch xs) else NULL) :: 's halt + _)
    \<and> strchrs p ch m = (Inr (if unat ch < 128 then of_nat (count_list xs ch) else 0) :: 's halt + _)
    \<and> (found \<longrightarrow> last_index ch xs < length xs \<and> xs ! last_index ch xs = ch
        \<and> (\<forall>j. last_index ch xs < j \<longrightarrow> j < length xs \<longrightarrow> xs ! j \<noteq> ch))"
  using assms strchr_loop_finds [OF assms(2), of ch] strrchr_loop_finds [OF assms(2), of ch NULL]
    strchrs_loop_counts [OF assms(2), of ch 0] last_index_nth [of ch xs]
  by (simp add: strchr_def strrchr_def strchrs_def)

theorem character_search_witness:
  "cstr strings0 16 [0x61, 0x62] \<and> strchr 16 0x62 strings0 = (Inr 17 :: unit halt + _)
    \<and> strchrs 16 0x62 strings0 = (Inr 1 :: unit halt + _)"
  using character_search [OF _ strings0_cstr(1), of True "0x62", where ?'s = unit] strings0_cstr by simp

text \<open>
  C37. \<open>itoa\<close> writes the number in the given base, with a minus sign when it is negative and
  decimal, as a terminated string from which the number can be read back. The excluded arguments
  are the most negative number and negative numbers in other bases.
\<close>

theorem itoa_roundtrip:
  assumes "2 \<le> unat base" and "unat base \<le> 36" and "- 2147483648 < num" and "num < 2147483648"
    and "num < 0 \<Longrightarrow> base = 10"
  shows "\<exists>m' cs. itoa num str base m = (Inr m' :: 's halt + _) \<and> cstr m' str cs \<and> parse (unat base) cs = num
    \<and> length cs \<le> 33"
proof -
  obtain m' where m': "itoa num str base m = (Inr m' :: 's halt + _)" "cstr m' str (itoa_text num (unat base))"
    using itoa_correct [OF assms] by blast
  have "length (digits (unat base) (nat \<bar>num\<bar>)) \<le> 32"
    by (rule digits_length [OF assms(1)]) (use assms(3,4) in simp)
  then have "length (itoa_text num (unat base)) \<le> 33"
    by (cases "num < 0"; cases "num = 0") (simp_all add: itoa_text_def)
  then show ?thesis using m' parse_itoa_text [OF assms(1,2)] by blast
qed

theorem itoa_roundtrip_witness:
  "\<exists>m' cs. itoa (- 1998) 64 10 (\<lambda>_. 0) = (Inr m' :: unit halt + _) \<and> cstr m' 64 cs
    \<and> parse 10 cs = - 1998"
  using itoa_roundtrip [of 10 "- 1998" 64 "\<lambda>_. 0"] by auto

end
