(* ===== verification/Boot_Image.thy ===== *)
theory Boot_Image
  imports Loader Descriptors Libc_Spec
begin

text \<open>
  What \<^verbatim>\<open>src/mbr_and_loader/loader.s\<close> does before it enters the kernel, but for the switch of
  processor modes: it asks the firmware for the size of memory, reads the kernel's file from
  the disk, unpacks it, and sets up the segments. The firmware's answers and the status and data of the disk
  controller are arguments. The stack words that calls push are not modelled.
\<close>

section \<open>Words and double words in byte memory\<close>

definition dword_at :: "memory \<Rightarrow> addr \<Rightarrow> u32" where
  "dword_at m a = ucast (word_at m a) OR push_bit 16 (ucast (word_at m (a + 2)))"

definition put_dword :: "addr \<Rightarrow> u32 \<Rightarrow> memory \<Rightarrow> memory" where
  "put_dword a w m = put_word (a + 2) (ucast (drop_bit 16 w)) (put_word a (ucast w) m)"

lemma word_at_put: "word_at (put_word a w m) a = w"
  unfolding word_at_def put_word_def by (rule bit_word_eqI) (auto simp: bit_simps)

lemma put_word_other: "b \<noteq> a \<Longrightarrow> b \<noteq> a + 1 \<Longrightarrow> put_word a w m b = m b"
  by (simp add: put_word_def)

lemma dword_at_put: "dword_at (put_dword a w m) a = w"
proof -
  have "a \<noteq> a + 2" "a \<noteq> a + 3" "a + 1 \<noteq> a + 2" "a + 1 \<noteq> a + 3" by simp_all
  then have "word_at (put_dword a w m) a = word_at (put_word a (ucast w) m) a"
    by (simp add: word_at_def put_dword_def put_word_other add.assoc)
  moreover have "word_at (put_dword a w m) (a + 2) = ucast (drop_bit 16 w)" by (simp add: put_dword_def word_at_put)
  ultimately show ?thesis
    unfolding dword_at_def by (simp add: word_at_put) (rule bit_word_eqI, auto simp: bit_simps)
qed

lemma overlay_other:
  assumes "unat a < unat p \<or> unat p + length xs \<le> unat a" and "unat p + length xs \<le> 2 ^ 32"
  shows "overlay p xs m a = m a"
proof -
  have "\<not> unat (a - p) < length xs"
  proof (cases "unat a < unat p")
    case True
    then have "unat (a - p) = 2 ^ 32 + unat a - unat p" by (simp add: unat_sub_if' word_le_nat_alt)
    then show ?thesis using assms(2) by linarith
  next
    case False
    then show ?thesis using assms(1) by (simp add: unat_sub_if' word_le_nat_alt)
  qed
  then show ?thesis by (simp add: overlay_def)
qed

section \<open>The size of memory\<close>

text \<open>
  The answers of interrupt \<open>0x15\<close>; \<open>None\<close> is a set carry flag. Function \<open>0xe820\<close>, for a value of \<^verbatim>\<open>ebx\<close>:
  the value for the next call, the number of bytes and the bytes stored at \<^verbatim>\<open>es:di\<close>. Function
  \<open>0xe801\<close>: \<^verbatim>\<open>ax\<close> and \<^verbatim>\<open>bx\<close>. Function \<open>0x88\<close>: \<^verbatim>\<open>ax\<close>. \<open>edx_before_88\<close> is what \<^verbatim>\<open>edx\<close> holds after the
  calls that failed.
\<close>

record firmware =
  e820 :: "u32 \<Rightarrow> (u32 \<times> u16 \<times> u8 list) option"
  e801 :: "(u16 \<times> u16) option"
  ext_88 :: "u16 option"
  edx_before_88 :: u32

text \<open>The data of the loader, which is loaded at \<open>0x900\<close>.\<close>

definition total_mem_bytes :: addr where "total_mem_bytes = 0xb00"
definition ards_buf :: addr where "ards_buf = 0xb0a"
definition ards_nr :: addr where "ards_nr = 0xbfe"

partial_function (option) e820_mem_get_loop :: "firmware \<Rightarrow> u32 \<Rightarrow> u16 \<Rightarrow> memory \<Rightarrow> (bool \<times> memory) option" where
  "e820_mem_get_loop b ebx di m =
     (case e820 b ebx of
        None \<Rightarrow> Some (False, m)
      | Some (ebx, cx, ards) \<Rightarrow>
          let m = overlay (ucast di) ards m;
              di = di + cx;
              m = put_word ards_nr (word_at m ards_nr + 1) m
          in if ebx \<noteq> 0 then e820_mem_get_loop b ebx di m else Some (True, m))"

text \<open>\<^verbatim>\<open>jge\<close> compares as signed numbers.\<close>

primrec find_max_mem_area :: "nat \<Rightarrow> addr \<Rightarrow> memory \<Rightarrow> u32 \<Rightarrow> u32" where
  "find_max_mem_area 0 ebx m edx = edx"
| "find_max_mem_area (Suc n) ebx m edx =
     (let eax = dword_at m ebx + dword_at m (ebx + 8)
      in find_max_mem_area n (ebx + 20) m (if sint eax \<le> sint edx then edx else eax))"

text \<open>The rounds of a \<^verbatim>\<open>loop\<close> on \<^verbatim>\<open>cx\<close> and on \<^verbatim>\<open>ecx\<close>: the register is decremented before it is tested.\<close>

definition loop_cx :: "u16 \<Rightarrow> nat" where "loop_cx cx = (if cx = 0 then 65536 else unat cx)"
definition loop_ecx :: "u32 \<Rightarrow> nat" where "loop_ecx ecx = (if ecx = 0 then 4294967296 else unat ecx)"

text \<open>\<^verbatim>\<open>mul cx\<close>: the product is in \<^verbatim>\<open>dx:ax\<close>.\<close>

definition mul16 :: "u16 \<Rightarrow> u16 \<Rightarrow> u16 \<times> u16" where
  "mul16 a b = (let p = ucast a * ucast b :: u32 in (ucast (drop_bit 16 p), ucast p))"

definition e801_size :: "u16 \<Rightarrow> u16 \<Rightarrow> u32" where
  "e801_size ax bx =
     (let (dx, ax) = mul16 ax 0x400;
          edx = push_bit 16 (ucast dx) OR ucast ax;
          esi = edx + 0x100000;
          eax = ucast bx * 0x10000
      in esi + eax)"

definition size_88 :: "u32 \<Rightarrow> u16 \<Rightarrow> u32" where
  "size_88 edx ax =
     (let (dx, ax) = mul16 ax 0x400;
          edx = (edx AND 0xffff0000) OR ucast dx;
          eax = push_bit 16 (ucast ax)
      in (edx OR eax) + 0x100000)"

definition mem_get :: "firmware \<Rightarrow> memory \<Rightarrow> 's halt + memory" where
  "mem_get b m =
     (case e820_mem_get_loop b 0 (ucast ards_buf) m of
        None \<Rightarrow> Inl Spin
      | Some (ok, m) \<Rightarrow>
          if ok then
            let cx = word_at m ards_nr
            in Inr (put_dword total_mem_bytes (find_max_mem_area (loop_cx cx) ards_buf m 0) m)
          else
            case e801 b of
              Some (ax, bx) \<Rightarrow> Inr (put_dword total_mem_bytes (e801_size ax bx) m)
            | None \<Rightarrow>
                (case ext_88 b of
                   Some ax \<Rightarrow> Inr (put_dword total_mem_bytes (size_88 (edx_before_88 b) ax) m)
                 | None \<Rightarrow> Inl Spin))"

section \<open>The memory map\<close>

text \<open>The first \<open>k\<close> descriptors of \<open>es\<close> are in the buffer and counted.\<close>

definition ards_ok :: "u8 list list \<Rightarrow> nat \<Rightarrow> memory \<Rightarrow> bool" where
  "ards_ok es k m \<longleftrightarrow>
     word_at m ards_nr = of_nat k \<and> (\<forall>i<k. \<forall>j<20. m (0xb0a + of_nat (20 * i + j)) = es ! i ! j)"

lemma unat_buf: "n < 4294964470 \<Longrightarrow> unat (0xb0a + of_nat n :: u32) = 2826 + n"
  by (simp add: unat_word_ariths unat_of_nat)

lemma ards_step:
  assumes "ards_ok es k m" and "k < 12" and "length (es ! k) = 20"
  shows "ards_ok es (Suc k) (let m = overlay (0xb0a + of_nat (20 * k)) (es ! k) m
    in put_word ards_nr (word_at m ards_nr + 1) m)"
proof -
  let ?p = "0xb0a + of_nat (20 * k) :: u32"
  let ?m = "overlay ?p (es ! k) m"
  have p: "unat ?p = 2826 + 20 * k" using assms(2) unat_buf [of "20 * k"] by simp
  have nr: "?m ards_nr = m ards_nr" "?m (ards_nr + 1) = m (ards_nr + 1)"
    using p assms(2,3) by (simp_all add: overlay_other ards_nr_def)
  then have w: "word_at ?m ards_nr = of_nat k"
    using assms(1) by (simp add: ards_ok_def word_at_def)
  have "put_word ards_nr x ?m (0xb0a + of_nat (20 * i + j)) = es ! i ! j" if i: "i < Suc k" "j < 20" for i j x
  proof -
    let ?a = "0xb0a + of_nat (20 * i + j) :: u32"
    have a: "unat ?a = 2826 + (20 * i + j)" using i assms(2) by (intro unat_buf) simp
    have "?a \<noteq> ards_nr" "?a \<noteq> ards_nr + 1"
      using a i assms(2) by (auto simp: ards_nr_def simp flip: unat_eq_iff)
    then have "put_word ards_nr x ?m ?a = ?m ?a" by (rule put_word_other)
    also have "\<dots> = es ! i ! j"
    proof (cases "i = k")
      case True
      have "?a = ?p + of_nat j" by (simp add: True)
      then show ?thesis using i assms(3) overlay_read [of j ?p "es ! k" m] by (simp add: True add.assoc)
    next
      case False
      then have "unat ?a < unat ?p" using a p i by simp
      then show ?thesis using False i p assms by (simp add: overlay_other ards_ok_def)
    qed
    finally show ?thesis .
  qed
  then show ?thesis using w by (simp add: ards_ok_def Let_def word_at_put)
qed

lemma unat_u16_u32: "unat (ucast (w :: u16) :: u32) = unat w"
proof -
  have "unat w < 65536" using unsigned_less [of w] by simp
  then show ?thesis by (simp add: unsigned_ucast_eq take_bit_nat_eq_self)
qed

lemma e820_loop:
  assumes b: "\<And>k. k < n \<Longrightarrow> e820 b (tok k) = Some (if Suc k = n then 0 else tok (Suc k), 20, es ! k)"
    and t: "\<And>k. 0 < k \<Longrightarrow> k < n \<Longrightarrow> tok k \<noteq> 0" and l: "\<And>k. k < n \<Longrightarrow> length (es ! k) = 20" and n: "n \<le> 12"
  shows "k < n \<Longrightarrow> ards_ok es k m \<Longrightarrow>
    \<exists>m'. e820_mem_get_loop b (tok k) (0xb0a + of_nat (20 * k)) m = Some (True, m') \<and> ards_ok es n m'"
proof (induction "n - k" arbitrary: k m)
  case (Suc d)
  let ?m = "let m = overlay (0xb0a + of_nat (20 * k)) (es ! k) m in put_word ards_nr (word_at m ards_nr + 1) m"
  have "k < 12" using Suc.prems(1) n by simp
  then have u: "unat (0xb0a + of_nat (20 * k) :: u16) = 2826 + 20 * k" by (simp add: unat_word_ariths unat_of_nat)
  moreover have "unat (0xb0a + of_nat (20 * k) :: u32) = 2826 + 20 * k" using \<open>k < 12\<close> unat_buf [of "20 * k"] by simp
  moreover have "unat (ucast (w :: u16) :: u32) = unat w" for w by (rule unat_u16_u32)
  ultimately have c: "ucast (0xb0a + of_nat (20 * k) :: u16) = (0xb0a + of_nat (20 * k) :: u32)"
    by (simp only: unat_eq_iff [symmetric])
  have di: "0xb0a + of_nat (20 * k) + 20 = (0xb0a + of_nat (20 * Suc k) :: u16)" by simp
  have ok: "ards_ok es (Suc k) ?m" using Suc.prems(2) \<open>k < 12\<close> l [OF Suc.prems(1)] by (rule ards_step)
  have e: "e820_mem_get_loop b (tok k) (0xb0a + of_nat (20 * k)) m =
      (if Suc k = n then Some (True, ?m) else e820_mem_get_loop b (tok (Suc k)) (0xb0a + of_nat (20 * Suc k)) ?m)"
    using t [of "Suc k"] Suc.prems(1)
    by (subst e820_mem_get_loop.simps) (simp only: b [OF Suc.prems(1)] c di Let_def option.case prod.case, simp)
  show ?case
  proof (cases "Suc k = n")
    case True
    then show ?thesis using e ok by simp
  next
    case False
    then have "Suc k < n" "d = n - Suc k" using Suc.prems(1) Suc.hyps(2) by simp_all
    then show ?thesis unfolding e using Suc.hyps(1) [OF _ _ ok] False by simp
  qed
qed simp

text \<open>The end of an area: the low double words of its base and its length.\<close>

definition area_end :: "u8 list \<Rightarrow> u32" where
  "area_end a = dword_at (\<lambda>i. a ! unat i) 0 + dword_at (\<lambda>i. a ! unat i) 8"

lemma ards_entry:
  assumes "ards_ok es n m" and "i < n"
  shows "dword_at m (0xb0a + of_nat (20 * i)) + dword_at m (0xb0a + of_nat (20 * i) + 8) = area_end (es ! i)"
proof -
  have "m (0xb0a + of_nat (20 * i) + of_nat j) = es ! i ! j" if "j < 20" for j
    using assms that by (simp add: ards_ok_def add.assoc)
  from this [of 0] this [of 1] this [of 2] this [of 3] this [of 8] this [of 9] this [of 10] this [of 11]
  show ?thesis by (simp add: area_end_def dword_at_def word_at_def add.assoc)
qed

lemma find_max_fold:
  assumes "ards_ok es n m"
  shows "i + k \<le> n \<Longrightarrow> n = length es \<Longrightarrow> find_max_mem_area k (0xb0a + of_nat (20 * i)) m edx =
    fold (\<lambda>e edx. if sint e \<le> sint edx then edx else e) (map area_end (take k (drop i es))) edx"
proof (induction k arbitrary: i edx)
  case (Suc k)
  have i: "i < n" using Suc.prems by simp
  have "drop i es = es ! i # drop (Suc i) es" using i Suc.prems(2) by (simp add: Cons_nth_drop_Suc)
  moreover have "(0xb0a + of_nat (20 * i) + 20 :: u32) = 0xb0a + of_nat (20 * Suc i)" by (simp add: algebra_simps)
  ultimately show ?case
    using Suc.IH [of "Suc i"] Suc.prems
    by (simp only: find_max_mem_area.simps Let_def ards_entry [OF assms i]) simp
qed simp

lemma fold_smax:
  "sint (fold (\<lambda>e (edx :: u32). if sint e \<le> sint edx then edx else e) xs edx) = Max (insert (sint edx) (sint ` set xs))"
proof (induction xs arbitrary: edx)
  case (Cons x xs)
  have "insert (max (sint edx) (sint x)) (sint ` set xs) = insert (max (sint edx) (sint x)) (sint ` set xs)" ..
  moreover have "Max (insert (sint edx) (insert (sint x) (sint ` set xs))) = Max (insert (max (sint edx) (sint x)) (sint ` set xs))"
    by (cases "xs = []") (simp_all add: max.assoc)
  ultimately show ?case using Cons.IH [of "if sint x \<le> sint edx then edx else x"] by (simp add: max_def)
qed simp

lemma sint_small:
  assumes "unat (x :: u32) < 2 ^ 31"
  shows "sint x = int (unat x)"
proof -
  have "unat x < 2147483648" using assms by simp
  then have "- 2147483648 \<le> uint x" "uint x < 2147483648" using uint_nat [of x] by linarith+
  then show ?thesis unfolding uint_nat [symmetric] sint_uint by (intro signed_take_bit_int_eq_self) simp_all
qed

lemma mul16_joined:
  "push_bit 16 (ucast (fst (mul16 a b))) OR ucast (snd (mul16 a b)) = (ucast a * ucast b :: u32)"
  unfolding mul16_def Let_def fst_conv snd_conv by (rule bit_word_eqI) (auto simp: bit_simps)

text \<open>
  C38. The size of memory: when the firmware lists at most twelve areas, the loader stores the greatest end of one,
  read as signed numbers and from the low double words only; for areas that end below two gigabytes this is
  the end of the highest area.
\<close>

theorem memory_size_found:
  assumes "es \<noteq> []" and "length es \<le> 12" and "\<forall>a\<in>set es. length a = 20"
    and "word_at m ards_nr = 0" and "tok 0 = 0" and "\<And>k. 0 < k \<Longrightarrow> k < length es \<Longrightarrow> tok k \<noteq> 0"
    and "\<And>k. k < length es \<Longrightarrow> e820 b (tok k) = Some (if Suc k = length es then 0 else tok (Suc k), 20, es ! k)"
  shows "\<exists>m'. (mem_get b m :: 's halt + memory) = Inr m'
    \<and> sint (dword_at m' total_mem_bytes) = Max (insert 0 ((\<lambda>a. sint (area_end a)) ` set es))
    \<and> ((\<forall>a\<in>set es. unat (area_end a) < 2 ^ 31) \<longrightarrow>
        unat (dword_at m' total_mem_bytes) = Max ((\<lambda>a. unat (area_end a)) ` set es))"
proof -
  let ?n = "length es"
  have l: "length (es ! k) = 20" if "k < ?n" for k using assms(3) that by simp
  have "0 < ?n" "ards_ok es 0 m" using assms(1,4) by (simp_all add: ards_ok_def)
  from e820_loop [OF assms(7,6) l assms(2) this]
  obtain m1 where m1: "e820_mem_get_loop b 0 0xb0a m = Some (True, m1)" "ards_ok es ?n m1"
    using assms(5) by auto
  have "word_at m1 ards_nr = of_nat ?n" using m1(2) by (simp add: ards_ok_def)
  moreover have "unat (of_nat ?n :: u16) = ?n" using assms(2) by (simp add: unat_of_nat)
  ultimately have c: "loop_cx (word_at m1 ards_nr) = ?n"
    using \<open>0 < ?n\<close> by (auto simp: loop_cx_def)
  define x where "x = find_max_mem_area ?n 0xb0a m1 0"
  have "x = fold (\<lambda>e edx. if sint e \<le> sint edx then edx else e) (map area_end es) 0"
    using find_max_fold [OF m1(2), of 0 ?n 0] by (simp add: x_def)
  then have sx: "sint x = Max (insert 0 ((\<lambda>a. sint (area_end a)) ` set es))"
    using fold_smax [of "map area_end es" 0] by (simp add: image_image)
  have r: "(mem_get b m :: 's halt + memory) = Inr (put_dword total_mem_bytes x m1)"
    using m1(1) c by (simp add: mem_get_def ards_buf_def x_def)
  have "unat x = Max ((\<lambda>a. unat (area_end a)) ` set es)" (is "_ = ?M") if s: "\<forall>a\<in>set es. unat (area_end a) < 2 ^ 31"
  proof -
    have "?M \<in> (\<lambda>a. unat (area_end a)) ` set es" using assms(1) by (intro Max_in) simp_all
    then have b: "?M < 2 ^ 31" using s by auto
    have "(\<lambda>a. sint (area_end a)) ` set es = int ` (\<lambda>a. unat (area_end a)) ` set es"
      using s by (auto simp: image_image sint_small)
    then have "sint x = max 0 (Max (int ` (\<lambda>a. unat (area_end a)) ` set es))"
      using sx assms(1) by simp
    also have "Max (int ` (\<lambda>a. unat (area_end a)) ` set es) = int ?M"
      using assms(1) by (intro mono_Max_commute [symmetric]) (simp_all add: mono_def)
    finally have "sint x = int ?M" by simp
    moreover have u: "unat (of_nat ?M :: u32) = ?M" using b by (simp add: unat_of_nat)
    then have "sint (of_nat ?M :: u32) = int ?M" using sint_small [of "of_nat ?M"] b by simp
    ultimately have "sint x = sint (of_nat ?M :: u32)" by simp
    then have "x = of_nat ?M" by (rule signed_word_eqI)
    then show ?thesis using u by simp
  qed
  then show ?thesis using r sx by (intro exI [of _ "put_dword total_mem_bytes x m1"]) (simp add: dword_at_put)
qed

theorem memory_size_found_witness:
  "\<exists>m'. (mem_get \<lparr>e820 = (\<lambda>ebx. if ebx = 0 then Some (1, 20, [0, 0, 0, 0, 0, 0, 0, 0, 0, 0xfc, 0x09, 0, 0, 0, 0, 0, 1, 0, 0, 0])
        else Some (0, 20, [0, 0, 0x10, 0, 0, 0, 0, 0, 0, 0, 0xf0, 0x01, 0, 0, 0, 0, 1, 0, 0, 0])),
      e801 = None, ext_88 = None, edx_before_88 = 0\<rparr> (\<lambda>_. 0) :: kernel halt + memory) = Inr m'
    \<and> unat (dword_at m' total_mem_bytes) = 0x2000000"
proof -
  let ?a = "[0, 0, 0, 0, 0, 0, 0, 0, 0, 0xfc, 0x09, 0, 0, 0, 0, 0, 1, 0, 0, 0] :: u8 list"
    and ?c = "[0, 0, 0x10, 0, 0, 0, 0, 0, 0, 0, 0xf0, 0x01, 0, 0, 0, 0, 1, 0, 0, 0] :: u8 list"
  let ?b = "\<lparr>e820 = (\<lambda>ebx. if ebx = 0 then Some (1, 20, ?a) else Some (0, 20, ?c)), e801 = None, ext_88 = None, edx_before_88 = 0\<rparr>"
  have e: "area_end ?a = 0x9fc00" "area_end ?c = 0x2000000"
    by (simp_all add: area_end_def dword_at_def word_at_def)
  have h: "[?a, ?c] \<noteq> []" "length [?a, ?c] \<le> 12" "\<forall>x\<in>set [?a, ?c]. length x = 20" "word_at (\<lambda>_. 0) ards_nr = 0"
    "(of_nat 0 :: u32) = 0" by (simp_all add: word_at_def)
  have t: "(of_nat k :: u32) \<noteq> 0" if "0 < k" "k < length [?a, ?c]" for k
    using that by (cases k) simp_all
  have s: "e820 ?b (of_nat k) = Some (if Suc k = length [?a, ?c] then 0 else of_nat (Suc k), 20, [?a, ?c] ! k)"
    if "k < length [?a, ?c]" for k
  proof -
    have "k = 0 \<or> k = 1" using that by auto
    then show ?thesis by auto
  qed
  show ?thesis
    by (rule exE [OF memory_size_found [where tok = of_nat and b = ?b and 's = kernel, OF h t s]])
      (assumption, assumption, assumption, elim conjE, rule exI, rule conjI, assumption, simp add: e)
qed

text \<open>The second way to ask is exact: \<open>ax\<close> kilobytes above the first megabyte and \<open>bx\<close> times 64 more.\<close>

theorem memory_size_e801:
  assumes "e820 b 0 = None" and "e801 b = Some (ax, bx)"
    and "0x100000 + 1024 * unat ax + 65536 * unat bx < 2 ^ 32"
  shows "\<exists>m'. mem_get b m = Inr m' \<and> unat (dword_at m' total_mem_bytes) = 0x100000 + 1024 * unat ax + 65536 * unat bx"
proof -
  let ?x = "e801_size ax bx"
  have "?x = ucast ax * ucast (0x400 :: u16) + 0x100000 + ucast bx * 0x10000"
    unfolding e801_size_def split_beta Let_def mul16_joined ..
  then have "?x = of_nat (0x100000 + 1024 * unat ax + 65536 * unat bx)"
    by (simp add: unat_u16_u32 [symmetric])
  then have "unat ?x = 0x100000 + 1024 * unat ax + 65536 * unat bx" using assms(3) by (simp only: unat_of_nat) simp
  moreover have "mem_get b m = Inr (put_dword total_mem_bytes ?x m)"
    using assms(1,2) by (simp add: mem_get_def e820_mem_get_loop.simps)
  ultimately show ?thesis by (intro exI [of _ "put_dword total_mem_bytes ?x m"]) (simp add: dword_at_put)
qed

text \<open>
  The last resort shifts the wrong half of the product: with 15 megabytes above the first one it finds one
  megabyte and 240 bytes.
\<close>

theorem memory_size_88: "size_88 0 0x3c00 = 0x1000f0"
  by (simp add: size_88_def mul16_def Let_def)

section \<open>The disk\<close>

text \<open>
  The status register of the controller, as the sequence of values it is read as, and the data port, which
  delivers words (\<open>in_words\<close>). What the code writes to the command ports is the first result.
\<close>

partial_function (option) not_ready :: "(nat \<Rightarrow> u8) \<Rightarrow> nat \<Rightarrow> nat option" where
  "not_ready status k = (if status k AND 0x88 = 0x08 then Some k else not_ready status (k + 1))"

definition disk_command :: "u32 \<Rightarrow> u8 \<Rightarrow> (u16 \<times> u8) list" where
  "disk_command eax cl =
     [(0x1f2, cl), (0x1f3, ucast eax), (0x1f4, ucast (drop_bit 8 eax)), (0x1f5, ucast (drop_bit 16 eax)),
      (0x1f6, (ucast (drop_bit 24 eax) AND 0x0f) OR 0xe0), (0x1f7, 0x20)]"

definition rd_disk_m_32 ::
    "u32 \<Rightarrow> addr \<Rightarrow> u32 \<Rightarrow> (nat \<Rightarrow> u8) \<Rightarrow> memory \<Rightarrow> word_port \<Rightarrow> 's halt + (u16 \<times> u8) list \<times> memory \<times> word_port" where
  "rd_disk_m_32 eax ebx ecx status m p =
     (case not_ready status 0 of
        None \<Rightarrow> Inl Spin
      | Some k \<Rightarrow>
          let (dx, ax) = mul16 (ucast ecx) 256;
              rounds = (ecx AND 0xffff0000) OR ucast ax
          in Inr (disk_command eax (ucast ecx), insw_loop (loop_ecx rounds) ebx m p))"

text \<open>The version of \<^verbatim>\<open>src/mbr_and_loader/mbr.s\<close>, with 16-bit addresses.\<close>

primrec go_on_read :: "nat \<Rightarrow> u16 \<Rightarrow> memory \<Rightarrow> word_port \<Rightarrow> memory \<times> word_port" where
  "go_on_read 0 bx m p = (m, p)"
| "go_on_read (Suc n) bx m p =
     (let w = (case in_words p of [] \<Rightarrow> 0xffff | w # _ \<Rightarrow> w)
      in go_on_read n (bx + 2) (put_word (ucast bx) w m) (p\<lparr>in_words := tl (in_words p)\<rparr>))"

definition rd_disk_m_16 ::
    "u32 \<Rightarrow> u16 \<Rightarrow> u16 \<Rightarrow> (nat \<Rightarrow> u8) \<Rightarrow> memory \<Rightarrow> word_port \<Rightarrow> 's halt + (u16 \<times> u8) list \<times> memory \<times> word_port" where
  "rd_disk_m_16 eax bx cx status m p =
     (case not_ready status 0 of
        None \<Rightarrow> Inl Spin
      | Some k \<Rightarrow>
          let (dx, ax) = mul16 cx 256
          in Inr (disk_command eax (ucast cx), go_on_read (loop_cx ax) bx m p))"

definition word_bytes :: "u16 \<Rightarrow> u8 list" where
  "word_bytes w = [ucast w, ucast (drop_bit 8 w)]"

lemma length_words: "length (concat (map word_bytes ws)) = 2 * length ws"
  by (induction ws) (simp_all add: word_bytes_def)

lemma insw_words:
  "2 * length ws < 2 ^ 32 \<Longrightarrow> insw_loop (length ws) a m (p\<lparr>in_words := ws @ rest\<rparr>) =
    (overlay a (concat (map word_bytes ws)) m, p\<lparr>in_words := rest\<rparr>)"
proof (induction ws arbitrary: a m)
  case (Cons w ws)
  let ?xs = "concat (map word_bytes ws)"
  have "overlay (a + 1 + 1) ?xs ((m(a := ucast w))(a + 1 := ucast (drop_bit 8 w)))
      = overlay (a + 1) (ucast (drop_bit 8 w) # ?xs) (m(a := ucast w))"
    using Cons.prems by (intro overlay_Cons) (simp add: length_words)
  also have "\<dots> = overlay a (ucast w # ucast (drop_bit 8 w) # ?xs) m"
    using Cons.prems by (intro overlay_Cons) (simp add: length_words)
  finally have "overlay (a + 2) ?xs (put_word a w m) = overlay a (concat (map word_bytes (w # ws))) m"
    by (simp add: put_word_def word_bytes_def add.assoc)
  then show ?case using Cons by simp
qed simp

lemma not_ready_found:
  "status n AND 0x88 = 0x08 \<Longrightarrow> k \<le> n \<Longrightarrow> \<exists>j. not_ready status k = Some j"
proof (induction "n - k" arbitrary: k)
  case 0
  then show ?case by (simp add: not_ready.simps)
next
  case (Suc d)
  then have "\<exists>j. not_ready status (k + 1) = Some j" by simp
  then show ?case by (subst not_ready.simps) simp
qed

lemma disk_rounds:
  assumes "0 < unat ecx" and "unat ecx < 256"
  shows "loop_ecx ((ecx AND 0xffff0000) OR ucast (snd (mul16 (ucast ecx) 256))) = 256 * unat ecx"
proof -
  have m: "(0xffff0000 :: u32) = push_bit 16 (mask 16)" by (simp add: mask_eq_exp_minus_1)
  have e: "ecx = of_nat (unat ecx)" by simp
  have "take_bit 8 ecx = ecx" using assms(2) by (simp add: word_unat_eq_iff unat_take_bit)
  then have b: "\<not> bit ecx n" if "8 \<le> n" for n using that by (metis bit_take_bit_iff not_le)
  have z: "ecx AND 0xffff0000 = 0"
    unfolding m by (rule bit_word_eqI) (auto simp: bit_simps b)
  have c: "unat (ucast ecx :: u16) = unat ecx" using assms(2) by (simp add: unsigned_ucast_eq take_bit_nat_eq_self)
  have "unat (ucast (ucast ecx :: u16) * ucast (256 :: u16) :: u32) = unat ecx * 256"
    using assms(2) c by (simp add: unat_word_ariths unat_u16_u32)
  then have "unat (snd (mul16 (ucast ecx) 256)) = unat ecx * 256"
    using assms(2) by (simp add: mul16_def Let_def unsigned_ucast_eq take_bit_nat_eq_self)
  then have "unat (ucast (snd (mul16 (ucast ecx) 256)) :: u32) = unat ecx * 256" by (simp only: unat_u16_u32)
  then show ?thesis using assms(1) z by (auto simp: loop_ecx_def)
qed

lemma rd_disk_reads:
  assumes "status n AND 0x88 = 0x08" and "0 < unat ecx" and "unat ecx < 256" and "length ws = 256 * unat ecx"
    and "in_words p = ws @ rest"
  shows "rd_disk_m_32 eax ebx ecx status m p =
    Inr (disk_command eax (ucast ecx), overlay ebx (concat (map word_bytes ws)) m, p\<lparr>in_words := rest\<rparr>)"
proof -
  obtain j where j: "not_ready status 0 = Some j" using not_ready_found [where k = 0 and status = status, OF assms(1)] by auto
  have "insw_loop (length ws) ebx m (p\<lparr>in_words := ws @ rest\<rparr>) =
      (overlay ebx (concat (map word_bytes ws)) m, p\<lparr>in_words := rest\<rparr>)"
    using assms(3,4) by (intro insw_words) simp
  moreover have "p\<lparr>in_words := ws @ rest\<rparr> = p" using assms(5) by simp
  ultimately show ?thesis
    using assms(4) by (simp add: rd_disk_m_32_def j disk_rounds [OF assms(2,3)] split_beta)
qed

text \<open>The loader is read the same way, as long as the 16-bit address does not wrap.\<close>

lemma go_on_read_words:
  "unat bx + 2 * length ws < 65536 \<Longrightarrow> go_on_read (length ws) bx m (p\<lparr>in_words := ws @ rest\<rparr>) =
    (overlay (ucast bx) (concat (map word_bytes ws)) m, p\<lparr>in_words := rest\<rparr>)"
proof (induction ws arbitrary: bx m)
  case (Cons w ws)
  let ?xs = "concat (map word_bytes ws)" and ?a = "ucast bx :: addr"
  have u: "unat (bx + 2) = unat bx + 2" using Cons.prems by (simp add: unat_word_ariths)
  then have "unat (ucast (bx + 2) :: u32) = unat (?a + 2)"
    using Cons.prems by (simp add: unat_u16_u32 unat_word_ariths)
  then have b: "ucast (bx + 2) = ?a + 2" by (simp only: unat_eq_iff)
  have "overlay (?a + 1 + 1) ?xs ((m(?a := ucast w))(?a + 1 := ucast (drop_bit 8 w)))
      = overlay (?a + 1) (ucast (drop_bit 8 w) # ?xs) (m(?a := ucast w))"
    using Cons.prems by (intro overlay_Cons) (simp add: length_words)
  also have "\<dots> = overlay ?a (ucast w # ucast (drop_bit 8 w) # ?xs) m"
    using Cons.prems by (intro overlay_Cons) (simp add: length_words)
  finally have "overlay (?a + 2) ?xs (put_word ?a w m) = overlay ?a (concat (map word_bytes (w # ws))) m"
    by (simp add: put_word_def word_bytes_def add.assoc)
  then show ?case using Cons.IH [of "bx + 2" "put_word ?a w m"] Cons.prems u b by simp
qed simp

text \<open>The boot sector reads four sectors from sector 2 to \<open>0x900\<close>.\<close>

theorem loader_read:
  assumes "status n AND 0x88 = 0x08" and "length ws = 4 * 256" and "in_words p = ws @ rest"
  shows "rd_disk_m_16 2 0x900 4 status m p =
    Inr ([(0x1f2, 4), (0x1f3, 2), (0x1f4, 0), (0x1f5, 0), (0x1f6, 0xe0), (0x1f7, 0x20)],
      overlay 0x900 (concat (map word_bytes ws)) m, p\<lparr>in_words := rest\<rparr>)"
proof -
  obtain j where j: "not_ready status 0 = Some j"
    using not_ready_found [where k = 0 and status = status, OF assms(1)] by auto
  have "p\<lparr>in_words := ws @ rest\<rparr> = p" using assms(3) by simp
  moreover have "loop_cx (snd (mul16 4 256)) = length ws" by (simp add: assms(2) loop_cx_def mul16_def Let_def)
  ultimately show ?thesis
    using go_on_read_words [where bx = "0x900" and ws = ws and m = m and p = p and rest = rest] assms(2)
    by (simp add: rd_disk_m_16_def j split_beta disk_command_def)
qed

section \<open>The kernel's image\<close>

text \<open>Bytes, words and double words of virtual memory over a translation \<open>xlat\<close>.\<close>

definition fetch :: "(addr \<Rightarrow> u32 option) \<Rightarrow> addr \<Rightarrow> memory \<Rightarrow> 's halt + u8" where
  "fetch xlat a m = (case xlat a of None \<Rightarrow> Inl (Page_fault a) | Some p \<Rightarrow> Inr (m p))"

definition store :: "(addr \<Rightarrow> u32 option) \<Rightarrow> addr \<Rightarrow> u8 \<Rightarrow> memory \<Rightarrow> 's halt + memory" where
  "store xlat a b m = (case xlat a of None \<Rightarrow> Inl (Page_fault a) | Some p \<Rightarrow> Inr (m(p := b)))"

definition fetch_word :: "(addr \<Rightarrow> u32 option) \<Rightarrow> addr \<Rightarrow> memory \<Rightarrow> 's halt + u16" where
  "fetch_word xlat a m =
     and_then (fetch xlat a m) (\<lambda>l. and_then (fetch xlat (a + 1) m) (\<lambda>h. Inr (ucast l OR push_bit 8 (ucast h))))"

definition fetch_dword :: "(addr \<Rightarrow> u32 option) \<Rightarrow> addr \<Rightarrow> memory \<Rightarrow> 's halt + u32" where
  "fetch_dword xlat a m =
     and_then (fetch_word xlat a m) (\<lambda>l. and_then (fetch_word xlat (a + 2) m) (\<lambda>h. Inr (ucast l OR push_bit 16 (ucast h))))"

definition KERNEL_BIN_BASE_ADDR :: addr where "KERNEL_BIN_BASE_ADDR = 0x70000"
definition PT_NULL :: u8 where "PT_NULL = 0"

primrec rep_movsb :: "(addr \<Rightarrow> u32 option) \<Rightarrow> nat \<Rightarrow> addr \<Rightarrow> addr \<Rightarrow> memory \<Rightarrow> 's halt + memory" where
  "rep_movsb xlat 0 edi esi m = Inr m"
| "rep_movsb xlat (Suc n) edi esi m =
     and_then (fetch xlat esi m) (\<lambda>b. and_then (store xlat edi b m) (rep_movsb xlat n (edi + 1) (esi + 1)))"

definition mem_cpy :: "(addr \<Rightarrow> u32 option) \<Rightarrow> addr \<Rightarrow> addr \<Rightarrow> u32 \<Rightarrow> memory \<Rightarrow> 's halt + memory" where
  "mem_cpy xlat dst src cnt m = rep_movsb xlat (unat cnt) dst src m"

primrec each_segment :: "(addr \<Rightarrow> u32 option) \<Rightarrow> nat \<Rightarrow> addr \<Rightarrow> u32 \<Rightarrow> memory \<Rightarrow> 's halt + memory" where
  "each_segment xlat 0 ebx edx m = Inr m"
| "each_segment xlat (Suc n) ebx edx m =
     and_then (fetch xlat ebx m) (\<lambda>typ.
     and_then
       (if typ = PT_NULL then Inr m
        else
          and_then (fetch_dword xlat (ebx + 16) m) (\<lambda>filesz.
          and_then (fetch_dword xlat (ebx + 4) m) (\<lambda>offset.
          and_then (fetch_dword xlat (ebx + 8) m) (\<lambda>vaddr.
            mem_cpy xlat vaddr (offset + KERNEL_BIN_BASE_ADDR) filesz m))))
       (each_segment xlat n (ebx + edx) edx))"

definition kernel_init :: "(addr \<Rightarrow> u32 option) \<Rightarrow> memory \<Rightarrow> 's halt + memory" where
  "kernel_init xlat m =
     and_then (fetch_word xlat (KERNEL_BIN_BASE_ADDR + 42) m) (\<lambda>phentsize.
     and_then (fetch_dword xlat (KERNEL_BIN_BASE_ADDR + 28) m) (\<lambda>phoff.
     and_then (fetch_word xlat (KERNEL_BIN_BASE_ADDR + 44) m) (\<lambda>phnum.
       each_segment xlat (loop_ecx (ucast phnum)) (phoff + KERNEL_BIN_BASE_ADDR) (ucast phentsize) m)))"

subsection \<open>Copying\<close>

lemma rep_movsb_overlay:
  assumes "\<And>i. i < n \<Longrightarrow> xlat (esi + of_nat i) = Some (ps + of_nat i)" and "\<And>i. i < n \<Longrightarrow> xlat (edi + of_nat i) = Some (pd + of_nat i)"
    and "apart pd n ps n" and "n < 2 ^ 32"
  shows "(rep_movsb xlat n edi esi m :: 's halt + memory) = Inr (overlay pd (map (\<lambda>i. m (ps + of_nat i)) [0..<n]) m)"
  using assms
proof (induction n arbitrary: edi esi pd ps m)
  case (Suc n)
  let ?m = "m(pd := m ps)" and ?xs = "\<lambda>m :: memory. map (\<lambda>i. m (ps + 1 + of_nat i)) [0..<n]"
  have t: "xlat esi = Some ps" "xlat edi = Some pd" using Suc.prems(1,2) [of 0] by simp_all
  note a = apart_Suc [OF Suc.prems(3)]
  have s: "xlat (esi + 1 + of_nat i) = Some (ps + 1 + of_nat i)" "xlat (edi + 1 + of_nat i) = Some (pd + 1 + of_nat i)"
    if "i < n" for i
    using Suc.prems(1,2) [of "Suc i"] that by (simp_all add: add.assoc)
  have "n < 2 ^ 32" using Suc.prems(4) by simp
  have ih: "(rep_movsb xlat n (edi + 1) (esi + 1) ?m :: 's halt + memory) = Inr (overlay (pd + 1) (?xs ?m) ?m)"
    by (rule Suc.IH) (fact s a(1) \<open>n < 2 ^ 32\<close>)+
  have "pd \<noteq> ps + 1 + of_nat i" if "i < n" for i using a(2) [of "Suc i"] that by (simp add: add.assoc)
  then have x: "?xs ?m = ?xs m" by (intro map_cong) auto
  have u: "map (\<lambda>i. m (ps + of_nat i)) [0..<Suc n] = m ps # ?xs m"
    by (simp add: map_upt_Suc add.assoc del: upt_Suc)
  have o: "overlay (pd + 1) (?xs m) ?m = overlay pd (m ps # ?xs m) m"
    using Suc.prems(4) by (intro overlay_Cons) simp
  have "(rep_movsb xlat (Suc n) edi esi m :: 's halt + memory) = rep_movsb xlat n (edi + 1) (esi + 1) ?m"
    by (simp add: fetch_def store_def t)
  also have "\<dots> = Inr (overlay (pd + 1) (?xs ?m) ?m)" by (rule ih)
  finally show ?case unfolding x o u .
qed simp

subsection \<open>The file\<close>

text \<open>Numbers in the file, and the fields of its \<open>k\<close>-th program header.\<close>

definition file_word :: "u8 list \<Rightarrow> nat \<Rightarrow> u16" where
  "file_word f i = ucast (f ! i) OR push_bit 8 (ucast (f ! (i + 1)))"

definition file_dword :: "u8 list \<Rightarrow> nat \<Rightarrow> u32" where
  "file_dword f i = ucast (file_word f i) OR push_bit 16 (ucast (file_word f (i + 2)))"

definition seg_count :: "u8 list \<Rightarrow> nat" where "seg_count f = unat (file_word f 44)"
definition seg_at :: "u8 list \<Rightarrow> nat \<Rightarrow> nat" where
  "seg_at f k = unat (file_dword f 28) + k * unat (file_word f 42)"
definition seg_load :: "u8 list \<Rightarrow> nat \<Rightarrow> bool" where "seg_load f k \<longleftrightarrow> f ! seg_at f k \<noteq> PT_NULL"
definition seg_offset :: "u8 list \<Rightarrow> nat \<Rightarrow> nat" where "seg_offset f k = unat (file_dword f (seg_at f k + 4))"
definition seg_vaddr :: "u8 list \<Rightarrow> nat \<Rightarrow> addr" where "seg_vaddr f k = file_dword f (seg_at f k + 8)"
definition seg_size :: "u8 list \<Rightarrow> nat \<Rightarrow> nat" where "seg_size f k = unat (file_dword f (seg_at f k + 16))"

text \<open>
  A file the loader can unpack: it fits into the 200 sectors, has a segment, its headers and segments are inside it, and the
  segments go above the first page and below the copy of the file.
\<close>

definition image_ok :: "u8 list \<Rightarrow> bool" where
  "image_ok f \<longleftrightarrow>
     46 \<le> length f \<and> length f \<le> 102400 \<and> 0 < seg_count f
     \<and> (\<forall>k < seg_count f. seg_at f k + 20 \<le> length f
          \<and> (seg_load f k \<longrightarrow> seg_offset f k + seg_size f k \<le> length f
               \<and> 0xc0001000 \<le> unat (seg_vaddr f k) \<and> unat (seg_vaddr f k) + seg_size f k \<le> 0xc0070000))"

definition seg_bytes :: "u8 list \<Rightarrow> nat \<Rightarrow> u8 list" where
  "seg_bytes f k = take (seg_size f k) (drop (seg_offset f k) f)"

text \<open>The file lies at \<open>0x70000\<close>, and the first megabyte and its copy at \<open>0xc0000000\<close> are mapped.\<close>

definition file_at :: "u8 list \<Rightarrow> memory \<Rightarrow> bool" where
  "file_at f m \<longleftrightarrow> (\<forall>i<length f. m (0x70000 + of_nat i) = f ! i)"

definition low_mapped :: "(addr \<Rightarrow> u32 option) \<Rightarrow> bool" where
  "low_mapped xlat \<longleftrightarrow> (\<forall>x. unat x < 0x100000 \<longrightarrow> xlat x = Some x \<and> xlat (0xc0000000 + x) = Some x)"

lemma low_addr: "i < 0x90000 \<Longrightarrow> unat (0x70000 + of_nat i :: u32) = 0x70000 + i"
  by (simp add: unat_word_ariths unat_of_nat)

lemma fetch_file:
  assumes "file_at f m" and "low_mapped xlat" and "length f \<le> 102400"
  shows "i < length f \<Longrightarrow> (fetch xlat (0x70000 + of_nat i) m :: 's halt + u8) = Inr (f ! i)"
    and "i + 1 < length f \<Longrightarrow> (fetch_word xlat (0x70000 + of_nat i) m :: 's halt + u16) = Inr (file_word f i)"
    and "i + 3 < length f \<Longrightarrow> (fetch_dword xlat (0x70000 + of_nat i) m :: 's halt + u32) = Inr (file_dword f i)"
proof -
  have b: "(fetch xlat (0x70000 + of_nat i) m :: 's halt + u8) = Inr (f ! i)" if "i < length f" for i
  proof -
    have "xlat (0x70000 + of_nat i) = Some (0x70000 + of_nat i)"
      using assms(2,3) low_addr [of i] that by (simp add: low_mapped_def)
    then show ?thesis using assms(1) that by (simp add: fetch_def file_at_def)
  qed
  have w: "(fetch_word xlat (0x70000 + of_nat i) m :: 's halt + u16) = Inr (file_word f i)" if "i + 1 < length f" for i
    using b [of i] b [of "i + 1"] that by (simp add: fetch_word_def file_word_def add.assoc add.commute)
  show "i < length f \<Longrightarrow> (fetch xlat (0x70000 + of_nat i) m :: 's halt + u8) = Inr (f ! i)" by (rule b)
  show "i + 1 < length f \<Longrightarrow> (fetch_word xlat (0x70000 + of_nat i) m :: 's halt + u16) = Inr (file_word f i)" by (rule w)
  show "i + 3 < length f \<Longrightarrow> (fetch_dword xlat (0x70000 + of_nat i) m :: 's halt + u32) = Inr (file_dword f i)"
    using w [of i] w [of "i + 2"] by (simp add: fetch_dword_def file_dword_def add.assoc add.commute)
qed

text \<open>What one round does to memory.\<close>

definition put_seg :: "u8 list \<Rightarrow> nat \<Rightarrow> memory \<Rightarrow> memory" where
  "put_seg f k m = (if seg_load f k then overlay (seg_vaddr f k - 0xc0000000) (seg_bytes f k) m else m)"

lemma image_okD:
  assumes "image_ok f" and "k < seg_count f"
  shows "seg_at f k + 20 \<le> length f" and "length f \<le> 102400"
    and "seg_load f k \<Longrightarrow> seg_offset f k + seg_size f k \<le> length f"
    and "seg_load f k \<Longrightarrow> 0xc0001000 \<le> unat (seg_vaddr f k)"
    and "seg_load f k \<Longrightarrow> unat (seg_vaddr f k) + seg_size f k \<le> 0xc0070000"
    and "seg_load f k \<Longrightarrow> length (seg_bytes f k) = seg_size f k"
    and "seg_load f k \<Longrightarrow> unat (seg_vaddr f k - 0xc0000000) = unat (seg_vaddr f k) - 0xc0000000"
  using assms by (auto simp: image_ok_def seg_bytes_def unat_sub_if' word_le_nat_alt)

lemma put_seg_file:
  assumes "image_ok f" and "k < seg_count f" and "file_at f m"
  shows "file_at f (put_seg f k m)"
proof -
  note d = image_okD [OF assms(1,2)]
  have "put_seg f k m (0x70000 + of_nat i) = m (0x70000 + of_nat i)" if "i < length f" for i
  proof (cases "seg_load f k")
    case True
    have "unat (0x70000 + of_nat i :: u32) = 0x70000 + i" using that d(2) by (intro low_addr) simp
    then have "unat (seg_vaddr f k - 0xc0000000) + length (seg_bytes f k) \<le> unat (0x70000 + of_nat i :: u32)"
      "unat (seg_vaddr f k - 0xc0000000) + length (seg_bytes f k) \<le> 2 ^ 32"
      using d(4-7) [OF True] by simp_all
    then show ?thesis using True by (simp add: put_seg_def overlay_other)
  qed (simp add: put_seg_def)
  then show ?thesis using assms(3) by (simp add: file_at_def)
qed

lemma seg_copy:
  assumes f: "image_ok f" "k < seg_count f" "file_at f m" and x: "low_mapped xlat" and l: "seg_load f k"
  shows "(mem_cpy xlat (seg_vaddr f k) (of_nat (seg_offset f k) + KERNEL_BIN_BASE_ADDR) (of_nat (seg_size f k)) m :: 's halt + memory)
    = Inr (put_seg f k m)"
proof -
  note d = image_okD [OF f(1,2)]
  let ?n = "seg_size f k" and ?pd = "seg_vaddr f k - 0xc0000000" and ?ps = "0x70000 + of_nat (seg_offset f k) :: u32"
  have n: "?n < 2 ^ 32" "unat (of_nat ?n :: u32) = ?n" using d(2) d(3) [OF l] by (simp_all add: unat_of_nat)
  have s: "unat (?ps + of_nat i) = 0x70000 + (seg_offset f k + i)" if "i < ?n" for i
  proof -
    have "?ps + of_nat i = 0x70000 + of_nat (seg_offset f k + i)" by simp
    then show ?thesis using that d(2) d(3) [OF l] by (simp only: low_addr)
  qed
  have v: "unat (?pd + of_nat i) = unat (seg_vaddr f k) - 0xc0000000 + i" if "i < ?n" for i
    using that d(5) [OF l] d(7) [OF l] by (simp add: unat_word_ariths unat_of_nat)
  have "xlat (?ps + of_nat i) = Some (?ps + of_nat i)" if "i < ?n" for i
    using s [OF that] that x d(2) d(3) [OF l] by (simp add: low_mapped_def)
  moreover have "xlat (seg_vaddr f k + of_nat i) = Some (?pd + of_nat i)" if "i < ?n" for i
  proof -
    have "unat (?pd + of_nat i) < 0x100000" using v [OF that] that d(4,5) [OF l] by linarith
    then have "xlat (0xc0000000 + (?pd + of_nat i)) = Some (?pd + of_nat i)" using x unfolding low_mapped_def by blast
    moreover have "0xc0000000 + (?pd + of_nat i) = seg_vaddr f k + of_nat i" by simp
    ultimately show ?thesis by (simp only:)
  qed
  moreover have "unat (seg_vaddr f k) + ?n - 0xc0000000 \<le> 0x70000 + seg_offset f k"
    using d(4,5) [OF l] by linarith
  then have "apart ?pd ?n ?ps ?n"
    using d(2,7) d(3,4,5) [OF l] l low_addr [of "seg_offset f k"] by (intro apart_sep) simp_all
  moreover have "map (\<lambda>i. m (?ps + of_nat i)) [0..<?n] = seg_bytes f k"
  proof (rule nth_equalityI)
    fix i assume i: "i < length (map (\<lambda>i. m (?ps + of_nat i)) [0..<?n])"
    have "?ps + of_nat i = 0x70000 + of_nat (seg_offset f k + i)" by simp
    moreover have "seg_offset f k + i < length f" using i d(3) [OF l] by simp
    ultimately have "m (?ps + of_nat i) = f ! (seg_offset f k + i)" using f(3) unfolding file_at_def by metis
    then show "map (\<lambda>i. m (?ps + of_nat i)) [0..<?n] ! i = seg_bytes f k ! i"
      using i d(3) [OF l] by (simp add: seg_bytes_def)
  qed (use d(6) [OF l] in simp)
  ultimately have "(rep_movsb xlat ?n (seg_vaddr f k) ?ps m :: 's halt + memory) = Inr (overlay ?pd (seg_bytes f k) m)"
    using rep_movsb_overlay [where n = ?n and esi = ?ps and ps = ?ps and edi = "seg_vaddr f k" and pd = ?pd and m = m and xlat = xlat]
      n(1) by simp
  moreover have "of_nat (seg_offset f k) + KERNEL_BIN_BASE_ADDR = ?ps" by (simp add: KERNEL_BIN_BASE_ADDR_def)
  ultimately show ?thesis unfolding mem_cpy_def n(2) using l by (simp only: put_seg_def if_True)
qed

lemma each_segment_fold:
  assumes "image_ok f" and "low_mapped xlat"
  shows "k + n \<le> seg_count f \<Longrightarrow> file_at f m \<Longrightarrow>
    (each_segment xlat n (0x70000 + of_nat (seg_at f k)) (ucast (file_word f 42)) m :: 's halt + memory)
      = Inr (fold (put_seg f) [k..<k + n] m)"
proof (induction n arbitrary: k m)
  case (Suc n)
  have k: "k < seg_count f" using Suc.prems by simp
  note d = image_okD [OF assms(1) k] and r = fetch_file [OF Suc.prems(2) assms(2) d(2)]
  let ?b = "0x70000 + of_nat (seg_at f k) :: u32"
  have a: "?b + of_nat j = 0x70000 + of_nat (seg_at f k + j)" for j by simp
  have "fetch xlat ?b m = (Inr (f ! seg_at f k) :: 's halt + u8)" using d(1) by (intro r(1)) simp
  moreover have "fetch_dword xlat (?b + of_nat j) m = (Inr (file_dword f (seg_at f k + j)) :: 's halt + u32)" if "j \<le> 16" for j
    unfolding a using d(1) that by (intro r(3)) simp
  from this [of 16] this [of 4] this [of 8]
  have "fetch_dword xlat (?b + 16) m = (Inr (of_nat (seg_size f k)) :: 's halt + u32)"
    "fetch_dword xlat (?b + 4) m = (Inr (of_nat (seg_offset f k)) :: 's halt + u32)"
    "fetch_dword xlat (?b + 8) m = (Inr (seg_vaddr f k) :: 's halt + u32)"
    by (simp_all add: seg_size_def seg_offset_def seg_vaddr_def)
  moreover note seg_copy [OF assms(1) k Suc.prems(2) assms(2), where 's = 's]
  ultimately have "(each_segment xlat (Suc n) ?b (ucast (file_word f 42)) m :: 's halt + memory) =
      each_segment xlat n (?b + ucast (file_word f 42)) (ucast (file_word f 42)) (put_seg f k m)"
    by (cases "seg_load f k") (simp_all add: seg_load_def put_seg_def [of f k m])
  also have "?b + ucast (file_word f 42) = 0x70000 + of_nat (seg_at f (Suc k))"
    by (simp add: seg_at_def unat_u16_u32 [symmetric] algebra_simps)
  also have "each_segment xlat n (0x70000 + of_nat (seg_at f (Suc k))) (ucast (file_word f 42)) (put_seg f k m) =
      (Inr (fold (put_seg f) [Suc k..<Suc k + n] (put_seg f k m)) :: 's halt + memory)"
    using Suc.prems by (intro Suc.IH put_seg_file assms(1) k) simp_all
  finally show ?case using upt_conv_Cons [of k "k + Suc n"] by simp
qed simp

lemma kernel_init_fold:
  assumes "image_ok f" and "low_mapped xlat" and "file_at f m"
  shows "(kernel_init xlat m :: 's halt + memory) = Inr (fold (put_seg f) [0..<seg_count f] m)"
proof -
  have l: "46 \<le> length f" "length f \<le> 102400" "0 < seg_count f" using assms(1) by (simp_all add: image_ok_def)
  note r = fetch_file [OF assms(3,2) l(2), where 's = 's]
  have "fetch_word xlat (KERNEL_BIN_BASE_ADDR + 42) m = (Inr (file_word f 42) :: 's halt + u16)"
    "fetch_dword xlat (KERNEL_BIN_BASE_ADDR + 28) m = (Inr (file_dword f 28) :: 's halt + u32)"
    "fetch_word xlat (KERNEL_BIN_BASE_ADDR + 44) m = (Inr (file_word f 44) :: 's halt + u16)"
    using r(2) [of 42] r(3) [of 28] r(2) [of 44] l(1) by (simp_all add: KERNEL_BIN_BASE_ADDR_def)
  moreover have "loop_ecx (ucast (file_word f 44)) = seg_count f"
    using l(3) unat_u16_u32 [of "file_word f 44"] by (auto simp: loop_ecx_def seg_count_def)
  moreover have "file_dword f 28 + KERNEL_BIN_BASE_ADDR = 0x70000 + of_nat (seg_at f 0)"
    by (simp add: seg_at_def KERNEL_BIN_BASE_ADDR_def)
  ultimately show ?thesis
    using each_segment_fold [OF assms(1,2) _ assms(3), of 0 "seg_count f"] by (simp add: kernel_init_def)
qed

subsection \<open>From the disk to the kernel's addresses\<close>

definition KERNEL_START_SECTOR :: u32 where "KERNEL_START_SECTOR = 9"

text \<open>\<^verbatim>\<open>p_mode_start\<close> and \<^verbatim>\<open>enter_kernel\<close>: the file is read, and unpacked once the page tables are in place.\<close>

definition load_kernel ::
    "(nat \<Rightarrow> u8) \<Rightarrow> (addr \<Rightarrow> u32 option) \<Rightarrow> memory \<Rightarrow> word_port \<Rightarrow> 's halt + (u16 \<times> u8) list \<times> memory" where
  "load_kernel status xlat m p =
     and_then (rd_disk_m_32 KERNEL_START_SECTOR KERNEL_BIN_BASE_ADDR 200 status m p) (\<lambda>(cmd, m, p).
     and_then (kernel_init xlat m) (\<lambda>m. Inr (cmd, m)))"

text \<open>The physical bytes of a segment, and segments that do not overlap.\<close>

definition seg_range :: "u8 list \<Rightarrow> nat \<Rightarrow> addr set" where
  "seg_range f k = {a. seg_load f k \<and> unat (seg_vaddr f k) \<le> 0xc0000000 + unat a
     \<and> 0xc0000000 + unat a < unat (seg_vaddr f k) + seg_size f k}"

definition segs_apart :: "u8 list \<Rightarrow> bool" where
  "segs_apart f \<longleftrightarrow> (\<forall>i < seg_count f. \<forall>j < i. seg_range f i \<inter> seg_range f j = {})"

lemma put_seg_other:
  assumes "image_ok f" and "k < seg_count f" and "a \<notin> seg_range f k"
  shows "put_seg f k m a = m a"
proof (cases "seg_load f k")
  case True
  note d = image_okD [OF assms(1,2)]
  have "unat a < unat (seg_vaddr f k - 0xc0000000) \<or> unat (seg_vaddr f k - 0xc0000000) + length (seg_bytes f k) \<le> unat a"
    "unat (seg_vaddr f k - 0xc0000000) + length (seg_bytes f k) \<le> 2 ^ 32"
    using assms(3) True d(4-7) [OF True] by (auto simp: seg_range_def)
  then show ?thesis using True by (simp add: put_seg_def overlay_other)
qed (simp add: put_seg_def)

lemma put_segs_other:
  assumes "image_ok f"
  shows "(\<And>k. k \<in> set ks \<Longrightarrow> k < seg_count f \<and> a \<notin> seg_range f k) \<Longrightarrow> fold (put_seg f) ks m a = m a"
  by (induction ks arbitrary: m) (simp_all add: put_seg_other [OF assms])

lemma put_segs_in:
  assumes f: "image_ok f" "segs_apart f" and k: "k < seg_count f" "seg_load f k" and i: "i < seg_size f k"
  shows "fold (put_seg f) [0..<seg_count f] m (seg_vaddr f k - 0xc0000000 + of_nat i) = f ! (seg_offset f k + i)"
proof -
  note d = image_okD [OF f(1) k(1)]
  let ?a = "seg_vaddr f k - 0xc0000000 + of_nat i" and ?m = "fold (put_seg f) [0..<k] m"
  have "unat ?a = unat (seg_vaddr f k) - 0xc0000000 + i"
    using i d(5,7) k(2) by (simp add: unat_word_ariths unat_of_nat)
  then have a: "?a \<in> seg_range f k" using i k(2) d(4) [OF k(2)] by (simp add: seg_range_def)
  have "[0..<seg_count f] = [0..<k] @ k # [Suc k..<seg_count f]"
    using k(1) upt_add_eq_append [of 0 k "seg_count f - k"] by (simp add: upt_conv_Cons)
  then have "fold (put_seg f) [0..<seg_count f] m ?a = fold (put_seg f) [Suc k..<seg_count f] (put_seg f k ?m) ?a" by simp
  also have "\<dots> = put_seg f k ?m ?a"
  proof (rule put_segs_other [OF f(1)])
    fix j assume "j \<in> set [Suc k..<seg_count f]"
    then have "k < j" "j < seg_count f" by simp_all
    then show "j < seg_count f \<and> ?a \<notin> seg_range f j" using a f(2) unfolding segs_apart_def by blast
  qed
  also have "\<dots> = f ! (seg_offset f k + i)"
    using i d(3,6) k(2) overlay_read [of i "seg_vaddr f k - 0xc0000000" "seg_bytes f k" ?m] d(2)
    by (simp add: put_seg_def) (simp add: seg_bytes_def)
  finally show ?thesis .
qed

lemma low_mapped_setup: "low_mapped (walk (setup_page ph) PAGE_DIR_TABLE_POS)"
  by (simp add: low_mapped_def PAGE_DIR_TABLE_POS_def setup_page_low)


text \<open>A file with one segment of four bytes for \<open>0xc0001500\<close>, as the words the disk delivers.\<close>

definition image0 :: "u16 list" where
  "image0 = [0, 0, 0, 0, 0, 0, 0, 0, 0, 0, 0, 0, 0, 0, 0x34, 0, 0, 0, 0, 0, 0, 0x20, 0x1, 0, 0, 0, 0x1, 0, 0x64,
     0, 0x1500, 0xc000, 0, 0, 0x4, 0, 0, 0, 0, 0, 0, 0, 0, 0, 0, 0, 0, 0, 0, 0, 0x2b8, 0xc3]"

definition file0 :: "u8 list" where
  "file0 = concat (map word_bytes image0)"

lemma file0_header:
  "length file0 = 104" "file_word file0 44 = 1" "file_word file0 42 = 32" "file_dword file0 28 = 52"
  "file0 ! 52 = 1" "file_dword file0 56 = 100" "file_dword file0 60 = 0xc0001500" "file_dword file0 68 = 4"
  "file0 ! 100 = 0xb8" "file0 ! 101 = 0x02"
  by (simp_all add: file0_def image0_def word_bytes_def file_word_def file_dword_def)

lemma file0_segment:
  "seg_count file0 = 1" "seg_at file0 0 = 52" "seg_load file0 0" "seg_offset file0 0 = 100" "seg_size file0 0 = 4"
  "seg_vaddr file0 0 = 0xc0001500"
  by (simp_all add: file0_header seg_count_def seg_at_def seg_load_def seg_offset_def seg_size_def seg_vaddr_def PT_NULL_def)


section \<open>The loader's segments\<close>

text \<open>
  The constants of \<^verbatim>\<open>src/mbr_and_loader/boot.inc\<close> for the upper double word of a descriptor, and the four
  descriptors. Before it enters the kernel the loader moves the video segment to the kernel's addresses.
\<close>

definition DESC_CODE_HIGH4 :: u32 where
  "DESC_CODE_HIGH4 = push_bit 23 1 + push_bit 22 1 + 0 + 0 + push_bit 16 0xf + push_bit 15 1 + push_bit 13 0 + push_bit 12 1 + push_bit 8 8"

definition DESC_DATA_HIGH4 :: u32 where
  "DESC_DATA_HIGH4 = push_bit 23 1 + push_bit 22 1 + 0 + 0 + push_bit 16 0xf + push_bit 15 1 + push_bit 13 0 + push_bit 12 1 + push_bit 8 2"

definition DESC_VIDEO_HIGH4 :: u32 where
  "DESC_VIDEO_HIGH4 = push_bit 23 1 + push_bit 22 1 + 0 + 0 + push_bit 16 0 + push_bit 15 1 + push_bit 13 0 + push_bit 12 1 + push_bit 8 2 + 0xb"

definition GDT_BASE :: "(u32 \<times> u32) list" where
  "GDT_BASE = [(0, 0), (0x0000ffff, DESC_CODE_HIGH4), (0x0000ffff, DESC_DATA_HIGH4), (0x80000007, DESC_VIDEO_HIGH4)]"

definition move_video :: "(u32 \<times> u32) list \<Rightarrow> (u32 \<times> u32) list" where
  "move_video g = g[3 := (fst (g ! 3), snd (g ! 3) OR 0xc0000000)]"

text \<open>The two double words as the fields of a descriptor.\<close>

definition desc_of :: "u32 \<times> u32 \<Rightarrow> gdt_desc" where
  "desc_of d = (case d of (low, high) \<Rightarrow>
     \<lparr>limit_low_word = ucast low, base_low_word = ucast (drop_bit 16 low), base_mid_byte = ucast high,
      attr_low_byte = ucast (drop_bit 8 high), limit_high_attr_high = ucast (drop_bit 16 high),
      base_high_byte = ucast (drop_bit 24 high)\<rparr>)"

theorem loader_segments:
  "map (\<lambda>d. (gdt_base (desc_of d), gdt_limit (desc_of d), attr_low_byte (desc_of d), gdt_attr_high (desc_of d))) (tl (move_video GDT_BASE))
    = [(0, 0xfffff, 0x98, 0xc0), (0, 0xfffff, 0x92, 0xc0), (0xc00b8000, 7, 0x92, 0xc0)]"
  by (simp add: move_video_def GDT_BASE_def desc_of_def gdt_base_def gdt_limit_def gdt_attr_high_def
      DESC_CODE_HIGH4_def DESC_DATA_HIGH4_def DESC_VIDEO_HIGH4_def)

end
