(* ===== verification/Spec2Isabelle.thy ===== *)
theory Spec2Isabelle
  imports Props_Memory Props_Process Props_Device Props_Switch Props_Boot Boot_Image Libc_Spec
begin

text \<open>
  A verification development of \<^verbatim>\<open>os_i386\<close>, a small kernel for the i386 with preemptive
  threads, priorities, mutexes, paging, user processes, a text console and a keyboard.

  \<^bold>\<open>The program.\<close> \<^verbatim>\<open>src/kernel/main.c\<close> initialises everything through
  \<^verbatim>\<open>src/kernel/init.c\<close> and starts threads and processes. Threads
  (\<^verbatim>\<open>src/thread/thread.c\<close>) sit in 32 run queues, doubly linked lists
  (\<^verbatim>\<open>src/lib/kernel/list.c\<close>) with a bitmap (\<^verbatim>\<open>src/lib/kernel/bitmap.c\<close>) of the non-empty
  ones. The clock (\<^verbatim>\<open>src/device/timer.c\<close>) charges ticks to the running thread and asks for a
  reschedule; semaphores and mutexes (\<^verbatim>\<open>src/thread/sync.c\<close>) block and unblock threads. Pages
  come from bitmap pools (\<^verbatim>\<open>src/kernel/memory.c\<close>) and are mapped through a page directory that
  maps itself; a process (\<^verbatim>\<open>src/user/process.c\<close>) has a directory of its own that shares the
  kernel's gigabyte. The keyboard interrupt (\<^verbatim>\<open>src/device/keyboard.c\<close>) puts characters into a
  ring buffer (\<^verbatim>\<open>src/device/ioqueue.c\<close>) on which a reader may sleep.

  \<^bold>\<open>State and results.\<close> One record, extended theory by theory, is the whole state:
  \<open>machine\<close> (flags, CRT registers, ports, video memory), \<open>lstate\<close> (the heap of list
  nodes), \<open>kstate\<close> (bitmap bytes, page-table memory, \<^verbatim>\<open>cr3\<close>, control blocks, semaphores,
  scheduler, pools, task state segment) and \<open>kernel\<close> (stacks, descriptor tables, handlers,
  I/O queues, keyboard flags). Objects of different C types are in different components of the
  record, and objects embedded in others are reached by address arithmetic, as in the code. A
  function that changes state takes and returns it. One that may stop returns a sum whose left
  side is a \<open>halt\<close>: a failed assertion (\<open>Panic\<close>), a page fault, an endless loop
  (\<open>Spin\<close>), an access outside an array (\<open>Overrun\<close>), or \<open>Suspended s\<close>: the caller was
  blocked and \<open>s\<close> is the state in which another thread goes on. What the caller does when it
  goes on itself is a definition of its own (\<open>sem_down_resume\<close>, \<open>ioq_getchar_resume\<close>).

  \<^bold>\<open>Theories.\<close>
  \<^item> \<open>Prelude\<close>: types, results, word lemmas. \<open>Machine\<close>: ports and the interrupt flag
    (\<^verbatim>\<open>io.h\<close>, \<^verbatim>\<open>interrupt.c\<close>); the locale \<open>critical_section\<close> is the contract of the
    save-disable-restore bracket.
  \<^item> \<open>Libc\<close>, \<open>Libc_Spec\<close>: \<^verbatim>\<open>src/lib/string.c\<close>, and its behaviour on C strings.
    \<open>Stdio\<close>: \<^verbatim>\<open>itoa\<close> of \<^verbatim>\<open>src/lib/stdio.c\<close>.
  \<^item> \<open>Bitmap\<close>: bitmaps; the scan equals the first run of equal bits; locale
    \<open>bit_store\<close>. \<open>Dlist_C\<close>: lists in the node heap, as sequences; locale
    \<open>seq_store\<close> for a family of lists that do not share nodes.
  \<^item> \<open>Kernel_State\<close>, \<open>System_State\<close>: the structures of the headers.
  \<^item> \<open>Paging\<close>, \<open>Memory\<close>, \<open>Memory_Spec\<close>, \<open>Memory_Init\<close>: translation, pools,
    mapping, allocators and the split of memory; locale \<open>page_pool\<close>.
  \<^item> \<open>Sched\<close>: the scheduler's code. \<open>Sched_View\<close>: the queues as sequences of threads.
    \<open>Sched_Inv\<close>: the invariant \<open>sinv\<close> and every operation on it.
  \<^item> \<open>Sync\<close>: semaphores and mutexes, the invariant \<open>kinv\<close> that adds the waiters.
    \<open>Thread\<close>, \<open>Thread_Inv\<close>: creation of threads, the idle thread, the start of the
    scheduler.
  \<^item> \<open>Interrupts\<close>: descriptor table, interrupt controller, default handler, panic
    messages, clock. \<open>Descriptors\<close>: what the processor decodes from the tables.
  \<^item> \<open>Switch\<close>, \<open>Switch_Inv\<close>: the assembly of \<^verbatim>\<open>src/thread/switch.s\<close> and \<^verbatim>\<open>src/kernel/kernel.s\<close> on
    registers and stacks, instruction by instruction: \<open>task_trap\<close>, \<open>context_load\<close>, the interrupt
    and system call entries and \<open>intr_exit\<close>; what survives a switch. \<open>User_Mode\<close>: the bodies of
    the kernel threads and of the user processes of \<^verbatim>\<open>src/kernel/main.c\<close>.
  \<^item> \<open>Print\<close>: console output, refined to an abstract screen. \<open>Ioqueue\<close>: the ring
    buffer; locale \<open>bounded_fifo\<close>. \<open>Ioqueue_Inv\<close>: the buffer and the scheduler.
    \<open>Keyboard\<close>: keyboard and locked console.
  \<^item> \<open>Process\<close>, \<open>Process_Inv\<close>: address spaces, processes, task state segment, system
    calls, kernel start.
  \<^item> \<open>System\<close>: the transition system of threads that lock and unlock mutexes and read the keyboard's
    buffer while the clock and, with room in that buffer, the keyboard may interrupt at any moment, and its
    invariant \<open>linv\<close>. \<open>Fairness\<close>: how long a thread waits for its turn under the clock.
  \<^item> \<open>Loader\<close>: the page tables that \<^verbatim>\<open>src/mbr_and_loader/loader.s\<close> builds. \<open>Boot_Image\<close>: how the loader
    finds the size of memory, reads the kernel's file from the disk and unpacks it, and its descriptors. \<open>Heap\<close>: the kernel's
    heap over many allocations (\<open>heap_shape\<close>). \<open>Process_Run\<close>: heap and scheduler together
    (\<open>kheap\<close>), the creation of a thread and of a process on them. \<open>Boot\<close>: \<open>init_all\<close> and
    \<open>main\<close> from the loader's state to the first state of \<open>System\<close>.
  \<^item> \<open>Scenario\<close>: a concrete kernel with two threads, a mutex, a heap page and a page
    directory, on which the hypotheses of the theorems hold together.
  \<^item> \<open>Props_Memory\<close>, \<open>Props_Process\<close>, \<open>Props_Device\<close>, \<open>Props_Switch\<close>, \<open>Props_Boot\<close> and
    this theory: the properties. Those of bitmaps, lists and strings are in their own theories.

  Every locale is interpreted on the model's own operations, where they are defined.

  \<^bold>\<open>What is shown.\<close> This theory starts with the properties of every state the transition
  system reaches: mutual exclusion, no lost wake-up, no failure, and the scheduler's invariant.
  Then come the scheduler, the semaphores and mutexes, the clock, with the bound after which every ready thread
  has had the processor (\<open>no_starvation\<close>), and the creation of threads.
  \<open>Props_Memory\<close> has translation, mapping, allocation and the split of memory,
  \<open>Props_Process\<close> the address space of a process and its way into user mode,
  \<open>Props_Device\<close> the console, the I/O queue with its sleeping reader and the keyboard.
  \<open>Props_Switch\<close> has the assembly: a thread that a clock interrupt preempts goes on later with every
  register and its stack as they were, \<open>task_trap\<close> returns to its caller when the thread is loaded again,
  a system call returns its result in \<open>eax\<close> and changes no other register, the way into user mode, and the ports
  that ring 3 may access. \<open>Props_Boot\<close> composes the parts: the loader's page tables, the heap, which
  hands out its pages in order, \<open>process_run\<close>, and \<open>main\<close>, which from the loader's state arrives at a first
  state of the transition system, so that the properties of reachable states hold of the running kernel, and from which
  each of its five threads runs within 1548 ticks.
  \<open>Boot_Image\<close> has those of the loader: the size of memory, and that each byte of the kernel's file comes to its address.
  \<open>Bitmap\<close>, \<open>Dlist_C\<close> and \<open>Libc_Spec\<close> have the properties of the libraries. Where the code falls
  short of its intent a theorem says so: \<open>strcpy\<close> without its terminator, searches for characters from 128 on,
  \<open>target_vaddr_malloc\<close> out of frames, the uncleared part of a page directory, a scheduler with nothing to
  run (\<open>no_ready_thread\<close>), the threads that block one after the other on the full keyboard buffer
  (\<open>full_buffer_blocks\<close>), the port map read at offset zero of its segment, a new process interrupted before it
  has read its stack pointer (\<open>process_entry_race\<close>), and bitmaps that reach the idle thread's page on large machines
  (\<open>bitmaps_reach_idle_thread\<close>).

  \<^bold>\<open>Bounds and loops.\<close> Machine integers are words of their width and wrap. Counting loops are
  total functions with a measure or primitive recursive. Loops that may not end (walking to a
  zero byte, searching a list, waiting on a semaphore or a queue) are partial functions in the
  option type, and the theorems show that they return where they do. No fuel is used. The
  capacity of a ring buffer is 63 of its 64 bytes, the thread table has 128 entries, a time slice
  is at most eleven ticks. A thread waits for its turn at most \<open>(K + 1) (32 (n - 1) + 1)\<close> ticks with \<open>n\<close> threads in the
  queues and no more than \<open>K\<close> ticks left to any. The endless loop of a thread that prints is a function of the number of its rounds. The start is shown for
  four to 336 megabytes of memory: with less there may be too few heap pages for the threads of \<open>main\<close>, with more the
  bitmaps reach the page of the idle thread.

  \<^bold>\<open>Assumptions.\<close> The walk of page directory and page table, the gates and segment
  descriptors and the CRT controller's index register behave as the processor and adapter manuals
  say. Before \<open>main\<close> runs the loader leaves what \<open>loaded\<close> states: the page tables of \<open>setup_page\<close>, which is modelled,
  no present entry in the page tables behind the first mapped megabyte (the loader does not clear them), the size of
  memory at \<open>0xb00\<close>, and tables and a keyboard buffer of the lengths the code declares. Addresses of global objects are those
  of \<^verbatim>\<open>src/build/kernel.map\<close>. The translation caches are not modelled.

  The firmware's answers on the size of memory and the disk controller's status and data are arguments of
  \<open>Boot_Image\<close>.

  \<^bold>\<open>Not modelled.\<close> Of \<^verbatim>\<open>src/mbr_and_loader\<close>: the A20 gate, the bits of \<^verbatim>\<open>cr0\<close>, segment registers and jumps of the
  switch to protected mode, and the letters written to the screen. That the bytes \<open>Boot_Image\<close> leaves in memory are the
  double words of \<open>loaded\<close> is not shown: one speaks of bytes, the other of the page tables' double words. \<^verbatim>\<open>src/lib/kernel/print.s\<close>, an older version of \<^verbatim>\<open>print.c\<close> that is not built.
  In \<open>System\<close> the keyboard interrupts only while its buffer has room, and a thread reads it only when it is not empty;
  sleeping on it is in \<open>Props_Device\<close> and \<open>Props_Boot\<close>. The clearing of data segment registers by
  \<^verbatim>\<open>iret\<close> and faults during the delivery of an interrupt. Memory is not reinterpreted across C types, so an overrun of one
  object into another is an \<open>Overrun\<close> or outside the model.
\<close>

section \<open>Mutual exclusion\<close>

text \<open>
  C1. Mutual exclusion, for any number of threads and mutexes, under preemption by the clock and
  interrupts of the keyboard at any moment: in every reachable state a mutex is free with value one, or exactly one thread is
  in its critical section and the value is zero.
\<close>

theorem mutual_exclusion:
  assumes "lreach M D c" and "m \<in> M"
  shows "crit c m = {} \<and> sem_val (kern c) (mtx_sem m) = 1
    \<or> (\<exists>t. crit c m = {t} \<and> sem_val (kern c) (mtx_sem m) = 0)"
proof -
  obtain v where "linv M D c v" using lreach_linv [OF assms(1)] by blast
  from linvD(6) [OF this assms(2)] show ?thesis by (auto simp: mutex_ok_def split: if_splits)
qed

theorem mutual_exclusion_witness:
  "lreach {pid_mtx} {0x100000} c3 \<and> pid_mtx \<in> {pid_mtx} \<and> crit c3 pid_mtx = {idle_t}
    \<and> sem_val (kern c3) (mtx_sem pid_mtx) = 0"
  using mutual_exclusion [OF c3_reach, of pid_mtx] c3_reach c3_crit by simp

text \<open>
  C2. No wake-up is lost: in every reachable state, when a thread is inside \<open>sem_down\<close> of a
  mutex, some thread that is ready to run holds the mutex, or the mutex is free and a thread that
  is ready to run is about to take it.
\<close>

theorem no_lost_wakeup:
  assumes "lreach M D c"
  shows "\<exists>v. kinv (kern c) v \<and> (\<forall>m\<in>M. \<forall>t\<in>vt v. \<forall>i. pcs c t = Waiting m i \<longrightarrow>
    (\<exists>u\<in>vt v. live (tcb_status (tcbs (kern c) u))
      \<and> (crit c m = {u} \<or> crit c m = {} \<and> (\<exists>j. pcs c u = Waiting m j))))"
proof -
  obtain v where inv: "linv M D c v" using lreach_linv [OF assms] by blast
  have "\<exists>u\<in>queued v. crit c m = {u} \<or> crit c m = {} \<and> (\<exists>j. pcs c u = Waiting m j)"
    if "m \<in> M" "t \<in> vt v" "pcs c t = Waiting m i" for m t i
    using inv that by (rule waiter_served)
  moreover have "queued v \<subseteq> vt v" "\<forall>t\<in>vt v. t \<in> queued v \<longleftrightarrow> live (tcb_status (tcbs (kern c) t))"
    using kinvD(1) [OF linvD(1) [OF inv]] by (auto simp: sinv_def rq_inv_def klists_def)
  ultimately show ?thesis using linvD(1) [OF inv] by (intro exI [of _ v]) blast
qed

theorem no_lost_wakeup_witness:
  "lreach {pid_mtx} {0x100000} c5 \<and> (\<exists>i. pcs c5 work_t = Waiting pid_mtx i)
    \<and> (\<exists>v. kinv (kern c5) v \<and> (\<forall>t\<in>vt v. \<forall>i. pcs c5 t = Waiting pid_mtx i \<longrightarrow>
      (\<exists>u\<in>vt v. live (tcb_status (tcbs (kern c5) u)) \<and> crit c5 pid_mtx = {u})))"
  using no_lost_wakeup [OF c5_reach] c5_reach c5_facts by (simp add: c5_facts)

text \<open>
  C3. Nothing goes wrong: in every reachable state each call the threads may make returns or
  suspends its caller; no assertion fails, no page fault happens, no list search runs away, and
  a clock interrupt is always served, as is one of the keyboard with any scan code while its buffer
  has room.
\<close>

theorem calls_never_fail:
  assumes "lreach M D c" and "m \<in> M"
  shows "(may_lock c \<longrightarrow> (\<exists>s. sem_down (mtx_sem m) (kern c) \<in> {Inr s, Inl (Suspended s)}))
    \<and> (\<forall>i. pcs c (current c) = Waiting m i \<longrightarrow>
        (\<exists>s. sem_down_resume (mtx_sem m) i (kern c) \<in> {Inr s, Inl (Suspended s)}))
    \<and> (may_unlock m c \<longrightarrow> (\<exists>s. sem_up (mtx_sem m) (kern c) = Inr s))
    \<and> (\<exists>s. clock_interrupt esp (kern c) = Inr s)
    \<and> (kbd_room (kern c) \<longrightarrow> (\<exists>s. key_interrupt esp scan (kern c) = Inr s))"
proof -
  obtain v where inv: "linv M D c v" using lreach_linv [OF assms(1)] by blast
  have down: "\<exists>s. sem_down_resume (mtx_sem m) i (kern c) \<in> {Inr s, Inl (Suspended s)}"
    if a: "asks M c m" for i
  proof (cases "sem_val (kern c) (mtx_sem m) = 0")
    case True
    then show ?thesis using taken_suspends [OF inv a True, of i] by (metis insertCI)
  next
    case False
    then show ?thesis using free_taken [OF inv a False, of i] by (metis insertCI)
  qed
  have "\<exists>s. sem_down (mtx_sem m) (kern c) \<in> {Inr s, Inl (Suspended s)}" if "may_lock c"
    using down [OF may_lock_asks [OF that assms(2)]] by (simp add: sem_down_first)
  moreover have "\<exists>s. sem_down_resume (mtx_sem m) i (kern c) \<in> {Inr s, Inl (Suspended s)}"
    if "pcs c (current c) = Waiting m i" for i
    using down [OF waiting_asks [OF inv that assms(2)]] .
  moreover have "\<exists>s. sem_up (mtx_sem m) (kern c) = Inr s" if "may_unlock m c"
    using unlock_releases [OF inv that assms(2)] by metis
  moreover have "\<exists>s. clock_interrupt esp (kern c) = Inr s" using clock_keeps [OF inv] by metis
  moreover have "\<exists>s. key_interrupt esp scan (kern c) = Inr s" if "kbd_room (kern c)"
    using key_keeps [OF inv that] by metis
  ultimately show ?thesis by blast
qed

theorem calls_never_fail_witness:
  "lreach {pid_mtx} {0x100000} c2 \<and> may_lock c2
    \<and> (\<exists>s. sem_down (mtx_sem pid_mtx) (kern c2) \<in> {Inr s, Inl (Suspended s)})
    \<and> (\<exists>s. clock_interrupt 0xc009fd00 (kern c2) = Inr s)
    \<and> kbd_room (kern c2) \<and> (\<exists>s. key_interrupt 0xc009fd00 0x1e (kern c2) = Inr s)"
proof -
  have r: "lreach {pid_mtx} {0x100000} c2" by (rule lreach.init [OF c2_init])
  have "may_lock c2" "kbd_room (kern c2)" using k2_facts by (simp_all add: may_lock_def c2_def)
  then show ?thesis using calls_never_fail [OF r, of pid_mtx "0xc009fd00" "0x1e"] r by simp
qed



section \<open>The scheduler\<close>

text \<open>
  C13. A scheduling point, when the running thread can go on: it moves to the tail of the queue of
  the next priority (31 wraps to 0) with a fresh slice, the processor goes to the head of the
  lowest-numbered non-empty queue, the page directory of that thread is loaded, nothing more is
  pending, and the invariant holds again. Without a request nothing happens.
\<close>

theorem main_schedule_switches:
  assumes "kinv s v" and "r = RUNNING_THREAD s" and "\<And>t. t \<in> vt v \<Longrightarrow> activatable t s"
    and "v' = requeue r (prio_of r s) v"
  shows "(\<not> need_schedule s \<longrightarrow> main_schedule s = Inr s)
    \<and> (need_schedule s \<longrightarrow> (\<exists>s' p. main_schedule s = Inr s' \<and> kinv s' v' \<and> \<not> need_schedule s'
      \<and> least_q v' p \<and> RUNNING_THREAD s' = hd (vq v' p)
      \<and> prio_of r s' = (prio_of r s + 1) mod 32
      \<and> tcb_ticks (tcbs s' r) = ticks_get (prio_of r s')
      \<and> space_of (RUNNING_THREAD s') s = Inr (cr3 s')
      \<and> sem_val s' = sem_val s \<and> phys s' = phys s))"
proof -
  have "\<exists>s' p. main_schedule s = Inr s' \<and> kinv s' v' \<and> \<not> need_schedule s'
      \<and> least_q v' p \<and> RUNNING_THREAD s' = hd (vq v' p) \<and> prio_of r s' = (prio_of r s + 1) mod 32
      \<and> tcb_ticks (tcbs s' r) = ticks_get (prio_of r s')
      \<and> space_of (RUNNING_THREAD s') s = Inr (cr3 s') \<and> sem_val s' = sem_val s \<and> phys s' = phys s"
    if "need_schedule s"
    by (rule main_schedule_kinv [OF assms(1) that assms(2,3,4)])
      (auto simp: switched_def same_dirs_def next_prio_def PRIO_NUM_def)
  then show ?thesis by (auto simp: main_schedule_noop)
qed

theorem main_schedule_switches_witness:
  "kinv k2 v2 \<and> need_schedule k2 \<and> RUNNING_THREAD k2 = idle_t
    \<and> (\<exists>s'. main_schedule k2 = Inr s' \<and> kinv s' v4 \<and> RUNNING_THREAD s' = work_t
         \<and> prio_of idle_t s' = 0)"
proof -
  have p: "prio_of idle_t k2 = 31" using k2_facts(12) by (simp add: prio_of_def)
  have r: "idle_t = RUNNING_THREAD k2" using k2_facts(2) by simp
  have v4: "v4 = requeue idle_t (prio_of idle_t k2) v2" by (simp add: v4_def p)
  from main_schedule_switches [OF k2_facts(1) r k2_activatable v4] k2_facts(3)
  obtain s' q where s': "main_schedule k2 = Inr s'" "kinv s' v4" "least_q v4 q"
    "RUNNING_THREAD s' = hd (vq v4 q)" "prio_of idle_t s' = (prio_of idle_t k2 + 1) mod 32"
    by blast
  have "q = 0" by (rule least_q_unique [OF s'(3) v4_queues(3)])
  then have "RUNNING_THREAD s' = work_t" "prio_of idle_t s' = 0" using s'(4,5) v4_queues(1) p by simp_all
  with s'(1,2) k2_facts(1-3) show ?thesis by blast
qed

text \<open>
  C19. Blocking: with another thread ready, \<open>thread_block\<close> takes the running thread off its
  run queue with the given status and suspends it; the head of the best remaining queue runs, and
  the invariant holds. A status that is not a blocking one is a failed assertion.
\<close>

theorem thread_block_yields:
  assumes "sinv s v" and "r = RUNNING_THREAD s" and "queued v - {r} \<noteq> {}"
    and "\<And>t. t \<in> vt v \<Longrightarrow> activatable t s" and "v' = deq r (prio_of r s) v"
  shows "(block_status st \<longrightarrow> (\<exists>s' p. thread_block st s = Inl (Suspended s') \<and> sinv s' v'
      \<and> least_q v' p \<and> RUNNING_THREAD s' = hd (vq v' p) \<and> RUNNING_THREAD s' \<noteq> r
      \<and> tcb_status (tcbs s' r) = st \<and> r \<notin> queued v' \<and> sem_val s' = sem_val s))
    \<and> (\<not> block_status st \<longrightarrow> (\<exists>c. thread_block st s = Inl (Panic c)))"
proof -
  have "\<exists>s' p. thread_block st s = Inl (Suspended s') \<and> sinv s' v'
      \<and> least_q v' p \<and> RUNNING_THREAD s' = hd (vq v' p) \<and> RUNNING_THREAD s' \<noteq> r
      \<and> tcb_status (tcbs s' r) = st \<and> r \<notin> queued v' \<and> sem_val s' = sem_val s" if st: "block_status st"
  proof -
    have q: "r \<notin> queued v'" using blocked_pinv(2) [OF assms(1) st assms(2)] assms(5) by simp
    obtain s' p where b: "thread_block st s = Inl (Suspended s')" "least_q v' p" "sinv s' v'"
      "RUNNING_THREAD s' = hd (vq v' p)" "tcb_status (tcbs s' r) = st" "sem_val s' = sem_val s"
      by (rule thread_block_suspends [OF assms(1) st assms(2,3,4), folded assms(5)])
    have "RUNNING_THREAD s' \<noteq> r" using sinv_parts(3) [OF b(3)] q by auto
    with b q show ?thesis by blast
  qed
  then show ?thesis by (auto simp: thread_block_def)
qed

theorem thread_block_yields_witness:
  "sinv k2 v2 \<and> queued v2 - {idle_t} \<noteq> {}
    \<and> (\<exists>s'. thread_block TASK_WAITING k2 = Inl (Suspended s') \<and> RUNNING_THREAD s' \<noteq> idle_t
        \<and> tcb_status (tcbs s' idle_t) = TASK_WAITING)
    \<and> (\<exists>c. thread_block TASK_DIED k2 = Inl (Panic c))"
proof -
  have r: "idle_t = RUNNING_THREAD k2" using k2_facts(2) by simp
  have o: "queued v2 - {idle_t} \<noteq> {}" by (simp add: v2_sel idle_t_def work_t_def)
  note t = thread_block_yields [OF kinvD(1) [OF k2_facts(1)] r o k2_activatable refl]
  show ?thesis
    using t [of TASK_WAITING] t [of TASK_DIED] o kinvD(1) [OF k2_facts(1)]
    by (auto simp: block_status_def)
qed

text \<open>
  C20. Unblocking: a blocked thread becomes ready at the front of the queue of its priority, a
  reschedule is asked for iff it beats the running thread, the running thread and the interrupt
  flag stay, and the invariant holds. Unblocking a thread that is not blocked is a failed assertion.
\<close>

theorem thread_unblock_readies:
  assumes "sinv s v" and "t \<in> vt v"
  shows "(block_status (tcb_status (tcbs s t)) \<longrightarrow> (\<exists>s'. thread_unblock t s = Inr s'
      \<and> sinv s' (enq_front t (prio_of t s) v) \<and> tcb_status (tcbs s' t) = TASK_READY
      \<and> (need_schedule s' \<longleftrightarrow>
          need_schedule s \<or> tcb_priority (tcbs s t) < tcb_priority (tcbs s (RUNNING_THREAD s)))
      \<and> RUNNING_THREAD s' = RUNNING_THREAD s \<and> eflags s' = eflags s
      \<and> (\<forall>u. u \<noteq> t \<longrightarrow> tcbs s' u = tcbs s u)))
    \<and> (\<not> block_status (tcb_status (tcbs s t)) \<longrightarrow> (\<exists>c. thread_unblock t s = Inl (Panic c)))"
proof -
  have "\<exists>s'. thread_unblock t s = Inr s'
      \<and> sinv s' (enq_front t (prio_of t s) v) \<and> tcb_status (tcbs s' t) = TASK_READY
      \<and> (need_schedule s' \<longleftrightarrow>
          need_schedule s \<or> tcb_priority (tcbs s t) < tcb_priority (tcbs s (RUNNING_THREAD s)))
      \<and> RUNNING_THREAD s' = RUNNING_THREAD s \<and> eflags s' = eflags s
      \<and> (\<forall>u. u \<noteq> t \<longrightarrow> tcbs s' u = tcbs s u)" if "block_status (tcb_status (tcbs s t))"
    by (rule thread_unblock_ok [OF assms that]) blast
  then show ?thesis using thread_unblock_panics by blast
qed

theorem thread_unblock_readies_witness:
  "sinv (kern c5) v5 \<and> work_t \<in> vt v5
    \<and> (\<exists>s'. thread_unblock work_t (kern c5) = Inr s' \<and> tcb_status (tcbs s' work_t) = TASK_READY)
    \<and> (\<exists>c. thread_unblock idle_t (kern c5) = Inl (Panic c))"
proof -
  note k = c5_kern(1) and sv = kinvD(1) [OF c5_kern(1)]
  have "work_t \<in> waiting v5" by (simp add: waiting_def v5_sel)
  then have b: "block_status (tcb_status (tcbs (kern c5) work_t))"
    using kinvD(2) [OF k] by (simp add: wait_inv_def block_status_def)
  have r: "\<not> block_status (tcb_status (tcbs (kern c5) idle_t))"
    using sinv_parts(5) [OF sv] c5_kern(3) by (simp add: block_status_def)
  show ?thesis
    using thread_unblock_readies [OF sv, of work_t] thread_unblock_readies [OF sv, of idle_t] b r sv v5_sel(3)
    by blast
qed

section \<open>Semaphores and mutexes\<close>

text \<open>
  C17. \<open>sem_down\<close>: on a positive value it takes one unit and changes nothing else, interrupt
  flag included; on zero, with another thread ready, the caller becomes the last waiter, blocked
  and off the run queues, and the head of the best queue runs.
\<close>

theorem sem_down_takes_or_waits:
  assumes "kinv s v" and "sem \<in> vs v" and "r = RUNNING_THREAD s" and "queued v - {r} \<noteq> {}"
    and "\<And>t. t \<in> vt v \<Longrightarrow> activatable t s"
    and "v' = deq r (prio_of r s) (set_w sem (vw v sem @ [r]) v)"
  shows "(sem_val s sem \<noteq> 0 \<longrightarrow> sem_down sem s = Inr (set_sem_val sem (sem_val s sem - 1) s))
    \<and> (sem_val s sem = 0 \<longrightarrow> (\<exists>s' p. sem_down sem s = Inl (Suspended s') \<and> kinv s' v'
      \<and> least_q v' p \<and> RUNNING_THREAD s' = hd (vq v' p) \<and> tcb_status (tcbs s' r) = TASK_BLOCKED
      \<and> sem_val s' = sem_val s))"
proof -
  have "\<exists>s' p. sem_down sem s = Inl (Suspended s') \<and> kinv s' v'
      \<and> least_q v' p \<and> RUNNING_THREAD s' = hd (vq v' p) \<and> tcb_status (tcbs s' r) = TASK_BLOCKED
      \<and> sem_val s' = sem_val s" if z: "sem_val s sem = 0"
  proof -
    obtain s' p where "sem_down_resume sem (intr_get_status s) s = Inl (Suspended s')" "kinv s' v'"
      "least_q v' p" "RUNNING_THREAD s' = hd (vq v' p)" "tcb_status (tcbs s' r) = TASK_BLOCKED"
      "sem_val s' = sem_val s"
      by (rule sem_down_resume_suspends [OF assms(1,2) z assms(3-6)])
    then show ?thesis unfolding sem_down_first by blast
  qed
  then show ?thesis using sem_down_free by blast
qed

theorem sem_down_takes_or_waits_witness:
  "kinv (kern c3) v2 \<and> sem_val (kern c3) (mtx_sem pid_mtx) = 0
    \<and> (\<exists>s'. sem_down (mtx_sem pid_mtx) (kern c3) = Inl (Suspended s')
        \<and> tcb_status (tcbs s' idle_t) = TASK_BLOCKED)"
proof -
  have r: "idle_t = RUNNING_THREAD (kern c3)" using c3_kern(2) by simp
  have o: "queued v2 - {idle_t} \<noteq> {}" by (simp add: v2_sel idle_t_def work_t_def)
  have m: "mtx_sem pid_mtx \<in> vs v2" by (simp add: v2_sel)
  show ?thesis
    using sem_down_takes_or_waits [OF c3_kern(1) m r o c3_kern(8) refl] c3_kern(1,7) by blast
qed

text \<open>
  C18. \<open>sem_up\<close> on the value zero: with no waiter the value becomes one and nothing else
  changes; otherwise the first waiter also leaves the list and is ready at the front of its
  queue. On any other value the assertion fails.
\<close>

theorem sem_up_releases:
  assumes "kinv s v" and "sem \<in> vs v"
  shows "(sem_val s sem = 0 \<longrightarrow> vw v sem = [] \<longrightarrow> sem_up sem s = Inr (set_sem_val sem 1 s))
    \<and> (\<forall>t ws. sem_val s sem = 0 \<longrightarrow> vw v sem = t # ws \<longrightarrow> (\<exists>s'. sem_up sem s = Inr s'
        \<and> kinv s' (enq_front t (prio_of t s) (set_w sem ws v)) \<and> sem_val s' = (sem_val s)(sem := 1)
        \<and> tcb_status (tcbs s' t) = TASK_READY \<and> RUNNING_THREAD s' = RUNNING_THREAD s
        \<and> eflags s' = eflags s \<and> (\<forall>u. u \<noteq> t \<longrightarrow> tcbs s' u = tcbs s u)))
    \<and> (sem_val s sem \<noteq> 0 \<longrightarrow> (\<exists>c. sem_up sem s = Inl (Panic c)))"
proof -
  have "\<exists>s'. sem_up sem s = Inr s'
      \<and> kinv s' (enq_front t (prio_of t s) (set_w sem ws v)) \<and> sem_val s' = (sem_val s)(sem := 1)
      \<and> tcb_status (tcbs s' t) = TASK_READY \<and> RUNNING_THREAD s' = RUNNING_THREAD s
      \<and> eflags s' = eflags s \<and> (\<forall>u. u \<noteq> t \<longrightarrow> tcbs s' u = tcbs s u)"
    if "sem_val s sem = 0" "vw v sem = t # ws" for t ws
    by (rule sem_up_wakes [OF assms that refl]) blast
  then show ?thesis
    using sem_up_idle [OF kinv_klists [OF assms(1)] assms(2)] sem_up_panics by blast
qed

theorem sem_up_releases_witness:
  "kinv (kern c5) v5 \<and> sem_val (kern c5) (mtx_sem pid_mtx) = 0
    \<and> (\<exists>s'. sem_up (mtx_sem pid_mtx) (kern c5) = Inr s' \<and> sem_val s' (mtx_sem pid_mtx) = 1
        \<and> tcb_status (tcbs s' work_t) = TASK_READY)"
proof -
  have m: "mtx_sem pid_mtx \<in> vs v5" by (simp add: v5_sel)
  obtain s' where "sem_up (mtx_sem pid_mtx) (kern c5) = Inr s'"
    "sem_val s' = (sem_val (kern c5))(mtx_sem pid_mtx := 1)" "tcb_status (tcbs s' work_t) = TASK_READY"
    using sem_up_releases [OF c5_kern(1) m] c5_kern(2) v5_sel(1) by blast
  then show ?thesis using c5_kern(1,2) by simp
qed

section \<open>Time\<close>

text \<open>
  C21. A thread cannot keep the processor: from a state with nothing pending, after as many clock
  interrupts as the running thread has ticks left and one more, it has been moved one priority
  down behind the threads there, the best thread runs, and the invariant holds; a fresh slice
  lasts at most eleven ticks.
\<close>

theorem time_slice_bound:
  assumes "kinv s v" and "tcb_stack_magic (tcbs s r) = STACK_MAGIC" and "r = RUNNING_THREAD s"
    and "\<And>t. t \<in> vt v \<Longrightarrow> activatable t s" and "\<not> need_schedule s"
    and "v' = requeue r (prio_of r s) v"
  shows "(\<exists>s' p. clock_run (unat (tcb_ticks (tcbs s r)) + 1) esp s = Inr s' \<and> kinv s' v'
      \<and> least_q v' p \<and> RUNNING_THREAD s' = hd (vq v' p) \<and> prio_of r s' = next_prio (prio_of r s))
    \<and> unat (ticks_get (next_prio (prio_of r s))) \<le> 11"
  using slice_ends [OF assms(1-5) refl assms(6), of esp] slice_length by simp

theorem time_slice_bound_witness:
  "kinv k1 v1 \<and> \<not> need_schedule k1
    \<and> (\<exists>s'. clock_run (unat (tcb_ticks (tcbs k1 idle_t)) + 1) 0xc009fd00 k1 = Inr s'
        \<and> prio_of idle_t s' = next_prio (prio_of idle_t k1))"
proof -
  have mg: "tcb_stack_magic (tcbs k1 idle_t) = STACK_MAGIC" using k1_facts(5) by (simp add: STACK_MAGIC_def)
  have act: "activatable t k1" if "t \<in> vt v1" for t
    using that k1_facts(6) by (simp add: v1_def activatable_def)
  show ?thesis
    using time_slice_bound [OF k1_facts(2) mg k1_facts(3) [symmetric] act k1_facts(8) refl, of "0xc009fd00"]
      k1_facts(2,8) by blast
qed

text \<open>
  C6. No thread starves: in any state of the running kernel where no thread has more than \<open>K\<close> ticks left, each of
  the \<open>n\<close> threads in the run queues, whatever its priority, gets the processor within \<open>(K + 1) (32 (n - 1) + 1)\<close>
  clock interrupts. A thread with used-up ticks goes one queue down and from the last queue to the first, so that it
  cannot overtake another one for ever.
\<close>

theorem no_starvation:
  assumes "clocked D K s v" and "11 \<le> K" and "t \<in> queued v"
  shows "\<exists>m\<le>(K + 1) * (32 * (card (queued v) - 1) + 1). \<exists>s'. clock_run m esp s = Inr s' \<and> RUNNING_THREAD s' = t"
  using assms by (rule every_turn_comes)

theorem no_starvation_witness:
  "clocked {0x100000} 11 k2 v2 \<and> (\<exists>m\<le>396. \<exists>s'. clock_run m 0xc009fd00 k2 = Inr s' \<and> RUNNING_THREAD s' = work_t)
    \<and> (\<exists>m\<le>396. \<exists>s'. clock_run m 0xc009fd00 k2 = Inr s' \<and> RUNNING_THREAD s' = idle_t)"
proof -
  have c: "clocked {0x100000} 11 k2 v2"
    using k2_facts k2_spaces by (auto simp: clocked_def v2_sel STACK_MAGIC_def)
  have n: "(11 + 1) * (32 * (card (queued v2) - 1) + 1) = 396" by (simp add: v2_sel work_t_def idle_t_def)
  have w: "\<exists>m\<le>396. \<exists>s'. clock_run m 0xc009fd00 k2 = Inr s' \<and> RUNNING_THREAD s' = t" if "t \<in> queued v2" for t
    using no_starvation [OF c order_refl that, of "0xc009fd00"] unfolding n .
  show ?thesis by (intro conjI c w) (simp_all add: v2_sel)
qed

section \<open>Threads\<close>

text \<open>
  The scheduler starts: given a page for the run-queue mask, \<open>thread_all_init\<close> makes
  the code that calls it the idle thread, with identifier 0 in slot 0 of the thread table, running
  at priority 31 as the only thread, and establishes the kernel's invariant.
\<close>

theorem scheduler_starts:
  assumes "kernel_pages_malloc 1 (sched_cleared (put_str (lit ''thread_all_init begin\<newline>'') s)) = Inr (base, s1)"
    and "base \<noteq> NULL" and "t = esp AND 0xfffff000" and "t \<noteq> NULL" and "t \<noteq> static_page"
  shows "\<exists>s' v. thread_all_init esp s = Inr s' \<and> kinv s' v \<and> vt v = {t} \<and> queued v = {t} \<and> va v = [t]
    \<and> RUNNING_THREAD s' = t \<and> sch_idle_thread (sched s') = t \<and> prio_of t s' = 31
    \<and> tcb_pid (tcbs s' t) = 0 \<and> sch_thread_table (sched s') ! 0 = t
    \<and> sem_val s' (mtx_sem pid_mtx) = 1 \<and> \<not> need_schedule s'"
proof -
  let ?v = "started t 31 (add_thread t empty_view)"
  have t: "t = running_thread_get esp" using assms(3) by (simp add: running_thread_get_def)
  obtain s' where s': "thread_all_init esp s = Inr s'" "kinv s' ?v" "RUNNING_THREAD s' = t"
    "sch_idle_thread (sched s') = t" "tcb_pid (tcbs s' t) = 0" "sch_thread_table (sched s') ! 0 = t"
    "sem_val s' (mtx_sem pid_mtx) = 1" "\<not> need_schedule s'"
    by (rule thread_all_init_ok [OF assms(1,2) t assms(4,5)])
  moreover have "prio_of t s' = 31"
    using rq_invD(3) [OF sinv_parts(1) [OF kinvD(1) [OF s'(2)]]]
    by (auto simp: prio_ok_def started_def view_defs PRIO_NUM_def)
  moreover have "vt ?v = {t}" "queued ?v = {t}" "va ?v = [t]"
    by (simp_all add: queued_started PRIO_NUM_def)
  ultimately show ?thesis by blast
qed

theorem scheduler_starts_witness:
  "\<exists>s' v. thread_all_init 0xc009fe00 raw0 = Inr s' \<and> kinv s' v \<and> vt v = {0xc009f000}
    \<and> RUNNING_THREAD s' = 0xc009f000"
proof -
  obtain base s1 where
    "kernel_pages_malloc 1 (sched_cleared (put_str (lit ''thread_all_init begin\<newline>'') raw0)) = Inr (base, s1)"
    "base \<noteq> NULL"
    using raw0_page by blast
  from scheduler_starts [OF this, of "0xc009f000" "0xc009fe00"] show ?thesis
    by (auto simp: static_page_def)
qed

text \<open>
  C15. Running a thread: from the invariant, with a free heap page and a short name,
  \<open>thread_run\<close> takes a free page for the control block and stack, gives it the first free
  identifier and a stack whose first frame enters the thread's function, appends it to the queue
  of its priority and to the list of all threads, asks for a reschedule iff it beats the running
  thread, and keeps the invariant.
\<close>

theorem thread_run_starts:
  fixes s :: "'a kernel_scheme"
  assumes "kinv s v" and "heap_ready s v" and "length name \<le> 16" and "prio < 32"
    and "mtx_sem pid_mtx \<in> vs v" and "vw v (mtx_sem pid_mtx) = []" and "sem_val s (mtx_sem pid_mtx) = 1"
    and "sch_idle_thread (sched s) \<in> vt v"
  shows "\<exists>t s'. thread_run name prio func arg s = Inr (t, s')
    \<and> t \<in> pages (kernel_vir_pool s) - taken (kernel_vir_pool s) (mem s) \<and> t \<notin> vt v
    \<and> kinv s' (started t (ucast prio) (add_thread t v))
    \<and> tcb_status (tcbs s' t) = TASK_READY \<and> tcb_priority (tcbs s' t) = prio
    \<and> (\<forall>i. first_free (sch_thread_table (sched s)) 0 = Some i \<longrightarrow> tcb_pid (tcbs s' t) = of_nat i)
    \<and> entry_frame func arg (thread_stacks s' (tcb_stack_top (tcbs s' t)))
    \<and> tcb_stack_top (tcbs s' t) = t + PG_SIZE - 112
    \<and> (need_schedule s' \<longleftrightarrow> need_schedule s \<or> prio < tcb_priority (tcbs s (RUNNING_THREAD s)))
    \<and> (\<forall>u. u \<noteq> t \<longrightarrow> tcbs s' u = tcbs s u)"
  by (rule thread_run_ok [OF assms, of func arg]) (auto simp: new_page_def)

theorem thread_run_starts_witness:
  "kinv k1 v1 \<and> heap_ready k1 v1
    \<and> (\<exists>t s'. thread_run (lit ''k_thread_a'') 8 (Func 0xc0001500) 0xc0004000 k1 = Inr (t, s')
        \<and> tcb_status (tcbs s' t) = TASK_READY \<and> need_schedule s')"
proof -
  have c: "length (lit ''k_thread_a'') \<le> 16" "(8 :: u8) < 32" "mtx_sem pid_mtx \<in> vs v1"
    "vw v1 (mtx_sem pid_mtx) = []" "sch_idle_thread (sched k1) \<in> vt v1"
    using k1_facts(4) by (simp_all add: lit_def v1_def)
  obtain t s' where "thread_run (lit ''k_thread_a'') 8 (Func 0xc0001500) 0xc0004000 k1 = Inr (t, s')"
    "tcb_status (tcbs s' t) = TASK_READY"
    "need_schedule s' \<longleftrightarrow> need_schedule k1 \<or> 8 < tcb_priority (tcbs k1 (RUNNING_THREAD k1))"
    using thread_run_starts [OF k1_facts(2) k1_heap c(1,2,3,4) k1_facts(7) c(5)] by blast
  then show ?thesis using k1_facts k1_heap by auto
qed

end
